(* ===== verification/N8n_Prelude.thy ===== *)
theory N8n_Prelude
  imports Main
begin

text \<open>
  Shared foundations of the development: the errors a JavaScript operation can throw and the
  result type that carries them, the insertion-ordered containers of the language (\<open>Map\<close>,
  \<open>Set\<close>, plain objects), sparse array writes, the rendering of array indices as decimal
  strings, and a few facts on relations that the graph traversals share.
\<close>

section \<open>Fact collections\<close>

named_theorems js_simps
named_theorems result_simps

section \<open>Errors as values\<close>

text \<open>
  Every \<open>throw\<close>, failed \<open>assert\<close> and property access on \<open>undefined\<close> of the
  modelled code is a value of this type.
\<close>

datatype js_error =
    AssertionError
  | TypeError
  | ApplicationError string
  | UserError string
  | UnexpectedError string
  | OperationalError string
  | NodeError string
  | JsError string

type_synonym 'a result = "js_error + 'a"

definition rbind :: "'a result \<Rightarrow> ('a \<Rightarrow> 'b result) \<Rightarrow> 'b result" where
  "rbind m f = (case m of Inl e \<Rightarrow> Inl e | Inr x \<Rightarrow> f x)"

definition assert_ok :: "bool \<Rightarrow> unit result" where
  "assert_ok b = (if b then Inr () else Inl AssertionError)"

lemma rbind_Inl [simp, result_simps]: "rbind (Inl e) f = Inl e"
  by (simp add: rbind_def)

lemma rbind_Inr [simp, result_simps]: "rbind (Inr x) f = f x"
  by (simp add: rbind_def)

lemma rbind_eq_Inr [result_simps]:
  "rbind m f = Inr y \<longleftrightarrow> (\<exists>x. m = Inr x \<and> f x = Inr y)"
  by (cases m) auto

lemma rbind_cong [fundef_cong]:
  "m = m' \<Longrightarrow> (\<And>x. m' = Inr x \<Longrightarrow> f x = g x) \<Longrightarrow> rbind m f = rbind m' g"
  by (cases m') (simp_all add: rbind_def)

lemma assert_ok_simps [simp, result_simps]:
  "assert_ok True = Inr ()" "assert_ok False = Inl AssertionError"
  "assert_ok b = Inr u \<longleftrightarrow> b"
  by (simp_all add: assert_ok_def)

text \<open>A \<open>for\<close> loop over a list whose body can throw: it stops at the first error.\<close>

fun rfold :: "('a \<Rightarrow> 's \<Rightarrow> 's result) \<Rightarrow> 'a list \<Rightarrow> 's \<Rightarrow> 's result" where
  "rfold f [] s = Inr s"
| "rfold f (x # xs) s = rbind (f x s) (rfold f xs)"

lemma rfold_append: "rfold f (xs @ ys) s = rbind (rfold f xs s) (rfold f ys)"
  by (induction xs arbitrary: s) (auto simp: rbind_def split: sum.splits)

lemma rfold_invariant:
  assumes "rfold f xs s = Inr t" and "P s"
    and "\<And>x s t. x \<in> set xs \<Longrightarrow> P s \<Longrightarrow> f x s = Inr t \<Longrightarrow> P t"
  shows "P t"
  using assms
proof (induction xs arbitrary: s)
  case Nil
  then show ?case by simp
next
  case (Cons x xs)
  then obtain u where u: "f x s = Inr u" "rfold f xs u = Inr t"
    by (auto simp: result_simps)
  have "P u" using Cons.prems(2,3) u(1) by (meson list.set_intros(1))
  then show ?case using Cons.IH [OF u(2)] Cons.prems(3) by (meson list.set_intros(2))
qed

lemma rfold_total:
  assumes "P s" and "\<And>x s. x \<in> set xs \<Longrightarrow> P s \<Longrightarrow> \<exists>t. f x s = Inr t \<and> P t"
  shows "\<exists>t. rfold f xs s = Inr t \<and> P t"
  using assms
proof (induction xs arbitrary: s)
  case Nil
  then show ?case by simp
next
  case (Cons x xs)
  obtain u where u: "f x s = Inr u" "P u"
    using Cons.prems(1) Cons.prems(2) [of x s] by auto
  have "\<exists>t. rfold f xs u = Inr t \<and> P t"
    by (rule Cons.IH [OF u(2)]) (use Cons.prems(2) in auto)
  with u(1) show ?case by simp
qed

text \<open>A loop whose steps keep \<open>P\<close> and each add a set to what \<open>A\<close> collects.\<close>

lemma rfold_collect:
  assumes "P s" and "\<And>x s. x \<in> set xs \<Longrightarrow> P s \<Longrightarrow> \<exists>t. f x s = Inr t \<and> P t \<and> A t = A s \<union> F x"
  shows "\<exists>t. rfold f xs s = Inr t \<and> P t \<and> A t = A s \<union> (\<Union>x \<in> set xs. F x)"
  using assms
proof (induction xs arbitrary: s)
  case Nil
  then show ?case by simp
next
  case (Cons x xs)
  obtain u where u: "f x s = Inr u" "P u" "A u = A s \<union> F x"
    using Cons.prems(1) Cons.prems(2) [of x s] by auto
  have "\<exists>t. rfold f xs u = Inr t \<and> P t \<and> A t = A u \<union> (\<Union>x \<in> set xs. F x)"
    by (rule Cons.IH [OF u(2)]) (use Cons.prems(2) in auto)
  with u show ?case by (simp add: Un_assoc)
qed

lemma rfold_cong [fundef_cong]:
  "xs = ys \<Longrightarrow> s = t \<Longrightarrow> (\<And>x s. x \<in> set ys \<Longrightarrow> f x s = g x s) \<Longrightarrow> rfold f xs s = rfold g ys t"
proof (induction ys arbitrary: xs s t)
  case Nil
  then show ?case by simp
next
  case (Cons y ys)
  show ?case
    using Cons.prems Cons.IH [OF refl refl] by (auto intro: rbind_cong)
qed

section \<open>Array indices as object keys\<close>

text \<open>
  The decimal rendering of a non-negative integer, as template strings and property names
  use it.
\<close>

definition digit_char :: "nat \<Rightarrow> char" where
  "digit_char d = char_of (48 + d)"

fun show_nat :: "nat \<Rightarrow> string" where
  "show_nat n = (if n < 10 then [digit_char n] else show_nat (n div 10) @ [digit_char (n mod 10)])"

declare show_nat.simps [simp del]

definition is_digit :: "char \<Rightarrow> bool" where
  "is_digit c \<longleftrightarrow> 48 \<le> (of_char c :: nat) \<and> (of_char c :: nat) \<le> 57"

definition read_nat :: "string \<Rightarrow> nat" where
  "read_nat s = foldl (\<lambda>a c. 10 * a + (of_char c - 48)) 0 s"

text \<open>
  A property name is an array index if it is the canonical rendering of an integer below
  \<open>2^32 - 1\<close>. Own property keys are enumerated with the array indices first, in ascending
  order, and the other keys after them in insertion order.
\<close>

definition array_index :: "string \<Rightarrow> nat option" where
  "array_index s =
     (if s \<noteq> [] \<and> list_all is_digit s \<and> (hd s \<noteq> CHR ''0'' \<or> tl s = []) \<and> read_nat s < 4294967295
      then Some (read_nat s) else None)"

text \<open>Short keys are below the bound; evaluation does not compare them with it.\<close>

lemma read_nat_bound: "list_all is_digit s \<Longrightarrow> read_nat s < 10 ^ length s"
  by (induction s rule: rev_induct) (auto simp: read_nat_def is_digit_def)

lemma array_index_code [code]:
  "array_index s =
     (if s \<noteq> [] \<and> list_all is_digit s \<and> (hd s \<noteq> CHR ''0'' \<or> tl s = []) \<and>
         (if length s < 10 then True else read_nat s < 4294967295)
      then Some (read_nat s) else None)"
proof -
  have "read_nat s < 4294967295" if "list_all is_digit s" "length s < 10"
  proof -
    have "(10 :: nat) ^ length s \<le> 10 ^ 9" by (rule power_increasing) (use that(2) in simp_all)
    then show ?thesis using read_nat_bound [OF that(1)] by simp
  qed
  then show ?thesis by (auto simp: array_index_def)
qed

section \<open>Maps, objects and sets\<close>

text \<open>
  A \<open>Map\<close> is its list of entries in insertion order; \<open>set\<close> on a present key keeps
  its place. An object differs in the place of a new key only.
\<close>

fun map_put :: "'k \<Rightarrow> 'v \<Rightarrow> ('k \<times> 'v) list \<Rightarrow> ('k \<times> 'v) list" where
  "map_put k v [] = [(k, v)]"
| "map_put k v ((k', v') # m) = (if k' = k then (k, v) # m else (k', v') # map_put k v m)"

definition map_delete :: "'k \<Rightarrow> ('k \<times> 'v) list \<Rightarrow> ('k \<times> 'v) list" where
  "map_delete k m = filter (\<lambda>e. fst e \<noteq> k) m"

definition enumerated_before :: "string \<Rightarrow> string \<Rightarrow> bool" where
  "enumerated_before k k' =
     (case array_index k of
        None \<Rightarrow> False
      | Some i \<Rightarrow> (case array_index k' of None \<Rightarrow> True | Some j \<Rightarrow> i < j))"

fun obj_insert :: "string \<Rightarrow> 'v \<Rightarrow> (string \<times> 'v) list \<Rightarrow> (string \<times> 'v) list" where
  "obj_insert k v [] = [(k, v)]"
| "obj_insert k v (e # m) = (if enumerated_before k (fst e) then (k, v) # e # m else e # obj_insert k v m)"

definition obj_put :: "string \<Rightarrow> 'v \<Rightarrow> (string \<times> 'v) list \<Rightarrow> (string \<times> 'v) list" where
  "obj_put k v m = (if k \<in> fst ` set m then map_put k v m else obj_insert k v m)"

definition keys :: "('k \<times> 'v) list \<Rightarrow> 'k list" where
  "keys m = map fst m"

definition vals :: "('k \<times> 'v) list \<Rightarrow> 'v list" where
  "vals m = map snd m"

lemma keys_simps [simp, js_simps]:
  "keys [] = []" "keys (e # m) = fst e # keys m" "set (keys m) = fst ` set m"
  by (simp_all add: keys_def)

lemma vals_simps [simp, js_simps]:
  "vals [] = []" "vals (e # m) = snd e # vals m" "set (vals m) = snd ` set m"
  by (simp_all add: vals_def)

lemma map_put_of [js_simps]: "map_of (map_put k v m) = (map_of m)(k \<mapsto> v)"
  by (induction m) (auto simp: fun_eq_iff)

lemma map_put_keys: "fst ` set (map_put k v m) = insert k (fst ` set m)"
proof -
  have "dom (map_of (map_put k v m)) = insert k (dom (map_of m))"
    by (simp add: map_put_of)
  then show ?thesis by (simp add: dom_map_of_conv_image_fst)
qed

lemma map_put_distinct: "distinct (keys m) \<Longrightarrow> distinct (keys (map_put k v m))"
  by (induction m) (auto simp: map_put_keys)

lemma obj_insert_of: "k \<notin> fst ` set m \<Longrightarrow> map_of (obj_insert k v m) = (map_of m)(k \<mapsto> v)"
  by (induction m) (auto simp: fun_eq_iff)

lemma obj_insert_keys: "fst ` set (obj_insert k v m) = insert k (fst ` set m)"
  by (induction m) auto

lemma obj_insert_distinct:
  "k \<notin> fst ` set m \<Longrightarrow> distinct (keys m) \<Longrightarrow> distinct (keys (obj_insert k v m))"
  by (induction m) (auto simp: obj_insert_keys)

lemma map_put_twice: "map_put k v (map_put k w m) = map_put k v m"
  by (induction m) auto

lemma obj_put_twice: "obj_put k v (obj_put k w m) = obj_put k v m"
proof -
  have "k \<notin> fst ` set m \<Longrightarrow> map_put k v (obj_insert k w m) = obj_insert k v m"
    by (induction m) auto
  then show ?thesis by (auto simp: obj_put_def map_put_twice map_put_keys obj_insert_keys)
qed

text \<open>What the clients of both containers rely on.\<close>

locale js_dict =
  fixes put :: "'k \<Rightarrow> 'v \<Rightarrow> ('k \<times> 'v) list \<Rightarrow> ('k \<times> 'v) list"
  assumes lookup_put: "map_of (put k v m) = (map_of m)(k \<mapsto> v)"
    and distinct_put: "distinct (keys m) \<Longrightarrow> distinct (keys (put k v m))"
begin

lemma keys_put: "fst ` set (put k v m) = insert k (fst ` set m)"
proof -
  have "dom (map_of (put k v m)) = insert k (dom (map_of m))"
    by (simp add: lookup_put)
  then show ?thesis by (simp add: dom_map_of_conv_image_fst)
qed

lemma entries_put:
  assumes "distinct (keys m)"
  shows "set (put k v m) = insert (k, v) {e \<in> set m. fst e \<noteq> k}"
proof -
  have d: "distinct (map fst m)" using assms by (simp add: keys_def)
  have d': "distinct (map fst (put k v m))" using distinct_put [OF assms] by (simp add: keys_def)
  show ?thesis
  proof (rule set_eqI)
    fix e :: "'k \<times> 'v"
    obtain a b where e: "e = (a, b)" by (cases e)
    have "(a, b) \<in> set (put k v m) \<longleftrightarrow> map_of (put k v m) a = Some b"
      using d' by (simp add: map_of_eq_Some_iff)
    also have "\<dots> \<longleftrightarrow> (if a = k then b = v else (a, b) \<in> set m)"
      using d by (auto simp: lookup_put map_of_eq_Some_iff)
    finally show "e \<in> set (put k v m) \<longleftrightarrow> e \<in> insert (k, v) {e \<in> set m. fst e \<noteq> k}"
      by (auto simp: e)
  qed
qed

text \<open>A sum over the entries changes by the old and the new entry.\<close>

lemma sum_put:
  fixes g :: "'k \<times> 'v \<Rightarrow> 'c::comm_monoid_add"
  assumes "distinct (keys m)"
  shows "(\<Sum>e\<leftarrow>put k v m. g e) + (case map_of m k of None \<Rightarrow> 0 | Some x \<Rightarrow> g (k, x)) = (\<Sum>e\<leftarrow>m. g e) + g (k, v)"
proof -
  have d: "distinct m" "distinct (put k v m)"
    using assms distinct_put [OF assms] by (auto simp: keys_def distinct_map)
  let ?R = "{e \<in> set m. fst e \<noteq> k}"
  have "(\<Sum>e\<leftarrow>put k v m. g e) = g (k, v) + sum g ?R"
    using sum_list_distinct_conv_sum_set [OF d(2), of g] entries_put [OF assms] by (simp add: sum.insert)
  moreover have "(\<Sum>e\<leftarrow>m. g e) = (case map_of m k of None \<Rightarrow> 0 | Some x \<Rightarrow> g (k, x)) + sum g ?R"
  proof (cases "map_of m k")
    case None
    then have "?R = set m" by (auto simp: map_of_eq_None_iff image_iff)
    then show ?thesis using None sum_list_distinct_conv_sum_set [OF d(1), of g] by simp
  next
    case (Some x)
    have k: "(k, y) \<in> set m \<longleftrightarrow> y = x" for y
      using assms Some by (metis keys_def map_of_eq_Some_iff option.inject)
    have "set m = insert (k, x) ?R"
    proof (rule set_eqI)
      show "e \<in> set m \<longleftrightarrow> e \<in> insert (k, x) ?R" for e using k by (cases e) auto
    qed
    moreover have "(k, x) \<notin> ?R" "finite ?R" by auto
    ultimately have "sum g (set m) = g (k, x) + sum g ?R" by (metis sum.insert)
    then show ?thesis using Some sum_list_distinct_conv_sum_set [OF d(1), of g] by simp
  qed
  ultimately show ?thesis by (simp add: ac_simps)
qed

lemma lookup_put_all:
  "map_of (fold (\<lambda>(k, v). put k v) kvs m) x =
     (case map_of (rev kvs) x of Some v \<Rightarrow> Some v | None \<Rightarrow> map_of m x)"
  by (induction kvs arbitrary: m) (auto simp: lookup_put map_add_def split: option.splits)

lemma distinct_put_all:
  "distinct (keys m) \<Longrightarrow> distinct (keys (fold (\<lambda>(k, v). put k v) kvs m))"
  by (induction kvs arbitrary: m) (auto simp: distinct_put)

end

interpretation jsmap: js_dict map_put
  by unfold_locales (simp_all add: map_put_of map_put_distinct)

interpretation jsobj: js_dict obj_put
  by unfold_locales
    (auto simp: obj_put_def map_put_of map_put_distinct obj_insert_of obj_insert_distinct)

lemma map_delete_of [js_simps]: "map_of (map_delete k m) = (map_of m)(k := None)"
  by (induction m) (auto simp: map_delete_def fun_eq_iff)

lemma map_delete_set [js_simps]: "set (map_delete k m) = {e \<in> set m. fst e \<noteq> k}"
  by (auto simp: map_delete_def)

lemma map_delete_distinct: "distinct (keys m) \<Longrightarrow> distinct (keys (map_delete k m))"
  by (simp add: map_delete_def keys_def distinct_map_filter)

lemma map_delete_put: "map_delete k (map_put k v m) = map_delete k m"
  by (induction m) (auto simp: map_delete_def)

lemma map_delete_obj_put: "map_delete k (obj_put k v m) = map_delete k m"
proof -
  have "map_delete k (obj_insert k v m) = map_delete k m"
    by (induction m) (auto simp: map_delete_def)
  then show ?thesis by (simp add: obj_put_def map_delete_put)
qed

lemma sum_delete:
  fixes g :: "'k \<times> 'v \<Rightarrow> 'c::comm_monoid_add"
  assumes "distinct (keys m)"
  shows "(\<Sum>e\<leftarrow>map_delete k m. g e) + (case map_of m k of None \<Rightarrow> 0 | Some x \<Rightarrow> g (k, x)) = (\<Sum>e\<leftarrow>m. g e)"
proof -
  have id: "map_delete k m = m" if "k \<notin> fst ` set m" for m :: "('k \<times> 'v) list"
    using that by (auto simp: map_delete_def filter_id_conv image_iff)
  show ?thesis
    using assms
  proof (induction m)
    case (Cons e m)
    then show ?case using id [of m] by (cases e) (auto simp: map_delete_def keys_def ac_simps)
  qed (simp add: map_delete_def)
qed

text \<open>A \<open>Set\<close> is the list of its members in insertion order.\<close>

definition set_add :: "'a \<Rightarrow> 'a list \<Rightarrow> 'a list" where
  "set_add x s = (if x \<in> set s then s else s @ [x])"

definition set_delete :: "'a \<Rightarrow> 'a list \<Rightarrow> 'a list" where
  "set_delete x s = filter (\<lambda>y. y \<noteq> x) s"

definition set_of_list :: "'a list \<Rightarrow> 'a list" where
  "set_of_list xs = fold set_add xs []"

lemma set_set_add [simp, js_simps]: "set (set_add x s) = insert x (set s)"
  by (auto simp: set_add_def)

lemma distinct_set_add [simp, js_simps]: "distinct s \<Longrightarrow> distinct (set_add x s)"
  by (simp add: set_add_def)

lemma set_set_delete [simp, js_simps]: "set (set_delete x s) = set s - {x}"
  by (auto simp: set_delete_def)

lemma distinct_set_delete [simp, js_simps]: "distinct s \<Longrightarrow> distinct (set_delete x s)"
  by (simp add: set_delete_def)

lemma set_fold_add [simp, js_simps]: "set (fold set_add xs s) = set s \<union> set xs"
  by (induction xs arbitrary: s) auto

lemma distinct_fold_add [simp, js_simps]: "distinct s \<Longrightarrow> distinct (fold set_add xs s)"
  by (induction xs arbitrary: s) auto

lemma set_of_list_simps [simp, js_simps]:
  "set (set_of_list xs) = set xs" "distinct (set_of_list xs)"
  by (simp_all add: set_of_list_def)

section \<open>Sparse array writes\<close>

text \<open>
  \<open>xs[i] = v\<close> extends the array with holes when \<open>i\<close> is past its end; a hole reads as
  \<open>undefined\<close>, which the code treats like \<open>null\<close>.
\<close>

definition array_put :: "nat \<Rightarrow> 'a option \<Rightarrow> 'a option list \<Rightarrow> 'a option list" where
  "array_put i v xs = (xs @ replicate (Suc i - length xs) None)[i := v]"

definition array_get :: "'a option list \<Rightarrow> nat \<Rightarrow> 'a option" where
  "array_get xs i = (if i < length xs then xs ! i else None)"

lemma length_array_put [simp]: "length (array_put i v xs) = max (length xs) (Suc i)"
  by (simp add: array_put_def)

lemma array_get_put [js_simps]:
  "array_get (array_put i v xs) j = (if i = j then v else array_get xs j)"
  by (auto simp: array_get_def array_put_def nth_list_update nth_append)

text \<open>\<open>xs.at(i)\<close>: a negative index counts from the end, and out of range is \<open>undefined\<close>.\<close>

definition js_at :: "'a list \<Rightarrow> int \<Rightarrow> 'a option" where
  "js_at xs i =
     (let j = (if i < 0 then int (length xs) + i else i)
      in if 0 \<le> j \<and> j < int (length xs) then Some (xs ! nat j) else None)"

section \<open>Relations\<close>

text \<open>
  Cutting the loops of a path: a path to another place needs to leave its start only once.
\<close>

lemma relpow_avoid_start:
  assumes "(m, y) \<in> Q ^^ k" and "y \<noteq> m"
  shows "\<exists>j. 0 < j \<and> j \<le> k \<and> (m, y) \<in> (Q \<inter> {(a, b). b \<noteq> m}) ^^ j"
  using assms
proof (induction k arbitrary: y)
  case 0
  then show ?case by simp
next
  case (Suc k)
  then obtain z where z: "(m, z) \<in> Q ^^ k" "(z, y) \<in> Q" by auto
  show ?case
  proof (cases "z = m")
    case True
    with z Suc.prems have "(m, y) \<in> (Q \<inter> {(a, b). b \<noteq> m}) ^^ 1" by auto
    then show ?thesis by (metis One_nat_def le_numeral_extra(4) less_Suc_eq_0_disj not_less_eq_eq zero_less_Suc Suc_le_mono le0)
  next
    case False
    then obtain j where j: "0 < j" "j \<le> k" "(m, z) \<in> (Q \<inter> {(a, b). b \<noteq> m}) ^^ j"
      using Suc.IH z(1) by blast
    have "(m, y) \<in> (Q \<inter> {(a, b). b \<noteq> m}) ^^ Suc j"
      using j(3) z(2) Suc.prems(2) by auto
    then show ?thesis using j by (metis Suc_le_mono zero_less_Suc)
  qed
qed

lemma rtrancl_avoid_start:
  "(m, y) \<in> Q\<^sup>* \<Longrightarrow> (m, y) \<in> (Q \<inter> {(a, b). b \<noteq> m})\<^sup>*"
proof (induction rule: rtrancl_induct)
  case base
  then show ?case by simp
next
  case (step y z)
  show ?case
  proof (cases "z = m")
    case True
    then show ?thesis by simp
  next
    case False
    then have "(y, z) \<in> Q \<inter> {(a, b). b \<noteq> m}" using step.hyps by simp
    then show ?thesis using step.IH by (rule rtrancl_into_rtrancl [rotated])
  qed
qed

lemma relpow_mono_rel:
  fixes Q R :: "('a \<times> 'a) set"
  shows "(a, b) \<in> Q ^^ k \<Longrightarrow> Q \<subseteq> R \<Longrightarrow> (a, b) \<in> R ^^ k"
  by (induction k arbitrary: b) auto

lemma closed_rtrancl:
  assumes "(a, b) \<in> R\<^sup>*" and "a \<in> S" and "\<And>x y. x \<in> S \<Longrightarrow> (x, y) \<in> R \<Longrightarrow> y \<in> S"
  shows "b \<in> S"
  using assms(1) by induction (use assms(2,3) in auto)

text \<open>
  A search with a closed set \<open>S\<close> behind it and a frontier \<open>F\<close> in front: what can be reached
  outside \<open>S\<close> can be reached from the frontier.
\<close>

lemma frontier_reaches:
  assumes "(x, goal) \<in> R\<^sup>*" "x \<in> S \<union> F" "goal \<notin> S" "\<And>a b. a \<in> S \<Longrightarrow> (a, b) \<in> R \<Longrightarrow> b \<in> S \<union> F"
  shows "\<exists>y \<in> F. (y, goal) \<in> R\<^sup>*"
  using assms(1,2)
proof (induction rule: converse_rtrancl_induct)
  case base
  then show ?case using assms(3) by auto
next
  case (step x z)
  show ?case
  proof (cases "x \<in> S")
    case True
    then show ?thesis using assms(4) step.hyps(1) step.IH by blast
  next
    case False
    then show ?thesis using step by (auto intro: converse_rtrancl_into_rtrancl)
  qed
qed

end
