(* ===== verification/Connections.thy ===== *)
theory Connections
  imports N8n_Prelude "HOL-Library.Multiset"
begin

text \<open>
  The connection tables of a workflow and the functions of
  \<open>packages/workflow/src/common\<close>: the nested object that lists, for each node, connection
  type and output index, the inputs it feeds; its inversion by destination node; and the
  path-based traversal \<open>getConnectedNodes\<close> behind \<open>getChildNodes\<close> and \<open>getParentNodes\<close>.
\<close>

section \<open>Data\<close>

text \<open>
  A connection type is a string (\<open>main\<close>, \<open>ai_tool\<close>, ...), because it is a property name of
  the connection table and the code casts whatever name it finds there.
\<close>

type_synonym NodeConnectionType = string

abbreviation Main :: NodeConnectionType where
  "Main \<equiv> ''main''"

abbreviation AiTool :: NodeConnectionType where
  "AiTool \<equiv> ''ai_tool''"

record IConnection =
  conn_node :: string
  conn_type :: NodeConnectionType
  conn_index :: nat

type_synonym NodeInputConnections = "IConnection list option list"
type_synonym INodeConnections = "(NodeConnectionType \<times> NodeInputConnections) list"
type_synonym IConnections = "(string \<times> INodeConnections) list"

definition mk_conn :: "string \<Rightarrow> NodeConnectionType \<Rightarrow> nat \<Rightarrow> IConnection" where
  "mk_conn n t i = \<lparr>conn_node = n, conn_type = t, conn_index = i\<rparr>"

definition group_list :: "IConnection list option \<Rightarrow> IConnection list" where
  "group_list g = (case g of None \<Rightarrow> [] | Some l \<Rightarrow> l)"

definition node_conns :: "IConnections \<Rightarrow> string \<Rightarrow> INodeConnections" where
  "node_conns C n = (case map_of C n of None \<Rightarrow> [] | Some obj \<Rightarrow> obj)"

definition type_conns :: "INodeConnections \<Rightarrow> NodeConnectionType \<Rightarrow> NodeInputConnections" where
  "type_conns obj t = (case map_of obj t of None \<Rightarrow> [] | Some xs \<Rightarrow> xs)"

text \<open>The inputs fed by output \<open>i\<close> of type \<open>t\<close> of node \<open>n\<close>.\<close>

definition group_at :: "IConnections \<Rightarrow> string \<Rightarrow> NodeConnectionType \<Rightarrow> nat \<Rightarrow> IConnection list" where
  "group_at C n t i = group_list (array_get (type_conns (node_conns C n) t) i)"

definition wf_conns :: "IConnections \<Rightarrow> bool" where
  "wf_conns C \<longleftrightarrow> distinct (keys C) \<and> list_all (\<lambda>(n, obj). distinct (keys obj)) C"

lemma wf_conns_iff:
  "wf_conns C \<longleftrightarrow> distinct (keys C) \<and> (\<forall>n obj. (n, obj) \<in> set C \<longrightarrow> distinct (keys obj))"
  by (auto simp: wf_conns_def list_all_iff)

section \<open>Inversion by destination\<close>

text \<open>
  The body of the innermost loop of \<open>mapConnectionsByDestination\<close>: make sure that the
  destination has an array for the type, pad it with empty groups up to the input index, and
  push the source.
\<close>

definition add_destination ::
    "string \<Rightarrow> NodeConnectionType \<Rightarrow> nat \<Rightarrow> IConnection \<Rightarrow> IConnections \<Rightarrow> IConnections" where
  "add_destination sourceNode t inputIndex c R =
     (let obj = node_conns R (conn_node c);
          xs = type_conns obj (conn_type c);
          padded = xs @ replicate (Suc (conn_index c) - length xs) (Some []);
          pushed = padded[conn_index c :=
            map_option (\<lambda>l. l @ [mk_conn sourceNode t inputIndex]) (padded ! conn_index c)]
      in obj_put (conn_node c) (obj_put (conn_type c) pushed obj) R)"

definition mapConnectionsByDestination :: "IConnections \<Rightarrow> IConnections" where
  "mapConnectionsByDestination C =
     fold (\<lambda>(sourceNode, obj).
       fold (\<lambda>(t, xs).
         fold (\<lambda>(inputIndex, g).
           fold (add_destination sourceNode t inputIndex) (group_list g))
         (enumerate 0 xs))
       obj)
     C []"

text \<open>The edges of a table in the order the four nested loops visit them.\<close>

type_synonym edge = "string \<times> NodeConnectionType \<times> nat \<times> IConnection"

definition edges_of :: "IConnections \<Rightarrow> edge list" where
  "edges_of C =
     concat (map (\<lambda>(s, obj). concat (map (\<lambda>(t, xs). concat (map (\<lambda>(i, g).
       map (\<lambda>c. (s, t, i, c)) (group_list g)) (enumerate 0 xs))) obj)) C)"

definition add_edge :: "edge \<Rightarrow> IConnections \<Rightarrow> IConnections" where
  "add_edge e = (case e of (s, t, i, c) \<Rightarrow> add_destination s t i c)"

lemma fold_concat_map: "fold f (concat (map g xs)) = fold (\<lambda>x. fold f (g x)) xs"
  by (induction xs) (auto simp: fun_eq_iff)

lemma mapConnectionsByDestination_edges:
  "mapConnectionsByDestination C = fold add_edge (edges_of C) []"
  by (simp add: mapConnectionsByDestination_def edges_of_def fold_concat_map fold_map comp_def
      add_edge_def case_prod_unfold)

text \<open>A table with \<open>null\<close>-free arrays only, as the inversion builds them.\<close>

definition no_null :: "IConnections \<Rightarrow> bool" where
  "no_null C \<longleftrightarrow> list_all (\<lambda>(n, obj). list_all (\<lambda>(t, xs). None \<notin> set xs) obj) C"

lemma no_null_iff:
  "no_null C \<longleftrightarrow>
    (\<forall>n obj t xs. (n, obj) \<in> set C \<longrightarrow> (t, xs) \<in> set obj \<longrightarrow> None \<notin> set xs)"
  by (fastforce simp: no_null_def list_all_iff)

lemma node_conns_cases:
  "node_conns C n = [] \<or> (n, node_conns C n) \<in> set C"
  by (auto simp: node_conns_def split: option.splits dest: map_of_SomeD)

lemma type_conns_cases:
  "type_conns obj t = [] \<or> (t, type_conns obj t) \<in> set obj"
  by (auto simp: type_conns_def split: option.splits dest: map_of_SomeD)

lemma wf_conns_simps:
  assumes "wf_conns C"
  shows "distinct (keys C)" "distinct (keys (node_conns C n))"
  using assms node_conns_cases [of C n] by (auto simp: wf_conns_iff)

lemma no_null_node_conns: "no_null C \<Longrightarrow> (t, xs) \<in> set (node_conns C n) \<Longrightarrow> None \<notin> set xs"
  using node_conns_cases [of C n] unfolding no_null_iff by (metis empty_iff list.set(1))

lemma no_null_type_conns: "no_null C \<Longrightarrow> None \<notin> set (type_conns (node_conns C n) t)"
  using type_conns_cases [of "node_conns C n" t] no_null_node_conns
  by (metis empty_iff list.set(1))

lemma wf_conns_put:
  "wf_conns C \<Longrightarrow> distinct (keys obj) \<Longrightarrow> wf_conns (obj_put n obj C)"
  unfolding wf_conns_iff by (auto simp: jsobj.distinct_put jsobj.entries_put)

lemma wf_conns_add_edge: "wf_conns C \<Longrightarrow> wf_conns (add_edge e C)"
  by (simp add: add_edge_def add_destination_def Let_def wf_conns_put jsobj.distinct_put
      wf_conns_simps split: prod.split)

lemma no_null_put:
  assumes "no_null C" "wf_conns C" "\<And>t xs. (t, xs) \<in> set obj \<Longrightarrow> None \<notin> set xs"
  shows "no_null (obj_put n obj C)"
  using assms(1,3) unfolding no_null_iff jsobj.entries_put [OF wf_conns_simps(1) [OF assms(2)]]
  by blast

lemma no_null_add_edge:
  assumes "no_null C" "wf_conns C"
  shows "no_null (add_edge e C)"
proof -
  obtain s t i c where e: "e = (s, t, i, c)" by (cases e)
  let ?xs = "type_conns (node_conns C (conn_node c)) (conn_type c)"
  let ?padded = "?xs @ replicate (Suc (conn_index c) - length ?xs) (Some [])"
  let ?pushed = "?padded[conn_index c :=
      map_option (\<lambda>l. l @ [mk_conn s t i]) (?padded ! conn_index c)]"
  have p: "None \<notin> set ?padded" using no_null_type_conns [OF assms(1)] by auto
  have "?padded ! conn_index c \<in> set ?padded" by (rule nth_mem) auto
  with p obtain l where l: "?padded ! conn_index c = Some l" by (metis option.exhaust)
  have "set ?pushed \<subseteq> insert (Some (l @ [mk_conn s t i])) (set ?padded)"
    unfolding l option.map by (rule set_update_subset_insert)
  with p have q: "None \<notin> set ?pushed" by blast
  have "None \<notin> set ys" if "(v, ys) \<in> set (obj_put (conn_type c) ?pushed (node_conns C (conn_node c)))" for v ys
    using that q no_null_node_conns [OF assms(1)]
    unfolding jsobj.entries_put [OF wf_conns_simps(2) [OF assms(2)]] by blast
  then show ?thesis
    unfolding e add_edge_def add_destination_def Let_def prod.case
    by (rule no_null_put [OF assms])
qed

text \<open>One edge pushes one source, at exactly one place.\<close>

lemma group_at_add_edge:
  assumes "no_null C"
  shows "group_at (add_edge (s, t, i, c) C) d u j =
    group_at C d u j @
      (if d = conn_node c \<and> u = conn_type c \<and> j = conn_index c then [mk_conn s t i] else [])"
proof -
  let ?xs = "type_conns (node_conns C (conn_node c)) (conn_type c)"
  let ?padded = "?xs @ replicate (Suc (conn_index c) - length ?xs) (Some [])"
  have nn: "None \<notin> set ?xs" by (rule no_null_type_conns [OF assms])
  have len: "conn_index c < length ?padded" by simp
  have at: "group_list (array_get ?padded k) = group_list (array_get ?xs k)" for k
    by (auto simp: array_get_def nth_append group_list_def)
  have some: "\<exists>l. ?padded ! conn_index c = Some l"
  proof (cases "conn_index c < length ?xs")
    case True
    then have "?xs ! conn_index c \<noteq> None" using nn nth_mem by metis
    with True show ?thesis by (auto simp: nth_append)
  next
    case False
    then show ?thesis by (auto simp: nth_append)
  qed
  have push: "group_list (array_get (?padded[conn_index c :=
        map_option (\<lambda>l. l @ [mk_conn s t i]) (?padded ! conn_index c)]) k) =
      group_list (array_get ?xs k) @ (if k = conn_index c then [mk_conn s t i] else [])" for k
    using some len at [of k]
    by (auto simp: array_get_def group_list_def nth_list_update split: if_splits)
  have nc: "node_conns (add_edge (s, t, i, c) C) d =
      (if d = conn_node c
       then obj_put (conn_type c) (?padded[conn_index c :=
          map_option (\<lambda>l. l @ [mk_conn s t i]) (?padded ! conn_index c)]) (node_conns C d)
       else node_conns C d)"
    by (simp add: node_conns_def add_edge_def add_destination_def Let_def jsobj.lookup_put)
  have tc: "type_conns (node_conns (add_edge (s, t, i, c) C) d) u =
      (if d = conn_node c \<and> u = conn_type c
       then ?padded[conn_index c :=
          map_option (\<lambda>l. l @ [mk_conn s t i]) (?padded ! conn_index c)]
       else type_conns (node_conns C d) u)"
    by (auto simp: nc type_conns_def jsobj.lookup_put)
  show ?thesis
    by (auto simp: group_at_def tc push)
qed

definition sources_of :: "string \<Rightarrow> NodeConnectionType \<Rightarrow> nat \<Rightarrow> edge list \<Rightarrow> IConnection list" where
  "sources_of d u j es =
     map (\<lambda>(s, t, i, c). mk_conn s t i) (filter (\<lambda>(s, t, i, c). c = mk_conn d u j) es)"

lemma conn_eq_mk [simp]:
  "c = mk_conn d u j \<longleftrightarrow> conn_node c = d \<and> conn_type c = u \<and> conn_index c = j"
  by (auto simp: mk_conn_def)

lemma fold_add_edge:
  assumes "no_null R" "wf_conns R"
  shows "group_at (fold add_edge es R) d u j = group_at R d u j @ sources_of d u j es"
    and "wf_conns (fold add_edge es R)" and "no_null (fold add_edge es R)"
  using assms
proof (induction es arbitrary: R)
  case Nil
  { case 1 show ?case by (simp add: sources_of_def) }
  { case 2 then show ?case by simp }
  { case 3 then show ?case by simp }
next
  case (Cons e es)
  obtain s t i c where e: "e = (s, t, i, c)" by (cases e)
  { case 1
    then show ?case
      using Cons.IH(1) [OF no_null_add_edge wf_conns_add_edge, of R e] group_at_add_edge [of R s t i c d u j]
      by (auto simp: e sources_of_def) }
  { case 2
    then show ?case using Cons.IH(2) [OF no_null_add_edge wf_conns_add_edge] by simp }
  { case 3
    then show ?case using Cons.IH(3) [OF no_null_add_edge wf_conns_add_edge] by simp }
qed

lemma group_at_mapConnectionsByDestination:
  "group_at (mapConnectionsByDestination C) d u j = sources_of d u j (edges_of C)"
proof -
  have "group_at [] d u j = []" by (simp add: group_at_def node_conns_def type_conns_def
      array_get_def group_list_def)
  moreover have "no_null []" "wf_conns []" by (simp_all add: no_null_def wf_conns_def)
  ultimately show ?thesis
    using fold_add_edge(1) [of "[]"] by (simp add: mapConnectionsByDestination_edges)
qed

lemma wf_mapConnectionsByDestination: "wf_conns (mapConnectionsByDestination C)"
proof -
  have "no_null []" "wf_conns []" by (simp_all add: no_null_def wf_conns_def)
  then show ?thesis
    using fold_add_edge(2) [of "[]"] by (simp add: mapConnectionsByDestination_edges)
qed

section \<open>The edges of a table and its groups\<close>

definition obj_edges :: "string \<Rightarrow> INodeConnections \<Rightarrow> edge list" where
  "obj_edges s obj =
     concat (map (\<lambda>(t, xs). concat (map (\<lambda>(i, g). map (\<lambda>c. (s, t, i, c)) (group_list g))
       (enumerate 0 xs))) obj)"

definition array_edges :: "string \<Rightarrow> NodeConnectionType \<Rightarrow> nat \<Rightarrow> NodeInputConnections \<Rightarrow> edge list" where
  "array_edges s t n xs =
     concat (map (\<lambda>(i, g). map (\<lambda>c. (s, t, i, c)) (group_list g)) (enumerate n xs))"

lemma edges_of_objs: "edges_of C = concat (map (\<lambda>(s, obj). obj_edges s obj) C)"
  by (simp add: edges_of_def obj_edges_def)

lemma obj_edges_arrays: "obj_edges s obj = concat (map (\<lambda>(t, xs). array_edges s t 0 xs) obj)"
  by (simp add: obj_edges_def array_edges_def)

lemma count_map_edge:
  "count (mset (map (\<lambda>c. (s', t', i', c)) cs)) (s, t, i, c) =
    (if s = s' \<and> t = t' \<and> i = i' then count (mset cs) c else 0)"
  by (induction cs) auto

lemma count_array_edges:
  "count (mset (array_edges s' t' n xs)) (s, t, i, c) =
    (if s = s' \<and> t = t' \<and> n \<le> i then count (mset (group_list (array_get xs (i - n)))) c else 0)"
proof (induction xs arbitrary: n)
  case Nil
  then show ?case by (simp add: array_edges_def array_get_def group_list_def)
next
  case (Cons g xs)
  have "array_edges s' t' n (g # xs) =
      map (\<lambda>c. (s', t', n, c)) (group_list g) @ array_edges s' t' (Suc n) xs"
    by (simp add: array_edges_def)
  then have "count (mset (array_edges s' t' n (g # xs))) (s, t, i, c) =
      (if s = s' \<and> t = t' \<and> i = n then count (mset (group_list g)) c else 0) +
      (if s = s' \<and> t = t' \<and> Suc n \<le> i then count (mset (group_list (array_get xs (i - Suc n)))) c else 0)"
    by (simp only: mset_append count_union count_map_edge Cons.IH)
  moreover have "array_get (g # xs) (i - n) = (if i \<le> n then g else array_get xs (i - Suc n))"
    by (auto simp: array_get_def nth_Cons' Suc_diff_le split: nat.splits)
  ultimately show ?case by auto
qed

lemma count_obj_edges:
  assumes "distinct (keys obj)"
  shows "count (mset (obj_edges s' obj)) (s, t, i, c) =
    (if s = s' then count (mset (group_list (array_get (type_conns obj t) i))) c else 0)"
  using assms
proof (induction obj)
  case Nil
  then show ?case by (simp add: obj_edges_def type_conns_def array_get_def group_list_def)
next
  case (Cons e obj)
  obtain t' xs where e: "e = (t', xs)" by (cases e)
  have "obj_edges s' (e # obj) = array_edges s' t' 0 xs @ obj_edges s' obj"
    by (simp add: obj_edges_arrays e)
  moreover have "map_of obj t' = None"
    using Cons.prems by (simp add: e map_of_eq_None_iff)
  ultimately show ?case
    using Cons by (auto simp: e count_array_edges type_conns_def array_get_def group_list_def)
qed

lemma count_edges_of:
  assumes "wf_conns C"
  shows "count (mset (edges_of C)) (s, t, i, c) = count (mset (group_at C s t i)) c"
  using assms
proof (induction C)
  case Nil
  then show ?case
    by (simp add: edges_of_def group_at_def node_conns_def type_conns_def array_get_def group_list_def)
next
  case (Cons e C)
  obtain s' obj where e: "e = (s', obj)" by (cases e)
  have wf: "wf_conns C" "distinct (keys obj)" "s' \<notin> fst ` set C"
    using Cons.prems by (auto simp: e wf_conns_def)
  have "edges_of (e # C) = obj_edges s' obj @ edges_of C"
    by (simp add: edges_of_objs e)
  moreover have "map_of C s' = None"
    using wf(3) by (simp add: map_of_eq_None_iff)
  ultimately show ?case
    using Cons.IH [OF wf(1)]
    by (auto simp: e count_obj_edges [OF wf(2)] group_at_def node_conns_def type_conns_def
        array_get_def group_list_def)
qed

lemma edges_of_iff:
  assumes "wf_conns C"
  shows "(s, t, i, c) \<in> set (edges_of C) \<longleftrightarrow> c \<in> set (group_at C s t i)"
  using count_edges_of [OF assms, of s t i c] by (metis count_mset_0_iff)

lemma count_sources_of:
  "count (mset (sources_of d u j es)) (mk_conn s t i) = count (mset es) (s, t, i, mk_conn d u j)"
proof (induction es)
  case Nil
  then show ?case by (simp add: sources_of_def)
next
  case (Cons e es)
  obtain s' t' i' c where e: "e = (s', t', i', c)" by (cases e)
  show ?case using Cons by (auto simp: e sources_of_def) (auto simp: mk_conn_def)
qed

lemma mk_conn_surj: "mk_conn (conn_node c) (conn_type c) (conn_index c) = c"
  by (simp add: mk_conn_def)

lemma inverse_twice:
  assumes "wf_conns C"
  shows "mset (group_at (mapConnectionsByDestination (mapConnectionsByDestination C)) s t i) =
    mset (group_at C s t i)"
proof (rule multiset_eqI)
  fix c
  let ?M = mapConnectionsByDestination
  have "count (mset (group_at (?M (?M C)) s t i)) (mk_conn d u j) =
      count (mset (group_at C s t i)) (mk_conn d u j)" for d u j
    by (simp add: group_at_mapConnectionsByDestination count_sources_of
        count_edges_of [OF wf_mapConnectionsByDestination] count_edges_of [OF assms])
  moreover obtain d u j where "c = mk_conn d u j" by (metis mk_conn_surj)
  ultimately show "count (mset (group_at (?M (?M C)) s t i)) c = count (mset (group_at C s t i)) c"
    by metis
qed

end
