(* ===== verification/Directed_Graph.thy ===== *)
theory Directed_Graph
  imports Connections Complex_Main
begin

text \<open>
  The class \<open>DirectedGraph\<close> of
  \<open>packages/core/src/execution-engine/partial-execution-utils/directed-graph.ts\<close>: its state,
  its editing operations with their assertions, the invariant they keep, and the edge relation
  the traversals of \<open>Graph_Traversal\<close> follow.

  Nodes are compared by reference in the code, so a node is a reference into a heap of
  \<open>INode\<close> objects; names and flags are read through the heap.
\<close>

section \<open>Data\<close>

type_synonym noderef = nat

datatype json =
    JNull
  | JBool bool
  | JNum int
  | JStr string
  | JArr "json list"
  | JObj "(string \<times> json) list"

record INode =
  node_id :: string
  node_name :: string
  node_type :: string
  typeVersion :: rat
  disabled :: "bool option"
  parameters :: "(string \<times> json) list"
  rewireOutputLogTo :: "NodeConnectionType option"

type_synonym heap = "noderef \<Rightarrow> INode"

definition is_disabled :: "INode \<Rightarrow> bool" where
  "is_disabled n \<longleftrightarrow> disabled n = Some True"

record GraphConnection =
  gc_from :: noderef
  gc_to :: noderef
  gc_type :: NodeConnectionType
  gc_output :: nat
  gc_input :: nat

record DirectedGraph =
  dg_nodes :: "(string \<times> noderef) list"
  dg_conns :: "(string \<times> GraphConnection) list"

definition newDirectedGraph :: DirectedGraph where
  "newDirectedGraph = \<lparr>dg_nodes = [], dg_conns = []\<rparr>"

definition makeKey :: "heap \<Rightarrow> GraphConnection \<Rightarrow> string" where
  "makeKey h c =
     node_name (h (gc_from c)) @ ''-'' @ gc_type c @ ''-'' @ show_nat (gc_output c) @ ''-'' @
     show_nat (gc_input c) @ ''-'' @ node_name (h (gc_to c))"

section \<open>Operations\<close>

definition hasNode :: "DirectedGraph \<Rightarrow> string \<Rightarrow> bool" where
  "hasNode g nodeName \<longleftrightarrow> nodeName \<in> fst ` set (dg_nodes g)"

definition getNodes :: "DirectedGraph \<Rightarrow> (string \<times> noderef) list" where
  "getNodes g = dg_nodes g"

definition getNodesByNames :: "DirectedGraph \<Rightarrow> string list \<Rightarrow> noderef list" where
  "getNodesByNames g names =
     fold (\<lambda>name nodes. case map_of (dg_nodes g) name of None \<Rightarrow> nodes | Some r \<Rightarrow> set_add r nodes)
       names []"

definition getConnections :: "DirectedGraph \<Rightarrow> noderef option \<Rightarrow> GraphConnection list" where
  "getConnections g to =
     filter (\<lambda>c. case to of None \<Rightarrow> True | Some r \<Rightarrow> gc_to c = r) (vals (dg_conns g))"

definition addNode :: "heap \<Rightarrow> noderef \<Rightarrow> DirectedGraph \<Rightarrow> DirectedGraph" where
  "addNode h r g = g\<lparr>dg_nodes := map_put (node_name (h r)) r (dg_nodes g)\<rparr>"

definition addNodes :: "heap \<Rightarrow> noderef list \<Rightarrow> DirectedGraph \<Rightarrow> DirectedGraph" where
  "addNodes h rs g = fold (addNode h) rs g"

definition nodeExists :: "heap \<Rightarrow> DirectedGraph \<Rightarrow> noderef \<Rightarrow> bool" where
  "nodeExists h g r \<longleftrightarrow> map_of (dg_nodes g) (node_name (h r)) = Some r"

definition getDirectChildConnections ::
    "heap \<Rightarrow> DirectedGraph \<Rightarrow> noderef \<Rightarrow> GraphConnection list result" where
  "getDirectChildConnections h g r =
     rbind (assert_ok (nodeExists h g r)) (\<lambda>_.
       Inr (filter (\<lambda>c. gc_from c = r) (vals (dg_conns g))))"

definition getDirectParentConnections ::
    "heap \<Rightarrow> DirectedGraph \<Rightarrow> noderef \<Rightarrow> GraphConnection list result" where
  "getDirectParentConnections h g r =
     rbind (assert_ok (nodeExists h g r)) (\<lambda>_.
       Inr (filter (\<lambda>c. gc_to c = r) (vals (dg_conns g))))"

text \<open>The optional fields of the argument of \<open>addConnection\<close> default to \<open>main\<close>, 0 and 0.\<close>

record ConnectionInput =
  ci_from :: noderef
  ci_to :: noderef
  ci_type :: "NodeConnectionType option"
  ci_output :: "nat option"
  ci_input :: "nat option"

definition input_of :: "GraphConnection \<Rightarrow> ConnectionInput" where
  "input_of c = \<lparr>ci_from = gc_from c, ci_to = gc_to c, ci_type = Some (gc_type c),
     ci_output = Some (gc_output c), ci_input = Some (gc_input c)\<rparr>"

definition dflt :: "'a \<Rightarrow> 'a option \<Rightarrow> 'a" where
  "dflt d x = (case x of None \<Rightarrow> d | Some v \<Rightarrow> v)"

definition complete_input :: "ConnectionInput \<Rightarrow> GraphConnection" where
  "complete_input i = \<lparr>gc_from = ci_from i, gc_to = ci_to i, gc_type = dflt Main (ci_type i),
     gc_output = dflt 0 (ci_output i), gc_input = dflt 0 (ci_input i)\<rparr>"

definition set_connection :: "heap \<Rightarrow> GraphConnection \<Rightarrow> DirectedGraph \<Rightarrow> DirectedGraph" where
  "set_connection h c g = g\<lparr>dg_conns := map_put (makeKey h c) c (dg_conns g)\<rparr>"

definition addConnection :: "heap \<Rightarrow> ConnectionInput \<Rightarrow> DirectedGraph \<Rightarrow> DirectedGraph result" where
  "addConnection h connectionInput g =
     rbind (assert_ok (nodeExists h g (ci_from connectionInput))) (\<lambda>_.
     rbind (assert_ok (nodeExists h g (ci_to connectionInput))) (\<lambda>_.
       Inr (set_connection h (complete_input connectionInput) g)))"

definition addConnections ::
    "heap \<Rightarrow> ConnectionInput list \<Rightarrow> DirectedGraph \<Rightarrow> DirectedGraph result" where
  "addConnections h inputs g = rfold (addConnection h) inputs g"

definition getConnection ::
    "heap \<Rightarrow> DirectedGraph \<Rightarrow> noderef \<Rightarrow> nat \<Rightarrow> NodeConnectionType \<Rightarrow> nat \<Rightarrow> noderef \<Rightarrow> GraphConnection option" where
  "getConnection h g from outputIndex type inputIndex to =
     map_of (dg_conns g) (makeKey h \<lparr>gc_from = from, gc_to = to, gc_type = type,
       gc_output = outputIndex, gc_input = inputIndex\<rparr>)"

text \<open>
  The two modes of \<open>removeNode\<close>. Reconnecting pairs every incoming with every outgoing
  connection that the callback does not skip; both modes then drop the connections of the
  node, and reconnecting adds the new ones before the node itself is deleted.
\<close>

definition drop_connections :: "noderef \<Rightarrow> DirectedGraph \<Rightarrow> DirectedGraph" where
  "drop_connections r g =
     g\<lparr>dg_conns := filter (\<lambda>(key, c). \<not> (gc_to c = r \<or> gc_from c = r)) (dg_conns g)\<rparr>"

definition bypass :: "GraphConnection \<Rightarrow> GraphConnection \<Rightarrow> GraphConnection" where
  "bypass incoming outgoing = incoming\<lparr>gc_to := gc_to outgoing, gc_input := gc_input outgoing\<rparr>"

definition reconnections ::
    "(GraphConnection \<Rightarrow> bool) \<Rightarrow> GraphConnection list \<Rightarrow> GraphConnection list \<Rightarrow> GraphConnection list" where
  "reconnections skip incoming outgoing =
     concat (map (\<lambda>i. if skip i then []
       else concat (map (\<lambda>ou. if skip ou then [] else [bypass i ou]) outgoing)) incoming)"

definition delete_node :: "heap \<Rightarrow> noderef \<Rightarrow> DirectedGraph \<Rightarrow> DirectedGraph" where
  "delete_node h r g = g\<lparr>dg_nodes := map_delete (node_name (h r)) (dg_nodes g)\<rparr>"

definition removeNode :: "heap \<Rightarrow> noderef \<Rightarrow> DirectedGraph \<Rightarrow> DirectedGraph" where
  "removeNode h r g = delete_node h r (drop_connections r g)"

definition removeNodeReconnect ::
    "heap \<Rightarrow> noderef \<Rightarrow> (GraphConnection \<Rightarrow> bool) \<Rightarrow> DirectedGraph \<Rightarrow> (DirectedGraph \<times> GraphConnection list) result" where
  "removeNodeReconnect h r skip g =
     rbind (getDirectParentConnections h g r) (\<lambda>incoming.
     rbind (getDirectChildConnections h g r) (\<lambda>outgoing.
       let newConnections = reconnections skip incoming outgoing in
       Inr (delete_node h r (fold (set_connection h) newConnections (drop_connections r g)),
            newConnections)))"

definition clone :: "heap \<Rightarrow> DirectedGraph \<Rightarrow> DirectedGraph result" where
  "clone h g =
     addConnections h (map input_of (getConnections g None))
       (addNodes h (vals (getNodes g)) newDirectedGraph)"

section \<open>Invariant\<close>

text \<open>
  Nodes are filed under their names, connections under their keys, and both ends of a
  connection are nodes of the graph.
\<close>

definition wf_graph :: "heap \<Rightarrow> DirectedGraph \<Rightarrow> bool" where
  "wf_graph h g \<longleftrightarrow>
     distinct (keys (dg_nodes g)) \<and> distinct (keys (dg_conns g)) \<and>
     list_all (\<lambda>(n, r). n = node_name (h r)) (dg_nodes g) \<and>
     list_all (\<lambda>(k, c). k = makeKey h c \<and> gc_from c \<in> set (vals (dg_nodes g)) \<and>
       gc_to c \<in> set (vals (dg_nodes g))) (dg_conns g)"

definition nodes_of :: "DirectedGraph \<Rightarrow> noderef set" where
  "nodes_of g = set (vals (dg_nodes g))"

definition conns_of :: "DirectedGraph \<Rightarrow> GraphConnection set" where
  "conns_of g = set (vals (dg_conns g))"

definition edge_rel :: "DirectedGraph \<Rightarrow> (noderef \<times> noderef) set" where
  "edge_rel g = {(gc_from c, gc_to c) | c. c \<in> conns_of g}"

lemma wf_graph_iff:
  "wf_graph h g \<longleftrightarrow>
     distinct (keys (dg_nodes g)) \<and> distinct (keys (dg_conns g)) \<and>
     (\<forall>n r. (n, r) \<in> set (dg_nodes g) \<longrightarrow> n = node_name (h r)) \<and>
     (\<forall>k c. (k, c) \<in> set (dg_conns g) \<longrightarrow>
        k = makeKey h c \<and> gc_from c \<in> nodes_of g \<and> gc_to c \<in> nodes_of g)"
  by (auto simp: wf_graph_def list_all_iff nodes_of_def)

lemma wf_graphD:
  assumes "wf_graph h g"
  shows "distinct (keys (dg_nodes g))" "distinct (keys (dg_conns g))"
    "(n, r) \<in> set (dg_nodes g) \<Longrightarrow> n = node_name (h r)"
    "c \<in> conns_of g \<Longrightarrow> (makeKey h c, c) \<in> set (dg_conns g)"
    "c \<in> conns_of g \<Longrightarrow> gc_from c \<in> nodes_of g" "c \<in> conns_of g \<Longrightarrow> gc_to c \<in> nodes_of g"
  using assms by (auto simp: wf_graph_iff conns_of_def)

lemma finite_graph [simp]: "finite (nodes_of g)" "finite (conns_of g)" "finite (edge_rel g)"
proof -
  show "finite (nodes_of g)" "finite (conns_of g)" by (simp_all add: nodes_of_def conns_of_def)
  have "edge_rel g = (\<lambda>c. (gc_from c, gc_to c)) ` conns_of g" by (auto simp: edge_rel_def)
  then show "finite (edge_rel g)" by (simp add: conns_of_def)
qed

lemma nodeExists_iff:
  assumes "wf_graph h g"
  shows "nodeExists h g r \<longleftrightarrow> r \<in> nodes_of g"
proof
  assume "nodeExists h g r"
  then show "r \<in> nodes_of g"
    by (force simp: nodeExists_def nodes_of_def dest: map_of_SomeD)
next
  assume "r \<in> nodes_of g"
  then obtain n where "(n, r) \<in> set (dg_nodes g)" by (auto simp: nodes_of_def)
  then show "nodeExists h g r"
    using wf_graphD(1) [OF assms] wf_graphD(3) [OF assms, of n r]
    by (simp add: nodeExists_def keys_def)
qed

lemma direct_children:
  assumes "wf_graph h g" "r \<in> nodes_of g"
  shows "getDirectChildConnections h g r = Inr (filter (\<lambda>c. gc_from c = r) (vals (dg_conns g)))"
  using assms by (simp add: getDirectChildConnections_def nodeExists_iff)

lemma direct_parents:
  assumes "wf_graph h g" "r \<in> nodes_of g"
  shows "getDirectParentConnections h g r = Inr (filter (\<lambda>c. gc_to c = r) (vals (dg_conns g)))"
  using assms by (simp add: getDirectParentConnections_def nodeExists_iff)

lemma direct_children_sub:
  "getDirectChildConnections h g r = Inr cs \<Longrightarrow> set cs = {c \<in> conns_of g. gc_from c = r}"
  by (auto simp: getDirectChildConnections_def result_simps conns_of_def simp del: vals_simps)

lemma direct_parents_sub:
  "getDirectParentConnections h g r = Inr cs \<Longrightarrow> set cs = {c \<in> conns_of g. gc_to c = r}"
  by (auto simp: getDirectParentConnections_def result_simps conns_of_def simp del: vals_simps)

section \<open>The operations keep the invariant\<close>

lemma wf_new [simp]: "wf_graph h newDirectedGraph"
  by (simp add: wf_graph_def newDirectedGraph_def)

lemma new_sets [simp]: "nodes_of newDirectedGraph = {}" "conns_of newDirectedGraph = {}"
  by (simp_all add: nodes_of_def conns_of_def newDirectedGraph_def)

lemma conns_of_addNode [simp]: "conns_of (addNode h r g) = conns_of g"
  by (simp add: conns_of_def addNode_def)

text \<open>
  \<open>addNode\<close> files the node under its name: it must be new, or already the node of that name,
  because the connections of a node that it displaced would dangle.
\<close>

definition name_free :: "heap \<Rightarrow> DirectedGraph \<Rightarrow> noderef \<Rightarrow> bool" where
  "name_free h g r \<longleftrightarrow> r \<in> nodes_of g \<or> node_name (h r) \<notin> fst ` set (dg_nodes g)"

lemma entry_of_node: "wf_graph h g \<Longrightarrow> r \<in> nodes_of g \<Longrightarrow> (node_name (h r), r) \<in> set (dg_nodes g)"
  using wf_graphD(3) by (fastforce simp: nodes_of_def)

lemma node_name_inj:
  assumes "wf_graph h g" "r \<in> nodes_of g" "r' \<in> nodes_of g" "node_name (h r) = node_name (h r')"
  shows "r = r'"
  using assms entry_of_node nodeExists_iff unfolding nodeExists_def by (metis option.inject)

lemma addNode_nodes:
  assumes "wf_graph h g" "name_free h g r"
  shows "nodes_of (addNode h r g) = insert r (nodes_of g)"
proof -
  have e: "set (map_put (node_name (h r)) r (dg_nodes g)) =
      insert (node_name (h r), r) {e \<in> set (dg_nodes g). fst e \<noteq> node_name (h r)}"
    by (rule jsmap.entries_put [OF wf_graphD(1) [OF assms(1)]])
  have "q = r" if "(node_name (h r), q) \<in> set (dg_nodes g)" for q
  proof -
    have "r \<in> nodes_of g" using that assms(2) by (force simp: name_free_def)
    moreover have "q \<in> nodes_of g" using that by (force simp: nodes_of_def)
    ultimately show ?thesis
      using node_name_inj [OF assms(1)] wf_graphD(3) [OF assms(1) that] by metis
  qed
  then show ?thesis by (force simp: nodes_of_def addNode_def e)
qed

lemma wf_addNode:
  assumes "wf_graph h g" "name_free h g r"
  shows "wf_graph h (addNode h r g)"
  using assms(1) addNode_nodes [OF assms]
  by (auto simp: wf_graph_iff jsmap.distinct_put jsmap.entries_put addNode_def)

lemma set_connection_sets:
  assumes "wf_graph h g"
  shows "nodes_of (set_connection h c g) = nodes_of g"
    "conns_of (set_connection h c g) = insert c {d \<in> conns_of g. makeKey h d \<noteq> makeKey h c}"
proof -
  show "nodes_of (set_connection h c g) = nodes_of g"
    by (simp add: nodes_of_def set_connection_def)
  have "set (map_put (makeKey h c) c (dg_conns g)) =
      insert (makeKey h c, c) {e \<in> set (dg_conns g). fst e \<noteq> makeKey h c}"
    by (rule jsmap.entries_put [OF wf_graphD(2) [OF assms]])
  moreover have "fst e = makeKey h (snd e)" if "e \<in> set (dg_conns g)" for e
    using that assms by (cases e) (auto simp: wf_graph_iff)
  ultimately show "conns_of (set_connection h c g) =
      insert c {d \<in> conns_of g. makeKey h d \<noteq> makeKey h c}"
    by (force simp: conns_of_def set_connection_def)
qed

lemma wf_set_connection:
  assumes "wf_graph h g" "gc_from c \<in> nodes_of g" "gc_to c \<in> nodes_of g"
  shows "wf_graph h (set_connection h c g)"
  using assms unfolding wf_graph_iff set_connection_sets(1) [OF assms(1)]
  by (auto simp: jsmap.distinct_put jsmap.entries_put set_connection_def)

lemma complete_input_of [simp]: "complete_input (input_of c) = c"
  by (simp add: complete_input_def input_of_def dflt_def)

lemma input_of_ends [simp]: "ci_from (input_of c) = gc_from c" "ci_to (input_of c) = gc_to c"
  by (simp_all add: input_of_def)

lemma complete_input_ends [simp]:
  "gc_from (complete_input i) = ci_from i" "gc_to (complete_input i) = ci_to i"
  by (simp_all add: complete_input_def)

lemma addConnection_eq:
  assumes "wf_graph h g"
  shows "addConnection h i g =
    (if ci_from i \<in> nodes_of g \<and> ci_to i \<in> nodes_of g
     then Inr (set_connection h (complete_input i) g) else Inl AssertionError)"
  using assms by (simp add: addConnection_def nodeExists_iff assert_ok_def)

lemma wf_addConnection:
  assumes "wf_graph h g" "addConnection h i g = Inr g'"
  shows "wf_graph h g'"
  using assms(2) wf_set_connection [OF assms(1)]
  by (auto simp: addConnection_eq [OF assms(1)] split: if_splits)

lemma drop_connections_sets [simp]:
  "nodes_of (drop_connections r g) = nodes_of g"
  "conns_of (drop_connections r g) = {c \<in> conns_of g. gc_to c \<noteq> r \<and> gc_from c \<noteq> r}"
  by (force simp: nodes_of_def conns_of_def drop_connections_def)+

lemma wf_drop_connections: "wf_graph h g \<Longrightarrow> wf_graph h (drop_connections r g)"
  unfolding wf_graph_iff drop_connections_sets(1)
  by (auto simp: drop_connections_def keys_def distinct_map_filter)

lemma delete_node_nodes:
  assumes "wf_graph h g"
  shows "nodes_of (delete_node h r g) = {q \<in> nodes_of g. node_name (h q) \<noteq> node_name (h r)}"
proof -
  have "fst e = node_name (h (snd e))" if "e \<in> set (dg_nodes g)" for e
    using that assms by (cases e) (auto simp: wf_graph_iff)
  then show ?thesis by (force simp: nodes_of_def delete_node_def map_delete_set)
qed

lemma delete_node_conns [simp]: "conns_of (delete_node h r g) = conns_of g"
  by (simp add: conns_of_def delete_node_def)

lemma wf_delete_node:
  assumes "wf_graph h g" "r \<in> nodes_of g" "\<And>c. c \<in> conns_of g \<Longrightarrow> gc_from c \<noteq> r \<and> gc_to c \<noteq> r"
  shows "wf_graph h (delete_node h r g)" "nodes_of (delete_node h r g) = nodes_of g - {r}"
proof -
  show n: "nodes_of (delete_node h r g) = nodes_of g - {r}"
    using delete_node_nodes [OF assms(1)] node_name_inj [OF assms(1)] assms(2) by blast
  have "gc_from c \<in> nodes_of g - {r}" "gc_to c \<in> nodes_of g - {r}" if "(k, c) \<in> set (dg_conns g)" for k c
    using that assms(1) assms(3) [of c] by (force simp: wf_graph_iff conns_of_def)+
  then show "wf_graph h (delete_node h r g)"
    using assms(1) unfolding wf_graph_iff n
    by (auto simp: delete_node_def map_delete_set map_delete_distinct)
qed

lemma wf_removeNode:
  assumes "wf_graph h g" "r \<in> nodes_of g"
  shows "wf_graph h (removeNode h r g)" "nodes_of (removeNode h r g) = nodes_of g - {r}"
    "conns_of (removeNode h r g) = {c \<in> conns_of g. gc_to c \<noteq> r \<and> gc_from c \<noteq> r}"
  using wf_delete_node [OF wf_drop_connections [OF assms(1)], of r r] assms(2)
  by (auto simp: removeNode_def)

end
