(* ===== verification/Graph_Traversal.thy ===== *)
theory Graph_Traversal
  imports Directed_Graph
begin

text \<open>
  The recursive traversals of \<open>DirectedGraph\<close>: \<open>getChildren\<close>, \<open>getParentConnections\<close> and
  \<open>depthFirstSearch\<close>. Each threads the set the code mutates, so the recursion is nested; the
  set only grows, which is why it ends. Each is characterised by reachability in the edge
  relation of the graph.
\<close>

section \<open>Children\<close>

text \<open>The \<open>for\<close> loop of \<open>getChildrenRecursive\<close>, with the recursive call inlined.\<close>

function children_loop ::
    "heap \<Rightarrow> DirectedGraph \<Rightarrow> GraphConnection list \<Rightarrow> noderef list \<Rightarrow> noderef list result" where
  "children_loop h g [] children = Inr children"
| "children_loop h g (directChild # cs) children =
     (if gc_to directChild \<in> set children then children_loop h g cs children
      else rbind (getDirectChildConnections h g (gc_to directChild)) (\<lambda>ds.
        rbind (children_loop h g ds (set_add (gc_to directChild) children)) (\<lambda>children'.
          children_loop h g cs children')))"
  by pat_completeness auto

lemma children_loop_grows:
  "children_loop_dom (h, g, cs, ch) \<Longrightarrow> children_loop h g cs ch = Inr ch' \<Longrightarrow> set ch \<subseteq> set ch'"
proof (induction h g cs ch arbitrary: ch' rule: children_loop.pinduct)
  case (1 h g ch)
  then show ?case by (simp add: children_loop.psimps)
next
  case (2 h g c cs ch)
  show ?case
  proof (cases "gc_to c \<in> set ch")
    case True
    then show ?thesis using 2 by (simp add: children_loop.psimps)
  next
    case False
    then obtain ds u where u: "getDirectChildConnections h g (gc_to c) = Inr ds"
        "children_loop h g ds (set_add (gc_to c) ch) = Inr u" "children_loop h g cs u = Inr ch'"
      using 2 by (auto simp: children_loop.psimps result_simps)
    then have "set (set_add (gc_to c) ch) \<subseteq> set u" "set u \<subseteq> set ch'"
      using "2.IH"(2) [OF False u(1) u(2)] "2.IH"(3) [OF False u(1) u(2) u(3)] by blast+
    then show ?thesis by auto
  qed
qed

lemma card_less_insert:
  assumes "finite A" "x \<in> A" "x \<notin> set s" "B \<subseteq> A" "insert x (set s) \<subseteq> set t"
  shows "card (B - set t) < card (A - set s)"
proof (rule psubset_card_mono)
  show "finite (A - set s)" using assms by simp
  show "B - set t \<subset> A - set s" using assms by blast
qed

termination children_loop
proof (relation "measures [\<lambda>(h, g, cs, ch). card (gc_to ` (conns_of g \<union> set cs) - set ch),
    \<lambda>(h, g, cs, ch). length cs]", goal_cases)
  case 1
  then show ?case by simp
next
  case (2 h g c cs ch)
  have "card (gc_to ` (conns_of g \<union> set cs) - set ch) \<le> card (gc_to ` (conns_of g \<union> set (c # cs)) - set ch)"
    by (rule card_mono) auto
  then show ?case by auto
next
  case (3 h g c cs ch ds)
  have "card (gc_to ` (conns_of g \<union> set ds) - set (set_add (gc_to c) ch)) <
      card (gc_to ` (conns_of g \<union> set (c # cs)) - set ch)"
    by (rule card_less_insert [of _ "gc_to c"]) (use 3 direct_children_sub in auto)
  then show ?case by simp
next
  case (4 h g c cs ch ds ch')
  have "insert (gc_to c) (set ch) \<subseteq> set ch'"
    using children_loop_grows [OF 4(4)] 4(3) by simp
  then have "card (gc_to ` (conns_of g \<union> set cs) - set ch') <
      card (gc_to ` (conns_of g \<union> set (c # cs)) - set ch)"
    by (intro card_less_insert [of _ "gc_to c"]) (use 4 in auto)
  then show ?case by simp
qed

definition getChildrenRecursive ::
    "heap \<Rightarrow> DirectedGraph \<Rightarrow> noderef \<Rightarrow> noderef list \<Rightarrow> noderef list result" where
  "getChildrenRecursive h g node children =
     rbind (getDirectChildConnections h g node) (\<lambda>directChildren.
       children_loop h g directChildren children)"

definition getChildren :: "heap \<Rightarrow> DirectedGraph \<Rightarrow> noderef \<Rightarrow> noderef list result" where
  "getChildren h g node = getChildrenRecursive h g node []"

definition edge_targets :: "DirectedGraph \<Rightarrow> noderef \<Rightarrow> noderef set" where
  "edge_targets g r = {x. (r, x) \<in> edge_rel g}"

lemma edge_rel_nodes: "wf_graph h g \<Longrightarrow> (x, y) \<in> edge_rel g \<Longrightarrow> x \<in> nodes_of g \<and> y \<in> nodes_of g"
  using wf_graphD(5,6) by (auto simp: edge_rel_def)

lemma edge_rel_closed:
  assumes "wf_graph h g" "(x, y) \<in> (edge_rel g)\<^sup>*" "x \<in> nodes_of g"
  shows "y \<in> nodes_of g"
  using closed_rtrancl [OF assms(2,3)] edge_rel_nodes [OF assms(1)] by blast

lemma direct_children_edge:
  assumes "getDirectChildConnections h g r = Inr cs"
  shows "gc_to ` set cs = {x. (r, x) \<in> edge_rel g}"
  using direct_children_sub [OF assms] by (auto simp: edge_rel_def)

lemma direct_parents_edge:
  assumes "getDirectParentConnections h g r = Inr cs"
  shows "gc_from ` set cs = {x. (x, r) \<in> edge_rel g}"
  using direct_parents_sub [OF assms] by (auto simp: edge_rel_def)

definition explored :: "('v \<times> 'v) set \<Rightarrow> 'v set \<Rightarrow> 'v list \<Rightarrow> 'v list \<Rightarrow> bool" where
  "explored E from seen seen' \<longleftrightarrow>
     set seen \<union> from \<subseteq> set seen' \<and> set seen' \<subseteq> set seen \<union> E\<^sup>* `` from \<and>
     (\<forall>x \<in> set seen' - set seen. \<forall>y. (x, y) \<in> E \<longrightarrow> y \<in> set seen')"

lemma exploredD:
  assumes "explored E from seen seen'"
  shows "set seen \<subseteq> set seen'" "from \<subseteq> set seen'" "set seen' \<subseteq> set seen \<union> E\<^sup>* `` from"
    "x \<in> set seen' \<Longrightarrow> x \<notin> set seen \<Longrightarrow> (x, y) \<in> E \<Longrightarrow> y \<in> set seen'"
  using assms unfolding explored_def by blast+

text \<open>How the explored sets of consecutive searches compose.\<close>

lemma explored_refl [simp]: "explored E {} seen seen"
  by (simp add: explored_def)

lemma explored_known: "x \<in> set seen \<Longrightarrow> explored E X seen seen' \<Longrightarrow> explored E (insert x X) seen seen'"
  unfolding explored_def by blast

lemma explored_step:
  assumes x: "x \<notin> set seen" and 1: "explored E {y. (x, y) \<in> E} (set_add x seen) s1"
    and 2: "explored E X s1 s2"
  shows "explored E (insert x X) seen s2"
proof -
  have sub: "E\<^sup>* `` {y. (x, y) \<in> E} \<subseteq> E\<^sup>* `` {x}"
  proof
    fix z assume "z \<in> E\<^sup>* `` {y. (x, y) \<in> E}"
    then obtain y where "(x, y) \<in> E" "(y, z) \<in> E\<^sup>*" by blast
    then have "(x, z) \<in> E\<^sup>*" by (rule converse_rtrancl_into_rtrancl)
    then show "z \<in> E\<^sup>* `` {x}" by blast
  qed
  have a: "set seen \<union> insert x X \<subseteq> set s2"
    using exploredD(1,2) [OF 1] exploredD(1,2) [OF 2] by auto
  have b: "set s2 \<subseteq> set seen \<union> E\<^sup>* `` insert x X"
  proof
    fix z assume "z \<in> set s2"
    then have "z \<in> set s1 \<or> z \<in> E\<^sup>* `` X" using exploredD(3) [OF 2] by blast
    moreover have "z \<in> set s1 \<Longrightarrow> z = x \<or> z \<in> set seen \<or> z \<in> E\<^sup>* `` {x}"
      using exploredD(3) [OF 1] sub by auto
    ultimately show "z \<in> set seen \<union> E\<^sup>* `` insert x X" by blast
  qed
  have c: "y \<in> set s2" if "z \<in> set s2 - set seen" "(z, y) \<in> E" for z y
  proof (cases "z \<in> set s1")
    case True
    have "y \<in> set s1"
    proof (cases "z = x")
      case True
      then show ?thesis using that(2) exploredD(2) [OF 1] by blast
    next
      case False
      then show ?thesis using that exploredD(4) [OF 1 True] by simp
    qed
    then show ?thesis using exploredD(1) [OF 2] by blast
  next
    case False
    then show ?thesis using that exploredD(4) [OF 2] by blast
  qed
  show ?thesis unfolding explored_def using a b c by blast
qed

lemma explored_all:
  assumes "explored E from [] seen'"
  shows "set seen' = E\<^sup>* `` from"
proof
  show "set seen' \<subseteq> E\<^sup>* `` from" using exploredD(3) [OF assms] by simp
  show "E\<^sup>* `` from \<subseteq> set seen'"
  proof
    fix y assume "y \<in> E\<^sup>* `` from"
    then obtain x where "x \<in> from" "(x, y) \<in> E\<^sup>*" by auto
    then show "y \<in> set seen'"
      using exploredD(2) [OF assms] exploredD(4) [OF assms, of _ _]
      by (elim closed_rtrancl) auto
  qed
qed

lemma children_loop_spec:
  "wf_graph h g \<Longrightarrow> set cs \<subseteq> conns_of g \<Longrightarrow> distinct ch \<Longrightarrow>
   \<exists>ch'. children_loop h g cs ch = Inr ch' \<and> distinct ch' \<and>
     explored (edge_rel g) (gc_to ` set cs) ch ch'"
proof (induction h g cs ch rule: children_loop.induct [case_names Nil Cons])
  case (Nil h g ch)
  then show ?case by simp
next
  case (Cons h g c cs ch)
  note prems = Cons.prems
  show ?case
  proof (cases "gc_to c \<in> set ch")
    case True
    then obtain ch' where "children_loop h g cs ch = Inr ch'" "distinct ch'"
        "explored (edge_rel g) (gc_to ` set cs) ch ch'"
      using Cons.IH(1) prems by auto
    then show ?thesis using True explored_known [of "gc_to c" ch] by simp
  next
    case False
    have "gc_to c \<in> nodes_of g" using prems wf_graphD(6) by auto
    then obtain ds where ds: "getDirectChildConnections h g (gc_to c) = Inr ds"
      using direct_children [OF prems(1)] by blast
    have sub: "set ds \<subseteq> conns_of g" using direct_children_sub [OF ds] by blast
    obtain u where u: "children_loop h g ds (set_add (gc_to c) ch) = Inr u" "distinct u"
        "explored (edge_rel g) (gc_to ` set ds) (set_add (gc_to c) ch) u"
      using Cons.IH(2) [OF False ds prems(1) sub] prems(3) by auto
    obtain v where v: "children_loop h g cs u = Inr v" "distinct v"
        "explored (edge_rel g) (gc_to ` set cs) u v"
      using Cons.IH(3) [OF False ds u(1) prems(1)] prems u(2) by auto
    have "explored (edge_rel g) (insert (gc_to c) (gc_to ` set cs)) ch v"
      by (rule explored_step [OF False _ v(3)]) (use u(3) direct_children_edge [OF ds] in simp)
    then show ?thesis using False ds u v by simp
  qed
qed

lemma rtrancl_image_edge: "E\<^sup>* `` {y. (x, y) \<in> E} = {y. (x, y) \<in> E\<^sup>+}"
  by (auto simp: trancl_unfold_left)

lemma getChildren_spec:
  assumes "wf_graph h g" "r \<in> nodes_of g"
  shows "\<exists>ch. getChildren h g r = Inr ch \<and> distinct ch \<and> set ch = {x. (r, x) \<in> (edge_rel g)\<^sup>+}"
proof -
  let ?cs = "filter (\<lambda>c. gc_from c = r) (vals (dg_conns g))"
  have ds: "getDirectChildConnections h g r = Inr ?cs" by (rule direct_children [OF assms])
  have "set ?cs \<subseteq> conns_of g" by (auto simp: conns_of_def simp del: vals_simps)
  then obtain ch where ch: "children_loop h g ?cs [] = Inr ch" "distinct ch"
      "explored (edge_rel g) (gc_to ` set ?cs) [] ch"
    using children_loop_spec [OF assms(1), of ?cs "[]"] by auto
  have "set ch = {x. (r, x) \<in> (edge_rel g)\<^sup>+}"
    using explored_all [OF ch(3)] unfolding direct_children_edge [OF ds] rtrancl_image_edge by simp
  then show ?thesis using ch ds by (simp add: getChildren_def getChildrenRecursive_def)
qed

section \<open>Parent connections\<close>

function parents_loop ::
    "heap \<Rightarrow> DirectedGraph \<Rightarrow> GraphConnection list \<Rightarrow> GraphConnection list \<Rightarrow> GraphConnection list result" where
  "parents_loop h g [] connections = Inr connections"
| "parents_loop h g (connection # cs) connections =
     (if connection \<in> set connections then parents_loop h g cs connections
      else rbind (getDirectParentConnections h g (gc_from connection)) (\<lambda>ds.
        rbind (parents_loop h g ds (set_add connection connections)) (\<lambda>connections'.
          parents_loop h g cs connections')))"
  by pat_completeness auto

lemma parents_loop_grows:
  "parents_loop_dom (h, g, cs, s) \<Longrightarrow> parents_loop h g cs s = Inr s' \<Longrightarrow> set s \<subseteq> set s'"
proof (induction h g cs s arbitrary: s' rule: parents_loop.pinduct)
  case (1 h g s)
  then show ?case by (simp add: parents_loop.psimps)
next
  case (2 h g c cs s)
  show ?case
  proof (cases "c \<in> set s")
    case True
    then show ?thesis using 2 by (simp add: parents_loop.psimps)
  next
    case False
    then obtain ds u where u: "getDirectParentConnections h g (gc_from c) = Inr ds"
        "parents_loop h g ds (set_add c s) = Inr u" "parents_loop h g cs u = Inr s'"
      using 2 by (auto simp: parents_loop.psimps result_simps)
    then have "set (set_add c s) \<subseteq> set u" "set u \<subseteq> set s'"
      using "2.IH"(2) [OF False u(1) u(2)] "2.IH"(3) [OF False u(1) u(2) u(3)] by blast+
    then show ?thesis by auto
  qed
qed

termination parents_loop
proof (relation "measures [\<lambda>(h, g, cs, s). card ((conns_of g \<union> set cs) - set s),
    \<lambda>(h, g, cs, s). length cs]", goal_cases)
  case 1
  then show ?case by simp
next
  case (2 h g c cs s)
  have "card ((conns_of g \<union> set cs) - set s) \<le> card ((conns_of g \<union> set (c # cs)) - set s)"
    by (rule card_mono) auto
  then show ?case by auto
next
  case (3 h g c cs s ds)
  have "card ((conns_of g \<union> set ds) - set (set_add c s)) < card ((conns_of g \<union> set (c # cs)) - set s)"
    by (rule card_less_insert [of _ c]) (use 3 direct_parents_sub in auto)
  then show ?case by simp
next
  case (4 h g c cs s ds s')
  have "insert c (set s) \<subseteq> set s'"
    using parents_loop_grows [OF 4(4)] 4(3) by simp
  then have "card ((conns_of g \<union> set cs) - set s') < card ((conns_of g \<union> set (c # cs)) - set s)"
    by (intro card_less_insert [of _ c]) (use 4 in auto)
  then show ?case by simp
qed

definition getParentConnectionsRecursive ::
    "heap \<Rightarrow> DirectedGraph \<Rightarrow> noderef \<Rightarrow> GraphConnection list \<Rightarrow> GraphConnection list result" where
  "getParentConnectionsRecursive h g node connections =
     rbind (getDirectParentConnections h g node) (\<lambda>parentConnections.
       parents_loop h g parentConnections connections)"

definition getParentConnections :: "heap \<Rightarrow> DirectedGraph \<Rightarrow> noderef \<Rightarrow> GraphConnection list result" where
  "getParentConnections h g node = getParentConnectionsRecursive h g node []"

text \<open>The search moves from a connection to the connections into its source.\<close>

definition upstream :: "DirectedGraph \<Rightarrow> (GraphConnection \<times> GraphConnection) set" where
  "upstream g = {(c, d). d \<in> conns_of g \<and> gc_to d = gc_from c}"

lemma parents_loop_spec:
  "wf_graph h g \<Longrightarrow> set cs \<subseteq> conns_of g \<Longrightarrow> distinct s \<Longrightarrow>
   \<exists>s'. parents_loop h g cs s = Inr s' \<and> distinct s' \<and> explored (upstream g) (set cs) s s'"
proof (induction h g cs s rule: parents_loop.induct [case_names Nil Cons])
  case (Nil h g s)
  then show ?case by simp
next
  case (Cons h g c cs s)
  note prems = Cons.prems
  show ?case
  proof (cases "c \<in> set s")
    case True
    then obtain s' where "parents_loop h g cs s = Inr s'" "distinct s'"
        "explored (upstream g) (set cs) s s'"
      using Cons.IH(1) prems by auto
    then show ?thesis using True explored_known [of c s] by simp
  next
    case False
    have "gc_from c \<in> nodes_of g" using prems wf_graphD(5) by auto
    then obtain ds where ds: "getDirectParentConnections h g (gc_from c) = Inr ds"
      using direct_parents [OF prems(1)] by blast
    have sub: "set ds \<subseteq> conns_of g" using direct_parents_sub [OF ds] by blast
    have up: "{d. (c, d) \<in> upstream g} = set ds"
      using direct_parents_sub [OF ds] by (auto simp: upstream_def)
    obtain u where u: "parents_loop h g ds (set_add c s) = Inr u" "distinct u"
        "explored (upstream g) (set ds) (set_add c s) u"
      using Cons.IH(2) [OF False ds prems(1) sub] prems(3) by auto
    obtain v where v: "parents_loop h g cs u = Inr v" "distinct v"
        "explored (upstream g) (set cs) u v"
      using Cons.IH(3) [OF False ds u(1) prems(1)] prems u(2) by auto
    have "explored (upstream g) (insert c (set cs)) s v"
      by (rule explored_step [OF False _ v(3)]) (use u(3) up in simp)
    then show ?thesis using False ds u v by simp
  qed
qed

lemma upstream_reach:
  assumes "(c, d) \<in> (upstream g)\<^sup>*" "c \<in> conns_of g"
  shows "d \<in> conns_of g \<and> (gc_to d, gc_to c) \<in> (edge_rel g)\<^sup>*"
  using assms
proof induction
  case base
  then show ?case by simp
next
  case (step d e)
  then have "(gc_to e, gc_to d) \<in> edge_rel g"
    by (auto simp: upstream_def edge_rel_def intro!: exI [of _ d])
  then show ?case using step by (auto simp: upstream_def intro: converse_rtrancl_into_rtrancl)
qed

lemma reach_upstream:
  assumes "(x, r) \<in> (edge_rel g)\<^sup>*" "d \<in> conns_of g" "gc_to d = x"
  shows "\<exists>c \<in> conns_of g. gc_to c = r \<and> (c, d) \<in> (upstream g)\<^sup>*"
  using assms
proof induction
  case base
  then show ?case by blast
next
  case (step y z)
  then obtain c where c: "c \<in> conns_of g" "gc_to c = y" "(c, d) \<in> (upstream g)\<^sup>*" by blast
  obtain e where e: "e \<in> conns_of g" "gc_from e = y" "gc_to e = z"
    using step.hyps(2) by (auto simp: edge_rel_def)
  then have "(e, c) \<in> upstream g" using c by (simp add: upstream_def)
  then have "(e, d) \<in> (upstream g)\<^sup>*" using c(3) by (rule converse_rtrancl_into_rtrancl)
  then show ?case using e by blast
qed

lemma getParentConnections_spec:
  assumes "wf_graph h g" "r \<in> nodes_of g"
  shows "\<exists>cs. getParentConnections h g r = Inr cs \<and> distinct cs \<and>
    set cs = {c \<in> conns_of g. (gc_to c, r) \<in> (edge_rel g)\<^sup>*}"
proof -
  let ?ps = "filter (\<lambda>c. gc_to c = r) (vals (dg_conns g))"
  have ds: "getDirectParentConnections h g r = Inr ?ps" by (rule direct_parents [OF assms])
  have ps: "set ?ps = {c \<in> conns_of g. gc_to c = r}" by (rule direct_parents_sub [OF ds])
  then obtain cs where cs: "parents_loop h g ?ps [] = Inr cs" "distinct cs"
      "explored (upstream g) (set ?ps) [] cs"
    using parents_loop_spec [OF assms(1), of ?ps "[]"] by auto
  have "set cs = (upstream g)\<^sup>* `` {c \<in> conns_of g. gc_to c = r}"
    using explored_all [OF cs(3)] unfolding ps .
  also have "\<dots> = {c \<in> conns_of g. (gc_to c, r) \<in> (edge_rel g)\<^sup>*}"
    using upstream_reach reach_upstream by fastforce
  finally show ?thesis using cs ds
    by (simp add: getParentConnections_def getParentConnectionsRecursive_def)
qed

section \<open>Depth-first search\<close>

text \<open>
  \<open>depthFirstSearchRecursive\<close> over the list of nodes still to be tried at one level: the call
  on one node is the search of a singleton list, and the loop over its children searches the
  list of their ends. The first component is the node found, if any, the second the set
  \<open>seen\<close>.
\<close>

function dfs_list ::
    "heap \<Rightarrow> DirectedGraph \<Rightarrow> (noderef \<Rightarrow> bool) \<Rightarrow> noderef list \<Rightarrow> noderef list \<Rightarrow> (noderef option \<times> noderef list) result" where
  "dfs_list h g fn [] seen = Inr (None, seen)"
| "dfs_list h g fn (from # rs) seen =
     (if from \<in> set seen then dfs_list h g fn rs seen
      else if fn from then Inr (Some from, set_add from seen)
      else rbind (getDirectChildConnections h g from) (\<lambda>cs.
        rbind (dfs_list h g fn (map gc_to cs) (set_add from seen)) (\<lambda>(found, seen').
          case found of Some x \<Rightarrow> Inr (Some x, seen') | None \<Rightarrow> dfs_list h g fn rs seen')))"
  by pat_completeness auto

lemma dfs_list_grows:
  "dfs_list_dom (h, g, fn, rs, s) \<Longrightarrow> dfs_list h g fn rs s = Inr (f, s') \<Longrightarrow> set s \<subseteq> set s'"
proof (induction h g fn rs s arbitrary: f s' rule: dfs_list.pinduct)
  case (1 h g fn s)
  then show ?case by (simp add: dfs_list.psimps)
next
  case (2 h g fn r rs s)
  show ?case
  proof (cases "r \<in> set s \<or> fn r")
    case True
    then show ?thesis using 2 by (auto simp: dfs_list.psimps split: if_splits)
  next
    case False
    then obtain cs f1 s1 where 1: "getDirectChildConnections h g r = Inr cs"
        "dfs_list h g fn (map gc_to cs) (set_add r s) = Inr (f1, s1)"
        "(case f1 of Some x \<Rightarrow> Inr (Some x, s1) | None \<Rightarrow> dfs_list h g fn rs s1) = Inr (f, s')"
      using 2 by (auto simp: dfs_list.psimps result_simps)
    have a: "set (set_add r s) \<subseteq> set s1" using "2.IH"(2) [of cs f1 s1] False 1 by blast
    show ?thesis
    proof (cases f1)
      case None
      then have "set s1 \<subseteq> set s'" using "2.IH"(3) [of cs "(f1, s1)" f1 s1 f s'] False 1 by simp
      with a show ?thesis by auto
    next
      case (Some x)
      then show ?thesis using a 1 by auto
    qed
  qed
qed

termination dfs_list
proof (relation "measures [\<lambda>(h, g, fn, rs, s). card ((gc_to ` conns_of g \<union> set rs) - set s),
    \<lambda>(h, g, fn, rs, s). length rs]", goal_cases)
  case 1
  then show ?case by simp
next
  case (2 h g fn r rs s)
  have "card ((gc_to ` conns_of g \<union> set rs) - set s) \<le> card ((gc_to ` conns_of g \<union> set (r # rs)) - set s)"
    by (rule card_mono) auto
  then show ?case by auto
next
  case (3 h g fn r rs s cs)
  have "card ((gc_to ` conns_of g \<union> set (map gc_to cs)) - set (set_add r s)) <
      card ((gc_to ` conns_of g \<union> set (r # rs)) - set s)"
    by (rule card_less_insert [of _ r]) (use 3 direct_children_sub in auto)
  then show ?case by simp
next
  case (4 h g fn r rs s cs fs f s')
  have "insert r (set s) \<subseteq> set s'"
    using dfs_list_grows [of h g fn "map gc_to cs" "set_add r s" f s'] 4 by simp
  then have "card ((gc_to ` conns_of g \<union> set rs) - set s') <
      card ((gc_to ` conns_of g \<union> set (r # rs)) - set s)"
    by (intro card_less_insert [of _ r]) (use 4 in auto)
  then show ?case by simp
qed

definition depthFirstSearch ::
    "heap \<Rightarrow> DirectedGraph \<Rightarrow> noderef \<Rightarrow> (noderef \<Rightarrow> bool) \<Rightarrow> noderef option result" where
  "depthFirstSearch h g from fn = rbind (dfs_list h g fn [from] []) (\<lambda>(found, _). Inr found)"

lemma dfs_list_spec:
  "wf_graph h g \<Longrightarrow> set rs \<subseteq> nodes_of g \<Longrightarrow>
   \<exists>f s'. dfs_list h g fn rs s = Inr (f, s') \<and>
     (case f of
        Some x \<Rightarrow> fn x \<and> x \<in> (edge_rel g)\<^sup>* `` set rs
      | None \<Rightarrow> explored (edge_rel g) (set rs) s s' \<and> (\<forall>x \<in> set s' - set s. \<not> fn x))"
proof (induction h g fn rs s rule: dfs_list.induct [case_names Nil Cons])
  case (Nil h g fn s)
  then show ?case by simp
next
  case (Cons h g fn r rs s)
  note prems = Cons.prems
  consider (seen) "r \<in> set s" | (found) "r \<notin> set s" "fn r" | (fresh) "r \<notin> set s" "\<not> fn r" by blast
  then show ?case
  proof cases
    case seen
    then obtain f s' where f: "dfs_list h g fn rs s = Inr (f, s')"
        "case f of Some x \<Rightarrow> fn x \<and> x \<in> (edge_rel g)\<^sup>* `` set rs
          | None \<Rightarrow> explored (edge_rel g) (set rs) s s' \<and> (\<forall>x \<in> set s' - set s. \<not> fn x)"
      using Cons.IH(1) prems by auto
    then show ?thesis using seen explored_known [OF seen]
      by (auto split: option.splits)
  next
    case found
    then show ?thesis by auto
  next
    case fresh
    obtain cs where cs: "getDirectChildConnections h g r = Inr cs"
      using direct_children [OF prems(1)] prems(2) by auto
    have edge: "set (map gc_to cs) = {y. (r, y) \<in> edge_rel g}"
      using direct_children_edge [OF cs] by simp
    have sub: "set (map gc_to cs) \<subseteq> nodes_of g"
      unfolding edge using edge_rel_nodes [OF prems(1)] by blast
    obtain f1 s1 where 1: "dfs_list h g fn (map gc_to cs) (set_add r s) = Inr (f1, s1)"
        "case f1 of Some x \<Rightarrow> fn x \<and> x \<in> (edge_rel g)\<^sup>* `` set (map gc_to cs)
          | None \<Rightarrow> explored (edge_rel g) (set (map gc_to cs)) (set_add r s) s1 \<and>
              (\<forall>x \<in> set s1 - set (set_add r s). \<not> fn x)"
      using Cons.IH(2) [OF fresh cs prems(1) sub] by blast
    show ?thesis
    proof (cases f1)
      case (Some x)
      with 1(2) obtain y where "fn x" "(r, y) \<in> edge_rel g" "(y, x) \<in> (edge_rel g)\<^sup>*"
        unfolding edge by auto
      then have "fn x \<and> (r, x) \<in> (edge_rel g)\<^sup>*" by (metis converse_rtrancl_into_rtrancl)
      then show ?thesis using fresh cs 1(1) Some by auto
    next
      case None
      have e1: "explored (edge_rel g) {y. (r, y) \<in> edge_rel g} (set_add r s) s1"
          and n1: "\<forall>x \<in> set s1 - set (set_add r s). \<not> fn x"
        using 1(2) None unfolding edge by simp_all
      obtain f2 s2 where 2: "dfs_list h g fn rs s1 = Inr (f2, s2)"
          "case f2 of Some x \<Rightarrow> fn x \<and> x \<in> (edge_rel g)\<^sup>* `` set rs
            | None \<Rightarrow> explored (edge_rel g) (set rs) s1 s2 \<and> (\<forall>x \<in> set s2 - set s1. \<not> fn x)"
        using Cons.IH(3) [OF fresh cs 1(1) refl None prems(1)] prems(2) by auto
      have "explored (edge_rel g) (insert r (set rs)) s s2 \<and> (\<forall>x \<in> set s2 - set s. \<not> fn x)"
        if "f2 = None"
      proof
        show "explored (edge_rel g) (insert r (set rs)) s s2"
          using explored_step [OF fresh(1) e1] 2(2) that by simp
        show "\<forall>x \<in> set s2 - set s. \<not> fn x" using n1 2(2) that fresh(2) by auto
      qed
      then show ?thesis using fresh cs 1(1) None 2 by (cases f2) auto
    qed
  qed
qed

lemma depthFirstSearch_spec:
  assumes "wf_graph h g" "r \<in> nodes_of g"
  shows "\<exists>f. depthFirstSearch h g r fn = Inr f \<and>
    (case f of Some x \<Rightarrow> fn x \<and> (r, x) \<in> (edge_rel g)\<^sup>*
      | None \<Rightarrow> (\<forall>x. (r, x) \<in> (edge_rel g)\<^sup>* \<longrightarrow> \<not> fn x))"
proof -
  obtain f s' where f: "dfs_list h g fn [r] [] = Inr (f, s')"
      "case f of Some x \<Rightarrow> fn x \<and> x \<in> (edge_rel g)\<^sup>* `` set [r]
        | None \<Rightarrow> explored (edge_rel g) (set [r]) [] s' \<and> (\<forall>x \<in> set s' - set []. \<not> fn x)"
    using dfs_list_spec [OF assms(1), of "[r]" fn "[]"] assms(2) by auto
  then show ?thesis
    using explored_all [of "edge_rel g" "{r}" s'] by (auto simp: depthFirstSearch_def split: option.splits)
qed

end
