(* ===== verification/Tarjan_Scc.thy ===== *)
theory Tarjan_Scc
  imports Graph_Traversal
begin

text \<open>
  \<open>getStronglyConnectedComponents\<close> of \<open>DirectedGraph\<close>, the code's variant of Tarjan's
  algorithm. It never fails an assertion on a well-formed graph, and what it reports are
  disjoint sets of nodes that reach each other. It does not report every component: the loop
  that pops a component compares low-link values, which need not agree within one.
\<close>

section \<open>The algorithm\<close>

text \<open>The variables the closure \<open>followNode\<close> captures; the top of the stack comes first.\<close>

record tarjan =
  tj_id :: nat
  tj_visited :: "noderef list"
  tj_ids :: "noderef \<Rightarrow> nat option"
  tj_low :: "noderef \<Rightarrow> nat option"
  tj_stack :: "noderef list"
  tj_sccs :: "noderef list list"

definition tarjan_init :: tarjan where
  "tarjan_init = \<lparr>tj_id = 0, tj_visited = [], tj_ids = Map.empty, tj_low = Map.empty,
     tj_stack = [], tj_sccs = []\<rparr>"

definition enter_node :: "noderef \<Rightarrow> tarjan \<Rightarrow> tarjan" where
  "enter_node node st = st\<lparr>tj_visited := set_add node (tj_visited st),
     tj_low := (tj_low st)(node \<mapsto> tj_id st), tj_ids := (tj_ids st)(node \<mapsto> tj_id st),
     tj_id := tj_id st + 1, tj_stack := node # tj_stack st\<rparr>"

definition merge_low :: "noderef \<Rightarrow> noderef \<Rightarrow> tarjan \<Rightarrow> tarjan result" where
  "merge_low node child st =
     (if child \<in> set (tj_stack st) then
        (case (tj_low st child, tj_low st node) of
           (Some childLowLinkValue, Some ownLowLinkValue) \<Rightarrow>
             Inr (st\<lparr>tj_low := (tj_low st)(node \<mapsto> min childLowLinkValue ownLowLinkValue)\<rparr>)
         | _ \<Rightarrow> Inl AssertionError)
      else Inr st)"

fun pop_component ::
    "(noderef \<Rightarrow> nat option) \<Rightarrow> nat \<Rightarrow> noderef list \<Rightarrow> noderef list \<Rightarrow> noderef list \<times> noderef list" where
  "pop_component low ownId [] scc = ([], scc)"
| "pop_component low ownId (next # stack) scc =
     (if low next = Some ownId then pop_component low ownId stack (set_add next scc)
      else (next # stack, scc))"

definition finish_node :: "noderef \<Rightarrow> tarjan \<Rightarrow> tarjan result" where
  "finish_node node st =
     (case (tj_ids st node, tj_low st node) of
        (Some ownId, Some ownLowLinkValue) \<Rightarrow>
          Inr (if ownId = ownLowLinkValue
               then let (stack, scc) = pop_component (tj_low st) ownId (tj_stack st) [] in
                 st\<lparr>tj_stack := stack,
                    tj_sccs := (if length scc > 0 then tj_sccs st @ [scc] else tj_sccs st)\<rparr>
               else st)
      | _ \<Rightarrow> Inl AssertionError)"

text \<open>The loop of \<open>followNode\<close> over the children, with the recursive call inlined.\<close>

function follow_children ::
    "heap \<Rightarrow> DirectedGraph \<Rightarrow> noderef \<Rightarrow> noderef list \<Rightarrow> tarjan \<Rightarrow> tarjan result" where
  "follow_children h g node [] st = Inr st"
| "follow_children h g node (child # cs) st =
     rbind
       (if child \<in> set (tj_visited st) then Inr st
        else rbind (getDirectChildConnections h g child) (\<lambda>ds.
          rbind (follow_children h g child (map gc_to ds) (enter_node child st)) (finish_node child)))
       (\<lambda>st1. rbind (merge_low node child st1) (follow_children h g node cs))"
  by pat_completeness auto

lemma merge_low_visited: "merge_low n c st = Inr st' \<Longrightarrow> tj_visited st' = tj_visited st"
  by (auto simp: merge_low_def split: if_splits option.splits)

lemma finish_node_visited: "finish_node n st = Inr st' \<Longrightarrow> tj_visited st' = tj_visited st"
  by (auto simp: finish_node_def split: if_splits option.splits prod.splits)

lemma enter_node_visited [simp]: "set (tj_visited (enter_node n st)) = insert n (set (tj_visited st))"
  by (simp add: enter_node_def)

lemma follow_children_grows:
  "follow_children_dom (h, g, n, cs, st) \<Longrightarrow> follow_children h g n cs st = Inr st' \<Longrightarrow>
    set (tj_visited st) \<subseteq> set (tj_visited st')"
proof (induction h g n cs st arbitrary: st' rule: follow_children.pinduct)
  case (1 h g n st)
  then show ?case by (simp add: follow_children.psimps)
next
  case (2 h g n c cs st)
  let ?m = "if c \<in> set (tj_visited st) then Inr st
    else rbind (getDirectChildConnections h g c) (\<lambda>ds.
      rbind (follow_children h g c (map gc_to ds) (enter_node c st)) (finish_node c))"
  obtain st1 st2 where 1: "?m = Inr st1" "merge_low n c st1 = Inr st2"
      "follow_children h g n cs st2 = Inr st'"
    using 2 by (auto simp: follow_children.psimps result_simps split: if_splits)
  have "set (tj_visited st2) \<subseteq> set (tj_visited st')" using "2.IH"(2) [OF 1] .
  moreover have "tj_visited st2 = tj_visited st1" using merge_low_visited [OF 1(2)] .
  moreover have "set (tj_visited st) \<subseteq> set (tj_visited st1)"
  proof (cases "c \<in> set (tj_visited st)")
    case True
    then show ?thesis using 1(1) by simp
  next
    case False
    then obtain ds st0 where 0: "getDirectChildConnections h g c = Inr ds"
        "follow_children h g c (map gc_to ds) (enter_node c st) = Inr st0"
        "finish_node c st0 = Inr st1"
      using 1(1) by (auto simp: result_simps)
    then show ?thesis
      using "2.IH"(1) [OF False 0(1) 0(2)] finish_node_visited [OF 0(3)] by auto
  qed
  ultimately show ?case by simp
qed

termination follow_children
proof (relation "measures [\<lambda>(h, g, n, cs, st). card ((gc_to ` conns_of g \<union> set cs) - set (tj_visited st)),
    \<lambda>(h, g, n, cs, st). length cs]", goal_cases)
  case 1
  then show ?case by simp
next
  case (2 h g n c cs st ds)
  have "card ((gc_to ` conns_of g \<union> set (map gc_to ds)) - set (tj_visited (enter_node c st))) <
      card ((gc_to ` conns_of g \<union> set (c # cs)) - set (tj_visited st))"
    by (rule card_less_insert [of _ c]) (use 2 direct_children_sub in auto)
  then show ?case by simp
next
  case (3 h g n c cs st st1 st2)
  have v: "tj_visited st2 = tj_visited st1" using merge_low_visited [OF 3(2)] .
  show ?case
  proof (cases "c \<in> set (tj_visited st)")
    case True
    then have "card ((gc_to ` conns_of g \<union> set cs) - set (tj_visited st2)) \<le>
        card ((gc_to ` conns_of g \<union> set (c # cs)) - set (tj_visited st))"
      using 3(1) v by (intro card_mono) auto
    then show ?thesis by auto
  next
    case False
    then obtain ds st0 where 0: "getDirectChildConnections h g c = Inr ds"
        "follow_children h g c (map gc_to ds) (enter_node c st) = Inr st0"
        "finish_node c st0 = Inr st1"
      using 3(1) by (auto simp: result_simps)
    have "follow_children_dom (h, g, c, map gc_to ds, enter_node c st)" using 3(3) False 0(1) by blast
    then have "insert c (set (tj_visited st)) \<subseteq> set (tj_visited st2)"
      using follow_children_grows [OF _ 0(2)] finish_node_visited [OF 0(3)] v by simp
    then have "card ((gc_to ` conns_of g \<union> set cs) - set (tj_visited st2)) <
        card ((gc_to ` conns_of g \<union> set (c # cs)) - set (tj_visited st))"
      by (intro card_less_insert [of _ c]) (use False in auto)
    then show ?thesis by simp
  qed
qed

definition followNode :: "heap \<Rightarrow> DirectedGraph \<Rightarrow> noderef \<Rightarrow> tarjan \<Rightarrow> tarjan result" where
  "followNode h g node st =
     (if node \<in> set (tj_visited st) then Inr st
      else rbind (getDirectChildConnections h g node) (\<lambda>ds.
        rbind (follow_children h g node (map gc_to ds) (enter_node node st)) (finish_node node)))"

lemma follow_children_Cons:
  "follow_children h g node (child # cs) st =
     rbind (followNode h g child st) (\<lambda>st1.
       rbind (merge_low node child st1) (follow_children h g node cs))"
  by (simp add: followNode_def)

definition getStronglyConnectedComponents :: "heap \<Rightarrow> DirectedGraph \<Rightarrow> noderef list list result" where
  "getStronglyConnectedComponents h g =
     rbind (rfold (followNode h g) (vals (dg_nodes g)) tarjan_init) (\<lambda>st. Inr (tj_sccs st))"

section \<open>What a state of the search promises\<close>

text \<open>
  Visited nodes have distinct ids below the next one; a low-link value is the id of a node
  that can be reached and is never above the node's own id; the stack and the reported
  components are disjoint sets of visited nodes; a reported component is strongly connected.
\<close>

definition strongly_connected :: "(noderef \<times> noderef) set \<Rightarrow> noderef list \<Rightarrow> bool" where
  "strongly_connected E S \<longleftrightarrow> (\<forall>x \<in> set S. \<forall>y \<in> set S. (x, y) \<in> E\<^sup>*)"

definition tj_inv :: "DirectedGraph \<Rightarrow> tarjan \<Rightarrow> bool" where
  "tj_inv g st \<longleftrightarrow>
     set (tj_visited st) \<subseteq> nodes_of g \<and>
     dom (tj_ids st) = set (tj_visited st) \<and> dom (tj_low st) = set (tj_visited st) \<and>
     inj_on (tj_ids st) (set (tj_visited st)) \<and>
     (\<forall>v i. tj_ids st v = Some i \<longrightarrow> i < tj_id st) \<and>
     (\<forall>v l. tj_low st v = Some l \<longrightarrow> l \<le> the (tj_ids st v) \<and>
        (\<exists>w. tj_ids st w = Some l \<and> (v, w) \<in> (edge_rel g)\<^sup>*)) \<and>
     distinct (concat (tj_sccs st) @ tj_stack st) \<and>
     set (concat (tj_sccs st) @ tj_stack st) \<subseteq> set (tj_visited st) \<and>
     (\<forall>S \<in> set (tj_sccs st). S \<noteq> [] \<and> strongly_connected (edge_rel g) S)"

lemma tj_invD:
  assumes "tj_inv g st"
  shows "set (tj_visited st) \<subseteq> nodes_of g"
    "tj_ids st v = Some i \<Longrightarrow> i < tj_id st" "tj_ids st v = Some i \<Longrightarrow> v \<in> set (tj_visited st)"
    "v \<in> set (tj_visited st) \<Longrightarrow> \<exists>i. tj_ids st v = Some i"
    "v \<in> set (tj_visited st) \<Longrightarrow> \<exists>l. tj_low st v = Some l"
    "tj_low st v = Some l \<Longrightarrow> l \<le> the (tj_ids st v)"
    "tj_low st v = Some l \<Longrightarrow> \<exists>w. tj_ids st w = Some l \<and> (v, w) \<in> (edge_rel g)\<^sup>*"
    "tj_ids st v = Some i \<Longrightarrow> tj_ids st w = Some i \<Longrightarrow> v = w"
    "distinct (concat (tj_sccs st))" "distinct (tj_stack st)"
    "set (concat (tj_sccs st)) \<inter> set (tj_stack st) = {}"
    "set (tj_stack st) \<subseteq> set (tj_visited st)" "set (concat (tj_sccs st)) \<subseteq> set (tj_visited st)"
    "S \<in> set (tj_sccs st) \<Longrightarrow> S \<noteq> []" "S \<in> set (tj_sccs st) \<Longrightarrow> strongly_connected (edge_rel g) S"
    "v \<notin> set (tj_visited st) \<Longrightarrow> tj_low st v = None" "v \<notin> set (tj_visited st) \<Longrightarrow> tj_ids st v = None"
proof -
  have vis: "set (tj_visited st) \<subseteq> nodes_of g"
    and ids: "dom (tj_ids st) = set (tj_visited st)" and low: "dom (tj_low st) = set (tj_visited st)"
    and inj: "inj_on (tj_ids st) (set (tj_visited st))"
    and bound: "\<forall>v i. tj_ids st v = Some i \<longrightarrow> i < tj_id st"
    and link: "\<forall>v l. tj_low st v = Some l \<longrightarrow> l \<le> the (tj_ids st v) \<and>
        (\<exists>w. tj_ids st w = Some l \<and> (v, w) \<in> (edge_rel g)\<^sup>*)"
    and dist: "distinct (concat (tj_sccs st) @ tj_stack st)"
    and sub: "set (concat (tj_sccs st) @ tj_stack st) \<subseteq> set (tj_visited st)"
    and comp: "\<forall>S \<in> set (tj_sccs st). S \<noteq> [] \<and> strongly_connected (edge_rel g) S"
    using assms unfolding tj_inv_def by - (elim conjE, assumption)+
  show "set (tj_visited st) \<subseteq> nodes_of g" by (fact vis)
  show "tj_ids st v = Some i \<Longrightarrow> i < tj_id st" using bound by blast
  show "tj_ids st v = Some i \<Longrightarrow> v \<in> set (tj_visited st)" using ids by blast
  show "v \<in> set (tj_visited st) \<Longrightarrow> \<exists>i. tj_ids st v = Some i" using ids by blast
  show "v \<in> set (tj_visited st) \<Longrightarrow> \<exists>l. tj_low st v = Some l" using low by blast
  show "tj_low st v = Some l \<Longrightarrow> l \<le> the (tj_ids st v)" using link by blast
  show "tj_low st v = Some l \<Longrightarrow> \<exists>w. tj_ids st w = Some l \<and> (v, w) \<in> (edge_rel g)\<^sup>*" using link by blast
  show "v = w" if v: "tj_ids st v = Some i" and w: "tj_ids st w = Some i"
  proof -
    have "v \<in> set (tj_visited st)" "w \<in> set (tj_visited st)" using v w ids by blast+
    then show ?thesis using inj_onD [OF inj, of v w] v w by simp
  qed
  show "distinct (concat (tj_sccs st))" "distinct (tj_stack st)"
    "set (concat (tj_sccs st)) \<inter> set (tj_stack st) = {}"
    using dist by (simp_all add: distinct_append)
  show "set (tj_stack st) \<subseteq> set (tj_visited st)" "set (concat (tj_sccs st)) \<subseteq> set (tj_visited st)"
    using sub by simp_all
  show "S \<in> set (tj_sccs st) \<Longrightarrow> S \<noteq> []" "S \<in> set (tj_sccs st) \<Longrightarrow> strongly_connected (edge_rel g) S"
    using comp by blast+
  show "v \<notin> set (tj_visited st) \<Longrightarrow> tj_low st v = None" "v \<notin> set (tj_visited st) \<Longrightarrow> tj_ids st v = None"
    using ids low by blast+
qed

lemma tj_inv_init: "tj_inv g tarjan_init"
  by (simp add: tj_inv_def tarjan_init_def)

lemma tj_inv_enter:
  assumes "tj_inv g st" "r \<in> nodes_of g" "r \<notin> set (tj_visited st)"
  shows "tj_inv g (enter_node r st)"
proof -
  note d = tj_invD [OF assms(1)]
  have "inj_on (tj_ids (enter_node r st)) (insert r (set (tj_visited st)))"
    using d(2,8) by (auto simp: inj_on_def enter_node_def dest: d(4)) (metis d(4) less_irrefl)+
  moreover have "\<exists>w. tj_ids (enter_node r st) w = Some l \<and> (v, w) \<in> (edge_rel g)\<^sup>*"
    if low: "tj_low (enter_node r st) v = Some l" for v l
  proof (cases "v = r")
    case True
    then show ?thesis using low by (auto simp: enter_node_def)
  next
    case False
    then have "tj_low st v = Some l" using low by (simp add: enter_node_def)
    then obtain w where w: "tj_ids st w = Some l" "(v, w) \<in> (edge_rel g)\<^sup>*"
      using d(7) by blast
    moreover have "w \<noteq> r" using d(3) [OF w(1)] assms(3) by blast
    ultimately show ?thesis by (auto simp: enter_node_def)
  qed
  moreover have "l \<le> the (tj_ids (enter_node r st) v)" if "tj_low (enter_node r st) v = Some l" for v l
    using that d(6) by (auto simp: enter_node_def split: if_splits)
  moreover have "dom (tj_ids st) = set (tj_visited st)" "dom (tj_low st) = set (tj_visited st)"
    using assms(1) by (simp_all add: tj_inv_def)
  ultimately show ?thesis
    using assms d(1,2,9-15) unfolding tj_inv_def
    by (auto simp: enter_node_def less_Suc_eq split: if_splits)
qed

lemma tj_inv_merge_low:
  assumes "tj_inv g st" "p \<in> set (tj_visited st)" "(p, c) \<in> edge_rel g"
  shows "\<exists>st'. merge_low p c st = Inr st' \<and> tj_inv g st' \<and> st' = st\<lparr>tj_low := tj_low st'\<rparr>"
proof (cases "c \<in> set (tj_stack st)")
  case True
  note d = tj_invD [OF assms(1)]
  obtain lc lp where l: "tj_low st c = Some lc" "tj_low st p = Some lp"
    using d(5) assms(2) d(12) True by blast
  let ?low = "(tj_low st)(p \<mapsto> min lc lp)"
  have "m \<le> the (tj_ids st v) \<and> (\<exists>w. tj_ids st w = Some m \<and> (v, w) \<in> (edge_rel g)\<^sup>*)"
    if "?low v = Some m" for v m
  proof (cases "v = p \<and> m = lc")
    case True
    obtain w where w: "tj_ids st w = Some lc" "(c, w) \<in> (edge_rel g)\<^sup>*" using d(7) [OF l(1)] by blast
    then have "(p, w) \<in> (edge_rel g)\<^sup>*" using assms(3) by (meson converse_rtrancl_into_rtrancl)
    moreover have "lc \<le> the (tj_ids st p)" using that True d(6) [OF l(2)] by (simp split: if_splits)
    ultimately show ?thesis using w(1) True by blast
  next
    case False
    then have "tj_low st v = Some m" using that l(2) by (auto simp: min_def split: if_splits)
    then show ?thesis using d(6,7) by blast
  qed
  moreover have "dom ?low = set (tj_visited st)"
    using assms(1,2) by (auto simp: tj_inv_def)
  ultimately have "tj_inv g (st\<lparr>tj_low := ?low\<rparr>)"
    using assms(1) unfolding tj_inv_def by auto
  then show ?thesis using True l by (simp add: merge_low_def)
next
  case False
  then show ?thesis using assms(1) by (simp add: merge_low_def)
qed

lemma pop_component_split:
  "distinct (scc @ stack) \<Longrightarrow> \<exists>popped. stack = popped @ fst (pop_component low i stack scc) \<and>
    snd (pop_component low i stack scc) = scc @ popped \<and> (\<forall>v \<in> set popped. low v = Some i)"
proof (induction low i stack scc rule: pop_component.induct)
  case (1 low i scc)
  then show ?case by simp
next
  case (2 low i v stack scc)
  show ?case
  proof (cases "low v = Some i")
    case True
    then obtain popped where "stack = popped @ fst (pop_component low i stack (scc @ [v]))"
        "snd (pop_component low i stack (scc @ [v])) = (scc @ [v]) @ popped" "\<forall>x \<in> set popped. low x = Some i"
      using 2 by (auto simp: set_add_def)
    then show ?thesis using True 2(2) by (intro exI [of _ "v # popped"]) (auto simp: set_add_def)
  next
    case False
    then show ?thesis by simp
  qed
qed

text \<open>
  Finishing a node \<open>r\<close>: what was pushed above it was reached from it, what is popped reaches
  it, and nothing below it is popped because low-link values below it are smaller than its id.
\<close>

lemma tj_inv_finish:
  assumes inv: "tj_inv g st" and stack: "tj_stack st = new @ r # below"
    and reach: "\<forall>v \<in> set new. (r, v) \<in> (edge_rel g)\<^sup>*"
    and below: "\<forall>v \<in> set below. the (tj_ids st v) < the (tj_ids st r)"
  shows "\<exists>st' kept. finish_node r st = Inr st' \<and> tj_inv g st' \<and> tj_stack st' = kept @ below \<and>
    set kept \<subseteq> insert r (set new) \<and> tj_ids st' = tj_ids st \<and> tj_id st' = tj_id st \<and> tj_low st' = tj_low st"
proof -
  note d = tj_invD [OF inv]
  have r: "r \<in> set (tj_visited st)" using d(12) stack by auto
  obtain i l where il: "tj_ids st r = Some i" "tj_low st r = Some l" using d(4,5) r by blast
  show ?thesis
  proof (cases "i = l")
    case False
    then show ?thesis using il inv stack
      by (intro exI [of _ st] exI [of _ "new @ [r]"]) (auto simp: finish_node_def)
  next
    case True
    obtain rest scc where pop: "pop_component (tj_low st) i (tj_stack st) [] = (rest, scc)"
      by (cases "pop_component (tj_low st) i (tj_stack st) []")
    then have split: "tj_stack st = scc @ rest" and low: "\<forall>v \<in> set scc. tj_low st v = Some i"
      using pop_component_split [of "[]" "tj_stack st" "tj_low st" i] d(10) by auto
    have notb: "v \<notin> set scc" if "v \<in> set below" for v
    proof
      assume "v \<in> set scc"
      then have "i \<le> the (tj_ids st v)" using low d(6) by blast
      then show False using below that il(1) by auto
    qed
    have "set scc \<inter> set below = {}" using notb by blast
    then obtain kept where kept: "rest = kept @ below" "new @ [r] = scc @ kept"
    proof -
      have e: "(new @ [r]) @ below = scc @ rest" using split stack by simp
      then consider us where "new @ [r] = scc @ us" "us @ below = rest"
        | us where "(new @ [r]) @ us = scc" "below = us @ rest"
        unfolding append_eq_append_conv2 [of "new @ [r]"] by blast
      then show ?thesis
      proof cases
        case 1
        then show ?thesis using that by blast
      next
        case 2
        then have "us = []" using \<open>set scc \<inter> set below = {}\<close> by (cases us) auto
        then show ?thesis using 2 that [of "[]"] by simp
      qed
    qed
    have setscc: "set scc \<subseteq> insert r (set new)" "set kept \<subseteq> insert r (set new)"
      using kept(2) by (metis Un_subset_iff Un_insert_right list.simps(15) set_append sup_bot_right empty_set order_refl)+
    have fromr: "(r, v) \<in> (edge_rel g)\<^sup>*" if "v \<in> set scc" for v
      using that setscc(1) reach by auto
    have tor: "(v, r) \<in> (edge_rel g)\<^sup>*" if v: "v \<in> set scc" for v
      using d(7) low v d(8) [OF il(1)] by blast
    have sc: "strongly_connected (edge_rel g) scc"
      unfolding strongly_connected_def using fromr tor by (meson rtrancl_trans)
    let ?st = "st\<lparr>tj_stack := rest, tj_sccs := (if length scc > 0 then tj_sccs st @ [scc] else tj_sccs st)\<rparr>"
    have f: "finish_node r st = Inr ?st"
      using il True pop by (simp add: finish_node_def)
    have dis: "distinct (concat (tj_sccs ?st) @ tj_stack ?st)"
      using d(9,10,11) unfolding split by auto
    have sub: "set (concat (tj_sccs ?st) @ tj_stack ?st) \<subseteq> set (tj_visited ?st)"
      using d(12,13) unfolding split by auto
    have "tj_inv g ?st"
      using inv dis sub sc unfolding tj_inv_def by auto
    with f kept setscc(2) show ?thesis by (intro exI [of _ ?st] exI [of _ kept]) auto
  qed
qed

section \<open>The whole search\<close>

definition tj_extends :: "DirectedGraph \<Rightarrow> noderef set \<Rightarrow> tarjan \<Rightarrow> tarjan \<Rightarrow> bool" where
  "tj_extends g from st st' \<longleftrightarrow>
     tj_inv g st' \<and> set (tj_visited st) \<subseteq> set (tj_visited st') \<and> tj_id st \<le> tj_id st' \<and>
     (\<forall>v \<in> set (tj_visited st). tj_ids st' v = tj_ids st v) \<and>
     (\<exists>new. tj_stack st' = new @ tj_stack st \<and> set new \<subseteq> (edge_rel g)\<^sup>* `` from)"

lemma tj_extends_refl: "tj_inv g st \<Longrightarrow> tj_extends g X st st"
  by (simp add: tj_extends_def)

lemma tj_extends_trans:
  assumes "tj_extends g X st st1" "tj_extends g X st1 st2"
  shows "tj_extends g X st st2"
  using assms unfolding tj_extends_def by (auto simp: subset_iff)

lemma tj_extends_mono:
  assumes "tj_extends g X st st1" "(edge_rel g)\<^sup>* `` X \<subseteq> (edge_rel g)\<^sup>* `` Y"
  shows "tj_extends g Y st st1"
  using assms unfolding tj_extends_def by blast

text \<open>Visiting one node, given what the loop over its children does.\<close>

lemma followNode_extends:
  assumes wf: "wf_graph h g" and inv: "tj_inv g st" and c: "c \<in> nodes_of g"
    and loop: "\<And>ds. getDirectChildConnections h g c = Inr ds \<Longrightarrow> c \<notin> set (tj_visited st) \<Longrightarrow>
      \<exists>st'. follow_children h g c (map gc_to ds) (enter_node c st) = Inr st' \<and>
        tj_extends g {c} (enter_node c st) st'"
  shows "\<exists>st'. followNode h g c st = Inr st' \<and> tj_extends g {c} st st' \<and> c \<in> set (tj_visited st')"
proof (cases "c \<in> set (tj_visited st)")
  case True
  then show ?thesis using inv by (simp add: followNode_def tj_extends_refl)
next
  case False
  note d = tj_invD [OF inv]
  obtain ds where ds: "getDirectChildConnections h g c = Inr ds" using direct_children [OF wf c] by blast
  obtain st1 where st1: "follow_children h g c (map gc_to ds) (enter_node c st) = Inr st1"
      "tj_extends g {c} (enter_node c st) st1"
    using loop [OF ds False] by blast
  obtain new where new: "tj_stack st1 = new @ c # tj_stack st" "set new \<subseteq> (edge_rel g)\<^sup>* `` {c}"
    using st1(2) by (auto simp: tj_extends_def enter_node_def)
  have ids: "tj_ids st1 c = Some (tj_id st)" "v \<in> set (tj_visited st) \<Longrightarrow> tj_ids st1 v = tj_ids st v" for v
    using st1(2) False by (auto simp: tj_extends_def enter_node_def)
  have below: "\<forall>v \<in> set (tj_stack st). the (tj_ids st1 v) < the (tj_ids st1 c)"
  proof
    fix v assume "v \<in> set (tj_stack st)"
    then have v: "v \<in> set (tj_visited st)" using d(12) by blast
    then obtain i where "tj_ids st v = Some i" using d(4) by blast
    then show "the (tj_ids st1 v) < the (tj_ids st1 c)" using d(2) ids v by simp
  qed
  have "tj_inv g st1" using st1(2) by (simp add: tj_extends_def)
  then obtain st' kept where f: "finish_node c st1 = Inr st'" "tj_inv g st'" "tj_stack st' = kept @ tj_stack st"
      "set kept \<subseteq> insert c (set new)" "tj_ids st' = tj_ids st1" "tj_id st' = tj_id st1"
    using tj_inv_finish [OF _ new(1) _ below] new(2) by blast
  have "tj_extends g {c} st st'"
    unfolding tj_extends_def
  proof (intro conjI exI [of _ kept])
    show "set (tj_visited st) \<subseteq> set (tj_visited st')" "tj_id st \<le> tj_id st'"
      using st1(2) finish_node_visited [OF f(1)] f(6) by (auto simp: tj_extends_def enter_node_def)
    show "\<forall>v \<in> set (tj_visited st). tj_ids st' v = tj_ids st v" using ids f(5) by simp
    show "set kept \<subseteq> (edge_rel g)\<^sup>* `` {c}" using f(4) new(2) by auto
  qed (use f in auto)
  moreover have "c \<in> set (tj_visited st')"
    using st1(2) finish_node_visited [OF f(1)] by (auto simp: tj_extends_def)
  ultimately show ?thesis using False ds st1(1) f(1) by (simp add: followNode_def)
qed

lemma follow_children_extends:
  "wf_graph h g \<Longrightarrow> tj_inv g st \<Longrightarrow> n \<in> set (tj_visited st) \<Longrightarrow> set cs \<subseteq> {y. (n, y) \<in> edge_rel g} \<Longrightarrow>
   \<exists>st'. follow_children h g n cs st = Inr st' \<and> tj_extends g {n} st st'"
proof (induction h g n cs st rule: follow_children.induct [case_names Nil Cons])
  case (Nil h g n st)
  then show ?case by (simp add: tj_extends_refl)
next
  case (Cons h g n c cs st)
  note wf = Cons.prems(1) and inv = Cons.prems(2)
  have nc: "(n, c) \<in> edge_rel g" using Cons.prems(4) by simp
  have cn: "c \<in> nodes_of g" using edge_rel_nodes [OF wf nc] by blast
  have "\<exists>st'. follow_children h g c (map gc_to ds) (enter_node c st) = Inr st' \<and>
      tj_extends g {c} (enter_node c st) st'"
    if "getDirectChildConnections h g c = Inr ds" "c \<notin> set (tj_visited st)" for ds
    by (rule Cons.IH(1) [OF that(2,1) wf tj_inv_enter [OF inv cn that(2)]])
      (use direct_children_edge [OF that(1)] in auto)
  then obtain st1 where st1: "followNode h g c st = Inr st1" "tj_extends g {c} st st1"
    using followNode_extends [OF wf inv cn] by blast
  have n1: "n \<in> set (tj_visited st1)" and inv1: "tj_inv g st1"
    using st1(2) Cons.prems(3) by (auto simp: tj_extends_def)
  obtain st2 where st2: "merge_low n c st1 = Inr st2" "tj_inv g st2" "st2 = st1\<lparr>tj_low := tj_low st2\<rparr>"
    using tj_inv_merge_low [OF inv1 n1 nc] by blast
  have same: "tj_visited st2 = tj_visited st1" "tj_ids st2 = tj_ids st1" "tj_id st2 = tj_id st1"
      "tj_stack st2 = tj_stack st1"
    by (subst st2(3), simp)+
  obtain st3 where st3: "follow_children h g n cs st2 = Inr st3" "tj_extends g {n} st2 st3"
    using Cons.IH(2) [OF st1(1) [unfolded followNode_def] st2(1) wf st2(2)] n1 same(1) Cons.prems(4) by auto
  have "tj_extends g {n} st1 st2"
    using st2(2) same by (simp add: tj_extends_def)
  moreover have "tj_extends g {n} st st1"
  proof (rule tj_extends_mono [OF st1(2)])
    show "(edge_rel g)\<^sup>* `` {c} \<subseteq> (edge_rel g)\<^sup>* `` {n}"
      using nc by (meson Image_singleton_iff converse_rtrancl_into_rtrancl subsetI)
  qed
  ultimately have "tj_extends g {n} st st3" using st3(2) by (meson tj_extends_trans)
  then show ?case using st1(1) st2(1) st3(1) by (simp add: follow_children_Cons del: follow_children.simps)
qed

lemma followNode_total:
  assumes "wf_graph h g" "tj_inv g st" "c \<in> nodes_of g"
  shows "\<exists>st'. followNode h g c st = Inr st' \<and> tj_extends g {c} st st' \<and> c \<in> set (tj_visited st')"
  by (rule followNode_extends [OF assms])
    (use assms tj_inv_enter direct_children_edge in \<open>auto intro!: follow_children_extends\<close>)

lemma getStronglyConnectedComponents_spec:
  assumes "wf_graph h g"
  shows "\<exists>sccs. getStronglyConnectedComponents h g = Inr sccs \<and> distinct (concat sccs) \<and>
    set (concat sccs) \<subseteq> nodes_of g \<and> (\<forall>S \<in> set sccs. S \<noteq> [] \<and> strongly_connected (edge_rel g) S)"
proof -
  have "\<exists>st. rfold (followNode h g) (vals (dg_nodes g)) tarjan_init = Inr st \<and> tj_inv g st"
  proof (rule rfold_total [where P = "tj_inv g"])
    show "tj_inv g tarjan_init" by (rule tj_inv_init)
  next
    fix r st assume "r \<in> set (vals (dg_nodes g))" "tj_inv g st"
    then show "\<exists>t. followNode h g r st = Inr t \<and> tj_inv g t"
      using followNode_total [OF assms, of st r] unfolding nodes_of_def tj_extends_def by blast
  qed
  then obtain st where st: "rfold (followNode h g) (vals (dg_nodes g)) tarjan_init = Inr st" "tj_inv g st"
    by blast
  note d = tj_invD [OF st(2)]
  show ?thesis
    using st(1) d(1,9,13,14,15) by (auto simp: getStronglyConnectedComponents_def)
qed

end
