(* ===== verification/Graph_Queries.thy ===== *)
theory Graph_Queries
  imports Tarjan_Scc
begin

text \<open>
  What the clients of \<open>DirectedGraph\<close> in the partial execution rely on, as an interface: the
  children of a node, the connections above it, the first node a depth-first search accepts,
  and the reported components, each specified by reachability. The traversals of
  \<open>Graph_Traversal\<close> and \<open>Tarjan_Scc\<close> provide it on every well-formed graph.
\<close>

locale graph_queries =
  fixes ok :: "'g \<Rightarrow> bool"
    and nodes :: "'g \<Rightarrow> 'v set"
    and conns :: "'g \<Rightarrow> 'c set"
    and target :: "'c \<Rightarrow> 'v"
    and edges :: "'g \<Rightarrow> ('v \<times> 'v) set"
    and children :: "'g \<Rightarrow> 'v \<Rightarrow> 'v list result"
    and parent_conns :: "'g \<Rightarrow> 'v \<Rightarrow> 'c list result"
    and find_first :: "'g \<Rightarrow> 'v \<Rightarrow> ('v \<Rightarrow> bool) \<Rightarrow> 'v option result"
    and components :: "'g \<Rightarrow> 'v list list result"
  assumes edges_in_nodes: "ok g \<Longrightarrow> (a, b) \<in> edges g \<Longrightarrow> a \<in> nodes g \<and> b \<in> nodes g"
    and children_spec: "ok g \<Longrightarrow> r \<in> nodes g \<Longrightarrow>
      \<exists>ch. children g r = Inr ch \<and> distinct ch \<and> set ch = {x. (r, x) \<in> (edges g)\<^sup>+}"
    and parent_conns_spec: "ok g \<Longrightarrow> r \<in> nodes g \<Longrightarrow>
      \<exists>cs. parent_conns g r = Inr cs \<and> distinct cs \<and>
        set cs = {c \<in> conns g. (target c, r) \<in> (edges g)\<^sup>*}"
    and find_first_spec: "ok g \<Longrightarrow> r \<in> nodes g \<Longrightarrow>
      \<exists>f. find_first g r p = Inr f \<and>
        (case f of Some x \<Rightarrow> p x \<and> (r, x) \<in> (edges g)\<^sup>*
          | None \<Rightarrow> (\<forall>x. (r, x) \<in> (edges g)\<^sup>* \<longrightarrow> \<not> p x))"
    and components_spec: "ok g \<Longrightarrow>
      \<exists>sccs. components g = Inr sccs \<and> distinct (concat sccs) \<and> set (concat sccs) \<subseteq> nodes g \<and>
        (\<forall>S \<in> set sccs. S \<noteq> [] \<and> (\<forall>x \<in> set S. \<forall>y \<in> set S. (x, y) \<in> (edges g)\<^sup>*))"
begin

lemma reach_nodes: "ok g \<Longrightarrow> r \<in> nodes g \<Longrightarrow> (r, x) \<in> (edges g)\<^sup>* \<Longrightarrow> x \<in> nodes g"
  using closed_rtrancl [of r x "edges g" "nodes g"] edges_in_nodes by blast

lemma self_and_children:
  assumes "ok g" "r \<in> nodes g" "children g r = Inr ch"
  shows "insert r (set ch) = {x. (r, x) \<in> (edges g)\<^sup>*}"
  using children_spec [OF assms(1,2)] assms(3) by (auto simp: rtrancl_eq_or_trancl)

lemma children_iff:
  assumes "ok g" "r \<in> nodes g" "children g r = Inr ch"
  shows "x \<in> set ch \<longleftrightarrow> (r, x) \<in> (edges g)\<^sup>+"
  using children_spec [OF assms(1,2)] assms(3) by auto

text \<open>Entering a component that can be reached from a node.\<close>

lemma find_in_component:
  assumes "ok g" "t \<in> nodes g" "components g = Inr sccs" "S \<in> set sccs" "s \<in> set S"
    and "(t, s) \<in> (edges g)\<^sup>*"
  obtains f where "find_first g t (\<lambda>n. n \<in> set S) = Inr (Some f)" "f \<in> set S"
    "(s, f) \<in> (edges g)\<^sup>*" "(f, s) \<in> (edges g)\<^sup>*" "(t, f) \<in> (edges g)\<^sup>*"
proof -
  obtain f where f: "find_first g t (\<lambda>n. n \<in> set S) = Inr f"
      "case f of Some x \<Rightarrow> x \<in> set S \<and> (t, x) \<in> (edges g)\<^sup>*
        | None \<Rightarrow> (\<forall>x. (t, x) \<in> (edges g)\<^sup>* \<longrightarrow> x \<notin> set S)"
    using find_first_spec [OF assms(1,2)] by blast
  then obtain x where x: "f = Some x" "x \<in> set S" "(t, x) \<in> (edges g)\<^sup>*"
    using assms(5,6) by (auto split: option.splits)
  have sc: "(a, b) \<in> (edges g)\<^sup>*" if "a \<in> set S" "b \<in> set S" for a b
    using components_spec [OF assms(1)] assms(3,4) that by auto
  show thesis using that f(1) x sc [OF assms(5) x(2)] sc [OF x(2) assms(5)] by simp
qed

lemma component_unique:
  assumes "ok g" "components g = Inr sccs" "S \<in> set sccs" "T \<in> set sccs" "x \<in> set S" "x \<in> set T"
  shows "S = T"
proof -
  have d: "distinct (concat sccs)" and ne: "[] \<notin> set sccs"
    using components_spec [OF assms(1)] assms(2) by auto
  have "removeAll [] sccs = sccs" using ne by (simp add: removeAll_id)
  then show ?thesis
    using d assms(3-6) unfolding distinct_concat_iff by auto
qed

end

interpretation dg: graph_queries "wf_graph h" nodes_of conns_of gc_to edge_rel "getChildren h"
    "getParentConnections h" "depthFirstSearch h" "getStronglyConnectedComponents h"
  for h
proof unfold_locales
  fix g sccs r and a b :: noderef and p :: "noderef \<Rightarrow> bool"
  assume wf: "wf_graph h g"
  show "a \<in> nodes_of g \<and> b \<in> nodes_of g" if "(a, b) \<in> edge_rel g"
    by (rule edge_rel_nodes [OF wf that])
  show "\<exists>ch. getChildren h g r = Inr ch \<and> distinct ch \<and> set ch = {x. (r, x) \<in> (edge_rel g)\<^sup>+}"
    if "r \<in> nodes_of g" by (rule getChildren_spec [OF wf that])
  show "\<exists>cs. getParentConnections h g r = Inr cs \<and> distinct cs \<and>
      set cs = {c \<in> conns_of g. (gc_to c, r) \<in> (edge_rel g)\<^sup>*}"
    if "r \<in> nodes_of g" by (rule getParentConnections_spec [OF wf that])
  show "\<exists>f. depthFirstSearch h g r p = Inr f \<and>
      (case f of Some x \<Rightarrow> p x \<and> (r, x) \<in> (edge_rel g)\<^sup>*
        | None \<Rightarrow> (\<forall>x. (r, x) \<in> (edge_rel g)\<^sup>* \<longrightarrow> \<not> p x))"
    if "r \<in> nodes_of g" by (rule depthFirstSearch_spec [OF wf that])
  show "\<exists>sccs. getStronglyConnectedComponents h g = Inr sccs \<and> distinct (concat sccs) \<and>
      set (concat sccs) \<subseteq> nodes_of g \<and>
      (\<forall>S \<in> set sccs. S \<noteq> [] \<and> (\<forall>x \<in> set S. \<forall>y \<in> set S. (x, y) \<in> (edge_rel g)\<^sup>*))"
    using getStronglyConnectedComponents_spec [OF wf] by (simp add: strongly_connected_def)
qed

end
