(* ===== verification/Run_Data.thy ===== *)
theory Run_Data
  imports Directed_Graph
begin

text \<open>
  The run data of an execution and the functions that read it:
  \<open>get-incoming-data.ts\<close> and \<open>run-data-utils.ts\<close> of
  \<open>packages/core/src/execution-engine/partial-execution-utils\<close>.
\<close>

section \<open>Data\<close>

record ISourceData =
  previousNode :: string
  previousNodeOutput :: "nat option"
  previousNodeRun :: "nat option"

record IPairedItemData =
  pi_item :: nat
  pi_input :: "nat option"
  pi_source :: "ISourceData option"

datatype paired_item = PairedNumber nat | PairedItem IPairedItemData | PairedItems "IPairedItemData list"

text \<open>
  An item: its JSON object, its error, an object with a \<open>message\<close>, and the items it stems from. The
  binary data and the other properties are left out.
\<close>

record INodeExecutionData =
  item_json :: "(string \<times> json) list"
  item_error :: "json option"
  item_paired :: "paired_item option"

definition json_item :: "(string \<times> json) list \<Rightarrow> INodeExecutionData" where
  "json_item obj = \<lparr>item_json = obj, item_error = None, item_paired = None\<rparr>"

definition empty_item :: INodeExecutionData where
  "empty_item = json_item []"

type_synonym items = "INodeExecutionData list"
type_synonym ITaskDataConnections = "(NodeConnectionType \<times> items option list) list"

text \<open>
  What the requests of an agent leave on entries and task data: the tools it asked for and the node
  that the items of a tool stem from.
\<close>

record engine_action =
  ea_nodeName :: string
  ea_input :: "(string \<times> json) list"
  ea_type :: NodeConnectionType
  ea_id :: string
  ea_parentNodeName :: "string option"
  ea_itemIndex :: "nat option"

record sub_node_action =
  sa_nodeName :: string
  sa_runIndex :: nat
  sa_action :: engine_action

record sub_node_data =
  sn_actions :: "sub_node_action list"
  sn_metadata :: json

record ITaskMetadata =
  md_subNodeExecutionData :: "sub_node_data option"
  md_preserveSourceOverwrite :: bool
  md_preservedSourceOverwrite :: "ISourceData option"
  md_nodeWasResumed :: bool

datatype task_status = TaskRunning | TaskSuccess | TaskWaiting | TaskError | TaskCanceled

text \<open>The times, hints and credentials of a run are left out.\<close>

record ITaskData =
  executionIndex :: "nat option"
  task_source :: "ISourceData option list"
  task_status :: "task_status option"
  task_error :: "string option"
  task_data :: "ITaskDataConnections option"
  task_inputOverride :: "ITaskDataConnections option"
  task_metadata :: "ITaskMetadata option"

type_synonym IRunData = "(string \<times> ITaskData list) list"
type_synonym IPinData = "(string \<times> items) list"

section \<open>Reading the data of an output\<close>

text \<open>
  \<open>runData[nodeName]?.at(runIndex)?.data?.[connectionType].at(outputIndex) ?? null\<close>: the
  last access is not optional, so data without the connection type is a \<open>TypeError\<close>.
\<close>

definition getIncomingData ::
    "IRunData \<Rightarrow> string \<Rightarrow> int \<Rightarrow> NodeConnectionType \<Rightarrow> nat \<Rightarrow> items option result" where
  "getIncomingData runData nodeName runIndex connectionType outputIndex =
     (case map_of runData nodeName of
        None \<Rightarrow> Inr None
      | Some runs \<Rightarrow> (case js_at runs runIndex of
          None \<Rightarrow> Inr None
        | Some run \<Rightarrow> (case task_data run of
            None \<Rightarrow> Inr None
          | Some data \<Rightarrow> (case map_of data connectionType of
              None \<Rightarrow> Inl TypeError
            | Some outputs \<Rightarrow> Inr (array_get outputs outputIndex)))))"

definition getRunIndexLength :: "IRunData \<Rightarrow> string \<Rightarrow> nat" where
  "getRunIndexLength runData nodeName =
     (case map_of runData nodeName of None \<Rightarrow> 0 | Some runs \<Rightarrow> length runs)"

fun search_runs ::
    "IRunData \<Rightarrow> string \<Rightarrow> NodeConnectionType \<Rightarrow> nat \<Rightarrow> nat list \<Rightarrow> (items \<times> nat) option result" where
  "search_runs runData nodeName connectionType outputIndex [] = Inr None"
| "search_runs runData nodeName connectionType outputIndex (runIndex # ris) =
     rbind (getIncomingData runData nodeName (int runIndex) connectionType outputIndex) (\<lambda>data.
       case data of
         Some (item # its) \<Rightarrow> Inr (Some (item # its, runIndex))
       | _ \<Rightarrow> search_runs runData nodeName connectionType outputIndex ris)"

definition getIncomingDataFromAnyRun ::
    "IRunData \<Rightarrow> string \<Rightarrow> NodeConnectionType \<Rightarrow> nat \<Rightarrow> (items \<times> nat) option result" where
  "getIncomingDataFromAnyRun runData nodeName connectionType outputIndex =
     search_runs runData nodeName connectionType outputIndex [0..<getRunIndexLength runData nodeName]"

lemma search_runs_Some:
  "search_runs rd n t oi ris = Inr (Some (its, ri)) \<Longrightarrow>
    ri \<in> set ris \<and> its \<noteq> [] \<and> getIncomingData rd n (int ri) t oi = Inr (Some its)"
proof (induction ris)
  case Nil
  then show ?case by simp
next
  case (Cons q ris)
  obtain d where d: "getIncomingData rd n (int q) t oi = Inr d"
    using Cons.prems by (auto simp: result_simps)
  consider (hit) i rest where "d = Some (i # rest)" | (miss) "d = None \<or> d = Some []"
    by (metis list.exhaust option.exhaust)
  then show ?case using Cons d by cases auto
qed

lemma search_runs_first:
  "search_runs rd n t oi ris = Inr (Some (its, ri)) \<Longrightarrow> sorted ris \<Longrightarrow> distinct ris \<Longrightarrow> r \<in> set ris \<Longrightarrow> r < ri \<Longrightarrow>
    getIncomingData rd n (int r) t oi \<in> {Inr None, Inr (Some [])}"
proof (induction ris)
  case Nil
  then show ?case by simp
next
  case (Cons q ris)
  obtain d where d: "getIncomingData rd n (int q) t oi = Inr d"
    using Cons.prems(1) by (auto simp: result_simps)
  consider (hit) i rest where "d = Some (i # rest)" | (miss) "d = None \<or> d = Some []"
    by (metis list.exhaust option.exhaust)
  then show ?case
  proof cases
    case hit
    then have "ri = q" using Cons.prems(1) d by simp
    then show ?thesis using Cons.prems by (auto simp: less_le_not_le)
  next
    case miss
    then have "search_runs rd n t oi ris = Inr (Some (its, ri))" using Cons.prems(1) d by auto
    then show ?thesis using Cons miss d by (cases "r = q") auto
  qed
qed

lemma getIncomingDataFromAnyRun_Some:
  assumes "getIncomingDataFromAnyRun rd n t oi = Inr (Some (its, ri))"
  shows "its \<noteq> []" "getIncomingData rd n (int ri) t oi = Inr (Some its)"
    "r < ri \<Longrightarrow> getIncomingData rd n (int r) t oi \<in> {Inr None, Inr (Some [])}"
  using search_runs_Some [OF assms [unfolded getIncomingDataFromAnyRun_def]]
    search_runs_first [OF assms [unfolded getIncomingDataFromAnyRun_def], of r]
  by auto

section \<open>The next execution index\<close>

definition getNextExecutionIndex :: "IRunData \<Rightarrow> nat" where
  "getNextExecutionIndex runData =
     (if length (keys runData) = 0 then 0
      else
        let previousIndices = List.map_filter executionIndex (concat (vals runData)) in
        if length previousIndices = 0 then 0 else Max (set previousIndices) + 1)"

lemma set_map_filter: "set (List.map_filter f xs) = {y. \<exists>x \<in> set xs. f x = Some y}"
  by (induction xs) (auto simp: List.map_filter_simps split: option.splits)

lemma nextExecutionIndex_fresh:
  assumes "t \<in> set (concat (vals rd))" "executionIndex t = Some i"
  shows "i < getNextExecutionIndex rd"
proof -
  let ?p = "List.map_filter executionIndex (concat (vals rd))"
  have m: "i \<in> set ?p" using assms by (auto simp: set_map_filter simp del: vals_simps)
  then have "keys rd \<noteq> []" "?p \<noteq> []" by (cases rd; force simp: List.map_filter_simps)+
  moreover have "i \<le> Max (set ?p)" using m by simp
  ultimately show ?thesis by (simp add: getNextExecutionIndex_def Let_def)
qed

end
