(* ===== verification/Clean_Run_Data.thy ===== *)
theory Clean_Run_Data
  imports Graph_Queries Run_Data
begin

text \<open>
  \<open>clean-run-data.ts\<close>: the run data without the entries of the given nodes, of everything
  behind them, of the sub-nodes above any of these, and of nodes outside the graph.
\<close>

definition delete_sub_nodes :: "heap \<Rightarrow> GraphConnection list \<Rightarrow> IRunData \<Rightarrow> IRunData" where
  "delete_sub_nodes h subNodeConnections rd =
     fold (\<lambda>c rd. if gc_type c = Main then rd else map_delete (node_name (h (gc_from c))) rd)
       subNodeConnections rd"

definition clean_one :: "heap \<Rightarrow> DirectedGraph \<Rightarrow> noderef \<Rightarrow> IRunData \<Rightarrow> IRunData result" where
  "clean_one h g node rd =
     (let rd' = map_delete (node_name (h node)) rd in
      rbind (getParentConnections h g node) (\<lambda>cs. Inr (delete_sub_nodes h cs rd')))"

definition clean_from :: "heap \<Rightarrow> DirectedGraph \<Rightarrow> noderef \<Rightarrow> IRunData \<Rightarrow> IRunData result" where
  "clean_from h g nodeToClean rd =
     (let rd' = map_delete (node_name (h nodeToClean)) rd in
      rbind (getChildren h g nodeToClean) (\<lambda>children.
        rfold (clean_one h g) (nodeToClean # children) rd'))"

definition cleanRunData ::
    "heap \<Rightarrow> IRunData \<Rightarrow> DirectedGraph \<Rightarrow> noderef list \<Rightarrow> IRunData result" where
  "cleanRunData h runData g nodesToClean =
     rbind (rfold (clean_from h g) nodesToClean runData) (\<lambda>newRunData.
       Inr (fold (\<lambda>nodeName rd. if hasNode g nodeName then rd else map_delete nodeName rd)
         (keys newRunData) newRunData))"

section \<open>What is removed\<close>

text \<open>Removing keys is filtering, and a sequence of filters is one filter.\<close>

definition drop_keys :: "string set \<Rightarrow> IRunData \<Rightarrow> IRunData" where
  "drop_keys K rd = filter (\<lambda>e. fst e \<notin> K) rd"

lemma map_delete_drop: "map_delete k rd = drop_keys {k} rd"
  by (simp add: map_delete_def drop_keys_def)

lemma drop_drop [simp]: "drop_keys K (drop_keys L rd) = drop_keys (K \<union> L) rd"
  by (simp add: drop_keys_def conj_commute)

lemma drop_none [simp]: "drop_keys {} rd = rd"
  by (simp add: drop_keys_def)

lemma fold_drop:
  "(\<And>x rd. x \<in> set xs \<Longrightarrow> f x rd = drop_keys (F x) rd) \<Longrightarrow> fold f xs rd = drop_keys (\<Union>x \<in> set xs. F x) rd"
  by (induction xs arbitrary: rd) (simp_all add: Un_commute)

lemma rfold_drop:
  "(\<And>x rd. x \<in> set xs \<Longrightarrow> f x rd = Inr (drop_keys (F x) rd)) \<Longrightarrow>
    rfold f xs rd = Inr (drop_keys (\<Union>x \<in> set xs. F x) rd)"
  by (induction xs arbitrary: rd) (simp_all add: Un_commute)

definition sub_nodes :: "heap \<Rightarrow> DirectedGraph \<Rightarrow> noderef \<Rightarrow> string set" where
  "sub_nodes h g m = {node_name (h (gc_from c)) | c. c \<in> conns_of g \<and> gc_type c \<noteq> Main \<and>
     (gc_to c, m) \<in> (edge_rel g)\<^sup>*}"

definition cleaned :: "heap \<Rightarrow> DirectedGraph \<Rightarrow> noderef list \<Rightarrow> string set" where
  "cleaned h g ns = (\<Union>n \<in> set ns. \<Union>m \<in> {m. (n, m) \<in> (edge_rel g)\<^sup>*}.
     insert (node_name (h m)) (sub_nodes h g m))"

lemma clean_one_drop:
  assumes "wf_graph h g" "m \<in> nodes_of g"
  shows "clean_one h g m rd = Inr (drop_keys (insert (node_name (h m)) (sub_nodes h g m)) rd)"
proof -
  obtain cs where cs: "getParentConnections h g m = Inr cs"
      "set cs = {c \<in> conns_of g. (gc_to c, m) \<in> (edge_rel g)\<^sup>*}"
    using dg.parent_conns_spec [OF assms] by blast
  have "delete_sub_nodes h cs rd' =
      drop_keys (\<Union>c \<in> set cs. if gc_type c = Main then {} else {node_name (h (gc_from c))}) rd'" for rd'
    unfolding delete_sub_nodes_def by (rule fold_drop) (simp add: map_delete_drop)
  moreover have "(\<Union>c \<in> set cs. if gc_type c = Main then {} else {node_name (h (gc_from c))}) = sub_nodes h g m"
    by (auto simp: cs(2) sub_nodes_def)
  ultimately show ?thesis using cs(1) by (simp add: clean_one_def map_delete_drop)
qed

lemma clean_from_drop:
  assumes "wf_graph h g" "n \<in> nodes_of g"
  shows "clean_from h g n rd = Inr (drop_keys (cleaned h g [n]) rd)"
proof -
  obtain ch where ch: "getChildren h g n = Inr ch" using dg.children_spec [OF assms] by blast
  have all: "insert n (set ch) = {m. (n, m) \<in> (edge_rel g)\<^sup>*}"
    by (rule dg.self_and_children [OF assms ch])
  have "m \<in> nodes_of g" if "m \<in> set (n # ch)" for m
    using dg.reach_nodes [OF assms, of m] all that by auto
  then have "rfold (clean_one h g) (n # ch) rd' = Inr (drop_keys
      (\<Union>m \<in> set (n # ch). insert (node_name (h m)) (sub_nodes h g m)) rd')" for rd'
    by (intro rfold_drop clean_one_drop [OF assms(1)])
  moreover have "(\<Union>m \<in> set (n # ch). insert (node_name (h m)) (sub_nodes h g m)) = cleaned h g [n]"
    using all by (simp add: cleaned_def)
  moreover have "insert (node_name (h n)) (cleaned h g [n]) = cleaned h g [n]"
    by (auto simp: cleaned_def)
  ultimately show ?thesis using ch by (simp add: clean_from_def map_delete_drop Let_def)
qed

lemma cleanRunData_drop:
  assumes "wf_graph h g" "set ns \<subseteq> nodes_of g"
  shows "cleanRunData h rd g ns =
    Inr (filter (\<lambda>e. fst e \<notin> cleaned h g ns \<and> hasNode g (fst e)) rd)"
proof -
  have "rfold (clean_from h g) ns rd = Inr (drop_keys (\<Union>n \<in> set ns. cleaned h g [n]) rd)"
    by (rule rfold_drop) (use assms clean_from_drop in blast)
  moreover have "(\<Union>n \<in> set ns. cleaned h g [n]) = cleaned h g ns" by (simp add: cleaned_def)
  moreover have "fold (\<lambda>k rd. if hasNode g k then rd else map_delete k rd) (keys rd') rd' =
      filter (\<lambda>e. hasNode g (fst e)) rd'" for rd' :: IRunData
  proof -
    have "fold (\<lambda>k rd. if hasNode g k then rd else map_delete k rd) (keys rd') rd' =
        drop_keys (\<Union>k \<in> set (keys rd'). if hasNode g k then {} else {k}) rd'"
      by (rule fold_drop) (simp add: map_delete_drop)
    then show ?thesis by (auto simp: drop_keys_def intro!: filter_cong)
  qed
  ultimately show ?thesis by (simp add: cleanRunData_def drop_keys_def conj_commute)
qed

end
