(* ===== verification/Graph_Editing.thy ===== *)
theory Graph_Editing
  imports Directed_Graph
begin

text \<open>
  What the editing operations of \<open>DirectedGraph\<close> do to the nodes and connections: when the
  key of a connection determines it, copying a graph, adding nodes and connections one after
  another, and removing a node while reconnecting its neighbours.
\<close>

section \<open>Keys\<close>

definition no_dash :: "string \<Rightarrow> bool" where
  "no_dash s \<longleftrightarrow> CHR ''-'' \<notin> set s"

lemma no_dash_Main [simp]: "no_dash Main"
  by (simp add: no_dash_def)

lemma split_at_dash:
  "no_dash a \<Longrightarrow> no_dash a' \<Longrightarrow> a @ CHR ''-'' # b = a' @ CHR ''-'' # b' \<Longrightarrow> a = a' \<and> b = b'"
proof (induction a arbitrary: a')
  case Nil
  then show ?case by (cases a') (auto simp: no_dash_def)
next
  case (Cons x a)
  then show ?case by (cases a') (auto simp: no_dash_def)
qed

lemma read_digit: "d < 10 \<Longrightarrow> of_char (digit_char d) - 48 = d"
  by (simp add: digit_char_def)

lemma read_show_nat [simp]: "read_nat (show_nat n) = n"
proof (induction n rule: less_induct)
  case (less n)
  show ?case
  proof (cases "n < 10")
    case True
    then show ?thesis by (simp add: show_nat.simps [of n] read_nat_def read_digit)
  next
    case False
    have "read_nat (show_nat (n div 10) @ [digit_char (n mod 10)]) =
        10 * read_nat (show_nat (n div 10)) + n mod 10"
      by (simp add: read_nat_def read_digit)
    then show ?thesis using False less.IH [of "n div 10"] by (simp add: show_nat.simps [of n])
  qed
qed

lemma digit_not_dash: "d < 10 \<Longrightarrow> digit_char d \<noteq> CHR ''-''"
proof
  assume "d < 10" "digit_char d = CHR ''-''"
  then have "(of_char (digit_char d) :: nat) = of_char (CHR ''-'')" by simp
  then show False using \<open>d < 10\<close> by (simp add: digit_char_def)
qed

lemma show_nat_no_dash [simp]: "no_dash (show_nat n)"
proof (induction n rule: less_induct)
  case (less n)
  show ?case
  proof (cases "n < 10")
    case True
    then show ?thesis using digit_not_dash [of n] by (simp add: show_nat.simps [of n] no_dash_def)
  next
    case False
    then have "no_dash (show_nat (n div 10))" "digit_char (n mod 10) \<noteq> CHR ''-''"
      using less.IH by (simp_all add: digit_not_dash)
    then show ?thesis using False by (simp add: show_nat.simps [of n] no_dash_def)
  qed
qed

definition dashless :: "heap \<Rightarrow> GraphConnection \<Rightarrow> bool" where
  "dashless h c \<longleftrightarrow> no_dash (node_name (h (gc_from c))) \<and> no_dash (gc_type c)"

lemma makeKey_determines:
  assumes "makeKey h c = makeKey h d" "dashless h c" "dashless h d"
  shows "node_name (h (gc_from c)) = node_name (h (gc_from d))"
    "node_name (h (gc_to c)) = node_name (h (gc_to d))"
    "gc_type c = gc_type d" "gc_output c = gc_output d" "gc_input c = gc_input d"
proof -
  define rest where "rest (e :: GraphConnection) = show_nat (gc_input e) @ CHR ''-'' # node_name (h (gc_to e))" for e
  have key: "makeKey h e = node_name (h (gc_from e)) @ CHR ''-'' # (gc_type e @ CHR ''-'' #
      (show_nat (gc_output e) @ CHR ''-'' # rest e))" for e
    by (simp add: makeKey_def rest_def)
  have a: "node_name (h (gc_from c)) = node_name (h (gc_from d)) \<and>
      gc_type c @ CHR ''-'' # (show_nat (gc_output c) @ CHR ''-'' # rest c) =
      gc_type d @ CHR ''-'' # (show_nat (gc_output d) @ CHR ''-'' # rest d)"
    by (rule split_at_dash) (use assms key in \<open>simp_all add: dashless_def\<close>)
  have b: "gc_type c = gc_type d \<and>
      show_nat (gc_output c) @ CHR ''-'' # rest c = show_nat (gc_output d) @ CHR ''-'' # rest d"
    by (rule split_at_dash) (use assms a in \<open>simp_all add: dashless_def\<close>)
  have d: "show_nat (gc_output c) = show_nat (gc_output d) \<and> rest c = rest d"
    by (rule split_at_dash) (use b in simp_all)
  have "show_nat (gc_input c) = show_nat (gc_input d) \<and> node_name (h (gc_to c)) = node_name (h (gc_to d))"
    by (rule split_at_dash) (use d in \<open>simp_all add: rest_def\<close>)
  with a b d have parts: "node_name (h (gc_from c)) = node_name (h (gc_from d)) \<and> gc_type c = gc_type d \<and>
      show_nat (gc_output c) = show_nat (gc_output d) \<and> show_nat (gc_input c) = show_nat (gc_input d) \<and>
      node_name (h (gc_to c)) = node_name (h (gc_to d))"
    by simp
  then show "node_name (h (gc_from c)) = node_name (h (gc_from d))"
    "node_name (h (gc_to c)) = node_name (h (gc_to d))" "gc_type c = gc_type d" by auto
  show "gc_output c = gc_output d" "gc_input c = gc_input d"
    using parts by (metis read_show_nat)+
qed

lemma makeKey_inj:
  assumes "wf_graph h g" "makeKey h c = makeKey h d" "dashless h c" "dashless h d"
    and "{gc_from c, gc_to c, gc_from d, gc_to d} \<subseteq> nodes_of g"
  shows "c = d"
  using makeKey_determines [OF assms(2-4)] node_name_inj [OF assms(1)] assms(5) by simp

section \<open>Copies\<close>

lemma map_put_new: "k \<notin> fst ` set m \<Longrightarrow> map_put k v m = m @ [(k, v)]"
  by (induction m) auto

lemma fold_put_entries:
  "distinct (keys (m @ es)) \<Longrightarrow> fold (\<lambda>(k, v). map_put k v) es m = m @ es"
proof (induction es arbitrary: m)
  case Nil
  then show ?case by simp
next
  case (Cons e es)
  have "fst e \<notin> fst ` set m" using Cons.prems by (auto simp: keys_def)
  then show ?case
    using Cons.IH [of "m @ [e]"] Cons.prems by (simp add: case_prod_unfold map_put_new)
qed

lemma addNodes_entries:
  assumes "wf_graph h g"
  shows "addNodes h (vals (getNodes g)) newDirectedGraph = \<lparr>dg_nodes = dg_nodes g, dg_conns = []\<rparr>"
proof -
  have "fold (addNode h) (vals es) \<lparr>dg_nodes = m, dg_conns = []\<rparr> =
      \<lparr>dg_nodes = fold (\<lambda>(k, v). map_put k v) es m, dg_conns = []\<rparr>"
    if "list_all (\<lambda>(n, r). n = node_name (h r)) es" for es m
    using that by (induction es arbitrary: m) (auto simp: addNode_def)
  moreover have "list_all (\<lambda>(n, r). n = node_name (h r)) (dg_nodes g)" "distinct (keys (dg_nodes g))"
    using assms by (auto simp: wf_graph_def)
  ultimately show ?thesis
    by (simp add: addNodes_def getNodes_def newDirectedGraph_def fold_put_entries [of "[]"])
qed

lemma clone_eq:
  assumes "wf_graph h g"
  shows "clone h g = Inr g"
proof -
  let ?N = "dg_nodes g"
  have add: "rfold (addConnection h) (map input_of (vals es)) \<lparr>dg_nodes = ?N, dg_conns = m\<rparr> =
      Inr \<lparr>dg_nodes = ?N, dg_conns = fold (\<lambda>(k, v). map_put k v) es m\<rparr>"
    if "\<forall>(k, c) \<in> set es. k = makeKey h c \<and> nodeExists h g (gc_from c) \<and> nodeExists h g (gc_to c)" for es m
    using that
  proof (induction es arbitrary: m)
    case Nil
    then show ?case by simp
  next
    case (Cons e es)
    have "nodeExists h \<lparr>dg_nodes = ?N, dg_conns = m\<rparr> r = nodeExists h g r" for r
      by (simp add: nodeExists_def)
    then have "addConnection h (input_of (snd e)) \<lparr>dg_nodes = ?N, dg_conns = m\<rparr> =
        Inr \<lparr>dg_nodes = ?N, dg_conns = map_put (fst e) (snd e) m\<rparr>"
      using Cons.prems by (auto simp: addConnection_def set_connection_def)
    then show ?case using Cons by (simp add: case_prod_unfold)
  qed
  have "\<forall>(k, c) \<in> set (dg_conns g). k = makeKey h c \<and> nodeExists h g (gc_from c) \<and> nodeExists h g (gc_to c)"
    using assms by (auto simp: nodeExists_iff [OF assms] wf_graph_iff)
  then have "rfold (addConnection h) (map input_of (vals (dg_conns g))) \<lparr>dg_nodes = ?N, dg_conns = []\<rparr> = Inr g"
    using add [of "dg_conns g" "[]"] wf_graphD(2) [OF assms] by (simp add: fold_put_entries [of "[]"])
  then show ?thesis
    by (simp add: clone_def addConnections_def addNodes_entries [OF assms] getConnections_def)
qed

section \<open>Adding connections\<close>

text \<open>
  Setting a list of connections whose keys determine them adds exactly these connections.
\<close>

lemma fold_set_connection:
  assumes "wf_graph h g" "\<And>c. c \<in> set cs \<Longrightarrow> gc_from c \<in> nodes_of g \<and> gc_to c \<in> nodes_of g"
  shows "wf_graph h (fold (set_connection h) cs g)"
    "nodes_of (fold (set_connection h) cs g) = nodes_of g"
    "(\<And>c d. c \<in> conns_of g \<union> set cs \<Longrightarrow> d \<in> conns_of g \<union> set cs \<Longrightarrow> makeKey h c = makeKey h d \<Longrightarrow> c = d) \<Longrightarrow>
      conns_of (fold (set_connection h) cs g) = conns_of g \<union> set cs"
proof -
  have all: "wf_graph h (fold (set_connection h) cs g) \<and> nodes_of (fold (set_connection h) cs g) = nodes_of g \<and>
    ((\<forall>c \<in> conns_of g \<union> set cs. \<forall>d \<in> conns_of g \<union> set cs. makeKey h c = makeKey h d \<longrightarrow> c = d) \<longrightarrow>
      conns_of (fold (set_connection h) cs g) = conns_of g \<union> set cs)"
    using assms
  proof (induction cs arbitrary: g)
    case Nil
    then show ?case by simp
  next
    case (Cons c cs)
    let ?g = "set_connection h c g"
    have wf: "wf_graph h ?g" and n: "nodes_of ?g = nodes_of g"
      using Cons.prems by (auto simp: wf_set_connection set_connection_sets)
    have IH: "wf_graph h (fold (set_connection h) cs ?g) \<and> nodes_of (fold (set_connection h) cs ?g) = nodes_of ?g \<and>
      ((\<forall>c \<in> conns_of ?g \<union> set cs. \<forall>d \<in> conns_of ?g \<union> set cs. makeKey h c = makeKey h d \<longrightarrow> c = d) \<longrightarrow>
        conns_of (fold (set_connection h) cs ?g) = conns_of ?g \<union> set cs)"
      by (rule Cons.IH [OF wf]) (use Cons.prems(2) n in auto)
    show ?case
    proof (intro conjI impI)
      assume inj: "\<forall>a \<in> conns_of g \<union> set (c # cs). \<forall>d \<in> conns_of g \<union> set (c # cs).
          makeKey h a = makeKey h d \<longrightarrow> a = d"
      have "conns_of ?g = insert c (conns_of g)"
        using inj by (auto simp: set_connection_sets [OF Cons.prems(1)])
      then show "conns_of (fold (set_connection h) (c # cs) g) = conns_of g \<union> set (c # cs)"
        using IH inj by auto
    qed (use IH n in auto)
  qed
  show "wf_graph h (fold (set_connection h) cs g)"
    "nodes_of (fold (set_connection h) cs g) = nodes_of g"
    using all by simp_all
  show "conns_of (fold (set_connection h) cs g) = conns_of g \<union> set cs"
    if "(\<And>c d. c \<in> conns_of g \<union> set cs \<Longrightarrow> d \<in> conns_of g \<union> set cs \<Longrightarrow> makeKey h c = makeKey h d \<Longrightarrow> c = d)"
    using all that by blast
qed

lemma key_inj_conns:
  assumes "wf_graph h g" "c \<in> conns_of g" "d \<in> conns_of g" "makeKey h c = makeKey h d"
  shows "c = d"
proof -
  have dist: "distinct (map fst (dg_conns g))" using wf_graphD(2) [OF assms(1)] by (simp add: keys_def)
  have "map_of (dg_conns g) (makeKey h c) = Some c"
    by (rule map_of_is_SomeI [OF dist wf_graphD(4) [OF assms(1,2)]])
  moreover have "map_of (dg_conns g) (makeKey h d) = Some d"
    by (rule map_of_is_SomeI [OF dist wf_graphD(4) [OF assms(1,3)]])
  ultimately show ?thesis using assms(4) by (metis option.inject)
qed

lemma distinct_nodes:
  assumes "wf_graph h g"
  shows "distinct (vals (dg_nodes g))"
proof -
  have "fst e = node_name (h (snd e))" if "e \<in> set (dg_nodes g)" for e
    using wf_graphD(3) [OF assms, of "fst e" "snd e"] that by simp
  then have "inj_on snd (set (dg_nodes g))"
    by (intro inj_onI prod_eqI) simp_all
  then show ?thesis
    using wf_graphD(1) [OF assms] by (simp add: keys_def vals_def distinct_map)
qed

section \<open>Removing a node and reconnecting\<close>

lemma set_reconnections:
  "set (reconnections skip ins os) = {bypass i ou | i ou. i \<in> set ins \<and> ou \<in> set os \<and> \<not> skip i \<and> \<not> skip ou}"
  by (auto simp: reconnections_def)

lemma bypass_ends [simp]:
  "gc_from (bypass i ou) = gc_from i" "gc_to (bypass i ou) = gc_to ou"
  "gc_type (bypass i ou) = gc_type i" "gc_output (bypass i ou) = gc_output i"
  "gc_input (bypass i ou) = gc_input ou"
  by (simp_all add: bypass_def)

text \<open>
  Without a connection from the node to itself, and with names and types without dashes, the
  result is a well-formed graph with the other nodes, their connections, and a connection for
  every pair of an incoming and an outgoing one that is not skipped.
\<close>

lemma removeNodeReconnect_sets:
  assumes wf: "wf_graph h g" and r: "r \<in> nodes_of g" and loop: "(r, r) \<notin> edge_rel g"
    and nd: "\<And>c. c \<in> conns_of g \<Longrightarrow> dashless h c"
  obtains g' new where "removeNodeReconnect h r skip g = Inr (g', new)" "wf_graph h g'"
    "nodes_of g' = nodes_of g - {r}"
    "set new = {bypass i ou | i ou. i \<in> conns_of g \<and> ou \<in> conns_of g \<and> gc_to i = r \<and> gc_from ou = r \<and>
       \<not> skip i \<and> \<not> skip ou}"
    "conns_of g' = {c \<in> conns_of g. gc_to c \<noteq> r \<and> gc_from c \<noteq> r} \<union> set new"
proof -
  obtain ins where ins: "getDirectParentConnections h g r = Inr ins" using direct_parents [OF wf r] by blast
  obtain os where os: "getDirectChildConnections h g r = Inr os" using direct_children [OF wf r] by blast
  let ?new = "reconnections skip ins os"
  have new: "set ?new = {bypass i ou | i ou. i \<in> conns_of g \<and> ou \<in> conns_of g \<and> gc_to i = r \<and> gc_from ou = r \<and>
       \<not> skip i \<and> \<not> skip ou}"
    unfolding set_reconnections direct_parents_sub [OF ins] direct_children_sub [OF os] by blast
  have off: "gc_from c \<noteq> r \<and> gc_to c \<noteq> r" if "c \<in> set ?new" for c
    using that loop unfolding new edge_rel_def by auto
  have ends: "gc_from c \<in> nodes_of g \<and> gc_to c \<in> nodes_of g" if "c \<in> set ?new" for c
    using that wf_graphD(5,6) [OF wf] unfolding new by auto
  let ?d = "drop_connections r g"
  have wfd: "wf_graph h ?d" by (rule wf_drop_connections [OF wf])
  let ?f = "fold (set_connection h) ?new ?d"
  have wff: "wf_graph h ?f" and nf: "nodes_of ?f = nodes_of g"
    using fold_set_connection(1,2) [OF wfd, of ?new] ends by auto
  have cf: "conns_of ?f = {c \<in> conns_of g. gc_to c \<noteq> r \<and> gc_from c \<noteq> r} \<union> set ?new"
  proof -
    have "conns_of ?f = conns_of ?d \<union> set ?new"
    proof (rule fold_set_connection(3) [OF wfd])
      fix c d assume c: "c \<in> conns_of ?d \<union> set ?new" and d: "d \<in> conns_of ?d \<union> set ?new"
        and k: "makeKey h c = makeKey h d"
      have "dashless h x \<and> gc_from x \<in> nodes_of g \<and> gc_to x \<in> nodes_of g"
        if "x \<in> conns_of ?d \<union> set ?new" for x
      proof (cases "x \<in> set ?new")
        case True
        then show ?thesis using ends nd unfolding new by (auto simp: dashless_def)
      next
        case False
        then show ?thesis using that nd wf_graphD(5,6) [OF wf] by auto
      qed
      then show "c = d" using makeKey_inj [OF wf k] c d by simp
    qed (use ends in auto)
    then show ?thesis by simp
  qed
  have "wf_graph h (delete_node h r ?f)" "nodes_of (delete_node h r ?f) = nodes_of g - {r}"
    using wf_delete_node [OF wff, of r] r nf off unfolding cf by auto
  then show thesis
    using that [of "delete_node h r ?f" ?new] ins os new cf by (simp add: removeNodeReconnect_def Let_def)
qed

end
