(* ===== verification/Filter_Disabled.thy ===== *)
theory Filter_Disabled
  imports Graph_Editing
begin

text \<open>
  \<open>filter-disabled-nodes.ts\<close>: a copy of the graph in which every disabled node is removed and
  its main connections are joined. The result is specified by the main paths that pass through
  disabled nodes only.
\<close>

definition filterDisabledNodes :: "heap \<Rightarrow> DirectedGraph \<Rightarrow> DirectedGraph result" where
  "filterDisabledNodes h g =
     rbind (clone h g) (\<lambda>filteredGraph.
       rfold (\<lambda>node fg.
         if is_disabled (h node)
         then rbind (removeNodeReconnect h node (\<lambda>c. gc_type c \<noteq> Main) fg) (\<lambda>(fg', new). Inr fg')
         else Inr fg)
       (vals (getNodes filteredGraph)) filteredGraph)"

section \<open>Routes through removed nodes\<close>

text \<open>
  The connections that joining along main paths through the nodes of \<open>D\<close> gives.
\<close>

inductive routed :: "GraphConnection set \<Rightarrow> noderef set \<Rightarrow> GraphConnection \<Rightarrow> bool"
  for C :: "GraphConnection set" and D :: "noderef set" where
  direct: "c \<in> C \<Longrightarrow> routed C D c"
| via: "routed C D c \<Longrightarrow> gc_type c = Main \<Longrightarrow> d \<in> C \<Longrightarrow> gc_type d = Main \<Longrightarrow>
    gc_to c = gc_from d \<Longrightarrow> gc_to c \<in> D \<Longrightarrow> routed C D (bypass c d)"

lemma routed_ends:
  "routed C D c \<Longrightarrow> gc_from c \<in> gc_from ` C \<and> gc_to c \<in> gc_to ` C \<and> gc_type c \<in> gc_type ` C"
  by (induction rule: routed.induct) auto

lemma routed_none: "routed C {} c \<longleftrightarrow> c \<in> C"
  by (auto elim: routed.cases intro: routed.direct)

text \<open>Removing one node.\<close>

definition joined :: "GraphConnection set \<Rightarrow> noderef \<Rightarrow> GraphConnection set" where
  "joined C r = {c \<in> C. gc_to c \<noteq> r \<and> gc_from c \<noteq> r} \<union>
     {bypass i ou | i ou. i \<in> C \<and> ou \<in> C \<and> gc_to i = r \<and> gc_from ou = r \<and>
        gc_type i = Main \<and> gc_type ou = Main}"

definition no_self :: "GraphConnection set \<Rightarrow> noderef \<Rightarrow> bool" where
  "no_self C r \<longleftrightarrow> (\<forall>c \<in> C. \<not> (gc_from c = r \<and> gc_to c = r))"

lemma joined_off: "no_self C r \<Longrightarrow> c \<in> joined C r \<Longrightarrow> gc_from c \<noteq> r \<and> gc_to c \<noteq> r"
  by (auto simp: joined_def no_self_def)

lemma bypass_assoc: "bypass (bypass c d) e = bypass c (bypass d e)"
  by (simp add: bypass_def)

lemma routed_joined_in:
  assumes "routed C (insert r D) c" "no_self C r" "gc_from c \<noteq> r"
  shows "(gc_to c \<noteq> r \<longrightarrow> routed (joined C r) D c) \<and>
    (gc_to c = r \<and> gc_type c = Main \<longrightarrow>
      (\<forall>e \<in> C. gc_from e = r \<and> gc_type e = Main \<longrightarrow> routed (joined C r) D (bypass c e)))"
  using assms(1,3)
proof (induction rule: routed.induct)
  case (direct c)
  then show ?case by (auto simp: joined_def intro!: routed.direct)
next
  case (via c d)
  have IH: "gc_to c \<noteq> r \<Longrightarrow> routed (joined C r) D c"
    "gc_to c = r \<Longrightarrow> e \<in> C \<Longrightarrow> gc_from e = r \<Longrightarrow> gc_type e = Main \<Longrightarrow> routed (joined C r) D (bypass c e)" for e
    using via by auto
  show ?case
  proof (cases "gc_to c = r")
    case True
    then have "gc_to d \<noteq> r" using via.hyps assms(2) by (auto simp: no_self_def)
    then show ?thesis using IH(2) [of d] via.hyps True by simp
  next
    case False
    then have c: "routed (joined C r) D c" "gc_to c \<in> D" using IH(1) via.hyps by auto
    show ?thesis
    proof (cases "gc_to d = r")
      case True
      have "routed (joined C r) D (bypass c (bypass d e))" if "e \<in> C" "gc_from e = r" "gc_type e = Main" for e
      proof (rule routed.via [OF c(1) via.hyps(2)])
        show "bypass d e \<in> joined C r" using via.hyps that True by (auto simp: joined_def)
      qed (use via.hyps c in simp_all)
      then show ?thesis using True by (simp add: bypass_assoc)
    next
      case no: False
      have "routed (joined C r) D (bypass c d)"
      proof (rule routed.via [OF c(1) via.hyps(2)])
        show "d \<in> joined C r" using via.hyps False no by (auto simp: joined_def)
      qed (use via.hyps c in simp_all)
      then show ?thesis using no by simp
    qed
  qed
qed

lemma routed_joined_out: "routed (joined C r) D c \<Longrightarrow> routed C (insert r D) c"
proof (induction rule: routed.induct)
  case (direct c)
  then show ?case by (auto simp: joined_def intro: routed.intros)
next
  case (via c d)
  consider (old) "d \<in> C" | (new) i e where "d = bypass i e" "i \<in> C" "e \<in> C" "gc_to i = r" "gc_from e = r"
      "gc_type i = Main" "gc_type e = Main"
    using via.hyps(3) unfolding joined_def by blast
  then show ?case
  proof cases
    case old
    show ?thesis by (rule routed.via) (use via old in auto)
  next
    case new
    have "routed C (insert r D) (bypass c i)"
      by (rule routed.via) (use via new in auto)
    then have "routed C (insert r D) (bypass (bypass c i) e)"
      by (rule routed.via) (use via new in auto)
    then show ?thesis by (simp add: new bypass_assoc)
  qed
qed

lemma routed_joined:
  assumes "no_self C r"
  shows "{c. routed (joined C r) D c \<and> gc_from c \<notin> D \<and> gc_to c \<notin> D} =
    {c. routed C (insert r D) c \<and> gc_from c \<notin> insert r D \<and> gc_to c \<notin> insert r D}"
proof -
  have "gc_from c \<noteq> r \<and> gc_to c \<noteq> r" if "routed (joined C r) D c" for c
    using routed_ends [OF that] joined_off [OF assms] by fastforce
  then show ?thesis using routed_joined_in [OF _ assms] routed_joined_out by blast
qed

text \<open>The nodes to remove lie on no cycle of their own.\<close>

definition inner :: "GraphConnection set \<Rightarrow> noderef set \<Rightarrow> (noderef \<times> noderef) set" where
  "inner C D = {(gc_from c, gc_to c) | c. c \<in> C \<and> gc_from c \<in> D \<and> gc_to c \<in> D}"

lemma inner_joined: "inner (joined C r) D \<subseteq> (inner C (insert r D))\<^sup>+"
proof
  fix p assume "p \<in> inner (joined C r) D"
  then obtain c where c: "p = (gc_from c, gc_to c)" "c \<in> joined C r" "gc_from c \<in> D" "gc_to c \<in> D"
    by (auto simp: inner_def)
  consider "c \<in> C" | i e where "c = bypass i e" "i \<in> C" "e \<in> C" "gc_to i = r" "gc_from e = r"
    using c(2) unfolding joined_def by blast
  then show "p \<in> (inner C (insert r D))\<^sup>+"
  proof cases
    case 1
    then show ?thesis using c by (auto simp: inner_def)
  next
    case 2
    have "(gc_from i, gc_to i) \<in> inner C (insert r D)" "(gc_from e, gc_to e) \<in> inner C (insert r D)"
      unfolding inner_def using 2 c by force+
    then have "(gc_from i, r) \<in> inner C (insert r D)" "(r, gc_to e) \<in> inner C (insert r D)"
      using 2 by simp_all
    then have "(gc_from i, gc_to e) \<in> (inner C (insert r D))\<^sup>+" by (rule trancl_into_trancl [OF r_into_trancl])
    then show ?thesis using 2(1) c(1) by simp
  qed
qed

lemma acyclic_joined: "acyclic (inner C (insert r D)) \<Longrightarrow> acyclic (inner (joined C r) D)"
  using trancl_mono [OF _ inner_joined] by (fastforce simp: acyclic_def)

lemma acyclic_no_self: "acyclic (inner C (insert r D)) \<Longrightarrow> no_self C r"
  by (auto simp: acyclic_def no_self_def inner_def intro!: r_into_trancl)

section \<open>The result\<close>

lemma rfold_if: "rfold (\<lambda>x s. if P x then f x s else Inr s) xs s = rfold f (filter P xs) s"
proof (induction xs arbitrary: s)
  case (Cons x xs)
  then show ?case by (cases "f x s") auto
qed simp

lemma remove_all:
  assumes "wf_graph h g" "distinct rs" "set rs \<subseteq> nodes_of g"
    and "\<And>c. c \<in> conns_of g \<Longrightarrow> dashless h c" "acyclic (inner (conns_of g) (set rs))"
  shows "\<exists>g'. rfold (\<lambda>node fg. rbind (removeNodeReconnect h node (\<lambda>c. gc_type c \<noteq> Main) fg) (\<lambda>(fg', new). Inr fg'))
      rs g = Inr g' \<and> wf_graph h g' \<and> nodes_of g' = nodes_of g - set rs \<and>
    conns_of g' = {c. routed (conns_of g) (set rs) c \<and> gc_from c \<notin> set rs \<and> gc_to c \<notin> set rs}"
  using assms
proof (induction rs arbitrary: g)
  case Nil
  then show ?case by (simp add: routed_none)
next
  case (Cons r rs)
  have self: "no_self (conns_of g) r" using Cons.prems(5) acyclic_no_self by simp
  have rr: "r \<in> nodes_of g" "(r, r) \<notin> edge_rel g"
    using self Cons.prems(3) by (auto simp: no_self_def edge_rel_def)
  obtain g1 new where g1: "removeNodeReconnect h r (\<lambda>c. gc_type c \<noteq> Main) g = Inr (g1, new)"
      "wf_graph h g1" "nodes_of g1 = nodes_of g - {r}"
      "set new = {bypass i ou | i ou. i \<in> conns_of g \<and> ou \<in> conns_of g \<and> gc_to i = r \<and> gc_from ou = r \<and>
         \<not> gc_type i \<noteq> Main \<and> \<not> gc_type ou \<noteq> Main}"
      "conns_of g1 = {c \<in> conns_of g. gc_to c \<noteq> r \<and> gc_from c \<noteq> r} \<union> set new"
    by (rule removeNodeReconnect_sets [OF Cons.prems(1) rr Cons.prems(4)])
  have c1: "conns_of g1 = joined (conns_of g) r" using g1(4,5) by (simp add: joined_def)
  have "\<exists>g'. rfold (\<lambda>node fg. rbind (removeNodeReconnect h node (\<lambda>c. gc_type c \<noteq> Main) fg) (\<lambda>(fg', new). Inr fg'))
      rs g1 = Inr g' \<and> wf_graph h g' \<and> nodes_of g' = nodes_of g1 - set rs \<and>
    conns_of g' = {c. routed (conns_of g1) (set rs) c \<and> gc_from c \<notin> set rs \<and> gc_to c \<notin> set rs}"
  proof (rule Cons.IH [OF g1(2)])
    show "dashless h c" if "c \<in> conns_of g1" for c
      using that Cons.prems(4) by (auto simp: c1 joined_def dashless_def)
    show "acyclic (inner (conns_of g1) (set rs))"
      using acyclic_joined Cons.prems(5) by (simp add: c1)
  qed (use Cons.prems g1(3) in auto)
  then show ?case
    using g1(1,3) routed_joined [OF self, of "set rs"] by (auto simp: c1)
qed

lemma filterDisabledNodes_routes:
  assumes "wf_graph h g" "\<And>c. c \<in> conns_of g \<Longrightarrow> dashless h c"
    and "D = {r \<in> nodes_of g. is_disabled (h r)}" "acyclic (inner (conns_of g) D)"
  shows "\<exists>g'. filterDisabledNodes h g = Inr g' \<and> wf_graph h g' \<and> nodes_of g' = nodes_of g - D \<and>
    conns_of g' = {c. routed (conns_of g) D c \<and> gc_from c \<notin> D \<and> gc_to c \<notin> D}"
proof -
  let ?rs = "filter (\<lambda>r. is_disabled (h r)) (vals (dg_nodes g))"
  have D: "set ?rs = D" by (auto simp: assms(3) nodes_of_def simp del: vals_simps)
  have "distinct (vals (dg_nodes g))" by (rule distinct_nodes [OF assms(1)])
  then have "distinct ?rs" by simp
  moreover have "set ?rs \<subseteq> nodes_of g" by (auto simp: nodes_of_def simp del: vals_simps)
  ultimately show ?thesis
    using remove_all [OF assms(1), of ?rs] assms(2,4) unfolding D
    by (simp add: filterDisabledNodes_def clone_eq [OF assms(1)] getNodes_def rfold_if)
qed

end
