(* ===== verification/Find_Subgraph.thy ===== *)
theory Find_Subgraph
  imports Graph_Editing Graph_Queries
begin

text \<open>
  \<open>find-subgraph.ts\<close>: the part of the graph that leads from the trigger to the destination. The
  recursion walks up from the destination and keeps the branches that end at the trigger or run
  into themselves; the connections it keeps are characterised exactly.
\<close>

section \<open>The search\<close>

definition add_branch :: "heap \<Rightarrow> GraphConnection list \<Rightarrow> DirectedGraph \<Rightarrow> DirectedGraph result" where
  "add_branch h branch newGraph =
     rfold (\<lambda>c ng. addConnection h (input_of c) (addNodes h [gc_from c, gc_to c] ng)) branch newGraph"

function findSubgraphRecursive ::
    "heap \<Rightarrow> DirectedGraph \<Rightarrow> noderef \<Rightarrow> noderef \<Rightarrow> noderef \<Rightarrow> DirectedGraph \<Rightarrow> GraphConnection list \<Rightarrow>
     DirectedGraph result" where
  "findSubgraphRecursive h g destinationNode current trigger newGraph currentBranch =
     (if current = trigger then add_branch h currentBranch (addNode h trigger newGraph)
      else rbind (getDirectParentConnections h g current) (\<lambda>parentConnections.
        if length parentConnections = 0 then Inr newGraph
        else if current = destinationNode \<and> list_ex (\<lambda>c. gc_to c = destinationNode) currentBranch
        then Inr newGraph
        else if list_ex (\<lambda>c. gc_to c = current) currentBranch then add_branch h currentBranch newGraph
        else rfold (\<lambda>parentConnection ng.
               if gc_type parentConnection \<noteq> Main then Inr ng
               else findSubgraphRecursive h g destinationNode (gc_from parentConnection) trigger ng
                 (currentBranch @ [parentConnection]))
             parentConnections newGraph))"
  by pat_completeness auto
termination
proof (relation "measure (\<lambda>(h, g, dest, cur, trig, ng, br). card (gc_to ` conns_of g - gc_to ` set br))", goal_cases)
  case 1
  then show ?case by simp
next
  case (2 h g dest cur trig ng br ps c ng')
  have c: "c \<in> conns_of g" "gc_to c = cur" using direct_parents_sub [OF 2(2)] 2(6) by auto
  have "cur \<notin> gc_to ` set br" using 2(5) by (auto simp: list_ex_iff)
  then have "gc_to ` conns_of g - gc_to ` set (br @ [c]) \<subset> gc_to ` conns_of g - gc_to ` set br"
    using c by auto
  then show ?case by (auto intro!: psubset_card_mono)
qed

declare findSubgraphRecursive.simps [simp del]

definition add_sub_nodes ::
    "heap \<Rightarrow> DirectedGraph \<Rightarrow> noderef \<Rightarrow> DirectedGraph \<Rightarrow> DirectedGraph result" where
  "add_sub_nodes h g node subgraph =
     rbind (getParentConnections h g node) (\<lambda>parentConnections.
       rfold (\<lambda>c sg. if gc_type c = Main then Inr sg
           else addConnection h (input_of c) (addNodes h [gc_from c, gc_to c] sg))
         parentConnections subgraph)"

definition findSubgraph :: "heap \<Rightarrow> DirectedGraph \<Rightarrow> noderef \<Rightarrow> noderef \<Rightarrow> DirectedGraph result" where
  "findSubgraph h g destination trigger =
     rbind (findSubgraphRecursive h g destination destination trigger newDirectedGraph []) (\<lambda>subgraph.
       rfold (add_sub_nodes h g) (vals (getNodes subgraph)) subgraph)"

section \<open>Building a subgraph\<close>

definition subgraph_of :: "heap \<Rightarrow> DirectedGraph \<Rightarrow> DirectedGraph \<Rightarrow> bool" where
  "subgraph_of h g s \<longleftrightarrow> wf_graph h s \<and> nodes_of s \<subseteq> nodes_of g \<and> conns_of s \<subseteq> conns_of g"

definition ends :: "GraphConnection set \<Rightarrow> noderef set" where
  "ends C = gc_from ` C \<union> gc_to ` C"

lemma ends_simps [simp]: "ends {} = {}" "ends (C \<union> D) = ends C \<union> ends D"
    "ends (insert c C) = {gc_from c, gc_to c} \<union> ends C"
  by (auto simp: ends_def)

lemma subgraph_addNode:
  assumes "wf_graph h g" "subgraph_of h g s" "r \<in> nodes_of g"
  shows "subgraph_of h g (addNode h r s)" "nodes_of (addNode h r s) = insert r (nodes_of s)"
proof -
  have free: "name_free h s r"
  proof (cases "node_name (h r) \<in> fst ` set (dg_nodes s)")
    case True
    then obtain q where "(node_name (h r), q) \<in> set (dg_nodes s)" by auto
    moreover have "wf_graph h s" "nodes_of s \<subseteq> nodes_of g" using assms(2) by (auto simp: subgraph_of_def)
    ultimately have "q \<in> nodes_of s" "node_name (h q) = node_name (h r)" "q \<in> nodes_of g"
      using wf_graphD(3) by (force simp: nodes_of_def)+
    then show ?thesis using node_name_inj [OF assms(1)] assms(3) by (auto simp: name_free_def)
  qed (simp add: name_free_def)
  have "wf_graph h s" using assms(2) by (simp add: subgraph_of_def)
  then show "nodes_of (addNode h r s) = insert r (nodes_of s)" "subgraph_of h g (addNode h r s)"
    using addNode_nodes [OF _ free] wf_addNode [OF _ free] assms(2,3) by (auto simp: subgraph_of_def)
qed

lemma subgraph_connection:
  assumes "wf_graph h g" "subgraph_of h g s" "c \<in> conns_of g" "gc_from c \<in> nodes_of s" "gc_to c \<in> nodes_of s"
  shows "addConnection h (input_of c) s = Inr (set_connection h c s)"
    "subgraph_of h g (set_connection h c s)"
    "nodes_of (set_connection h c s) = nodes_of s" "conns_of (set_connection h c s) = insert c (conns_of s)"
proof -
  have wf: "wf_graph h s" and sub: "conns_of s \<subseteq> conns_of g" using assms(2) by (auto simp: subgraph_of_def)
  show "addConnection h (input_of c) s = Inr (set_connection h c s)"
    using assms(4,5) by (simp add: addConnection_eq [OF wf])
  show n: "nodes_of (set_connection h c s) = nodes_of s" by (rule set_connection_sets(1) [OF wf])
  have "d = c" if "d \<in> conns_of s" "makeKey h d = makeKey h c" for d
    using key_inj_conns [OF assms(1) _ assms(3) that(2)] that(1) sub by blast
  then show cs: "conns_of (set_connection h c s) = insert c (conns_of s)"
    unfolding set_connection_sets(2) [OF wf] by blast
  show "subgraph_of h g (set_connection h c s)"
    using wf_set_connection [OF wf assms(4,5)] assms(2,3) n cs by (simp add: subgraph_of_def)
qed

lemma add_one:
  assumes "wf_graph h g" "subgraph_of h g s" "c \<in> conns_of g"
  shows "\<exists>t. addConnection h (input_of c) (addNodes h [gc_from c, gc_to c] s) = Inr t \<and> subgraph_of h g t \<and>
    conns_of t = insert c (conns_of s) \<and> nodes_of t = {gc_from c, gc_to c} \<union> nodes_of s"
proof -
  let ?t = "addNode h (gc_to c) (addNode h (gc_from c) s)"
  have n: "gc_from c \<in> nodes_of g" "gc_to c \<in> nodes_of g" using wf_graphD(5,6) [OF assms(1,3)] by auto
  note one = subgraph_addNode [OF assms(1,2) n(1)]
  note two = subgraph_addNode [OF assms(1) one(1) n(2)]
  have "gc_from c \<in> nodes_of ?t" "gc_to c \<in> nodes_of ?t" using one(2) two(2) by auto
  note three = subgraph_connection [OF assms(1) two(1) assms(3) this]
  show ?thesis using three one(2) two(2) by (auto simp: addNodes_def)
qed

lemma add_branch_spec:
  assumes "wf_graph h g" "subgraph_of h g s" "set br \<subseteq> conns_of g"
  shows "\<exists>t. add_branch h br s = Inr t \<and> subgraph_of h g t \<and> conns_of t = set br \<union> conns_of s \<and>
    nodes_of t = ends (set br) \<union> nodes_of s"
  using assms(2,3)
proof (induction br arbitrary: s)
  case Nil
  then show ?case by (simp add: add_branch_def)
next
  case (Cons c br)
  obtain t where t: "addConnection h (input_of c) (addNodes h [gc_from c, gc_to c] s) = Inr t" "subgraph_of h g t"
      "conns_of t = insert c (conns_of s)" "nodes_of t = {gc_from c, gc_to c} \<union> nodes_of s"
    using add_one [OF assms(1) Cons.prems(1), of c] Cons.prems(2) by auto
  obtain u where u: "add_branch h br t = Inr u" "subgraph_of h g u" "conns_of u = set br \<union> conns_of t"
      "nodes_of u = ends (set br) \<union> nodes_of t"
    using Cons.IH [OF t(2)] Cons.prems(2) by auto
  show ?case using t u by (auto simp: add_branch_def)
qed

text \<open>A subgraph under construction: some nodes, and the ends of its connections.\<close>

definition grown :: "heap \<Rightarrow> DirectedGraph \<Rightarrow> noderef set \<Rightarrow> DirectedGraph \<Rightarrow> bool" where
  "grown h g X s \<longleftrightarrow> subgraph_of h g s \<and> nodes_of s = X \<union> ends (conns_of s)"

lemma grown_one:
  assumes "wf_graph h g" "grown h g X s" "c \<in> conns_of g"
  shows "\<exists>t. addConnection h (input_of c) (addNodes h [gc_from c, gc_to c] s) = Inr t \<and> grown h g X t \<and>
    conns_of t = conns_of s \<union> {c}"
  using add_one [OF assms(1) _ assms(3), of s] assms(2) by (auto simp: grown_def)

lemma grown_branch:
  assumes "wf_graph h g" "grown h g X s" "set br \<subseteq> conns_of g"
  shows "\<exists>t. add_branch h br s = Inr t \<and> grown h g X t \<and> conns_of t = conns_of s \<union> set br"
  using add_branch_spec [OF assms(1) _ assms(3), of s] assms(2) by (auto simp: grown_def)

lemma grown_trigger:
  assumes "wf_graph h g" "grown h g X s" "set br \<subseteq> conns_of g" "trig \<in> nodes_of g" "trig \<in> X \<union> ends (set br)"
  shows "\<exists>t. add_branch h br (addNode h trig s) = Inr t \<and> grown h g X t \<and> conns_of t = conns_of s \<union> set br"
proof -
  have s: "subgraph_of h g s" "nodes_of s = X \<union> ends (conns_of s)" using assms(2) by (auto simp: grown_def)
  note n = subgraph_addNode [OF assms(1) s(1) assms(4)]
  show ?thesis using add_branch_spec [OF assms(1) n(1) assms(3)] n(2) s assms(5) by (auto simp: grown_def)
qed

section \<open>The branches that are kept\<close>

text \<open>
  \<open>kept C dest trig current branch full\<close>: from a visit of \<open>current\<close> with \<open>branch\<close> the recursion
  goes on to keep the branch \<open>full\<close>.
\<close>

inductive kept ::
    "GraphConnection set \<Rightarrow> noderef \<Rightarrow> noderef \<Rightarrow> noderef \<Rightarrow> GraphConnection list \<Rightarrow> GraphConnection list \<Rightarrow> bool"
  for C :: "GraphConnection set" and dest trig :: noderef where
  at_trigger: "kept C dest trig trig br br"
| at_cycle: "cur \<noteq> trig \<Longrightarrow> cur \<noteq> dest \<Longrightarrow> cur \<in> gc_to ` set br \<Longrightarrow> kept C dest trig cur br br"
| up: "cur \<noteq> trig \<Longrightarrow> cur \<notin> gc_to ` set br \<Longrightarrow> c \<in> C \<Longrightarrow> gc_to c = cur \<Longrightarrow> gc_type c = Main \<Longrightarrow>
    kept C dest trig (gc_from c) (br @ [c]) full \<Longrightarrow> kept C dest trig cur br full"

inductive_cases kept_elim: "kept C dest trig cur br full"

lemma kept_trigger: "kept C dest trig trig br full \<longleftrightarrow> full = br"
  by (auto elim: kept_elim intro: kept.at_trigger)

lemma kept_cycle:
  "cur \<noteq> trig \<Longrightarrow> cur \<in> gc_to ` set br \<Longrightarrow> kept C dest trig cur br full \<longleftrightarrow> cur \<noteq> dest \<and> full = br"
  by (auto elim: kept_elim intro: kept.at_cycle)

lemma kept_up:
  "cur \<noteq> trig \<Longrightarrow> cur \<notin> gc_to ` set br \<Longrightarrow> kept C dest trig cur br full \<longleftrightarrow>
    (\<exists>c \<in> C. gc_to c = cur \<and> gc_type c = Main \<and> kept C dest trig (gc_from c) (br @ [c]) full)"
  by (auto elim: kept_elim intro: kept.up)

definition kept_conns :: "GraphConnection set \<Rightarrow> noderef \<Rightarrow> noderef \<Rightarrow> noderef \<Rightarrow> GraphConnection list \<Rightarrow> GraphConnection set" where
  "kept_conns C dest trig cur br = \<Union> {set full | full. kept C dest trig cur br full}"

lemma kept_conns_simps:
  "kept_conns C dest trig trig br = set br"
  "cur \<noteq> trig \<Longrightarrow> cur \<in> gc_to ` set br \<Longrightarrow> kept_conns C dest trig cur br = (if cur = dest then {} else set br)"
  "cur \<noteq> trig \<Longrightarrow> cur \<notin> gc_to ` set br \<Longrightarrow> kept_conns C dest trig cur br =
    (\<Union>c \<in> {c \<in> C. gc_to c = cur \<and> gc_type c = Main}. kept_conns C dest trig (gc_from c) (br @ [c]))"
  by (auto simp: kept_conns_def kept_trigger kept_cycle kept_up)

lemma findSubgraphRecursive_spec:
  assumes "wf_graph h g" "trig \<in> nodes_of g" "cur \<in> nodes_of g" "grown h g X ng" "set br \<subseteq> conns_of g"
    and "cur = trig \<Longrightarrow> trig \<in> X \<union> ends (set br)"
  shows "\<exists>ng'. findSubgraphRecursive h g dest cur trig ng br = Inr ng' \<and> grown h g X ng' \<and>
    conns_of ng' = conns_of ng \<union> kept_conns (conns_of g) dest trig cur br"
  using assms
proof (induction h g dest cur trig ng br rule: findSubgraphRecursive.induct [case_names rec])
  case (rec h g dest cur trig ng br)
  note wf = rec.prems(1)
  let ?C = "conns_of g"
  obtain ps where ps: "getDirectParentConnections h g cur = Inr ps" "set ps = {c \<in> ?C. gc_to c = cur}"
    using direct_parents [OF wf rec.prems(3)] direct_parents_sub by blast
  note unfolded = findSubgraphRecursive.simps [of h g dest cur trig ng br]
  consider (trig) "cur = trig" | (cycle) "cur \<noteq> trig" "cur \<in> gc_to ` set br" | (up) "cur \<noteq> trig" "cur \<notin> gc_to ` set br"
    by blast
  then show ?case
  proof cases
    case trig
    then show ?thesis
      unfolding unfolded using grown_trigger [OF wf rec.prems(4,5,2)] rec.prems(6)
      by (simp add: kept_conns_simps)
  next
    case cycle
    have "ps \<noteq> []" using cycle(2) rec.prems(5) ps(2) by auto
    moreover have "list_ex (\<lambda>c. gc_to c = cur) br" using cycle(2) by (auto simp: list_ex_iff)
    ultimately show ?thesis
      using cycle ps(1) rec.prems(4) grown_branch [OF wf rec.prems(4,5)]
      by (auto simp: unfolded kept_conns_simps)
  next
    case up
    have no: "\<not> list_ex (\<lambda>c. gc_to c = cur) br" using up(2) by (auto simp: list_ex_iff)
    then have no': "\<not> (cur = dest \<and> list_ex (\<lambda>c. gc_to c = dest) br)" by auto
    show ?thesis
    proof (cases "ps = []")
      case True
      then have none: "kept_conns ?C dest trig cur br = {}"
        unfolding kept_conns_simps(3) [OF up] using ps(2) by auto
      show ?thesis using True up ps(1) rec.prems(4) none by (simp add: unfolded)
    next
      case False
      let ?body = "\<lambda>c ng. if gc_type c \<noteq> Main then Inr ng
        else findSubgraphRecursive h g dest (gc_from c) trig ng (br @ [c])"
      let ?F = "\<lambda>c. if gc_type c \<noteq> Main then {} else kept_conns ?C dest trig (gc_from c) (br @ [c])"
      have "\<exists>t. rfold ?body ps ng = Inr t \<and> grown h g X t \<and> conns_of t = conns_of ng \<union> (\<Union>c \<in> set ps. ?F c)"
      proof (rule rfold_collect [where P = "grown h g X"], rule rec.prems(4))
        fix c s assume c: "c \<in> set ps" and s: "grown h g X s"
        show "\<exists>t. ?body c s = Inr t \<and> grown h g X t \<and> conns_of t = conns_of s \<union> ?F c"
        proof (cases "gc_type c = Main")
          case True
          have cc: "c \<in> ?C" using c ps(2) by simp
          have "\<exists>t. findSubgraphRecursive h g dest (gc_from c) trig s (br @ [c]) = Inr t \<and> grown h g X t \<and>
              conns_of t = conns_of s \<union> kept_conns ?C dest trig (gc_from c) (br @ [c])"
          proof (rule rec.IH [OF up(1) ps(1) _ no' no c])
            show "length ps \<noteq> 0" "\<not> gc_type c \<noteq> Main" using False True by simp_all
          qed (use wf rec.prems cc s wf_graphD(5) [OF wf cc] in \<open>auto simp: ends_def\<close>)
          then show ?thesis using True by simp
        qed (use s in simp)
      qed
      moreover have "(\<Union>c \<in> set ps. ?F c) = kept_conns ?C dest trig cur br"
        using up by (auto simp: kept_conns_simps ps(2))
      moreover have "findSubgraphRecursive h g dest cur trig ng br = rfold ?body ps ng"
        unfolding unfolded using up(1) no no' False ps(1) by auto
      ultimately show ?thesis by simp
    qed
  qed
qed

section \<open>Which connections are kept\<close>

text \<open>
  The walk follows main connections that neither leave the destination nor enter the trigger.
\<close>

definition walk_rel :: "GraphConnection set \<Rightarrow> noderef \<Rightarrow> noderef \<Rightarrow> (noderef \<times> noderef) set" where
  "walk_rel C dest trig = {(gc_from c, gc_to c) | c. c \<in> C \<and> gc_type c = Main \<and> gc_from c \<noteq> dest \<and> gc_to c \<noteq> trig}"

text \<open>A node is grounded if the trigger or a cycle lies above it.\<close>

definition grounded :: "GraphConnection set \<Rightarrow> noderef \<Rightarrow> noderef \<Rightarrow> noderef \<Rightarrow> bool" where
  "grounded C dest trig x \<longleftrightarrow>
     (\<exists>z. (z, x) \<in> (walk_rel C dest trig)\<^sup>* \<and> (z = trig \<or> (z, z) \<in> (walk_rel C dest trig)\<^sup>+))"

definition leads :: "GraphConnection set \<Rightarrow> noderef \<Rightarrow> noderef \<Rightarrow> GraphConnection \<Rightarrow> bool" where
  "leads C dest trig c \<longleftrightarrow> c \<in> C \<and> gc_type c = Main \<and> gc_from c \<noteq> dest \<and> gc_to c \<noteq> trig \<and>
     (gc_to c, dest) \<in> (walk_rel C dest trig)\<^sup>* \<and> grounded C dest trig (gc_from c)"

lemma walk_relI:
  "c \<in> C \<Longrightarrow> gc_type c = Main \<Longrightarrow> gc_from c \<noteq> dest \<Longrightarrow> gc_to c \<noteq> trig \<Longrightarrow>
    (gc_from c, gc_to c) \<in> walk_rel C dest trig"
  by (auto simp: walk_rel_def)

lemma grounded_step: "grounded C dest trig x \<Longrightarrow> (x, y) \<in> walk_rel C dest trig \<Longrightarrow> grounded C dest trig y"
  unfolding grounded_def using rtrancl_into_rtrancl [of _ x "walk_rel C dest trig" y] by blast

lemma grounded_parent:
  assumes "grounded C dest trig x" "x \<noteq> trig"
  obtains c where "c \<in> C" "gc_type c = Main" "gc_to c = x" "gc_from c \<noteq> dest" "grounded C dest trig (gc_from c)"
proof -
  let ?R = "walk_rel C dest trig"
  obtain z where z: "(z, x) \<in> ?R\<^sup>*" "z = trig \<or> (z, z) \<in> ?R\<^sup>+" using assms(1) by (auto simp: grounded_def)
  have "(z, x) \<in> ?R\<^sup>+"
    using z assms(2) by (auto simp: rtrancl_eq_or_trancl)
  then obtain y where y: "(z, y) \<in> ?R\<^sup>*" "(y, x) \<in> ?R" by (blast elim: tranclE intro: trancl_into_rtrancl)
  then have "grounded C dest trig y" using z(2) by (auto simp: grounded_def)
  then show thesis using that y(2) by (auto simp: walk_rel_def)
qed

lemma kept_not_dest:
  "kept C dest trig dest br full \<Longrightarrow> dest \<in> gc_to ` set br \<Longrightarrow> dest \<noteq> trig \<Longrightarrow> False"
  by (auto elim: kept_elim)

lemma kept_sound:
  assumes "kept C dest trig cur br full" "dest \<noteq> trig" "dest \<in> insert cur (gc_to ` set br)"
    and "\<And>t. t \<in> gc_to ` set br \<Longrightarrow> (cur, t) \<in> (walk_rel C dest trig)\<^sup>+"
  shows "grounded C dest trig cur \<and> (\<forall>c \<in> set full - set br. c \<in> C \<and> gc_type c = Main \<and> gc_from c \<noteq> dest \<and>
    gc_to c \<noteq> trig \<and> (gc_to c, cur) \<in> (walk_rel C dest trig)\<^sup>* \<and> grounded C dest trig (gc_from c))"
  using assms
proof (induction rule: kept.induct)
  case (at_trigger br)
  then show ?case by (auto simp: grounded_def)
next
  case (at_cycle cur br)
  then show ?case by (auto simp: grounded_def)
next
  case (up cur br c full)
  let ?R = "walk_rel C dest trig"
  have "dest \<in> gc_to ` set (br @ [c])" using up.prems(2) up.hyps(4) by auto
  then have d: "gc_from c \<noteq> dest" using kept_not_dest up.hyps(6) up.prems(1) by metis
  have e: "(gc_from c, cur) \<in> ?R" using walk_relI [of c C dest trig] up.hyps d by simp
  have IH: "grounded C dest trig (gc_from c) \<and> (\<forall>d \<in> set full - set (br @ [c]). d \<in> C \<and> gc_type d = Main \<and>
      gc_from d \<noteq> dest \<and> gc_to d \<noteq> trig \<and> (gc_to d, gc_from c) \<in> ?R\<^sup>* \<and> grounded C dest trig (gc_from d))"
  proof (rule up.IH [OF up.prems(1)])
    show "dest \<in> insert (gc_from c) (gc_to ` set (br @ [c]))" using up.prems(2) up.hyps(4) by auto
    show "(gc_from c, t) \<in> ?R\<^sup>+" if "t \<in> gc_to ` set (br @ [c])" for t
      using that e up.prems(3) [of t] up.hyps(4) by (auto intro: trancl_into_trancl2)
  qed
  show ?case
  proof (intro conjI ballI)
    show "grounded C dest trig cur" using IH e grounded_step by metis
  next
    fix d assume "d \<in> set full - set br"
    then consider "d = c" | "d \<in> set full - set (br @ [c])" by auto
    then show "d \<in> C" "gc_type d = Main" "gc_from d \<noteq> dest" "gc_to d \<noteq> trig" "(gc_to d, cur) \<in> ?R\<^sup>*"
      "grounded C dest trig (gc_from d)"
      using IH up.hyps d e by (cases; auto intro: rtrancl_into_rtrancl)+
  qed
qed

lemma kept_exists:
  assumes "finite C" "dest \<noteq> trig" "grounded C dest trig cur" "cur \<noteq> dest \<or> br = []"
  shows "\<exists>full. kept C dest trig cur br full \<and> set br \<subseteq> set full"
  using assms(3,4)
proof (induction "card (gc_to ` C - gc_to ` set br)" arbitrary: cur br rule: less_induct)
  case less
  consider "cur = trig" | "cur \<noteq> trig" "cur \<in> gc_to ` set br" | "cur \<noteq> trig" "cur \<notin> gc_to ` set br" by blast
  then show ?case
  proof cases
    case 1
    then show ?thesis by (auto simp: kept_trigger)
  next
    case 2
    then show ?thesis using less.prems by (auto simp: kept_cycle)
  next
    case 3
    obtain c where c: "c \<in> C" "gc_type c = Main" "gc_to c = cur" "gc_from c \<noteq> dest" "grounded C dest trig (gc_from c)"
      by (rule grounded_parent [OF less.prems(1) 3(1)])
    have "gc_to ` C - gc_to ` set (br @ [c]) \<subset> gc_to ` C - gc_to ` set br" using c 3(2) by auto
    then have "card (gc_to ` C - gc_to ` set (br @ [c])) < card (gc_to ` C - gc_to ` set br)"
      using assms(1) by (auto intro!: psubset_card_mono)
    then obtain full where "kept C dest trig (gc_from c) (br @ [c]) full" "set (br @ [c]) \<subseteq> set full"
      using less.hyps [of "br @ [c]" "gc_from c"] c by auto
    then show ?thesis using kept.up [OF 3 c(1,3,2)] by auto
  qed
qed

text \<open>The search visits every node that the destination sees, along a shortest way.\<close>

lemma visit_exists:
  assumes "(x, dest) \<in> walk_rel C dest trig ^^ n" "\<And>m. m < n \<Longrightarrow> (x, dest) \<notin> walk_rel C dest trig ^^ m" "dest \<noteq> trig"
  shows "\<exists>br. set br \<subseteq> C \<and> (\<forall>full. kept C dest trig x br full \<longrightarrow> kept C dest trig dest [] full) \<and>
    (\<forall>t \<in> gc_to ` set br. \<exists>m < n. (t, dest) \<in> walk_rel C dest trig ^^ m)"
  using assms(1,2)
proof (induction n arbitrary: x)
  case 0
  then show ?case by (intro exI [of _ "[]"]) auto
next
  case (Suc n)
  let ?R = "walk_rel C dest trig"
  obtain y where y: "(x, y) \<in> ?R" "(y, dest) \<in> ?R ^^ n" using Suc.prems(1) by (meson relpow_Suc_D2)
  have min: "(y, dest) \<notin> ?R ^^ m" if "m < n" for m
    using Suc.prems(2) [of "Suc m"] that y(1) relpow_Suc_I2 [of x y ?R dest m] by auto
  obtain br where br: "set br \<subseteq> C" "\<forall>full. kept C dest trig y br full \<longrightarrow> kept C dest trig dest [] full"
      "\<forall>t \<in> gc_to ` set br. \<exists>m < n. (t, dest) \<in> ?R ^^ m"
    using Suc.IH [OF y(2) min] by blast
  obtain c where c: "c \<in> C" "gc_type c = Main" "gc_from c = x" "gc_to c = y" "y \<noteq> trig"
    using y(1) by (auto simp: walk_rel_def)
  have "y \<notin> gc_to ` set br" using br(3) min by blast
  then have "kept C dest trig x (br @ [c]) full \<longrightarrow> kept C dest trig dest [] full" for full
    using br(2) kept.up [of y trig br c C dest full] c by simp
  then show ?case
    using br(1,3) c y(2) by (intro exI [of _ "br @ [c]"]) (auto simp: less_Suc_eq)
qed

lemma kept_conns_leads:
  assumes "finite C" "dest \<noteq> trig"
  shows "kept_conns C dest trig dest [] = {c. leads C dest trig c}"
proof (intro set_eqI iffI)
  fix c assume "c \<in> kept_conns C dest trig dest []"
  then obtain full where "kept C dest trig dest [] full" "c \<in> set full" by (auto simp: kept_conns_def)
  then show "c \<in> {c. leads C dest trig c}"
    using kept_sound [of C dest trig dest "[]" full] assms(2) by (auto simp: leads_def)
next
  let ?R = "walk_rel C dest trig"
  fix c assume "c \<in> {c. leads C dest trig c}"
  then have c: "c \<in> C" "gc_type c = Main" "gc_from c \<noteq> dest" "gc_to c \<noteq> trig" "(gc_to c, dest) \<in> ?R\<^sup>*"
      "grounded C dest trig (gc_from c)" by (auto simp: leads_def)
  define n where "n = (LEAST n. (gc_to c, dest) \<in> ?R ^^ n)"
  have "\<exists>n. (gc_to c, dest) \<in> ?R ^^ n" using c(5) by (simp add: rtrancl_power)
  then have n: "(gc_to c, dest) \<in> ?R ^^ n" unfolding n_def by (rule LeastI_ex)
  have min: "(gc_to c, dest) \<notin> ?R ^^ m" if "m < n" for m using that not_less_Least unfolding n_def by blast
  obtain br where br: "\<forall>full. kept C dest trig (gc_to c) br full \<longrightarrow> kept C dest trig dest [] full"
      "\<forall>t \<in> gc_to ` set br. \<exists>m < n. (t, dest) \<in> ?R ^^ m"
    using visit_exists [OF n min assms(2)] by blast
  have new: "gc_to c \<notin> gc_to ` set br" using br(2) min by blast
  obtain full where full: "kept C dest trig (gc_from c) (br @ [c]) full" "set (br @ [c]) \<subseteq> set full"
    using kept_exists [OF assms c(6)] c(3) by blast
  have "kept C dest trig (gc_to c) br full" by (rule kept.up [OF c(4) new c(1) refl c(2) full(1)])
  then show "c \<in> kept_conns C dest trig dest []" using br(1) full(2) by (auto simp: kept_conns_def)
qed

section \<open>The subgraph\<close>

lemma grown_new: "grown h g {} newDirectedGraph"
  by (simp add: grown_def subgraph_of_def)

text \<open>The connections of sub-nodes: those of another type anywhere above a node.\<close>

definition sub_conns :: "DirectedGraph \<Rightarrow> noderef \<Rightarrow> GraphConnection set" where
  "sub_conns g n = {c \<in> conns_of g. gc_type c \<noteq> Main \<and> (gc_to c, n) \<in> (edge_rel g)\<^sup>*}"

lemma add_sub_nodes_spec:
  assumes "wf_graph h g" "n \<in> nodes_of g" "grown h g X s"
  shows "\<exists>t. add_sub_nodes h g n s = Inr t \<and> grown h g X t \<and> conns_of t = conns_of s \<union> sub_conns g n"
proof -
  obtain ps where ps: "getParentConnections h g n = Inr ps"
      "set ps = {c \<in> conns_of g. (gc_to c, n) \<in> (edge_rel g)\<^sup>*}"
    using dg.parent_conns_spec [OF assms(1,2)] by blast
  let ?body = "\<lambda>c sg. if gc_type c = Main then Inr sg
    else addConnection h (input_of c) (addNodes h [gc_from c, gc_to c] sg)"
  have "\<exists>t. rfold ?body ps s = Inr t \<and> grown h g X t \<and>
      conns_of t = conns_of s \<union> (\<Union>c \<in> set ps. if gc_type c = Main then {} else {c})"
  proof (rule rfold_collect [where P = "grown h g X"], rule assms(3))
    fix c sg assume "c \<in> set ps" "grown h g X sg"
    then show "\<exists>t. ?body c sg = Inr t \<and> grown h g X t \<and>
        conns_of t = conns_of sg \<union> (if gc_type c = Main then {} else {c})"
      using grown_one [OF assms(1), of X sg c] ps(2) by auto
  qed
  moreover have "(\<Union>c \<in> set ps. if gc_type c = Main then {} else {c}) = sub_conns g n"
    by (auto simp: ps(2) sub_conns_def)
  ultimately show ?thesis using ps(1) by (simp add: add_sub_nodes_def)
qed

definition main_nodes :: "DirectedGraph \<Rightarrow> noderef \<Rightarrow> noderef \<Rightarrow> noderef set" where
  "main_nodes g dest trig = (if dest = trig then {trig} else ends {c. leads (conns_of g) dest trig c})"

definition subgraph_conns :: "DirectedGraph \<Rightarrow> noderef \<Rightarrow> noderef \<Rightarrow> GraphConnection set" where
  "subgraph_conns g dest trig =
     (if dest = trig then {} else {c. leads (conns_of g) dest trig c}) \<union>
     (\<Union>n \<in> main_nodes g dest trig. sub_conns g n)"

lemma findSubgraph_spec:
  assumes wf: "wf_graph h g" and nodes: "dest \<in> nodes_of g" "trig \<in> nodes_of g"
  shows "\<exists>s. findSubgraph h g dest trig = Inr s \<and> subgraph_of h g s \<and>
    conns_of s = subgraph_conns g dest trig \<and>
    nodes_of s = main_nodes g dest trig \<union> ends (subgraph_conns g dest trig)"
proof -
  let ?K = "if dest = trig then {} else {c. leads (conns_of g) dest trig c}"
  let ?X = "if dest = trig then {trig} else {}"
  have "\<exists>s. findSubgraphRecursive h g dest dest trig newDirectedGraph [] = Inr s \<and> grown h g ?X s \<and> conns_of s = ?K"
  proof (cases "dest = trig")
    case True
    have "grown h g {trig} (addNode h trig newDirectedGraph)"
      using subgraph_addNode [OF wf _ nodes(2), of newDirectedGraph] grown_new by (simp add: grown_def)
    then show ?thesis using True by (simp add: findSubgraphRecursive.simps add_branch_def)
  next
    case False
    then show ?thesis
      using findSubgraphRecursive_spec [OF wf nodes(2,1) grown_new, of "[]" dest]
        kept_conns_leads [of "conns_of g" dest trig] by simp
  qed
  then obtain s where s: "findSubgraphRecursive h g dest dest trig newDirectedGraph [] = Inr s"
      "grown h g ?X s" "conns_of s = ?K" by blast
  have n: "nodes_of s = main_nodes g dest trig"
    using s(2,3) by (simp add: grown_def main_nodes_def split: if_splits)
  have sub: "nodes_of s \<subseteq> nodes_of g" using s(2) unfolding grown_def subgraph_of_def by blast
  have "\<exists>t. rfold (add_sub_nodes h g) (vals (dg_nodes s)) s = Inr t \<and> grown h g ?X t \<and>
      conns_of t = conns_of s \<union> (\<Union>n \<in> set (vals (dg_nodes s)). sub_conns g n)"
  proof (rule rfold_collect [where P = "grown h g ?X"], rule s(2))
    fix n sg assume "n \<in> set (vals (dg_nodes s))" "grown h g ?X sg"
    then show "\<exists>t. add_sub_nodes h g n sg = Inr t \<and> grown h g ?X t \<and> conns_of t = conns_of sg \<union> sub_conns g n"
      using add_sub_nodes_spec [OF wf] sub unfolding nodes_of_def by blast
  qed
  then obtain t where t: "rfold (add_sub_nodes h g) (vals (dg_nodes s)) s = Inr t" "grown h g ?X t"
      "conns_of t = ?K \<union> (\<Union>n \<in> main_nodes g dest trig. sub_conns g n)"
    unfolding nodes_of_def [symmetric] n s(3) by blast
  have "conns_of t = subgraph_conns g dest trig" using t(3) by (simp add: subgraph_conns_def)
  moreover have "nodes_of t = main_nodes g dest trig \<union> ends (subgraph_conns g dest trig)"
  proof -
    have "nodes_of t = ?X \<union> ends (subgraph_conns g dest trig)"
      using t(2) calculation by (simp add: grown_def)
    moreover have "main_nodes g dest trig = ?X \<union> ends ?K" by (simp add: main_nodes_def)
    moreover have "ends ?K \<subseteq> ends (subgraph_conns g dest trig)"
      by (auto simp: ends_def subgraph_conns_def)
    ultimately show ?thesis by blast
  qed
  ultimately show ?thesis using s(1) t(1,2) by (auto simp: findSubgraph_def getNodes_def grown_def)
qed

end
