(* ===== verification/Handle_Cycles.thy ===== *)
theory Handle_Cycles
  imports Graph_Queries
begin

text \<open>
  \<open>handle-cycles.ts\<close>: a start node inside a cycle is replaced by the first node of the cycle
  that the trigger reaches.
\<close>

definition replace_start ::
    "heap \<Rightarrow> DirectedGraph \<Rightarrow> noderef \<Rightarrow> noderef \<Rightarrow> noderef list \<Rightarrow> noderef list \<Rightarrow> noderef list result" where
  "replace_start h g trigger startNode cycle newStartNodes =
     (if startNode \<in> set cycle then
        rbind (depthFirstSearch h g trigger (\<lambda>node. node \<in> set cycle)) (\<lambda>firstNode.
          case firstNode of
            None \<Rightarrow> Inl AssertionError
          | Some f \<Rightarrow> Inr (set_add f (set_delete startNode newStartNodes)))
      else Inr newStartNodes)"

definition handleCycles ::
    "heap \<Rightarrow> DirectedGraph \<Rightarrow> noderef list \<Rightarrow> noderef \<Rightarrow> noderef list result" where
  "handleCycles h g startNodes trigger =
     rbind (getStronglyConnectedComponents h g) (\<lambda>components.
       let cycles = filter (\<lambda>cycle. length cycle \<ge> 1) components;
           newStartNodes = set_of_list startNodes
       in if length cycles = 0 then Inr newStartNodes
          else rfold (\<lambda>startNode. rfold (replace_start h g trigger startNode) cycles)
            startNodes newStartNodes)"

text \<open>
  The comment in the code announces that components of one node are filtered out; the filter
  keeps every reported component.
\<close>

lemma cycles_unfiltered:
  assumes "wf_graph h g" "getStronglyConnectedComponents h g = Inr components"
  shows "filter (\<lambda>cycle. length cycle \<ge> 1) components = components"
proof -
  have "S \<noteq> []" if "S \<in> set components" for S
    using getStronglyConnectedComponents_spec [OF assms(1)] assms(2) that by auto
  then show ?thesis by (simp add: filter_id_conv Suc_le_eq)
qed

section \<open>The start nodes afterwards\<close>

text \<open>The first node of a component in the depth-first order from the trigger.\<close>

definition first_of :: "heap \<Rightarrow> DirectedGraph \<Rightarrow> noderef \<Rightarrow> noderef list \<Rightarrow> noderef" where
  "first_of h g trigger cycle =
     (case depthFirstSearch h g trigger (\<lambda>node. node \<in> set cycle) of Inr (Some f) \<Rightarrow> f | _ \<Rightarrow> trigger)"

definition enter_at :: "heap \<Rightarrow> DirectedGraph \<Rightarrow> noderef \<Rightarrow> noderef list list \<Rightarrow> noderef \<Rightarrow> noderef" where
  "enter_at h g trigger cycles s =
     (case filter (\<lambda>cycle. s \<in> set cycle) cycles of [] \<Rightarrow> s | cycle # _ \<Rightarrow> first_of h g trigger cycle)"

lemma replace_start_absent:
  "\<forall>S \<in> set cycles. s \<notin> set S \<Longrightarrow> rfold (replace_start h g t s) cycles n = Inr n"
  by (induction cycles arbitrary: n) (auto simp: replace_start_def)

lemma replace_start_present:
  "s \<in> set S \<Longrightarrow> depthFirstSearch h g t (\<lambda>n. n \<in> set S) = Inr (Some f) \<Longrightarrow>
    replace_start h g t s S n = Inr (set_add f (set_delete s n))"
  by (simp add: replace_start_def)

lemma enter_at_simps:
  "s \<in> set S \<Longrightarrow> enter_at h g t (S # cycles) s = first_of h g t S"
  "s \<notin> set S \<Longrightarrow> enter_at h g t (S # cycles) s = enter_at h g t cycles s"
  by (simp_all add: enter_at_def)

lemma replace_start_all:
  assumes "\<And>S T x. S \<in> set cycles \<Longrightarrow> T \<in> set cycles \<Longrightarrow> x \<in> set S \<Longrightarrow> x \<in> set T \<Longrightarrow> S = T"
    and "distinct cycles"
    and "\<And>S. S \<in> set cycles \<Longrightarrow> s \<in> set S \<Longrightarrow> \<exists>f. depthFirstSearch h g t (\<lambda>n. n \<in> set S) = Inr (Some f)"
  shows "rfold (replace_start h g t s) cycles n =
    Inr (if \<exists>S \<in> set cycles. s \<in> set S then set_add (enter_at h g t cycles s) (set_delete s n) else n)"
  using assms
proof (induction cycles)
  case Nil
  then show ?case by simp
next
  case (Cons S cycles)
  show ?case
  proof (cases "s \<in> set S")
    case True
    obtain f where f: "depthFirstSearch h g t (\<lambda>n. n \<in> set S) = Inr (Some f)"
      using Cons.prems(3) [of S] True by auto
    have "\<forall>T \<in> set cycles. s \<notin> set T"
      using Cons.prems(1) [of S _ s] Cons.prems(2) True by force
    then show ?thesis
      using True f by (simp add: replace_start_present replace_start_absent enter_at_simps first_of_def)
  next
    case False
    have "rfold (replace_start h g t s) cycles n =
        Inr (if \<exists>S \<in> set cycles. s \<in> set S then set_add (enter_at h g t cycles s) (set_delete s n) else n)"
      by (rule Cons.IH) (use Cons.prems in auto)
    moreover have "replace_start h g t s S n = Inr n" using False by (simp add: replace_start_def)
    ultimately show ?thesis using False by (simp add: enter_at_simps)
  qed
qed

text \<open>Replacing every member of a set, in any order, by an idempotent function.\<close>

lemma fold_replace:
  assumes "distinct ss" "distinct n" "set n = e ` D \<union> set ss" "D \<inter> set ss = {}"
    and "\<And>s. s \<in> D \<union> set ss \<Longrightarrow> e (e s) = e s" "\<And>s. \<not> P s \<Longrightarrow> e s = s"
  shows "distinct (fold (\<lambda>s n. if P s then set_add (e s) (set_delete s n) else n) ss n) \<and>
    set (fold (\<lambda>s n. if P s then set_add (e s) (set_delete s n) else n) ss n) = e ` (D \<union> set ss)"
  using assms(1-5)
proof (induction ss arbitrary: n D)
  case Nil
  then show ?case by simp
next
  case (Cons s ss)
  let ?n = "if P s then set_add (e s) (set_delete s n) else n"
  have "e s = s" if "s \<in> e ` D" using that Cons.prems(5) by auto
  then have set: "set ?n = e ` insert s D \<union> set ss"
    using Cons.prems(1,3,4) assms(6) [of s] by (cases "P s") auto
  have "distinct (fold (\<lambda>s n. if P s then set_add (e s) (set_delete s n) else n) ss ?n) \<and>
    set (fold (\<lambda>s n. if P s then set_add (e s) (set_delete s n) else n) ss ?n) = e ` (insert s D \<union> set ss)"
    by (rule Cons.IH) (use Cons.prems set in auto)
  then show ?case by simp
qed

lemma distinct_singleton: "set xs = {x} \<Longrightarrow> distinct xs \<Longrightarrow> xs = [x]"
  by (cases xs) (auto dest: subset_singletonD)

lemma distinct_of_concat: "distinct (concat xss) \<Longrightarrow> [] \<notin> set xss \<Longrightarrow> distinct xss"
  by (simp add: distinct_concat_iff removeAll_id)

text \<open>
  Every start node that the trigger reaches is mapped to the entry of its component, or to
  itself if no component was reported for it.
\<close>

lemma handleCycles_set:
  assumes wf: "wf_graph h g" and t: "trigger \<in> nodes_of g"
    and comp: "getStronglyConnectedComponents h g = Inr cycles"
    and d: "distinct startNodes"
    and reach: "\<And>s. s \<in> set startNodes \<Longrightarrow> (trigger, s) \<in> (edge_rel g)\<^sup>*"
  shows "\<exists>sn. handleCycles h g startNodes trigger = Inr sn \<and> distinct sn \<and>
    set sn = enter_at h g trigger cycles ` set startNodes"
proof -
  have uniq: "S = T" if "S \<in> set cycles" "T \<in> set cycles" "x \<in> set S" "x \<in> set T" for S T x
    using dg.component_unique [OF wf comp] that by blast
  have ne: "[] \<notin> set cycles" and dc: "distinct (concat cycles)"
    using getStronglyConnectedComponents_spec [OF wf] comp by auto
  have dist: "distinct cycles" by (rule distinct_of_concat [OF dc ne])
  have found: "\<exists>f. depthFirstSearch h g trigger (\<lambda>n. n \<in> set S) = Inr (Some f) \<and> f \<in> set S"
    if "S \<in> set cycles" "s \<in> set S" "s \<in> set startNodes" for S s
    using dg.find_in_component [OF wf t comp that(1,2) reach [OF that(3)]] by metis
  let ?e = "enter_at h g trigger cycles"
  let ?P = "\<lambda>s. \<exists>S \<in> set cycles. s \<in> set S"
  have the_cycle: "filter (\<lambda>cycle. s \<in> set cycle) cycles = [S]" if "S \<in> set cycles" "s \<in> set S" for S s
  proof -
    have "set (filter (\<lambda>cycle. s \<in> set cycle) cycles) = {S}" using uniq that by auto
    moreover have "distinct (filter (\<lambda>cycle. s \<in> set cycle) cycles)" using dist by simp
    ultimately show ?thesis by (rule distinct_singleton)
  qed
  have inside: "?e s = first_of h g trigger S" if "S \<in> set cycles" "s \<in> set S" for S s
    using the_cycle [OF that] by (simp add: enter_at_def)
  have outside: "?e s = s" if "\<not> ?P s" for s
  proof -
    have "filter (\<lambda>cycle. s \<in> set cycle) cycles = []" using that by (simp add: filter_empty_conv)
    then show ?thesis by (simp add: enter_at_def)
  qed
  have idem: "?e (?e s) = ?e s" if s: "s \<in> set startNodes" for s
  proof (cases "?P s")
    case True
    then obtain S where S: "S \<in> set cycles" "s \<in> set S" by blast
    have "first_of h g trigger S \<in> set S" using found [OF S s] by (auto simp: first_of_def)
    then show ?thesis using inside S by simp
  qed (simp add: outside)
  have loop: "rfold (\<lambda>s. rfold (replace_start h g trigger s) cycles) ss n =
      Inr (fold (\<lambda>s n. if ?P s then set_add (?e s) (set_delete s n) else n) ss n)"
    if "set ss \<subseteq> set startNodes" for ss n
    using that
  proof (induction ss arbitrary: n)
    case Nil
    then show ?case by simp
  next
    case (Cons s ss)
    have "rfold (replace_start h g trigger s) cycles n =
        Inr (if ?P s then set_add (?e s) (set_delete s n) else n)"
    proof (rule replace_start_all)
      show "\<exists>f. depthFirstSearch h g trigger (\<lambda>n. n \<in> set S) = Inr (Some f)"
        if "S \<in> set cycles" "s \<in> set S" for S
        using found [OF that] Cons.prems by auto
    qed (use uniq dist in auto)
    then show ?case using Cons by simp
  qed
  have "distinct (fold (\<lambda>s n. if ?P s then set_add (?e s) (set_delete s n) else n) startNodes
        (set_of_list startNodes)) \<and>
      set (fold (\<lambda>s n. if ?P s then set_add (?e s) (set_delete s n) else n) startNodes
        (set_of_list startNodes)) = ?e ` ({} \<union> set startNodes)"
    by (rule fold_replace) (use d idem outside in auto)
  moreover have "handleCycles h g startNodes trigger = Inr
      (fold (\<lambda>s n. if ?P s then set_add (?e s) (set_delete s n) else n) startNodes (set_of_list startNodes))"
  proof (cases "cycles = []")
    case True
    have "fold (\<lambda>s n. n) startNodes m = m" for m :: "noderef list" by (induction startNodes) auto
    with True show ?thesis using comp by (simp add: handleCycles_def)
  next
    case False
    then show ?thesis
      using comp loop cycles_unfiltered [OF wf comp] by (simp add: handleCycles_def)
  qed
  ultimately show ?thesis by simp
qed

lemma enter_at_cases:
  "enter_at h g t cycles s = s \<or>
    (\<exists>S \<in> set cycles. s \<in> set S \<and> enter_at h g t cycles s = first_of h g t S)"
proof (cases "filter (\<lambda>cycle. s \<in> set cycle) cycles")
  case Nil
  then show ?thesis by (simp add: enter_at_def)
next
  case (Cons S rest)
  have "S \<in> set (filter (\<lambda>cycle. s \<in> set cycle) cycles)" by (simp add: Cons)
  then have "S \<in> set cycles" "s \<in> set S" by simp_all
  then show ?thesis using Cons by (auto simp: enter_at_def)
qed

end
