(* ===== verification/Source_Data_Groups.thy ===== *)
theory Source_Data_Groups
  imports Run_Data
begin

text \<open>
  \<open>get-source-data-groups.ts\<close>: the connections into a node, in groups of at most one connection
  per input, so that the groups with data for all their inputs can be run and the others wait.
  The collation order of \<open>localeCompare\<close> depends on the runtime's locale and is a parameter.
\<close>

section \<open>Sorting\<close>

text \<open>
  \<open>Array.prototype.sort\<close> is stable; the sign of the comparator decides. The engine inserts one
  element after the other in front of the first one that is greater.
\<close>

fun insert_by :: "('a \<Rightarrow> 'a \<Rightarrow> int) \<Rightarrow> 'a \<Rightarrow> 'a list \<Rightarrow> 'a list" where
  "insert_by cmp x [] = [x]"
| "insert_by cmp x (y # ys) = (if cmp x y < 0 then x # y # ys else y # insert_by cmp x ys)"

definition js_sort :: "('a \<Rightarrow> 'a \<Rightarrow> int) \<Rightarrow> 'a list \<Rightarrow> 'a list" where
  "js_sort cmp xs = fold (insert_by cmp) xs []"

lemma mset_insert_by: "mset (insert_by cmp x ys) = add_mset x (mset ys)"
  by (induction ys) auto

lemma mset_fold_insert: "mset (fold (insert_by cmp) xs ys) = mset xs + mset ys"
  by (induction xs arbitrary: ys) (simp_all add: mset_insert_by)

lemma mset_js_sort [simp]: "mset (js_sort cmp xs) = mset xs"
  by (simp add: js_sort_def mset_fold_insert)

text \<open>
  A comparator sorts by every total preorder it agrees with; one that subtracts ranks sorts by rank.
\<close>

lemma insert_by_sorted:
  assumes le: "\<And>x y. cmp x y < 0 \<Longrightarrow> le x y" "\<And>x y. \<not> cmp x y < 0 \<Longrightarrow> le y x"
      "\<And>x y z. le x y \<Longrightarrow> le y z \<Longrightarrow> le x z"
    and "sorted_wrt le ys"
  shows "sorted_wrt le (insert_by cmp x ys)"
  using assms(4)
proof (induction ys)
  case (Cons y ys)
  have "set (insert_by cmp x ys) = insert x (set ys)"
    by (metis mset_insert_by set_mset_add_mset_insert set_mset_mset)
  moreover have "le x z" if "cmp x y < 0" "z \<in> set ys" for z
    using le(3) [OF le(1) [OF that(1)]] Cons.prems that(2) by simp
  ultimately show ?case using Cons le(1,2) by auto
qed simp

lemma js_sort_sorted:
  assumes "\<And>x y. cmp x y < 0 \<Longrightarrow> le x y" "\<And>x y. \<not> cmp x y < 0 \<Longrightarrow> le y x"
    "\<And>x y z. le x y \<Longrightarrow> le y z \<Longrightarrow> le x z"
  shows "sorted_wrt le (js_sort cmp xs)"
proof -
  have "sorted_wrt le (fold (insert_by cmp) xs ys)" if "sorted_wrt le ys" for ys
    using that by (induction xs arbitrary: ys) (simp_all add: insert_by_sorted [of cmp le, OF assms])
  then show ?thesis by (simp add: js_sort_def)
qed

lemma js_sort_rank:
  assumes "\<And>x y. cmp x y = rank x - (rank y :: int)"
  shows "sorted_wrt (\<lambda>a b. rank a \<le> rank b) (js_sort cmp xs)"
  by (rule js_sort_sorted) (auto simp: assms)

lemma set_js_sort [simp]: "set (js_sort cmp xs) = set xs"
  by (rule mset_eq_setD) simp

lemma js_sort_Nil [simp]: "js_sort cmp xs = [] \<longleftrightarrow> xs = []"
  by (metis mset_js_sort mset_zero_iff)

definition sortByInputIndexThenByName ::
    "heap \<Rightarrow> (string \<Rightarrow> string \<Rightarrow> int) \<Rightarrow> GraphConnection \<Rightarrow> GraphConnection \<Rightarrow> int" where
  "sortByInputIndexThenByName h localeCompare connection1 connection2 =
     (if gc_input connection1 = gc_input connection2
      then localeCompare (node_name (h (gc_from connection1))) (node_name (h (gc_from connection2)))
      else int (gc_input connection1) - int (gc_input connection2))"

section \<open>Grouping\<close>

record SourceConnectionGroup =
  grp_complete :: bool
  grp_connections :: "GraphConnection list"

definition newGroup :: SourceConnectionGroup where
  "newGroup = \<lparr>grp_complete = True, grp_connections = []\<rparr>"

definition push_connection :: "GraphConnection \<Rightarrow> SourceConnectionGroup \<Rightarrow> SourceConnectionGroup" where
  "push_connection c grp = grp\<lparr>grp_connections := grp_connections grp @ [c]\<rparr>"

definition hasData :: "heap \<Rightarrow> IRunData \<Rightarrow> IPinData \<Rightarrow> GraphConnection \<Rightarrow> bool" where
  "hasData h runData pinnedData c \<longleftrightarrow>
     node_name (h (gc_from c)) \<in> fst ` set runData \<or> node_name (h (gc_from c)) \<in> fst ` set pinnedData"

text \<open>\<open>Math.min\<close> over the input indices of what is left, less one.\<close>

definition before_first :: "GraphConnection list \<Rightarrow> GraphConnection list \<Rightarrow> int" where
  "before_first withData withoutData = int (Min (gc_input ` set (withData @ withoutData))) - 1"

lemma before_first_found:
  assumes "withData \<noteq> [] \<or> withoutData \<noteq> []"
  shows "\<exists>c \<in> set (withData @ withoutData). int (gc_input c) = before_first withData withoutData + 1"
proof -
  have "Min (gc_input ` set (withData @ withoutData)) \<in> gc_input ` set (withData @ withoutData)"
    by (rule Min_in) (use assms in auto)
  then obtain c where "c \<in> set (withData @ withoutData)" "Min (gc_input ` set (withData @ withoutData)) = gc_input c"
    by blast
  then show ?thesis by (intro bexI [of _ c]) (simp_all add: before_first_def)
qed

definition next_found :: "GraphConnection list \<Rightarrow> GraphConnection list \<Rightarrow> int \<Rightarrow> bool" where
  "next_found withData withoutData i \<longleftrightarrow> list_ex (\<lambda>c. int (gc_input c) = i + 1) (withData @ withoutData)"

lemma next_found_iff: "next_found W N i \<longleftrightarrow> (\<exists>c \<in> set (W @ N). int (gc_input c) = i + 1)"
  by (auto simp: next_found_def list_ex_iff)

lemma extract_length: "List.extract P xs = Some (ys, c, zs) \<Longrightarrow> length xs = Suc (length (ys @ zs))"
  by (auto simp: extract_Some_iff)

text \<open>
  The \<open>while\<close> loop; \<open>List.extract\<close> stands for \<open>findIndex\<close> followed by \<open>splice\<close>.
\<close>

function group_loop ::
    "GraphConnection list \<Rightarrow> GraphConnection list \<Rightarrow> SourceConnectionGroup \<Rightarrow> int \<Rightarrow>
     SourceConnectionGroup list \<Rightarrow> SourceConnectionGroup list" where
  "group_loop withData withoutData currentGroup currentInputIndex groups =
     (if withData = [] \<and> withoutData = [] then groups @ [currentGroup]
      else
        let i = currentInputIndex + 1 in
        case List.extract (\<lambda>c. int (gc_input c) = i) withData of
          Some (ys, c, zs) \<Rightarrow> group_loop (ys @ zs) withoutData (push_connection c currentGroup) i groups
        | None \<Rightarrow>
            (case List.extract (\<lambda>c. int (gc_input c) = i) withoutData of
               Some (ys, c, zs) \<Rightarrow>
                 group_loop withData (ys @ zs) ((push_connection c currentGroup)\<lparr>grp_complete := False\<rparr>) i groups
             | None \<Rightarrow>
                 group_loop withData withoutData newGroup (before_first withData withoutData)
                   (groups @ [currentGroup])))"
  by pat_completeness auto
termination
proof (relation "measure (\<lambda>(W, N, g, i, gs).
    2 * (length W + length N) + (if next_found W N i then 0 else 1))", goal_cases)
  case 1
  then show ?case by simp
next
  case (2 W N g i gs j)
  have "next_found W N (before_first W N)" using before_first_found 2(1) by (auto simp: next_found_iff)
  moreover have "\<not> next_found W N i"
    using 2(2-4) by (auto simp: next_found_iff extract_None_iff)
  ultimately show ?case by simp
next
  case 3
  then show ?case by (auto dest!: extract_length)
next
  case 4
  then show ?case by (auto dest!: extract_length)
qed

declare group_loop.simps [simp del]

definition getSourceDataGroups ::
    "heap \<Rightarrow> (string \<Rightarrow> string \<Rightarrow> int) \<Rightarrow> DirectedGraph \<Rightarrow> noderef \<Rightarrow> IRunData \<Rightarrow> IPinData \<Rightarrow>
     SourceConnectionGroup list" where
  "getSourceDataGroups h localeCompare g node runData pinnedData =
     (let connections = getConnections g (Some node);
          withData = filter (hasData h runData pinnedData) connections;
          withoutData = filter (\<lambda>c. \<not> hasData h runData pinnedData c \<and> gc_type c = Main) connections
      in if length withData = 0 \<and> length withoutData = 0 then []
         else
           let withData' = js_sort (sortByInputIndexThenByName h localeCompare) withData;
               withoutData' = js_sort (sortByInputIndexThenByName h localeCompare) withoutData
           in group_loop withData' withoutData' newGroup (before_first withData' withoutData') [])"

section \<open>What a grouping promises\<close>

text \<open>
  A group is not empty, its connections enter consecutive inputs, and it is complete if and only
  if all of them have data. Of two groups, the earlier one could not have been continued by a
  connection of the later one, and never holds a connection without data for an input that the
  later one has data for.
\<close>

fun consecutive :: "GraphConnection list \<Rightarrow> bool" where
  "consecutive (c # d # cs) \<longleftrightarrow> gc_input d = gc_input c + 1 \<and> consecutive (d # cs)"
| "consecutive _ \<longleftrightarrow> True"

definition ok_group :: "(GraphConnection \<Rightarrow> bool) \<Rightarrow> SourceConnectionGroup \<Rightarrow> bool" where
  "ok_group P grp \<longleftrightarrow> grp_connections grp \<noteq> [] \<and> consecutive (grp_connections grp) \<and>
     (grp_complete grp \<longleftrightarrow> list_all P (grp_connections grp))"

definition precedes :: "(GraphConnection \<Rightarrow> bool) \<Rightarrow> SourceConnectionGroup \<Rightarrow> SourceConnectionGroup \<Rightarrow> bool" where
  "precedes P g1 g2 \<longleftrightarrow> list_all (\<lambda>d.
     gc_input d \<noteq> gc_input (last (grp_connections g1)) + 1 \<and>
     list_all (\<lambda>c. \<not> P c \<and> P d \<longrightarrow> gc_input c \<noteq> gc_input d) (grp_connections g1)) (grp_connections g2)"

definition grouping :: "(GraphConnection \<Rightarrow> bool) \<Rightarrow> SourceConnectionGroup list \<Rightarrow> bool" where
  "grouping P gs \<longleftrightarrow> list_all (ok_group P) gs \<and> sorted_wrt (precedes P) gs"

definition members :: "SourceConnectionGroup list \<Rightarrow> GraphConnection multiset" where
  "members gs = mset (concat (map grp_connections gs))"

text \<open>The group under construction.\<close>

definition pending ::
    "(GraphConnection \<Rightarrow> bool) \<Rightarrow> GraphConnection list \<Rightarrow> GraphConnection list \<Rightarrow> SourceConnectionGroup \<Rightarrow> int \<Rightarrow> bool" where
  "pending P W N grp i \<longleftrightarrow>
     (\<forall>c \<in> set W. P c) \<and> (\<forall>c \<in> set N. \<not> P c) \<and>
     consecutive (grp_connections grp) \<and> (grp_complete grp \<longleftrightarrow> list_all P (grp_connections grp)) \<and>
     (if grp_connections grp = [] then next_found W N i else int (gc_input (last (grp_connections grp))) = i) \<and>
     (\<forall>c \<in> set (grp_connections grp). \<not> P c \<longrightarrow> (\<forall>d \<in> set W. gc_input d \<noteq> gc_input c))"

lemma consecutive_snoc:
  "consecutive cs \<Longrightarrow> cs = [] \<or> gc_input c = gc_input (last cs) + 1 \<Longrightarrow> consecutive (cs @ [c])"
  by (induction cs rule: consecutive.induct) auto

lemma pendingD:
  assumes "pending P W N grp i"
  shows "\<And>c. c \<in> set W \<Longrightarrow> P c" "\<And>c. c \<in> set N \<Longrightarrow> \<not> P c" "consecutive (grp_connections grp)"
    "grp_complete grp \<longleftrightarrow> list_all P (grp_connections grp)"
    "grp_connections grp = [] \<Longrightarrow> next_found W N i"
    "grp_connections grp \<noteq> [] \<Longrightarrow> int (gc_input (last (grp_connections grp))) = i"
    "\<And>c d. c \<in> set (grp_connections grp) \<Longrightarrow> \<not> P c \<Longrightarrow> d \<in> set W \<Longrightarrow> gc_input d \<noteq> gc_input c"
  using assms by (auto simp: pending_def split: if_splits)

lemma pending_push:
  assumes "pending P W N grp i" "int (gc_input c) = i + 1" "set W' \<subseteq> set W" "set N' \<subseteq> set N"
    and "P c \<Longrightarrow> grp' = push_connection c grp"
    and "\<not> P c \<Longrightarrow> grp' = (push_connection c grp)\<lparr>grp_complete := False\<rparr>"
    and "\<not> P c \<Longrightarrow> \<forall>d \<in> set W. gc_input d \<noteq> gc_input c"
  shows "pending P W' N' grp' (i + 1)"
proof -
  note d = pendingD [OF assms(1)]
  have "grp_connections grp = [] \<or> gc_input c = gc_input (last (grp_connections grp)) + 1"
    using d(6) assms(2) by (cases "grp_connections grp = []") simp_all
  then have "consecutive (grp_connections grp @ [c])" by (rule consecutive_snoc [OF d(3)])
  moreover have "grp_connections grp' = grp_connections grp @ [c]"
    using assms(5,6) by (cases "P c") (simp_all add: push_connection_def)
  moreover have "grp_complete grp' \<longleftrightarrow> list_all P (grp_connections grp @ [c])"
    using assms(5,6) d(4) by (cases "P c") (simp_all add: push_connection_def)
  moreover have "gc_input e \<noteq> gc_input b" if "b \<in> set (grp_connections grp @ [c])" "\<not> P b" "e \<in> set W'" for b e
    using that d(7) [of b e] assms(3,7) by auto
  ultimately show ?thesis
    using assms(2-4) d(1,2) by (auto simp: pending_def subset_iff)
qed

lemma precedes_new [simp]: "precedes P g newGroup"
  by (simp add: precedes_def newGroup_def)

lemma precedes_snoc:
  assumes "grp_connections grp' = grp_connections grp @ [c]" "precedes P g grp"
    and "precedes P g \<lparr>grp_complete = True, grp_connections = [c]\<rparr>"
  shows "precedes P g grp'"
  using assms by (simp add: precedes_def)


lemma group_loop_spec:
  assumes "pending P W N grp i" "sorted_wrt (precedes P) (gs @ [grp])" "list_all (ok_group P) gs"
    and "\<And>g d. g \<in> set gs \<Longrightarrow> d \<in> set (W @ N) \<Longrightarrow> precedes P g \<lparr>grp_complete = True, grp_connections = [d]\<rparr>"
  shows "grouping P (group_loop W N grp i gs) \<and>
    members (group_loop W N grp i gs) = members gs + mset (grp_connections grp) + mset W + mset N"
  using assms
proof (induction W N grp i gs rule: group_loop.induct [case_names loop])
  case (loop W N grp i gs)
  note d = pendingD [OF loop.prems(1)]
  have ok: "ok_group P grp" if "\<not> next_found W N i"
    using d that by (auto simp: ok_group_def)
  note unfolded = group_loop.simps [of W N grp i gs]
  have later: "sorted_wrt (precedes P) (gs @ [grp'])"
    if "grp_connections grp' = grp_connections grp @ [c]" "c \<in> set (W @ N)" for grp' c
    using loop.prems(2) precedes_snoc [OF that(1) _ loop.prems(4) [OF _ that(2)]]
    by (auto simp: sorted_wrt_append)
  consider (finished) "W = []" "N = []"
    | (with_data) ys c zs where "\<not> (W = [] \<and> N = [])" "List.extract (\<lambda>c. int (gc_input c) = i + 1) W = Some (ys, c, zs)"
    | (without) ys c zs where "\<not> (W = [] \<and> N = [])" "List.extract (\<lambda>c. int (gc_input c) = i + 1) W = None"
        "List.extract (\<lambda>c. int (gc_input c) = i + 1) N = Some (ys, c, zs)"
    | (restart) "\<not> (W = [] \<and> N = [])" "List.extract (\<lambda>c. int (gc_input c) = i + 1) W = None"
        "List.extract (\<lambda>c. int (gc_input c) = i + 1) N = None"
    by (metis not_Some_eq prod_cases3)
  then show ?case
  proof cases
    case finished
    then have "\<not> next_found W N i" by (simp add: next_found_def)
    then show ?thesis
      unfolding unfolded using finished ok loop.prems(2,3) by (simp add: grouping_def members_def)
  next
    case with_data
    have W: "W = ys @ c # zs" and c: "int (gc_input c) = i + 1" using with_data(2) by (auto simp: extract_Some_iff)
    let ?g = "push_connection c grp"
    have g: "grp_connections ?g = grp_connections grp @ [c]" by (simp add: push_connection_def)
    have "grouping P (group_loop (ys @ zs) N ?g (i + 1) gs) \<and>
      members (group_loop (ys @ zs) N ?g (i + 1) gs) = members gs + mset (grp_connections ?g) + mset (ys @ zs) + mset N"
    proof (rule loop.IH(3) [OF with_data(1) refl with_data(2) refl refl])
      show "pending P (ys @ zs) N ?g (i + 1)"
        by (rule pending_push [OF loop.prems(1) c]) (use W d(1) in auto)
      show "sorted_wrt (precedes P) (gs @ [?g])" by (rule later [OF g]) (simp add: W)
    qed (use loop.prems W in auto)
    moreover have "group_loop W N grp i gs = group_loop (ys @ zs) N ?g (i + 1) gs"
      unfolding unfolded using with_data by auto
    ultimately show ?thesis using W g by (simp add: ac_simps)
  next
    case without
    have N: "N = ys @ c # zs" and c: "int (gc_input c) = i + 1" using without(3) by (auto simp: extract_Some_iff)
    have none: "gc_input e \<noteq> gc_input c" if "e \<in> set W" for e
      using without(2) that c by (auto simp: extract_None_iff)
    let ?g = "(push_connection c grp)\<lparr>grp_complete := False\<rparr>"
    have g: "grp_connections ?g = grp_connections grp @ [c]" by (simp add: push_connection_def)
    have "grouping P (group_loop W (ys @ zs) ?g (i + 1) gs) \<and>
      members (group_loop W (ys @ zs) ?g (i + 1) gs) = members gs + mset (grp_connections ?g) + mset W + mset (ys @ zs)"
    proof (rule loop.IH(2) [OF without(1) refl without(2,3) refl refl])
      show "pending P W (ys @ zs) ?g (i + 1)"
        by (rule pending_push [OF loop.prems(1) c]) (use N d(2) none in auto)
      show "sorted_wrt (precedes P) (gs @ [?g])" by (rule later [OF g]) (simp add: N)
    qed (use loop.prems N in auto)
    moreover have "group_loop W N grp i gs = group_loop W (ys @ zs) ?g (i + 1) gs"
      unfolding unfolded using without by auto
    ultimately show ?thesis using N g by (simp add: ac_simps)
  next
    case restart
    have nf: "\<not> next_found W N i" using restart(2,3) by (auto simp: next_found_iff extract_None_iff)
    have last: "int (gc_input (last (grp_connections grp))) = i" "grp_connections grp \<noteq> []"
      using d(5,6) nf by auto
    have after: "precedes P grp \<lparr>grp_complete = True, grp_connections = [e]\<rparr>" if "e \<in> set (W @ N)" for e
    proof -
      have "int (gc_input e) \<noteq> i + 1" using nf that by (auto simp: next_found_iff)
      moreover have "gc_input b \<noteq> gc_input e" if "b \<in> set (grp_connections grp)" "\<not> P b" "P e" for b
        using d(2,7) that \<open>e \<in> set (W @ N)\<close> by (metis Un_iff set_append)
      ultimately show ?thesis using last(1) by (auto simp: precedes_def list_all_iff)
    qed
    let ?b = "before_first W N"
    have "grouping P (group_loop W N newGroup ?b (gs @ [grp])) \<and>
      members (group_loop W N newGroup ?b (gs @ [grp])) =
        members (gs @ [grp]) + mset (grp_connections newGroup) + mset W + mset N"
    proof (rule loop.IH(1) [OF restart(1) refl restart(2,3)])
      show "pending P W N newGroup ?b"
        using d(1,2) before_first_found [of W N] restart(1) by (auto simp: pending_def newGroup_def next_found_iff)
      show "sorted_wrt (precedes P) ((gs @ [grp]) @ [newGroup])"
        using loop.prems(2) by (auto simp: sorted_wrt_append)
    qed (use loop.prems(3,4) ok [OF nf] after in auto)
    moreover have "group_loop W N grp i gs = group_loop W N newGroup ?b (gs @ [grp])"
      unfolding unfolded using restart by auto
    ultimately show ?thesis by (simp add: members_def newGroup_def ac_simps)
  qed
qed

lemma getSourceDataGroups_spec:
  assumes "gs = getSourceDataGroups h localeCompare g node rd pd"
  shows "grouping (hasData h rd pd) gs"
    "members gs = mset (filter (\<lambda>c. hasData h rd pd c \<or> gc_type c = Main) (getConnections g (Some node)))"
proof -
  let ?P = "hasData h rd pd" and ?cs = "getConnections g (Some node)"
  let ?W = "filter ?P ?cs" and ?N = "filter (\<lambda>c. \<not> ?P c \<and> gc_type c = Main) ?cs"
  let ?W' = "js_sort (sortByInputIndexThenByName h localeCompare) ?W"
  let ?N' = "js_sort (sortByInputIndexThenByName h localeCompare) ?N"
  have split: "mset ?W + mset ?N = mset (filter (\<lambda>c. ?P c \<or> gc_type c = Main) ?cs)"
    by (rule multiset_eqI) auto
  have "grouping ?P gs \<and> members gs = mset ?W + mset ?N"
  proof (cases "?W = [] \<and> ?N = []")
    case True
    then have "gs = []" unfolding assms getSourceDataGroups_def Let_def by simp
    then show ?thesis using True by (simp add: grouping_def members_def)
  next
    case False
    then have gs: "gs = group_loop ?W' ?N' newGroup (before_first ?W' ?N') []"
      unfolding assms getSourceDataGroups_def Let_def by auto
    have "?W' \<noteq> [] \<or> ?N' \<noteq> []" using False by auto
    then have "next_found ?W' ?N' (before_first ?W' ?N')"
      unfolding next_found_iff by (rule before_first_found)
    then have "pending ?P ?W' ?N' newGroup (before_first ?W' ?N')"
      by (simp add: pending_def newGroup_def)
    then show ?thesis
      using group_loop_spec [of ?P ?W' ?N' newGroup "before_first ?W' ?N'" "[]"] unfolding gs
      by (simp add: members_def newGroup_def)
  qed
  then show "grouping ?P gs" "members gs = mset (filter (\<lambda>c. ?P c \<or> gc_type c = Main) ?cs)"
    using split by auto
qed

end
