(* ===== verification/Start_Nodes.thy ===== *)
theory Start_Nodes
  imports Graph_Traversal Run_Data
begin

text \<open>
  \<open>find-start-nodes.ts\<close>: when a node is dirty, and the search for the nodes a partial
  execution starts from. The search follows paths (the set of seen nodes is copied at every
  call), stops a branch at the first node that has to run, and leaves out the outputs that
  produced no data. The set it returns is characterised exactly.
\<close>

section \<open>Dirty nodes\<close>

definition isDirty :: "heap \<Rightarrow> noderef \<Rightarrow> IRunData \<Rightarrow> IPinData \<Rightarrow> bool" where
  "isDirty h node runData pinData =
     (let propertiesOrOptionsChanged = False;
          parentNodeGotDisabled = False;
          name = node_name (h node);
          hasAnError = (case map_of runData name of None \<Rightarrow> False
            | Some runs \<Rightarrow> list_ex (\<lambda>taskData. task_error taskData \<noteq> None) runs);
          hasPinnedData = (map_of pinData name \<noteq> None);
          hasRunData = (map_of runData name \<noteq> None)
      in if propertiesOrOptionsChanged then True
         else if parentNodeGotDisabled then True
         else if hasAnError then True
         else if hasPinnedData then False
         else if hasRunData then False
         else True)"

lemma isDirty_iff:
  "isDirty h n rd pd \<longleftrightarrow>
     (\<exists>runs t. map_of rd (node_name (h n)) = Some runs \<and> t \<in> set runs \<and> task_error t \<noteq> None) \<or>
     map_of rd (node_name (h n)) = None \<and> map_of pd (node_name (h n)) = None"
  by (auto simp: isDirty_def Let_def list_ex_iff split: option.splits)

section \<open>The search\<close>

definition splitInBatches :: string where
  "splitInBatches = ''n8n-nodes-base.splitInBatches''"

definition isALoop :: "heap \<Rightarrow> DirectedGraph \<Rightarrow> noderef \<Rightarrow> bool result" where
  "isALoop h g node = rbind (getChildren h g node) (\<lambda>children. Inr (node \<in> set children))"

text \<open>The three checks that make the current node a start node, in their order.\<close>

definition startsHere ::
    "heap \<Rightarrow> DirectedGraph \<Rightarrow> noderef \<Rightarrow> IRunData \<Rightarrow> IPinData \<Rightarrow> noderef \<Rightarrow> bool result" where
  "startsHere h g destination runData pinData current =
     (if isDirty h current runData pinData then Inr True
      else if current = destination then Inr True
      else if node_type (h current) = splitInBatches then
        rbind (isALoop h g current) (\<lambda>loop.
        rbind (getIncomingData runData (node_name (h current)) (-1) Main (if loop then 0 else 1)) (\<lambda>nodeRunData.
          Inr (nodeRunData = None \<or> nodeRunData = Some [])))
      else Inr False)"

text \<open>An output is followed when some run produced data on it, or its node has pinned data.\<close>

definition followed :: "heap \<Rightarrow> IRunData \<Rightarrow> IPinData \<Rightarrow> GraphConnection \<Rightarrow> bool result" where
  "followed h runData pinData outGoingConnection =
     (let name = node_name (h (gc_from outGoingConnection)) in
      rbind (getIncomingDataFromAnyRun runData name (gc_type outGoingConnection) (gc_output outGoingConnection))
        (\<lambda>nodeRunData.
          let hasNoRunData = (case nodeRunData of None \<Rightarrow> True | Some (data, _) \<Rightarrow> length data = 0);
              hasNoPinnedData = (map_of pinData name = None)
          in Inr (\<not> (hasNoRunData \<and> hasNoPinnedData))))"

function findStartNodesRecursive ::
    "heap \<Rightarrow> DirectedGraph \<Rightarrow> noderef \<Rightarrow> noderef \<Rightarrow> IRunData \<Rightarrow> IPinData \<Rightarrow> noderef list \<Rightarrow> noderef list \<Rightarrow>
      noderef list result" where
  "findStartNodesRecursive h g current destination runData pinData startNodes seen =
     rbind (startsHere h g destination runData pinData current) (\<lambda>starts.
       if starts then Inr (set_add current startNodes)
       else if current \<in> set seen then Inr startNodes
       else rbind (getDirectChildConnections h g current) (\<lambda>outGoingConnections.
         rfold (\<lambda>outGoingConnection startNodes.
           rbind (followed h runData pinData outGoingConnection) (\<lambda>follow.
             if follow then findStartNodesRecursive h g (gc_to outGoingConnection) destination runData
                 pinData startNodes (set_add current seen)
             else Inr startNodes))
         outGoingConnections startNodes))"
  by pat_completeness auto
termination
proof (relation "measure (\<lambda>(h, g, current, d, rd, pd, sn, seen).
    card (insert current (gc_to ` conns_of g) - set seen))", goal_cases)
  case 1
  then show ?case by simp
next
  case (2 h g current d rd pd sn seen starts cs c sn')
  have "card (insert (gc_to c) (gc_to ` conns_of g) - set (set_add current seen)) <
      card (insert current (gc_to ` conns_of g) - set seen)"
    by (rule card_less_insert [of _ current]) (use 2 direct_children_sub in auto)
  then show ?case by simp
qed

declare findStartNodesRecursive.simps [simp del]

definition findStartNodes ::
    "heap \<Rightarrow> DirectedGraph \<Rightarrow> noderef \<Rightarrow> noderef \<Rightarrow> IPinData \<Rightarrow> IRunData \<Rightarrow> noderef list result" where
  "findStartNodes h g trigger destination pinData runData =
     findStartNodesRecursive h g trigger destination runData pinData [] []"

section \<open>What it finds\<close>

text \<open>The run data can be read wherever the search looks.\<close>

definition readable :: "heap \<Rightarrow> DirectedGraph \<Rightarrow> IRunData \<Rightarrow> bool" where
  "readable h g runData \<longleftrightarrow>
     list_all (\<lambda>(n, runs). list_all (\<lambda>run. case task_data run of None \<Rightarrow> True
       | Some data \<Rightarrow> map_of data Main \<noteq> None \<and>
           list_all (\<lambda>c. node_name (h (gc_from c)) = n \<longrightarrow> map_of data (gc_type c) \<noteq> None)
             (vals (dg_conns g))) runs) runData"

lemma js_at_in: "js_at xs i = Some x \<Longrightarrow> x \<in> set xs"
  by (auto simp: js_at_def Let_def split: if_splits)

lemma readable_getIncomingData:
  assumes "readable h g rd" "t = Main \<or> (\<exists>c \<in> conns_of g. node_name (h (gc_from c)) = n \<and> gc_type c = t)"
  shows "\<exists>d. getIncomingData rd n ri t oi = Inr d"
proof (cases "map_of rd n")
  case None
  then show ?thesis by (simp add: getIncomingData_def)
next
  case (Some runs)
  then have "(n, runs) \<in> set rd" by (rule map_of_SomeD)
  then have r: "map_of data t \<noteq> None" if "run \<in> set runs" "task_data run = Some data" for run data
    using assms that unfolding readable_def conns_of_def by (fastforce simp: list_all_iff)
  show ?thesis
    using Some r js_at_in [of runs ri] by (fastforce simp: getIncomingData_def split: option.splits)
qed

lemma readable_any_run:
  assumes "readable h g rd" "c \<in> conns_of g"
  shows "\<exists>d. getIncomingDataFromAnyRun rd (node_name (h (gc_from c))) (gc_type c) (gc_output c) = Inr d"
proof -
  have "\<exists>d. search_runs rd (node_name (h (gc_from c))) (gc_type c) (gc_output c) ris = Inr d" for ris
  proof (induction ris)
    case Nil
    then show ?case by simp
  next
    case (Cons r ris)
    obtain d where "getIncomingData rd (node_name (h (gc_from c))) (int r) (gc_type c) (gc_output c) = Inr d"
      using readable_getIncomingData [OF assms(1)] assms(2) by blast
    then show ?case using Cons by (auto split: option.splits list.splits)
  qed
  then show ?thesis by (simp add: getIncomingDataFromAnyRun_def)
qed

lemma startsHere_total:
  assumes "wf_graph h g" "readable h g rd" "n \<in> nodes_of g"
  shows "\<exists>b. startsHere h g dest rd pd n = Inr b"
proof -
  obtain ch where "getChildren h g n = Inr ch" using getChildren_spec [OF assms(1,3)] by blast
  moreover obtain d where "getIncomingData rd (node_name (h n)) (-1) Main (if n \<in> set ch then 0 else 1) = Inr d"
    using readable_getIncomingData [OF assms(2)] by blast
  ultimately show ?thesis by (auto simp: startsHere_def isALoop_def)
qed

lemma followed_total:
  assumes "readable h g rd" "c \<in> conns_of g"
  shows "\<exists>b. followed h rd pd c = Inr b"
  using readable_any_run [OF assms] by (auto simp: followed_def Let_def)

text \<open>
  The steps the search takes: from a node that does not start here, along a followed
  connection.
\<close>

definition search_rel ::
    "heap \<Rightarrow> DirectedGraph \<Rightarrow> noderef \<Rightarrow> IRunData \<Rightarrow> IPinData \<Rightarrow> (noderef \<times> noderef) set" where
  "search_rel h g dest rd pd = {(gc_from c, gc_to c) | c. c \<in> conns_of g \<and>
     startsHere h g dest rd pd (gc_from c) = Inr False \<and> followed h rd pd c = Inr True}"

definition starts_at :: "heap \<Rightarrow> DirectedGraph \<Rightarrow> noderef \<Rightarrow> IRunData \<Rightarrow> IPinData \<Rightarrow> noderef set" where
  "starts_at h g dest rd pd = {n. startsHere h g dest rd pd n = Inr True}"

lemma rfold_union:
  assumes "rfold f xs s = Inr t"
    and "\<And>x s t. x \<in> set xs \<Longrightarrow> f x s = Inr t \<Longrightarrow> set t = set s \<union> F x"
  shows "set t = set s \<union> (\<Union>x \<in> set xs. F x)"
  using assms
proof (induction xs arbitrary: s)
  case Nil
  then show ?case by simp
next
  case (Cons x xs)
  then obtain u where u: "f x s = Inr u" "rfold f xs u = Inr t" by (auto simp: result_simps)
  have "set u = set s \<union> F x" using Cons.prems(2) u(1) by simp
  moreover have "set t = set u \<union> (\<Union>x \<in> set xs. F x)"
    by (rule Cons.IH [OF u(2)]) (use Cons.prems(2) in auto)
  ultimately show ?case by auto
qed

abbreviation unseen :: "('a \<times> 'a) set \<Rightarrow> 'a set \<Rightarrow> ('a \<times> 'a) set" where
  "unseen R X \<equiv> R \<inter> {(a, b). b \<notin> X}"

lemma rtrancl_first_unseen:
  assumes "(x, m) \<in> (unseen R (insert x S))\<^sup>*"
  shows "m = x \<or> (\<exists>b. (x, b) \<in> R \<and> b \<notin> insert x S \<and> (b, m) \<in> (unseen R (insert b (insert x S)))\<^sup>*)"
proof (cases "m = x")
  case False
  with assms obtain b where b: "(x, b) \<in> unseen R (insert x S)" "(b, m) \<in> (unseen R (insert x S))\<^sup>*"
    by (cases rule: converse_rtranclE) auto
  have "(b, m) \<in> (unseen R (insert x S) \<inter> {(u, v). v \<noteq> b})\<^sup>*"
    by (rule rtrancl_avoid_start [OF b(2)])
  moreover have "unseen R (insert x S) \<inter> {(u, v). v \<noteq> b} = unseen R (insert b (insert x S))" by auto
  ultimately show ?thesis using b(1) by auto
qed simp

lemma findStartNodesRecursive_spec:
  assumes "findStartNodesRecursive h g current dest rd pd sn seen = Inr sn'"
    and "\<forall>x \<in> set seen. startsHere h g dest rd pd x = Inr False"
  shows "set sn' = set sn \<union>
    (if current \<in> set seen then {}
     else {m \<in> starts_at h g dest rd pd.
       (current, m) \<in> (unseen (search_rel h g dest rd pd) (insert current (set seen)))\<^sup>*})"
  using assms
proof (induction h g current dest rd pd sn seen arbitrary: sn' rule: findStartNodesRecursive.induct [case_names rec])
  case (rec h g x dest rd pd sn seen sn')
  let ?R = "search_rel h g dest rd pd"
  let ?S = "starts_at h g dest rd pd"
  let ?U = "\<lambda>a X. {m \<in> ?S. (a, m) \<in> (unseen ?R (insert a X))\<^sup>*}"
  note unfolded = rec.prems(1) [unfolded findStartNodesRecursive.simps [of h g x dest rd pd sn seen]]
  obtain st where st: "startsHere h g dest rd pd x = Inr st"
    using unfolded by (cases "startsHere h g dest rd pd x") simp_all
  show ?case
  proof (cases st)
    case True
    then have sn': "sn' = set_add x sn"
      using unfolded st by simp
    have "(x, b) \<notin> ?R" for b using st True by (auto simp: search_rel_def)
    then have "(x, m) \<in> (unseen ?R (insert x (set seen)))\<^sup>* \<longleftrightarrow> m = x" for m
      by (auto elim: converse_rtranclE)
    moreover have "x \<in> ?S" "x \<notin> set seen" using st True rec.prems(2) by (auto simp: starts_at_def)
    ultimately show ?thesis using sn' by auto
  next
    case False
    show ?thesis
    proof (cases "x \<in> set seen")
      case True
      then show ?thesis
        using unfolded st False by simp
    next
      case new: False
      obtain cs where cs: "getDirectChildConnections h g x = Inr cs"
        using unfolded st False new by (cases "getDirectChildConnections h g x") simp_all
      let ?body = "\<lambda>c s. rbind (followed h rd pd c) (\<lambda>follow.
        if follow then findStartNodesRecursive h g (gc_to c) dest rd pd s (set_add x seen) else Inr s)"
      have fold: "rfold ?body cs sn = Inr sn'"
        using unfolded st False new cs by simp
      let ?F = "\<lambda>c. if followed h rd pd c = Inr True \<and> gc_to c \<notin> insert x (set seen)
        then ?U (gc_to c) (insert x (set seen)) else {}"
      have body: "set t = set s \<union> ?F c" if c: "c \<in> set cs" and t: "?body c s = Inr t" for c s t
      proof -
        obtain f where f: "followed h rd pd c = Inr f" using t by (auto simp: result_simps)
        show ?thesis
        proof (cases f)
          case True
          then have r: "findStartNodesRecursive h g (gc_to c) dest rd pd s (set_add x seen) = Inr t"
            using t f by simp
          show ?thesis
            using rec.IH [OF st _ new cs c f _ r] True f st False rec.prems(2) by auto
        next
          case False
          then show ?thesis using t f by auto
        qed
      qed
      have "set sn' = set sn \<union> (\<Union>c \<in> set cs. ?F c)" by (rule rfold_union [OF fold body])
      moreover have "(\<Union>c \<in> set cs. ?F c) = ?U x (set seen)"
      proof (rule set_eqI, rule iffI)
        fix m assume "m \<in> (\<Union>c \<in> set cs. ?F c)"
        then obtain c where c: "c \<in> set cs" "followed h rd pd c = Inr True" "gc_to c \<notin> insert x (set seen)"
            "m \<in> ?S" "(gc_to c, m) \<in> (unseen ?R (insert (gc_to c) (insert x (set seen))))\<^sup>*"
          by (auto split: if_splits)
        have "(x, gc_to c) \<in> unseen ?R (insert x (set seen))"
          using c direct_children_sub [OF cs] st False by (auto simp: search_rel_def)
        moreover have "(gc_to c, m) \<in> (unseen ?R (insert x (set seen)))\<^sup>*"
          by (rule subsetD [OF rtrancl_mono c(5)]) auto
        ultimately show "m \<in> ?U x (set seen)"
          using c(4) by (auto intro: converse_rtrancl_into_rtrancl)
      next
        fix m assume m: "m \<in> ?U x (set seen)"
        moreover have "x \<notin> ?S" using st False by (simp add: starts_at_def)
        ultimately obtain b where b: "(x, b) \<in> ?R" "b \<notin> insert x (set seen)"
            "(b, m) \<in> (unseen ?R (insert b (insert x (set seen))))\<^sup>*"
          using rtrancl_first_unseen [of x m ?R "set seen"] by auto
        obtain c where c: "c \<in> conns_of g" "gc_from c = x" "gc_to c = b" "followed h rd pd c = Inr True"
          using b(1) by (auto simp: search_rel_def)
        then have "c \<in> set cs" using direct_children_sub [OF cs] by auto
        then show "m \<in> (\<Union>c \<in> set cs. ?F c)" using m b c by (auto intro!: bexI [of _ c])
      qed
      ultimately show ?thesis using new by simp
    qed
  qed
qed

lemma findStartNodes_set:
  assumes "findStartNodes h g trigger dest pd rd = Inr sn"
  shows "set sn = {m. startsHere h g dest rd pd m = Inr True \<and>
    (trigger, m) \<in> (search_rel h g dest rd pd)\<^sup>*}"
proof -
  let ?R = "search_rel h g dest rd pd"
  have "(trigger, m) \<in> (unseen ?R {trigger})\<^sup>* \<longleftrightarrow> (trigger, m) \<in> ?R\<^sup>*" for m
  proof
    assume "(trigger, m) \<in> (unseen ?R {trigger})\<^sup>*"
    then show "(trigger, m) \<in> ?R\<^sup>*" by (rule subsetD [OF rtrancl_mono, rotated]) auto
  next
    assume "(trigger, m) \<in> ?R\<^sup>*"
    then have a: "(trigger, m) \<in> (?R \<inter> {(a, b). b \<noteq> trigger})\<^sup>*" by (rule rtrancl_avoid_start)
    have b: "?R \<inter> {(a, b). b \<noteq> trigger} = unseen ?R {trigger}" by auto
    show "(trigger, m) \<in> (unseen ?R {trigger})\<^sup>*" using a unfolding b .
  qed
  then show ?thesis
    using findStartNodesRecursive_spec [OF assms [unfolded findStartNodes_def]]
    by (simp add: starts_at_def)
qed

lemma findStartNodesRecursive_total:
  "wf_graph h g \<Longrightarrow> readable h g rd \<Longrightarrow> current \<in> nodes_of g \<Longrightarrow>
    \<exists>sn'. findStartNodesRecursive h g current dest rd pd sn seen = Inr sn'"
proof (induction h g current dest rd pd sn seen rule: findStartNodesRecursive.induct [case_names rec])
  case (rec h g x dest rd pd sn seen)
  obtain st where st: "startsHere h g dest rd pd x = Inr st" using startsHere_total rec.prems by blast
  obtain cs where cs: "getDirectChildConnections h g x = Inr cs"
    using direct_children rec.prems(1,3) by blast
  let ?body = "\<lambda>c s. rbind (followed h rd pd c) (\<lambda>follow.
    if follow then findStartNodesRecursive h g (gc_to c) dest rd pd s (set_add x seen) else Inr s)"
  have "\<exists>t. rfold ?body cs sn = Inr t \<and> True" if "\<not> st" "x \<notin> set seen"
  proof (rule rfold_total [where P = "\<lambda>_. True"])
    fix c s assume c: "c \<in> set cs"
    then have cc: "c \<in> conns_of g" using direct_children_sub [OF cs] by blast
    obtain f where f: "followed h rd pd c = Inr f" using followed_total [OF rec.prems(2) cc] by blast
    show "\<exists>t. ?body c s = Inr t \<and> True"
      using rec.IH [OF st that(1) that(2) cs c f _ rec.prems(1,2) wf_graphD(6) [OF rec.prems(1) cc]] f by auto
  qed simp
  then show ?case
    using st cs by (subst findStartNodesRecursive.simps) auto
qed

end
