(* ===== verification/Execution_Stack.thy ===== *)
theory Execution_Stack
  imports Source_Data_Groups Start_Nodes
begin

text \<open>
  \<open>recreate-node-execution-stack.ts\<close>: the execution stack and the waiting executions that let an
  execution start in the middle of a workflow.
\<close>

section \<open>Data\<close>

type_synonym ITaskDataConnectionsSource = "(NodeConnectionType \<times> ISourceData option list) list"

record IExecuteData =
  ed_node :: noderef
  ed_data :: ITaskDataConnections
  ed_source :: "ITaskDataConnectionsSource option"
  ed_runIndex :: "nat option"
  ed_metadata :: "ITaskMetadata option"

text \<open>Waiting data by node name, run index and input type.\<close>

type_synonym 'a waiting = "(string \<times> (nat \<times> (NodeConnectionType \<times> 'a option list) list) list) list"
type_synonym IWaitingForExecution = "items waiting"
type_synonym IWaitingForExecutionSource = "ISourceData waiting"

definition or_empty :: "'v list option \<Rightarrow> 'v list" where
  "or_empty x = (case x of None \<Rightarrow> [] | Some v \<Rightarrow> v)"

definition put_waiting ::
    "string \<Rightarrow> nat \<Rightarrow> NodeConnectionType \<Rightarrow> nat \<Rightarrow> 'a option \<Rightarrow> 'a waiting \<Rightarrow> 'a waiting" where
  "put_waiting nodeName runIndex inputType inputIndex v w =
     (let waitingExecutionObject = or_empty (map_of w nodeName);
          taskDataConnections = or_empty (map_of waitingExecutionObject runIndex);
          executionDataList = or_empty (map_of taskDataConnections inputType);
          taskDataConnections' = obj_put inputType (array_put inputIndex v executionDataList) taskDataConnections
      in obj_put nodeName (map_put runIndex taskDataConnections' waitingExecutionObject) w)"

definition addWaitingExecution ::
    "string \<Rightarrow> nat \<Rightarrow> NodeConnectionType \<Rightarrow> nat \<Rightarrow> items option \<Rightarrow> IWaitingForExecution \<Rightarrow> IWaitingForExecution" where
  "addWaitingExecution = put_waiting"

definition addWaitingExecutionSource ::
    "string \<Rightarrow> nat \<Rightarrow> NodeConnectionType \<Rightarrow> nat \<Rightarrow> ISourceData option \<Rightarrow> IWaitingForExecutionSource \<Rightarrow>
     IWaitingForExecutionSource" where
  "addWaitingExecutionSource = put_waiting"

section \<open>Recreating the stack\<close>

record exec_state =
  nodeExecutionStack :: "IExecuteData list"
  waitingExecution :: IWaitingForExecution
  waitingExecutionSource :: IWaitingForExecutionSource

definition source_data :: "heap \<Rightarrow> GraphConnection \<Rightarrow> nat \<Rightarrow> ISourceData" where
  "source_data h c runIndex = \<lparr>previousNode = node_name (h (gc_from c)),
     previousNodeOutput = Some (gc_output c), previousNodeRun = Some runIndex\<rparr>"

text \<open>The data and the run index that a connection of a complete group contributes.\<close>

definition incoming_of ::
    "heap \<Rightarrow> IRunData \<Rightarrow> IPinData \<Rightarrow> GraphConnection \<Rightarrow> (items option \<times> nat) result" where
  "incoming_of h runData pinData c =
     (let name = node_name (h (gc_from c)) in
      case map_of pinData name of
        Some its \<Rightarrow> Inr (Some its, 0)
      | None \<Rightarrow>
          rbind (assert_ok (map_of runData name \<noteq> None)) (\<lambda>_.
          rbind (getIncomingDataFromAnyRun runData name (gc_type c) (gc_output c)) (\<lambda>d.
            case d of None \<Rightarrow> Inr (None, 0) | Some (its, runIndex) \<Rightarrow> Inr (Some its, runIndex))))"

definition add_incoming ::
    "heap \<Rightarrow> IRunData \<Rightarrow> IPinData \<Rightarrow> GraphConnection \<Rightarrow> items list \<times> ISourceData list \<Rightarrow>
     (items list \<times> ISourceData list) result" where
  "add_incoming h runData pinData c acc =
     rbind (incoming_of h runData pinData c) (\<lambda>(d, runIndex).
       Inr ((case d of None \<Rightarrow> fst acc | Some its \<Rightarrow> fst acc @ [its]),
         snd acc @ [source_data h c runIndex]))"

definition push_entry ::
    "noderef \<Rightarrow> items list \<Rightarrow> ISourceData list option \<Rightarrow> exec_state \<Rightarrow> exec_state" where
  "push_entry startNode incomingData sources st =
     st\<lparr>nodeExecutionStack := nodeExecutionStack st @
       [\<lparr>ed_node = startNode, ed_data = [(Main, map Some incomingData)],
         ed_source = map_option (\<lambda>s. [(Main, map Some s)]) sources, ed_runIndex = None, ed_metadata = None\<rparr>]\<rparr>"

definition wait_for ::
    "heap \<Rightarrow> IRunData \<Rightarrow> string \<Rightarrow> nat \<Rightarrow> GraphConnection \<Rightarrow> exec_state \<Rightarrow> exec_state result" where
  "wait_for h runData nodeName nextRunIndex c st =
     rbind (getIncomingDataFromAnyRun runData (node_name (h (gc_from c))) (gc_type c) (gc_output c)) (\<lambda>d.
       case d of
         None \<Rightarrow> Inr st
       | Some (its, _) \<Rightarrow> Inr (st\<lparr>
           waitingExecution :=
             addWaitingExecution nodeName nextRunIndex (gc_type c) (gc_input c) (Some its) (waitingExecution st),
           waitingExecutionSource :=
             addWaitingExecutionSource nodeName nextRunIndex (gc_type c) (gc_input c)
               (Some (source_data h c nextRunIndex)) (waitingExecutionSource st)\<rparr>))"

definition process_group ::
    "heap \<Rightarrow> noderef \<Rightarrow> IRunData \<Rightarrow> IPinData \<Rightarrow> SourceConnectionGroup \<Rightarrow> exec_state \<Rightarrow> exec_state result" where
  "process_group h startNode runData pinData sourceData st =
     (if grp_complete sourceData then
        rbind (rfold (add_incoming h runData pinData) (grp_connections sourceData) ([], [])) (\<lambda>(incomingData, sources).
          Inr (push_entry startNode incomingData (Some sources) st))
      else
        let nodeName = node_name (h startNode);
            nextRunIndex = length (keys (or_empty (map_of (waitingExecution st) nodeName)))
        in rfold (wait_for h runData nodeName nextRunIndex) (grp_connections sourceData) st)"

definition process_start ::
    "heap \<Rightarrow> (string \<Rightarrow> string \<Rightarrow> int) \<Rightarrow> DirectedGraph \<Rightarrow> IRunData \<Rightarrow> IPinData \<Rightarrow> noderef \<Rightarrow> exec_state \<Rightarrow>
     exec_state result" where
  "process_start h localeCompare g runData pinData startNode st =
     rbind (getDirectParentConnections h g startNode) (\<lambda>parents.
       if length (filter (\<lambda>c. gc_type c = Main) parents) = 0
       then Inr (push_entry startNode [[empty_item]] None st)
       else rfold (process_group h startNode runData pinData)
         (getSourceDataGroups h localeCompare g startNode runData pinData) st)"

definition recreateNodeExecutionStack ::
    "heap \<Rightarrow> (string \<Rightarrow> string \<Rightarrow> int) \<Rightarrow> DirectedGraph \<Rightarrow> noderef list \<Rightarrow> IRunData \<Rightarrow> IPinData \<Rightarrow>
     exec_state result" where
  "recreateNodeExecutionStack h localeCompare g startNodes runData pinData =
     rbind (rfold (\<lambda>node u. assert_ok (\<not> is_disabled (h node))) (vals (getNodes g)) ()) (\<lambda>_.
       rfold (process_start h localeCompare g runData pinData) startNodes
         \<lparr>nodeExecutionStack = [], waitingExecution = [], waitingExecutionSource = []\<rparr>)"

section \<open>What ends up on the stack\<close>

text \<open>
  The entry of a complete group, computed without the loop: the data that was found, and a
  source for every connection.
\<close>

definition group_entry ::
    "heap \<Rightarrow> IRunData \<Rightarrow> IPinData \<Rightarrow> noderef \<Rightarrow> GraphConnection list \<Rightarrow> IExecuteData \<Rightarrow> bool" where
  "group_entry h rd pd n cs e \<longleftrightarrow>
     (\<exists>found. list_all2 (\<lambda>c f. incoming_of h rd pd c = Inr f) cs found \<and>
        e = \<lparr>ed_node = n, ed_data = [(Main, map Some (List.map_filter fst found))],
          ed_source = Some [(Main, map (\<lambda>(c, f). Some (source_data h c (snd f))) (zip cs found))], ed_runIndex = None, ed_metadata = None\<rparr>)"

definition start_entries ::
    "heap \<Rightarrow> (string \<Rightarrow> string \<Rightarrow> int) \<Rightarrow> DirectedGraph \<Rightarrow> IRunData \<Rightarrow> IPinData \<Rightarrow> noderef \<Rightarrow> IExecuteData list \<Rightarrow> bool" where
  "start_entries h lc g rd pd n es \<longleftrightarrow>
     (if \<exists>c \<in> conns_of g. gc_to c = n \<and> gc_type c = Main
      then list_all2 (\<lambda>grp e. group_entry h rd pd n (grp_connections grp) e)
        (filter grp_complete (getSourceDataGroups h lc g n rd pd)) es
      else es = [\<lparr>ed_node = n, ed_data = [(Main, [Some [empty_item]])], ed_source = None, ed_runIndex = None, ed_metadata = None\<rparr>])"

lemma add_incoming_loop:
  assumes "list_all2 (\<lambda>c f. incoming_of h rd pd c = Inr f) cs found"
  shows "rfold (add_incoming h rd pd) cs (ds, ss) =
    Inr (ds @ List.map_filter fst found, ss @ map (\<lambda>(c, f). source_data h c (snd f)) (zip cs found))"
  using assms
  by (induction arbitrary: ds ss rule: list_all2_induct)
    (auto simp: add_incoming_def map_filter_simps split: option.splits)

lemma from_any_run_total:
  assumes "wf_graph h g" "readable h g rd" "c \<in> conns_of g"
  shows "\<exists>d. getIncomingDataFromAnyRun rd (node_name (h (gc_from c))) (gc_type c) oi = Inr d"
proof -
  have one: "\<exists>d. getIncomingData rd (node_name (h (gc_from c))) ri (gc_type c) oi = Inr d" for ri
    by (rule readable_getIncomingData [OF assms(2)]) (use assms(3) in blast)
  have "\<exists>d. search_runs rd (node_name (h (gc_from c))) (gc_type c) oi ris = Inr d" for ris
  proof (induction ris)
    case (Cons r ris)
    obtain d where "getIncomingData rd (node_name (h (gc_from c))) (int r) (gc_type c) oi = Inr d"
      using one by blast
    then show ?case using Cons by (auto split: option.splits list.splits)
  qed simp
  then show ?thesis by (simp add: getIncomingDataFromAnyRun_def)
qed

lemma incoming_of_total:
  assumes "wf_graph h g" "readable h g rd" "c \<in> conns_of g" "hasData h rd pd c"
  shows "\<exists>f. incoming_of h rd pd c = Inr f"
proof (cases "map_of pd (node_name (h (gc_from c)))")
  case None
  then have "map_of rd (node_name (h (gc_from c))) \<noteq> None"
    using assms(4) by (auto simp: hasData_def map_of_eq_None_iff)
  moreover obtain d where "getIncomingDataFromAnyRun rd (node_name (h (gc_from c))) (gc_type c) (gc_output c) = Inr d"
    using from_any_run_total [OF assms(1-3)] by blast
  ultimately show ?thesis using None by (auto simp: incoming_of_def split: option.splits)
qed (simp add: incoming_of_def)

lemma incoming_all_total:
  assumes "wf_graph h g" "readable h g rd" "\<And>c. c \<in> set cs \<Longrightarrow> c \<in> conns_of g \<and> hasData h rd pd c"
  shows "\<exists>found. list_all2 (\<lambda>c f. incoming_of h rd pd c = Inr f) cs found"
  using assms(3)
proof (induction cs)
  case (Cons c cs)
  obtain f where "incoming_of h rd pd c = Inr f" using incoming_of_total [OF assms(1,2)] Cons.prems by (meson list.set_intros(1))
  moreover obtain found where "list_all2 (\<lambda>c f. incoming_of h rd pd c = Inr f) cs found" using Cons by auto
  ultimately show ?case by (intro exI [of _ "f # found"]) simp
qed (auto intro: exI [of _ "[]"])

lemma waiting_keeps_stack:
  assumes "wf_graph h g" "readable h g rd" "set cs \<subseteq> conns_of g"
  shows "\<exists>t. rfold (wait_for h rd nodeName ri) cs st = Inr t \<and> nodeExecutionStack t = nodeExecutionStack st"
proof (rule rfold_total [where P = "\<lambda>t. nodeExecutionStack t = nodeExecutionStack st"])
  fix c and s :: exec_state assume "c \<in> set cs" "nodeExecutionStack s = nodeExecutionStack st"
  moreover obtain d where "getIncomingDataFromAnyRun rd (node_name (h (gc_from c))) (gc_type c) (gc_output c) = Inr d"
    using from_any_run_total [OF assms(1,2)] assms(3) calculation(1) by blast
  ultimately show "\<exists>t. wait_for h rd nodeName ri c s = Inr t \<and> nodeExecutionStack t = nodeExecutionStack st"
    by (auto simp: wait_for_def split: option.splits)
qed simp

text \<open>A loop that appends to a list, one segment for each element.\<close>

lemma rfold_segments:
  assumes "\<And>x s. x \<in> set xs \<Longrightarrow> \<exists>t ys. f x s = Inr t \<and> A t = A s @ ys \<and> Q x ys"
  shows "\<exists>t yss. rfold f xs s = Inr t \<and> A t = A s @ concat yss \<and> list_all2 Q xs yss"
  using assms
proof (induction xs arbitrary: s)
  case Nil
  then show ?case by simp
next
  case (Cons x xs)
  obtain u ys where u: "f x s = Inr u" "A u = A s @ ys" "Q x ys" using Cons.prems [of x s] by auto
  obtain t yss where "rfold f xs u = Inr t" "A t = A u @ concat yss" "list_all2 Q xs yss"
    using Cons.IH [of u] Cons.prems by auto
  then show ?case using u by (intro exI [of _ t] exI [of _ "ys # yss"]) simp
qed

lemma process_group_spec:
  assumes "wf_graph h g" "readable h g rd" "set (grp_connections grp) \<subseteq> conns_of g"
    and "grp_complete grp \<Longrightarrow> \<forall>c \<in> set (grp_connections grp). hasData h rd pd c"
  shows "\<exists>t ys. process_group h n rd pd grp st = Inr t \<and> nodeExecutionStack t = nodeExecutionStack st @ ys \<and>
    (if grp_complete grp then \<exists>e. ys = [e] \<and> group_entry h rd pd n (grp_connections grp) e else ys = [])"
proof (cases "grp_complete grp")
  case True
  obtain found where "list_all2 (\<lambda>c f. incoming_of h rd pd c = Inr f) (grp_connections grp) found"
    using incoming_all_total [OF assms(1,2)] assms(3,4) True by blast
  then show ?thesis
    using True add_incoming_loop [of h rd pd "grp_connections grp" found "[]" "[]"]
    by (auto simp: process_group_def push_entry_def group_entry_def case_prod_unfold)
next
  case False
  then show ?thesis
    using waiting_keeps_stack [OF assms(1-3)] by (auto simp: process_group_def Let_def)
qed

lemma concat_complete:
  "list_all2 (\<lambda>grp ys. if grp_complete grp then \<exists>e. ys = [e] \<and> Q grp e else ys = []) gs yss \<Longrightarrow>
    list_all2 Q (filter grp_complete gs) (concat yss)"
  by (induction rule: list_all2_induct) (auto split: if_splits)

lemma getSourceDataGroups_conns:
  assumes "grp \<in> set (getSourceDataGroups h lc g n rd pd)"
  shows "set (grp_connections grp) \<subseteq> {c \<in> conns_of g. gc_to c = n \<and> (hasData h rd pd c \<or> gc_type c = Main)}"
    "grp_complete grp \<Longrightarrow> c \<in> set (grp_connections grp) \<Longrightarrow> hasData h rd pd c"
proof -
  let ?gs = "getSourceDataGroups h lc g n rd pd"
  have "set (grp_connections grp) \<subseteq> set_mset (members ?gs)" using assms by (auto simp: members_def)
  then show "set (grp_connections grp) \<subseteq> {c \<in> conns_of g. gc_to c = n \<and> (hasData h rd pd c \<or> gc_type c = Main)}"
    unfolding getSourceDataGroups_spec(2) [OF refl] getConnections_def
    by (auto simp: conns_of_def simp del: vals_simps)
  have "ok_group (hasData h rd pd) grp"
    using getSourceDataGroups_spec(1) [OF refl, of h rd pd lc g n] assms by (simp add: grouping_def list_all_iff)
  then show "hasData h rd pd c" if "grp_complete grp" "c \<in> set (grp_connections grp)"
    using that by (simp add: ok_group_def list_all_iff)
qed

lemma process_start_spec:
  assumes "wf_graph h g" "readable h g rd" "n \<in> nodes_of g"
  shows "\<exists>t ys. process_start h lc g rd pd n st = Inr t \<and> nodeExecutionStack t = nodeExecutionStack st @ ys \<and>
    start_entries h lc g rd pd n ys"
proof -
  obtain ps where ps: "getDirectParentConnections h g n = Inr ps" "set ps = {c \<in> conns_of g. gc_to c = n}"
    using direct_parents [OF assms(1,3)] direct_parents_sub by blast
  have none: "filter (\<lambda>c. gc_type c = Main) ps = [] \<longleftrightarrow> \<not> (\<exists>c \<in> conns_of g. gc_to c = n \<and> gc_type c = Main)"
    using ps(2) by (auto simp: filter_empty_conv)
  show ?thesis
  proof (cases "filter (\<lambda>c. gc_type c = Main) ps = []")
    case True
    then show ?thesis using ps(1) none by (auto simp: process_start_def push_entry_def start_entries_def)
  next
    case False
    let ?gs = "getSourceDataGroups h lc g n rd pd"
    have "\<exists>t yss. rfold (process_group h n rd pd) ?gs st = Inr t \<and>
        nodeExecutionStack t = nodeExecutionStack st @ concat yss \<and>
        list_all2 (\<lambda>grp ys. if grp_complete grp
          then \<exists>e. ys = [e] \<and> group_entry h rd pd n (grp_connections grp) e else ys = []) ?gs yss"
    proof (rule rfold_segments)
      fix grp s assume grp: "grp \<in> set ?gs"
      show "\<exists>t ys. process_group h n rd pd grp s = Inr t \<and> nodeExecutionStack t = nodeExecutionStack s @ ys \<and>
        (if grp_complete grp then \<exists>e. ys = [e] \<and> group_entry h rd pd n (grp_connections grp) e else ys = [])"
        by (rule process_group_spec [OF assms(1,2)]) (use getSourceDataGroups_conns [OF grp] in auto)
    qed
    then obtain t yss where t: "rfold (process_group h n rd pd) ?gs st = Inr t"
        "nodeExecutionStack t = nodeExecutionStack st @ concat yss"
        "list_all2 (\<lambda>grp ys. if grp_complete grp
          then \<exists>e. ys = [e] \<and> group_entry h rd pd n (grp_connections grp) e else ys = []) ?gs yss"
      by blast
    have es: "list_all2 (\<lambda>grp. group_entry h rd pd n (grp_connections grp)) (filter grp_complete ?gs) (concat yss)"
      by (rule concat_complete [OF t(3)])
    have "process_start h lc g rd pd n st = rfold (process_group h n rd pd) ?gs st"
      using False ps(1) by (simp add: process_start_def)
    moreover have "start_entries h lc g rd pd n (concat yss)"
      using es False none by (simp add: start_entries_def)
    ultimately show ?thesis using t(1,2) by (intro exI [of _ t] exI [of _ "concat yss"]) simp
  qed
qed

lemma recreateNodeExecutionStack_spec:
  assumes "wf_graph h g" "readable h g rd" "set startNodes \<subseteq> nodes_of g"
    and "\<And>n. n \<in> nodes_of g \<Longrightarrow> \<not> is_disabled (h n)"
  shows "\<exists>st ess. recreateNodeExecutionStack h lc g startNodes rd pd = Inr st \<and>
    nodeExecutionStack st = concat ess \<and> list_all2 (start_entries h lc g rd pd) startNodes ess"
proof -
  have "\<exists>u. rfold (\<lambda>node u. assert_ok (\<not> is_disabled (h node))) (vals (dg_nodes g)) () = Inr u \<and> True"
    by (rule rfold_total [where P = "\<lambda>_. True"]) (use assms(4) in \<open>simp_all add: nodes_of_def del: vals_simps\<close>)
  then have ok: "rfold (\<lambda>node u. assert_ok (\<not> is_disabled (h node))) (vals (getNodes g)) () = Inr ()"
    by (auto simp: getNodes_def)
  let ?s = "\<lparr>nodeExecutionStack = [], waitingExecution = [], waitingExecutionSource = []\<rparr>"
  have "\<exists>t yss. rfold (process_start h lc g rd pd) startNodes ?s = Inr t \<and>
      nodeExecutionStack t = nodeExecutionStack ?s @ concat yss \<and>
      list_all2 (start_entries h lc g rd pd) startNodes yss"
    by (rule rfold_segments) (use process_start_spec [OF assms(1,2)] assms(3) in blast)
  then show ?thesis using ok by (auto simp: recreateNodeExecutionStack_def)
qed

end
