(* ===== verification/Connected_Nodes.thy ===== *)
theory Connected_Nodes
  imports Connections
begin

text \<open>
  \<open>getConnectedNodes\<close> of \<open>packages/workflow/src/common/get-connected-nodes.ts\<close>, the
  recursive search behind the child and parent queries of a workflow, with its wrappers and
  \<open>getNodeByName\<close>. The search copies the list of checked nodes at every call, so it walks
  paths; its result is characterised by bounded reachability.
\<close>

section \<open>The search\<close>

datatype connection_filter = AllTypes | AllNonMain | OfType NodeConnectionType

definition filter_types :: "connection_filter \<Rightarrow> INodeConnections \<Rightarrow> NodeConnectionType list" where
  "filter_types f obj =
     (case f of
        AllTypes \<Rightarrow> keys obj
      | AllNonMain \<Rightarrow> filter (\<lambda>t. t \<noteq> Main) (keys obj)
      | OfType t \<Rightarrow> [t])"

text \<open>The neighbours of a node, in the order of the loops over types, groups and connections.\<close>

definition group_nodes :: "NodeInputConnections \<Rightarrow> string list" where
  "group_nodes xs = concat (map (\<lambda>g. map conn_node (group_list g)) xs)"

definition neighbours :: "IConnections \<Rightarrow> connection_filter \<Rightarrow> string \<Rightarrow> string list" where
  "neighbours C f n =
     concat (map (\<lambda>t. group_nodes (type_conns (node_conns C n) t)) (filter_types f (node_conns C n)))"

text \<open>
  The loop \<open>for (i = addNodes.length; i--; i > 0)\<close> goes through the found nodes from the last
  to the first, moving each to the front.
\<close>

definition move_to_front :: "string list \<Rightarrow> string list \<Rightarrow> string list" where
  "move_to_front addNodes returnNodes =
     foldr (\<lambda>name r. if name \<in> set r then name # remove1 name r else name # r) addNodes returnNodes"

lemma set_remove1_insert: "insert x (set (remove1 x xs)) = insert x (set xs)"
  by (induction xs) auto

lemma set_move_to_front [simp]: "set (move_to_front xs r) = set xs \<union> set r"
proof (induction xs)
  case Nil
  then show ?case by (simp add: move_to_front_def)
next
  case (Cons x xs)
  let ?r = "move_to_front xs r"
  have "move_to_front (x # xs) r = (if x \<in> set ?r then x # remove1 x ?r else x # ?r)"
    by (simp add: move_to_front_def)
  then show ?case using Cons.IH by (auto simp: set_remove1_insert)
qed

lemma foldl_cong_set [fundef_cong]:
  "a = b \<Longrightarrow> l = k \<Longrightarrow> (\<And>r x. x \<in> set l \<Longrightarrow> f r x = g r x) \<Longrightarrow> foldl f a l = foldl g b k"
  by (rule foldl_cong)

function getConnectedNodes ::
    "IConnections \<Rightarrow> string \<Rightarrow> connection_filter \<Rightarrow> int \<Rightarrow> string list \<Rightarrow> string list" where
  "getConnectedNodes C n f depth checkedIncoming =
     (if depth = 0 then []
      else if n \<notin> fst ` set C then []
      else if n \<in> set checkedIncoming then []
      else
        let newDepth = (if depth = -1 then depth else depth - 1);
            checkedNodes = checkedIncoming @ [n]
        in foldl (\<lambda>returnNodes m.
             if m \<in> set checkedNodes then returnNodes
             else move_to_front (getConnectedNodes C m f newDepth checkedNodes) (m # returnNodes))
           [] (neighbours C f n))"
  by pat_completeness auto
termination
proof (relation "measure (\<lambda>(C, n, f, d, chk). card (fst ` set C - set chk))", goal_cases)
  case 1
  then show ?case by simp
next
  case (2 C n f depth chk nd chk' m)
  have "fst ` set C - set chk' \<subset> fst ` set C - set chk"
    using 2 by auto
  then show ?case by (simp add: psubset_card_mono)
qed

declare getConnectedNodes.simps [simp del]

definition getChildNodes :: "IConnections \<Rightarrow> string \<Rightarrow> connection_filter \<Rightarrow> int \<Rightarrow> string list" where
  "getChildNodes connectionsBySourceNode n f depth = getConnectedNodes connectionsBySourceNode n f depth []"

definition getParentNodes :: "IConnections \<Rightarrow> string \<Rightarrow> connection_filter \<Rightarrow> int \<Rightarrow> string list" where
  "getParentNodes connectionsByDestinationNode n f depth =
     getConnectedNodes connectionsByDestinationNode n f depth []"

section \<open>Reachability\<close>

definition nbr_rel :: "IConnections \<Rightarrow> connection_filter \<Rightarrow> (string \<times> string) set" where
  "nbr_rel C f = {(a, b). b \<in> set (neighbours C f a)}"

text \<open>A depth of \<open>-1\<close>, or of any negative number, is no bound.\<close>

definition within_depth :: "int \<Rightarrow> nat \<Rightarrow> bool" where
  "within_depth depth k \<longleftrightarrow> depth < 0 \<or> int k \<le> depth"

lemma neighbours_absent: "n \<notin> fst ` set C \<Longrightarrow> neighbours C f n = []"
proof -
  assume "n \<notin> fst ` set C"
  then have "map_of C n = None" by (simp add: map_of_eq_None_iff)
  then show ?thesis
    by (cases f) (simp_all add: neighbours_def node_conns_def filter_types_def type_conns_def group_nodes_def)
qed

lemma set_foldl_visit:
  "set (foldl (\<lambda>r m. if m \<in> set X then r else move_to_front (g m) (m # r)) r0 ms) =
     set r0 \<union> (\<Union>m \<in> set ms - set X. insert m (set (g m)))"
  by (induction ms arbitrary: r0) auto

abbreviation avoiding :: "('a \<times> 'a) set \<Rightarrow> 'a set \<Rightarrow> ('a \<times> 'a) set" where
  "avoiding R X \<equiv> R \<inter> {(a, b). b \<notin> X}"

lemma within_step: "within_depth depth (Suc k) \<longleftrightarrow> depth \<noteq> 0 \<and> within_depth (if depth = -1 then depth else depth - 1) k"
  by (auto simp: within_depth_def)

lemma within_mono: "within_depth d k \<Longrightarrow> j \<le> k \<Longrightarrow> within_depth d j"
  by (auto simp: within_depth_def)

lemma set_getConnectedNodes:
  "n \<notin> set chk \<Longrightarrow> set (getConnectedNodes C n f depth chk) =
     {x. \<exists>k > 0. within_depth depth k \<and> (n, x) \<in> avoiding (nbr_rel C f) (insert n (set chk)) ^^ k}"
proof (induction C n f depth chk rule: getConnectedNodes.induct)
  case (1 C n f depth chk)
  let ?nd = "if depth = -1 then depth else depth - 1"
  let ?S = "insert n (set chk)"
  let ?Q = "avoiding (nbr_rel C f) ?S"
  show ?case
  proof (cases "depth = 0 \<or> n \<notin> fst ` set C")
    case True
    have "\<nexists>x. (n, x) \<in> ?Q" if "n \<notin> fst ` set C"
      using that by (simp add: nbr_rel_def neighbours_absent)
    then have "(n, x) \<notin> ?Q ^^ k" if "n \<notin> fst ` set C" "k > 0" for x k
      using that by (metis gr0_conv_Suc relpow_Suc_D2)
    then show ?thesis using True
      by (subst getConnectedNodes.simps) (auto simp: within_depth_def)
  next
    case False
    have IH: "set (getConnectedNodes C m f ?nd (chk @ [n])) =
        {x. \<exists>k > 0. within_depth ?nd k \<and> (m, x) \<in> avoiding (nbr_rel C f) (insert m ?S) ^^ k}"
      if "m \<in> set (neighbours C f n)" "m \<notin> ?S" for m
      using "1.IH" [OF _ _ _ refl refl that(1)] False "1.prems" that(2) by auto
    have eq: "set (getConnectedNodes C n f depth chk) =
        (\<Union>m \<in> set (neighbours C f n) - ?S. insert m (set (getConnectedNodes C m f ?nd (chk @ [n]))))"
    proof -
      have "getConnectedNodes C n f depth chk =
          foldl (\<lambda>r m. if m \<in> set (chk @ [n]) then r
            else move_to_front (getConnectedNodes C m f ?nd (chk @ [n])) (m # r)) [] (neighbours C f n)"
        using False "1.prems" by (subst getConnectedNodes.simps) (simp add: Let_def del: set_append)
      then show ?thesis by (simp only: set_foldl_visit) simp
    qed
    show ?thesis
    proof (rule set_eqI, rule iffI)
      fix x
      assume "x \<in> set (getConnectedNodes C n f depth chk)"
      then obtain m where m: "m \<in> set (neighbours C f n)" "m \<notin> ?S"
        and x: "x = m \<or> x \<in> set (getConnectedNodes C m f ?nd (chk @ [n]))"
        using eq by blast
      have nm: "(n, m) \<in> ?Q" using m by (simp add: nbr_rel_def)
      from x show "x \<in> {x. \<exists>k > 0. within_depth depth k \<and> (n, x) \<in> ?Q ^^ k}"
      proof
        assume "x = m"
        moreover have "within_depth depth 1" using False by (auto simp: within_depth_def)
        ultimately show ?thesis using nm by (auto intro!: exI [of _ 1])
      next
        assume "x \<in> set (getConnectedNodes C m f ?nd (chk @ [n]))"
        then obtain k where k: "within_depth ?nd k" "(m, x) \<in> avoiding (nbr_rel C f) (insert m ?S) ^^ k"
          using IH [OF m] by blast
        have "(m, x) \<in> ?Q ^^ k" by (rule relpow_mono_rel [OF k(2)]) auto
        with nm have "(n, x) \<in> ?Q ^^ Suc k" by (rule relpow_Suc_I2)
        moreover have "within_depth depth (Suc k)" using k(1) False by (simp add: within_step)
        ultimately show ?thesis by blast
      qed
    next
      fix x
      assume "x \<in> {x. \<exists>k > 0. within_depth depth k \<and> (n, x) \<in> ?Q ^^ k}"
      then obtain k where k: "within_depth depth (Suc k)" "(n, x) \<in> ?Q ^^ Suc k"
        by (auto simp: gr0_conv_Suc)
      from relpow_Suc_D2 [OF k(2)] obtain m where m: "(n, m) \<in> ?Q" "(m, x) \<in> ?Q ^^ k"
        by blast
      have mn: "m \<in> set (neighbours C f n)" "m \<notin> ?S" using m(1) by (auto simp: nbr_rel_def)
      show "x \<in> set (getConnectedNodes C n f depth chk)"
      proof (cases "x = m")
        case True
        then show ?thesis using eq mn by blast
      next
        case False
        obtain j where j: "0 < j" "j \<le> k" "(m, x) \<in> (?Q \<inter> {(a, b). b \<noteq> m}) ^^ j"
          using relpow_avoid_start [OF m(2) False] by blast
        have "?Q \<inter> {(a, b). b \<noteq> m} = avoiding (nbr_rel C f) (insert m ?S)" by auto
        with j k(1) have "x \<in> set (getConnectedNodes C m f ?nd (chk @ [n]))"
          using IH [OF mn] within_mono by (auto simp: within_step)
        then show ?thesis using eq mn by blast
      qed
    qed
  qed
qed

lemma avoiding_start_relpow:
  assumes "0 < k" "x \<noteq> n" "(n, x) \<in> Q ^^ k"
  shows "\<exists>j > 0. j \<le> k \<and> (n, x) \<in> avoiding Q {n} ^^ j"
proof -
  have "Q \<inter> {(a, b). b \<noteq> n} = avoiding Q {n}" by auto
  then show ?thesis using relpow_avoid_start [OF assms(3,2)] by auto
qed

lemma set_getConnectedNodes_top:
  "set (getConnectedNodes C n f depth []) =
     {x. x \<noteq> n \<and> (\<exists>k > 0. within_depth depth k \<and> (n, x) \<in> nbr_rel C f ^^ k)}"
proof -
  have "x \<noteq> n \<and> (\<exists>k > 0. within_depth depth k \<and> (n, x) \<in> nbr_rel C f ^^ k) \<longleftrightarrow>
      (\<exists>k > 0. within_depth depth k \<and> (n, x) \<in> avoiding (nbr_rel C f) {n} ^^ k)" for x
  proof
    assume "x \<noteq> n \<and> (\<exists>k > 0. within_depth depth k \<and> (n, x) \<in> nbr_rel C f ^^ k)"
    then show "\<exists>k > 0. within_depth depth k \<and> (n, x) \<in> avoiding (nbr_rel C f) {n} ^^ k"
      using avoiding_start_relpow [of _ x n "nbr_rel C f"] within_mono by blast
  next
    assume "\<exists>k > 0. within_depth depth k \<and> (n, x) \<in> avoiding (nbr_rel C f) {n} ^^ k"
    then obtain k where k: "0 < k" "within_depth depth k" "(n, x) \<in> avoiding (nbr_rel C f) {n} ^^ k"
      by blast
    then obtain j where "k = Suc j" using gr0_conv_Suc by blast
    with k(3) have "x \<noteq> n" by auto
    moreover have "(n, x) \<in> nbr_rel C f ^^ k" by (rule relpow_mono_rel [OF k(3)]) auto
    ultimately show "x \<noteq> n \<and> (\<exists>k > 0. within_depth depth k \<and> (n, x) \<in> nbr_rel C f ^^ k)"
      using k by blast
  qed
  then show ?thesis using set_getConnectedNodes [of n "[]" C f depth] by simp
qed

end
