(* ===== verification/Workflow_Model.thy ===== *)
theory Workflow_Model
  imports Connected_Nodes Run_Data Start_Nodes
begin

text \<open>
  The class \<open>Workflow\<close> of \<open>packages/workflow/src/workflow.ts\<close>: its graph state and the queries
  that read nodes and connections. The registry of node types is loaded at run time and is a
  parameter; what is read of a node type is the record \<open>INodeType\<close>, whose outputs are a list or an
  expression. The expression evaluator,
  the static data and the default parameters that the constructor fills in are not modelled.
\<close>

section \<open>State\<close>

datatype node_output =
    OutputName string
  | OutputConfig string

record INodeType =
  nt_name :: string
  nt_outputs :: "node_output list option"
  nt_group :: "string list"
  nt_trigger :: bool
  nt_poll :: bool

type_synonym node_types = "string \<Rightarrow> rat \<Rightarrow> INodeType option"

type_synonym INodes = "(string \<times> noderef) list"

record Workflow =
  wf_nodes :: INodes
  connectionsBySourceNode :: IConnections
  connectionsByDestinationNode :: IConnections
  wf_pinData :: "IPinData option"

definition empty_workflow :: Workflow where
  "empty_workflow = \<lparr>wf_nodes = [], connectionsBySourceNode = [], connectionsByDestinationNode = [],
     wf_pinData = None\<rparr>"

definition setNodes :: "heap \<Rightarrow> noderef list \<Rightarrow> Workflow \<Rightarrow> Workflow" where
  "setNodes h nodes w = w\<lparr>wf_nodes := fold (\<lambda>r. obj_put (node_name (h r)) r) nodes []\<rparr>"

definition setConnections :: "IConnections \<Rightarrow> Workflow \<Rightarrow> Workflow" where
  "setConnections connections w = w\<lparr>connectionsBySourceNode := connections,
     connectionsByDestinationNode := mapConnectionsByDestination connections\<rparr>"

definition setPinData :: "IPinData option \<Rightarrow> Workflow \<Rightarrow> Workflow" where
  "setPinData pinData w = w\<lparr>wf_pinData := pinData\<rparr>"

definition newWorkflow :: "heap \<Rightarrow> noderef list \<Rightarrow> IConnections \<Rightarrow> IPinData option \<Rightarrow> Workflow" where
  "newWorkflow h nodes connections pinData =
     setPinData pinData (setConnections connections (setNodes h nodes empty_workflow))"

section \<open>Queries\<close>

definition getNode :: "Workflow \<Rightarrow> string \<Rightarrow> noderef option" where
  "getNode w nodeName = map_of (wf_nodes w) nodeName"

definition workflow_getNodes :: "Workflow \<Rightarrow> string list \<Rightarrow> noderef list" where
  "workflow_getNodes w nodeNames =
     fold (\<lambda>name nodes. case getNode w name of None \<Rightarrow> nodes | Some r \<Rightarrow> nodes @ [r]) nodeNames []"

definition getPinDataOfNode :: "Workflow \<Rightarrow> string \<Rightarrow> items option" where
  "getPinDataOfNode w nodeName =
     (case wf_pinData w of None \<Rightarrow> None | Some pd \<Rightarrow> map_of pd nodeName)"

definition queryNodes :: "heap \<Rightarrow> node_types \<Rightarrow> (INodeType \<Rightarrow> bool) \<Rightarrow> Workflow \<Rightarrow> noderef list" where
  "queryNodes h nodeTypes checkFunction w =
     filter (\<lambda>r. \<not> is_disabled (h r) \<and>
       (case nodeTypes (node_type (h r)) (typeVersion (h r)) of None \<Rightarrow> False | Some nt \<Rightarrow> checkFunction nt))
     (vals (wf_nodes w))"

definition getTriggerNodes :: "heap \<Rightarrow> node_types \<Rightarrow> Workflow \<Rightarrow> noderef list" where
  "getTriggerNodes h nodeTypes w = queryNodes h nodeTypes nt_trigger w"

definition getPollNodes :: "heap \<Rightarrow> node_types \<Rightarrow> Workflow \<Rightarrow> noderef list" where
  "getPollNodes h nodeTypes w = queryNodes h nodeTypes nt_poll w"

text \<open>\<open>getNodeByName\<close> of \<open>common/get-node-by-name.ts\<close>, for an array and for an object of nodes.\<close>

definition getNodeByName_array :: "heap \<Rightarrow> noderef list \<Rightarrow> string \<Rightarrow> noderef option" where
  "getNodeByName_array h nodes name = List.find (\<lambda>r. node_name (h r) = name) nodes"

definition getNodeByName_object :: "INodes \<Rightarrow> string \<Rightarrow> noderef option" where
  "getNodeByName_object nodes name = (if name \<in> fst ` set nodes then map_of nodes name else None)"

definition workflow_getChildNodes :: "Workflow \<Rightarrow> string \<Rightarrow> connection_filter \<Rightarrow> int \<Rightarrow> string list" where
  "workflow_getChildNodes w nodeName f depth = getChildNodes (connectionsBySourceNode w) nodeName f depth"

definition workflow_getParentNodes :: "Workflow \<Rightarrow> string \<Rightarrow> connection_filter \<Rightarrow> int \<Rightarrow> string list" where
  "workflow_getParentNodes w nodeName f depth = getParentNodes (connectionsByDestinationNode w) nodeName f depth"

text \<open>The connections from the sources to the targets, with the outputs they come from.\<close>

definition getConnectionsBetweenNodes ::
    "Workflow \<Rightarrow> string list \<Rightarrow> string list \<Rightarrow> (IConnection \<times> IConnection) list" where
  "getConnectionsBetweenNodes w sources targets =
     concat (map (\<lambda>source. concat (map (\<lambda>(t, xs). concat (map (\<lambda>(sourceIndex, g).
       map (Pair (mk_conn source t sourceIndex)) (filter (\<lambda>c. conn_node c \<in> set targets) (group_list g)))
       (enumerate 0 xs))) (node_conns (connectionsBySourceNode w) source))) sources)"

section \<open>Well-formed workflows\<close>

text \<open>
  Nodes are filed under their names, the two connection tables mirror each other, and both ends
  of every connection are nodes of the workflow.
\<close>

definition wf_workflow :: "heap \<Rightarrow> Workflow \<Rightarrow> bool" where
  "wf_workflow h w \<longleftrightarrow>
     distinct (keys (wf_nodes w)) \<and> list_all (\<lambda>(n, r). n = node_name (h r)) (wf_nodes w) \<and>
     wf_conns (connectionsBySourceNode w) \<and>
     connectionsByDestinationNode w = mapConnectionsByDestination (connectionsBySourceNode w) \<and>
     list_all (\<lambda>s. getNode w s \<noteq> None) (keys (connectionsBySourceNode w)) \<and>
     list_all (\<lambda>(s, t, i, c). getNode w (conn_node c) \<noteq> None) (edges_of (connectionsBySourceNode w))"

lemma wf_workflowD:
  assumes "wf_workflow h w"
  shows "distinct (keys (wf_nodes w))" "(n, r) \<in> set (wf_nodes w) \<Longrightarrow> n = node_name (h r)"
    "wf_conns (connectionsBySourceNode w)"
    "connectionsByDestinationNode w = mapConnectionsByDestination (connectionsBySourceNode w)"
    "s \<in> set (keys (connectionsBySourceNode w)) \<Longrightarrow> getNode w s \<noteq> None"
    "(s, t, i, c) \<in> set (edges_of (connectionsBySourceNode w)) \<Longrightarrow> getNode w (conn_node c) \<noteq> None"
  using assms by (auto simp: wf_workflow_def list_all_iff simp del: keys_simps)

lemma getNode_name:
  "wf_workflow h w \<Longrightarrow> getNode w n = Some r \<Longrightarrow> node_name (h r) = n"
  using wf_workflowD(2) by (force simp: getNode_def dest: map_of_SomeD)

lemma setNodes_spec:
  "distinct (keys (wf_nodes (setNodes h nodes w)))"
  "(n, r) \<in> set (wf_nodes (setNodes h nodes w)) \<Longrightarrow> n = node_name (h r)"
  "getNode (setNodes h nodes w) n = List.find (\<lambda>r. node_name (h r) = n) (rev nodes)"
proof -
  have *: "fold (\<lambda>r. obj_put (node_name (h r)) r) ns m = fold (\<lambda>(k, v). obj_put k v) (map (\<lambda>r. (node_name (h r), r)) ns) m"
    for ns m by (induction ns arbitrary: m) auto
  show "distinct (keys (wf_nodes (setNodes h nodes w)))"
    by (simp add: setNodes_def * jsobj.distinct_put_all)
  have l: "map_of (wf_nodes (setNodes h nodes w)) n = map_of (rev (map (\<lambda>r. (node_name (h r), r)) nodes)) n" for n
    by (simp add: setNodes_def * jsobj.lookup_put_all split: option.splits)
  have f: "map_of (map (\<lambda>r. (node_name (h r), r)) ns) n = List.find (\<lambda>r. node_name (h r) = n) ns" for ns n
    by (induction ns) auto
  show find: "getNode (setNodes h nodes w) n = List.find (\<lambda>r. node_name (h r) = n) (rev nodes)" for n
    using l [of n] f [of "rev nodes" n] by (simp add: getNode_def rev_map)
  show "n = node_name (h r)" if "(n, r) \<in> set (wf_nodes (setNodes h nodes w))"
  proof -
    have "getNode (setNodes h nodes w) n = Some r"
      unfolding getNode_def
      by (rule map_of_is_SomeI [OF _ that])
        (rule \<open>distinct (keys (wf_nodes (setNodes h nodes w)))\<close> [unfolded keys_def])
    then show ?thesis unfolding find by (auto simp: find_Some_iff)
  qed
qed

lemma in_edges_of:
  "(s, t, i, c) \<in> set (edges_of C) \<longleftrightarrow>
    (\<exists>obj xs g. (s, obj) \<in> set C \<and> (t, xs) \<in> set obj \<and> (i, g) \<in> set (enumerate 0 xs) \<and> c \<in> set (group_list g))"
  by (auto simp: edges_of_def; blast)

lemma in_edges_at:
  assumes "wf_conns C"
  shows "(s, t, i, c) \<in> set (edges_of C) \<longleftrightarrow>
    (\<exists>xs g. (t, xs) \<in> set (node_conns C s) \<and> (i, g) \<in> set (enumerate 0 xs) \<and> c \<in> set (group_list g))"
proof -
  have d: "distinct (map fst C)" using assms by (simp add: wf_conns_def keys_def)
  have "obj = node_conns C s" if "(s, obj) \<in> set C" for obj
    using map_of_is_SomeI [OF d that] by (simp add: node_conns_def)
  moreover have "(s, node_conns C s) \<in> set C" if "x \<in> set (node_conns C s)" for x
    using node_conns_cases [of C s] that by auto
  ultimately show ?thesis unfolding in_edges_of by metis
qed

lemma getConnectionsBetweenNodes_iff:
  assumes "wf_conns (connectionsBySourceNode w)"
  shows "(mk_conn s t i, c) \<in> set (getConnectionsBetweenNodes w sources targets) \<longleftrightarrow>
    s \<in> set sources \<and> conn_node c \<in> set targets \<and> c \<in> set (group_at (connectionsBySourceNode w) s t i)"
proof -
  let ?C = "connectionsBySourceNode w"
  have inj: "mk_conn s t i = mk_conn s' t' i' \<longleftrightarrow> s = s' \<and> t = t' \<and> i = i'" for s' t' i'
    by (auto simp: mk_conn_def)
  have "(mk_conn s t i, c) \<in> set (getConnectionsBetweenNodes w sources targets) \<longleftrightarrow>
      (s \<in> set sources \<and> conn_node c \<in> set targets \<and>
       (\<exists>xs g. (t, xs) \<in> set (node_conns ?C s) \<and> (i, g) \<in> set (enumerate 0 xs) \<and> c \<in> set (group_list g)))"
    unfolding getConnectionsBetweenNodes_def
    by (auto simp: inj simp del: conn_eq_mk; blast)
  then show ?thesis
    unfolding in_edges_at [OF assms, symmetric] edges_of_iff [OF assms] by blast
qed

section \<open>Neighbours in the two connection tables\<close>

lemma group_at_list: "set (group_at C n t i) = (if i < length (type_conns (node_conns C n) t)
    then set (group_list (type_conns (node_conns C n) t ! i)) else {})"
  by (simp add: group_at_def array_get_def group_list_def)

lemma nbr_group: "(a, b) \<in> nbr_rel C (OfType t) \<longleftrightarrow> (\<exists>i c. c \<in> set (group_at C a t i) \<and> conn_node c = b)"
proof -
  have "(a, b) \<in> nbr_rel C (OfType t) \<longleftrightarrow>
      (\<exists>g \<in> set (type_conns (node_conns C a) t). b \<in> conn_node ` set (group_list g))"
    by (simp add: nbr_rel_def neighbours_def filter_types_def group_nodes_def)
  then show ?thesis unfolding group_at_list in_set_conv_nth Bex_def by (auto split: if_splits)
qed

lemma nbr_destination:
  assumes "wf_workflow h w"
  shows "(d, s) \<in> nbr_rel (connectionsByDestinationNode w) (OfType u) \<longleftrightarrow>
    (\<exists>t i j. mk_conn d u j \<in> set (group_at (connectionsBySourceNode w) s t i))"
proof -
  let ?C = "connectionsBySourceNode w"
  have src: "(\<exists>c \<in> set (sources_of d u j es). conn_node c = s) \<longleftrightarrow> (\<exists>t i. (s, t, i, mk_conn d u j) \<in> set es)" for j es
    by (force simp: sources_of_def mk_conn_def)
  have "(d, s) \<in> nbr_rel (connectionsByDestinationNode w) (OfType u) \<longleftrightarrow>
      (\<exists>j. \<exists>t i. (s, t, i, mk_conn d u j) \<in> set (edges_of ?C))"
    unfolding nbr_group wf_workflowD(4) [OF assms] group_at_mapConnectionsByDestination src [symmetric] by blast
  then show ?thesis unfolding edges_of_iff [OF wf_workflowD(3) [OF assms]] by blast
qed

lemma destination_nbr_node:
  assumes "wf_workflow h w" "(d, s) \<in> nbr_rel (connectionsByDestinationNode w) (OfType u)"
  shows "getNode w s \<noteq> None"
proof -
  let ?C = "connectionsBySourceNode w"
  obtain t i j where "mk_conn d u j \<in> set (group_at ?C s t i)"
    using assms nbr_destination by blast
  then have "node_conns ?C s \<noteq> []" by (auto simp: group_at_list type_conns_def)
  then have "s \<in> set (keys ?C)" using node_conns_cases [of ?C s] by force
  then show ?thesis by (rule wf_workflowD(5) [OF assms(1)])
qed

end
