(* ===== verification/Graph_Conversion.thy ===== *)
theory Graph_Conversion
  imports Graph_Editing Workflow_Model
begin

text \<open>
  Importing a workflow into a \<open>DirectedGraph\<close> and exporting it again: \<open>fromWorkflow\<close>,
  \<open>fromNodesAndConnections\<close>, \<open>toIConnections\<close> and \<open>toWorkflow\<close> of \<open>directed-graph.ts\<close>.
\<close>

section \<open>Import\<close>

definition get_ok :: "'a option \<Rightarrow> 'a result" where
  "get_ok x = (case x of None \<Rightarrow> Inl AssertionError | Some v \<Rightarrow> Inr v)"

definition import_connection ::
    "heap \<Rightarrow> (string \<Rightarrow> noderef option) \<Rightarrow> noderef \<Rightarrow> NodeConnectionType \<Rightarrow> nat \<Rightarrow> IConnection \<Rightarrow>
     DirectedGraph \<Rightarrow> DirectedGraph result" where
  "import_connection h lookup from outputType outputIndex conn g =
     rbind (get_ok (lookup (conn_node conn))) (\<lambda>to.
       addConnection h \<lparr>ci_from = from, ci_to = to, ci_type = Some outputType,
         ci_output = Some outputIndex, ci_input = Some (conn_index conn)\<rparr> g)"

definition import_connections ::
    "heap \<Rightarrow> (string \<Rightarrow> noderef option) \<Rightarrow> IConnections \<Rightarrow> DirectedGraph \<Rightarrow> DirectedGraph result" where
  "import_connections h lookup connections g =
     rfold (\<lambda>(fromNodeName, iConnection) g.
       rbind (get_ok (lookup fromNodeName)) (\<lambda>from.
         rfold (\<lambda>(outputType, outputs) g.
           rfold (\<lambda>(outputIndex, conns) g.
             rfold (import_connection h lookup from outputType outputIndex) (group_list conns) g)
           (enumerate 0 outputs) g)
         iConnection g))
     connections g"

definition fromWorkflow :: "heap \<Rightarrow> Workflow \<Rightarrow> DirectedGraph result" where
  "fromWorkflow h w =
     import_connections h (getNode w) (connectionsBySourceNode w)
       (addNodes h (vals (wf_nodes w)) newDirectedGraph)"

definition fromNodesAndConnections :: "heap \<Rightarrow> noderef list \<Rightarrow> IConnections \<Rightarrow> DirectedGraph result" where
  "fromNodesAndConnections h nodes connections =
     (let nodeMap = fold (\<lambda>r. map_put (node_name (h r)) r) nodes [] in
      import_connections h (map_of nodeMap) connections (addNodes h nodes newDirectedGraph))"

section \<open>Export\<close>

definition export_connection :: "heap \<Rightarrow> GraphConnection \<Rightarrow> IConnections \<Rightarrow> IConnections result" where
  "export_connection h c res =
     (let name = node_name (h (gc_from c));
          resultConnection = (case map_of res name of None \<Rightarrow> [(gc_type c, [])] | Some obj \<Rightarrow> obj) in
      case map_of resultConnection (gc_type c) of
        None \<Rightarrow> Inl TypeError
      | Some outputs \<Rightarrow>
          (let grp = group_list (array_get outputs (gc_output c)) @
                 [mk_conn (node_name (h (gc_to c))) (gc_type c) (gc_input c)]
           in Inr (obj_put name
                (obj_put (gc_type c) (array_put (gc_output c) (Some grp) outputs) resultConnection) res)))"

definition toIConnections :: "heap \<Rightarrow> DirectedGraph \<Rightarrow> IConnections result" where
  "toIConnections h g = rfold (export_connection h) (vals (dg_conns g)) []"

definition toWorkflow :: "heap \<Rightarrow> DirectedGraph \<Rightarrow> IPinData option \<Rightarrow> Workflow result" where
  "toWorkflow h g pinData =
     rbind (toIConnections h g) (\<lambda>connections.
       Inr (newWorkflow h (vals (dg_nodes g)) connections pinData))"

section \<open>What the import builds\<close>

text \<open>A loop whose body never throws, on the states of an invariant, is a fold.\<close>

lemma rfold_fold:
  assumes "\<And>x s. x \<in> set xs \<Longrightarrow> I s \<Longrightarrow> f x s = Inr (fold k (es x) s) \<and> I (fold k (es x) s)" "I s"
  shows "rfold f xs s = Inr (fold k (concat (map es xs)) s) \<and> I (fold k (concat (map es xs)) s)"
  using assms by (induction xs arbitrary: s) auto

definition graph_edge :: "(string \<Rightarrow> noderef option) \<Rightarrow> edge \<Rightarrow> GraphConnection" where
  "graph_edge lookup e = (case e of (s, t, i, c) \<Rightarrow>
     \<lparr>gc_from = the (lookup s), gc_to = the (lookup (conn_node c)), gc_type = t, gc_output = i,
       gc_input = conn_index c\<rparr>)"

definition connectable :: "heap \<Rightarrow> (string \<Rightarrow> noderef option) \<Rightarrow> noderef set \<Rightarrow> DirectedGraph \<Rightarrow> bool" where
  "connectable h lookup N g \<longleftrightarrow> wf_graph h g \<and> nodes_of g = N \<and> ran lookup \<subseteq> N"

lemma connectable_set:
  assumes "connectable h lookup N g" "gc_from c \<in> N" "gc_to c \<in> N"
  shows "connectable h lookup N (set_connection h c g)"
  using assms wf_set_connection [of h g c] set_connection_sets(1) [of h g c] by (simp add: connectable_def)

lemma import_connections_fold:
  assumes "connectable h lookup N g"
    and "\<And>s. s \<in> fst ` set C \<Longrightarrow> lookup s \<noteq> None"
    and "\<And>s t i c. (s, t, i, c) \<in> set (edges_of C) \<Longrightarrow> lookup (conn_node c) \<noteq> None"
  shows "import_connections h lookup C g =
      Inr (fold (set_connection h) (map (graph_edge lookup) (edges_of C)) g) \<and>
    connectable h lookup N (fold (set_connection h) (map (graph_edge lookup) (edges_of C)) g)"
proof -
  let ?I = "connectable h lookup N"
  let ?k = "\<lambda>e. set_connection h (graph_edge lookup e)"
  have conn: "import_connection h lookup r t i c g = Inr (fold ?k [(s, t, i, c)] g) \<and> ?I (fold ?k [(s, t, i, c)] g)"
    if edge: "(s, t, i, c) \<in> set (edges_of C)" and "lookup s = Some r" "?I g" for s t i c r g
  proof -
    obtain q where q: "lookup (conn_node c) = Some q" using assms(3) [OF edge] by auto
    have n: "r \<in> N" "q \<in> N" "wf_graph h g" "nodes_of g = N"
      using \<open>lookup s = Some r\<close> \<open>?I g\<close> q by (auto simp: connectable_def ran_def)
    let ?c = "\<lparr>gc_from = r, gc_to = q, gc_type = t, gc_output = i, gc_input = conn_index c\<rparr>"
    have e: "graph_edge lookup (s, t, i, c) = ?c" using \<open>lookup s = Some r\<close> q by (simp add: graph_edge_def)
    have "import_connection h lookup r t i c g = Inr (set_connection h ?c g)"
      using q n by (simp add: import_connection_def get_ok_def addConnection_eq complete_input_def dflt_def)
    then show ?thesis using connectable_set [OF \<open>?I g\<close>, of ?c] n by (simp add: e)
  qed
  let ?grp = "\<lambda>s t. \<lambda>(i, grp). map (\<lambda>c. (s, t, i, c)) (group_list grp)"
  let ?types_of = "\<lambda>s. \<lambda>(t, xs). concat (map (?grp s t) (enumerate 0 xs))"
  let ?node = "\<lambda>(s, obj). concat (map (?types_of s) obj)"
  have per_group: "rfold (import_connection h lookup r t i) (group_list grp) g = Inr (fold ?k (?grp s t (i, grp)) g) \<and>
      ?I (fold ?k (?grp s t (i, grp)) g)"
    if "(s, obj) \<in> set C" "(t, xs) \<in> set obj" "(i, grp) \<in> set (enumerate 0 xs)" "lookup s = Some r" "?I g"
    for s obj t xs i grp r g
  proof -
    have e: "(s, t, i, c) \<in> set (edges_of C)" if "c \<in> set (group_list grp)" for c
      unfolding in_edges_of using \<open>(s, obj) \<in> set C\<close> \<open>(t, xs) \<in> set obj\<close> \<open>(i, grp) \<in> _\<close> that by blast
    have "rfold (import_connection h lookup r t i) (group_list grp) g =
        Inr (fold ?k (concat (map (\<lambda>c. [(s, t, i, c)]) (group_list grp))) g) \<and>
        ?I (fold ?k (concat (map (\<lambda>c. [(s, t, i, c)]) (group_list grp))) g)"
      by (rule rfold_fold [where I = ?I, OF conn [OF e \<open>lookup s = Some r\<close>] \<open>?I g\<close>])
    moreover have "concat (map (\<lambda>c. [(s, t, i, c)]) cs) = map (\<lambda>c. (s, t, i, c)) cs" for cs
      by (induction cs) auto
    ultimately show ?thesis by simp
  qed
  have per_type: "rfold (\<lambda>(i, grp). rfold (import_connection h lookup r t i) (group_list grp)) (enumerate 0 xs) g =
      Inr (fold ?k (?types_of s (t, xs)) g) \<and> ?I (fold ?k (?types_of s (t, xs)) g)"
    if "(s, obj) \<in> set C" "(t, xs) \<in> set obj" "lookup s = Some r" "?I g" for s obj t xs r g
    unfolding prod.case
  proof (rule rfold_fold [where I = ?I, OF _ \<open>?I g\<close>])
    fix x g' assume x: "x \<in> set (enumerate 0 xs)" "?I g'"
    obtain i grp where "x = (i, grp)" by (cases x)
    with x show "(case x of (i, grp) \<Rightarrow> rfold (import_connection h lookup r t i) (group_list grp)) g' =
        Inr (fold ?k (?grp s t x) g') \<and> ?I (fold ?k (?grp s t x) g')"
      using per_group [OF that(1,2) _ that(3), of i grp g'] by simp
  qed
  have per_node: "rfold (\<lambda>(t, xs). rfold (\<lambda>(i, grp). rfold (import_connection h lookup r t i) (group_list grp)) (enumerate 0 xs)) obj g =
      Inr (fold ?k (?node (s, obj)) g) \<and> ?I (fold ?k (?node (s, obj)) g)"
    if "(s, obj) \<in> set C" "lookup s = Some r" "?I g" for s obj r g
    unfolding prod.case
  proof (rule rfold_fold [where I = ?I, OF _ \<open>?I g\<close>])
    fix x g' assume x: "x \<in> set obj" "?I g'"
    obtain t xs where "x = (t, xs)" by (cases x)
    with x show "(case x of (t, xs) \<Rightarrow> rfold (\<lambda>(i, grp). rfold (import_connection h lookup r t i) (group_list grp)) (enumerate 0 xs)) g' =
        Inr (fold ?k (?types_of s x) g') \<and> ?I (fold ?k (?types_of s x) g')"
      using per_type [OF that(1) _ that(2), of t xs g'] by simp
  qed
  have "import_connections h lookup C g = Inr (fold ?k (concat (map ?node C)) g) \<and> ?I (fold ?k (concat (map ?node C)) g)"
    unfolding import_connections_def
  proof (rule rfold_fold [where I = ?I, OF _ assms(1)])
    fix x g' assume x: "x \<in> set C" "?I g'"
    obtain s obj where so: "x = (s, obj)" by (cases x)
    obtain r where r: "lookup s = Some r" using assms(2) [of s] x(1) so by force
    show "(case x of (fromNodeName, iConnection) \<Rightarrow> \<lambda>g. rbind (get_ok (lookup fromNodeName)) (\<lambda>from.
        rfold (\<lambda>(outputType, outputs) g. rfold (\<lambda>(outputIndex, conns) g.
          rfold (import_connection h lookup from outputType outputIndex) (group_list conns) g)
        (enumerate 0 outputs) g) iConnection g)) g' = Inr (fold ?k (?node x) g') \<and> ?I (fold ?k (?node x) g')"
      using per_node [of s obj r g'] x so r by (simp add: get_ok_def)
  qed
  then show ?thesis by (simp add: edges_of_def fold_map comp_def)
qed

lemma addNodes_spec:
  assumes "distinct (map (\<lambda>r. node_name (h r)) rs)"
  shows "addNodes h rs newDirectedGraph = \<lparr>dg_nodes = map (\<lambda>r. (node_name (h r), r)) rs, dg_conns = []\<rparr>"
    "wf_graph h (addNodes h rs newDirectedGraph)" "nodes_of (addNodes h rs newDirectedGraph) = set rs"
proof -
  have "fold (addNode h) rs \<lparr>dg_nodes = m, dg_conns = []\<rparr> =
      \<lparr>dg_nodes = fold (\<lambda>(k, v). map_put k v) (map (\<lambda>r. (node_name (h r), r)) rs) m, dg_conns = []\<rparr>" for m
    by (induction rs arbitrary: m) (auto simp: addNode_def)
  then show e: "addNodes h rs newDirectedGraph = \<lparr>dg_nodes = map (\<lambda>r. (node_name (h r), r)) rs, dg_conns = []\<rparr>"
    using fold_put_entries [of "[]" "map (\<lambda>r. (node_name (h r), r)) rs"] assms
    by (simp add: addNodes_def newDirectedGraph_def keys_def comp_def)
  show "wf_graph h (addNodes h rs newDirectedGraph)"
    using assms by (simp add: e wf_graph_def keys_def comp_def list_all_iff)
  show "nodes_of (addNodes h rs newDirectedGraph) = set rs"
    by (simp add: e nodes_of_def vals_def comp_def)
qed

lemma conns_of_fold_upper:
  "conns_of (fold (set_connection h) cs g) \<subseteq> conns_of g \<union> set cs" if "wf_graph h g"
    "\<And>c. c \<in> set cs \<Longrightarrow> gc_from c \<in> nodes_of g \<and> gc_to c \<in> nodes_of g"
  using that
proof (induction cs arbitrary: g)
  case (Cons c cs)
  have "conns_of (fold (set_connection h) cs (set_connection h c g)) \<subseteq> conns_of (set_connection h c g) \<union> set cs"
    by (rule Cons.IH) (use Cons.prems in \<open>auto simp: wf_set_connection set_connection_sets\<close>)
  then show ?case using set_connection_sets(2) [OF Cons.prems(1), of c] by auto
qed simp

lemma fromWorkflow_spec:
  assumes "wf_workflow h w"
  shows "\<exists>g. fromWorkflow h w = Inr g \<and> wf_graph h g \<and> nodes_of g = set (vals (wf_nodes w)) \<and>
    conns_of g \<subseteq> graph_edge (getNode w) ` set (edges_of (connectionsBySourceNode w)) \<and>
    (inj_on (makeKey h) (graph_edge (getNode w) ` set (edges_of (connectionsBySourceNode w))) \<longrightarrow>
      conns_of g = graph_edge (getNode w) ` set (edges_of (connectionsBySourceNode w)))"
proof -
  let ?C = "connectionsBySourceNode w"
  note d = wf_workflowD [OF assms]
  let ?g = "addNodes h (vals (wf_nodes w)) newDirectedGraph"
  have "map (\<lambda>r. node_name (h r)) (vals (wf_nodes w)) = keys (wf_nodes w)"
    using d(2) by (force simp: vals_def keys_def)
  then have n: "wf_graph h ?g" "nodes_of ?g = set (vals (wf_nodes w))"
    using addNodes_spec [of h "vals (wf_nodes w)"] d(1) by auto
  have lookup: "the (getNode w s) \<in> nodes_of ?g" if "getNode w s \<noteq> None" for s
    using that n(2) by (force simp: getNode_def dest: map_of_SomeD)
  have c: "connectable h (getNode w) (nodes_of ?g) ?g"
    using n lookup by (force simp: connectable_def ran_def)
  let ?r = "fold (set_connection h) (map (graph_edge (getNode w)) (edges_of ?C)) ?g"
  have r: "fromWorkflow h w = Inr ?r" "connectable h (getNode w) (nodes_of ?g) ?r"
    using import_connections_fold [OF c, of ?C] d(5,6) by (auto simp: fromWorkflow_def)
  have ends: "gc_from e \<in> nodes_of ?g \<and> gc_to e \<in> nodes_of ?g" if "e \<in> set (map (graph_edge (getNode w)) (edges_of ?C))" for e
  proof -
    obtain s t i x where e: "e = graph_edge (getNode w) (s, t, i, x)" "(s, t, i, x) \<in> set (edges_of ?C)"
      using \<open>e \<in> _\<close> by auto
    have "s \<in> set (keys ?C)" using e(2) by (force simp: in_edges_of)
    then show ?thesis using e lookup d(5,6) by (simp add: graph_edge_def)
  qed
  have none: "conns_of ?g = {}"
    using addNodes_spec(1) [of h "vals (wf_nodes w)"] d(1) \<open>map _ _ = keys (wf_nodes w)\<close>
    by (simp add: conns_of_def)
  have upper: "conns_of ?r \<subseteq> set (map (graph_edge (getNode w)) (edges_of ?C))"
    using conns_of_fold_upper [OF n(1) ends] none by blast
  have exact: "conns_of ?r = set (map (graph_edge (getNode w)) (edges_of ?C))"
    if inj: "inj_on (makeKey h) (graph_edge (getNode w) ` set (edges_of ?C))"
  proof -
    have inj: "x = y" if "x \<in> conns_of ?g \<union> set (map (graph_edge (getNode w)) (edges_of ?C))"
      "y \<in> conns_of ?g \<union> set (map (graph_edge (getNode w)) (edges_of ?C))" "makeKey h x = makeKey h y" for x y
      by (rule inj_onD [OF inj that(3)]) (use that(1,2) none in auto)
    have "conns_of ?r = conns_of ?g \<union> set (map (graph_edge (getNode w)) (edges_of ?C))"
      by (rule fold_set_connection(3) [OF n(1) ends inj])
    then show ?thesis unfolding none by blast
  qed
  have "wf_graph h ?r" "nodes_of ?r = set (vals (wf_nodes w))" using r(2) n(2) by (auto simp: connectable_def)
  then show ?thesis using r(1) upper exact by auto
qed

section \<open>What the export writes\<close>

text \<open>The connections of one output, as the table lists them.\<close>

definition listed :: "heap \<Rightarrow> GraphConnection list \<Rightarrow> string \<Rightarrow> NodeConnectionType \<Rightarrow> nat \<Rightarrow> IConnection list" where
  "listed h cs s t i =
     map (\<lambda>c. mk_conn (node_name (h (gc_to c))) t (gc_input c))
       (filter (\<lambda>c. node_name (h (gc_from c)) = s \<and> gc_type c = t \<and> gc_output c = i) cs)"

definition exported :: "heap \<Rightarrow> GraphConnection list \<Rightarrow> IConnections \<Rightarrow> bool" where
  "exported h cs C \<longleftrightarrow> wf_conns C \<and> (\<forall>s t i. group_at C s t i = listed h cs s t i) \<and>
     (\<forall>s. map_of C s = None \<longleftrightarrow> (\<forall>c \<in> set cs. node_name (h (gc_from c)) \<noteq> s)) \<and>
     (\<forall>s obj t. map_of C s = Some obj \<longrightarrow>
        (map_of obj t \<noteq> None \<longleftrightarrow> (\<exists>c \<in> set cs. node_name (h (gc_from c)) = s \<and> gc_type c = t)))"

lemma exportedD:
  assumes "exported h cs C"
  shows "wf_conns C" "group_at C s t i = listed h cs s t i"
    "map_of C s = None \<longleftrightarrow> (\<forall>c \<in> set cs. node_name (h (gc_from c)) \<noteq> s)"
    "map_of C s = Some obj \<Longrightarrow> map_of obj t \<noteq> None \<longleftrightarrow> (\<exists>c \<in> set cs. node_name (h (gc_from c)) = s \<and> gc_type c = t)"
  using assms by (auto simp: exported_def)

lemma wf_conns_obj: "wf_conns C \<Longrightarrow> map_of C n = Some obj \<Longrightarrow> distinct (keys obj)"
  by (auto simp: wf_conns_iff dest: map_of_SomeD)

lemma group_at_lookup:
  "group_at C s t i = (case map_of C s of None \<Rightarrow> [] | Some obj \<Rightarrow>
     (case map_of obj t of None \<Rightarrow> [] | Some xs \<Rightarrow> group_list (array_get xs i)))"
  by (simp add: group_at_def node_conns_def type_conns_def group_list_def array_get_def split: option.splits)

lemma export_step:
  assumes "exported h cs C"
    and single: "\<And>d. d \<in> set cs \<Longrightarrow> node_name (h (gc_from d)) = node_name (h (gc_from c)) \<Longrightarrow> gc_type d = gc_type c"
  shows "\<exists>C'. export_connection h c C = Inr C' \<and> exported h (cs @ [c]) C'"
proof -
  note d = exportedD [OF assms(1)]
  let ?n = "node_name (h (gc_from c))" and ?t = "gc_type c"
  let ?obj = "case map_of C ?n of None \<Rightarrow> [(?t, [])] | Some obj \<Rightarrow> obj"
  have dk: "distinct (keys ?obj)" using wf_conns_obj [OF d(1)] by (auto split: option.splits)
  have types: "map_of ?obj t \<noteq> None \<longleftrightarrow> t = ?t" for t
  proof (cases "map_of C ?n")
    case None
    then show ?thesis by simp
  next
    case (Some obj)
    then obtain e where "e \<in> set cs" "node_name (h (gc_from e)) = ?n" using d(3) [of ?n] by auto
    then show ?thesis using d(4) [OF Some, of t] single Some by auto
  qed
  then obtain outs where outs: "map_of ?obj ?t = Some outs" by blast
  have at: "group_list (array_get outs i) = listed h cs ?n ?t i" for i
  proof (cases "map_of C ?n")
    case None
    then have "outs = []" using outs by simp
    moreover have "listed h cs ?n ?t i = []"
      using None d(3) [of ?n] by (auto simp: listed_def filter_empty_conv)
    ultimately show ?thesis by (simp add: array_get_def group_list_def)
  next
    case (Some obj)
    then show ?thesis using d(2) [of ?n ?t i] outs by (simp add: group_at_lookup)
  qed
  let ?grp = "group_list (array_get outs (gc_output c)) @ [mk_conn (node_name (h (gc_to c))) ?t (gc_input c)]"
  let ?obj' = "obj_put ?t (array_put (gc_output c) (Some ?grp) outs) ?obj"
  let ?C = "obj_put ?n ?obj' C"
  have C: "export_connection h c C = Inr ?C" using outs by (simp add: export_connection_def Let_def)
  have "exported h (cs @ [c]) ?C"
    unfolding exported_def
  proof (intro conjI allI impI)
    show "wf_conns ?C" by (rule wf_conns_put [OF d(1)]) (rule jsobj.distinct_put [OF dk])
  next
    fix s t i
    show "group_at ?C s t i = listed h (cs @ [c]) s t i"
    proof (cases "s = ?n \<and> t = ?t")
      case True
      then have "group_at ?C s t i = group_list (array_get (array_put (gc_output c) (Some ?grp) outs) i)"
        by (simp add: group_at_lookup jsobj.lookup_put)
      also have "\<dots> = listed h (cs @ [c]) s t i"
        using True at by (auto simp: array_get_put group_list_def listed_def)
      finally show ?thesis .
    next
      case False
      have "listed h (cs @ [c]) s t i = listed h cs s t i" using False by (auto simp: listed_def)
      moreover have "group_at ?C s t i = group_at C s t i"
      proof (cases "s = ?n")
        case True
        then have "t \<noteq> ?t" using False by simp
        then have "map_of ?obj t = None" using types by blast
        then show ?thesis using True \<open>t \<noteq> ?t\<close>
          by (simp add: group_at_lookup jsobj.lookup_put split: option.splits)
      qed (simp add: group_at_lookup jsobj.lookup_put)
      ultimately show ?thesis using d(2) by simp
    qed
  next
    fix s
    show "map_of ?C s = None \<longleftrightarrow> (\<forall>c \<in> set (cs @ [c]). node_name (h (gc_from c)) \<noteq> s)"
      using d(3) [of s] by (auto simp: jsobj.lookup_put)
  next
    fix s obj t assume "map_of ?C s = Some obj"
    then show "map_of obj t \<noteq> None \<longleftrightarrow> (\<exists>c \<in> set (cs @ [c]). node_name (h (gc_from c)) = s \<and> gc_type c = t)"
      using d(4) [of s _ t] types [of t] single by (auto simp: jsobj.lookup_put split: if_splits)
  qed
  then show ?thesis using C by blast
qed

definition single_typed :: "heap \<Rightarrow> GraphConnection list \<Rightarrow> bool" where
  "single_typed h cs \<longleftrightarrow> list_all (\<lambda>c. list_all (\<lambda>d.
     node_name (h (gc_from c)) = node_name (h (gc_from d)) \<longrightarrow> gc_type c = gc_type d) cs) cs"

lemma toIConnections_spec:
  assumes "single_typed h (vals (dg_conns g))"
  shows "\<exists>C. toIConnections h g = Inr C \<and> exported h (vals (dg_conns g)) C"
proof -
  have "\<exists>C'. rfold (export_connection h) cs C = Inr C' \<and> exported h (ds @ cs) C'"
    if "exported h ds C" "single_typed h (ds @ cs)" for ds cs C
    using that
  proof (induction cs arbitrary: ds C)
    case Nil
    then show ?case by simp
  next
    case (Cons c cs)
    obtain C' where C': "export_connection h c C = Inr C'" "exported h (ds @ [c]) C'"
      using export_step [OF Cons.prems(1), of c] Cons.prems(2) by (auto simp: single_typed_def list_all_iff)
    then show ?case using Cons.IH [OF C'(2)] Cons.prems(2) by simp
  qed
  moreover have "exported h [] []"
    by (simp add: exported_def wf_conns_def listed_def group_at_lookup)
  ultimately show ?thesis using assms by (fastforce simp: toIConnections_def)
qed

text \<open>A second type of connection out of one node is not exported.\<close>

lemma export_two_types:
  assumes "exported h cs C" "d \<in> set cs" "node_name (h (gc_from d)) = node_name (h (gc_from c))"
    and "\<And>e. e \<in> set cs \<Longrightarrow> node_name (h (gc_from e)) = node_name (h (gc_from c)) \<Longrightarrow> gc_type e \<noteq> gc_type c"
  shows "export_connection h c C = Inl TypeError"
proof -
  note x = exportedD [OF assms(1)]
  obtain obj where obj: "map_of C (node_name (h (gc_from c))) = Some obj"
    using x(3) [of "node_name (h (gc_from c))"] assms(2,3) by auto
  then have "map_of obj (gc_type c) = None" using x(4) [OF obj, of "gc_type c"] assms(4) by auto
  then show ?thesis using obj by (simp add: export_connection_def)
qed

section \<open>Round trip\<close>

lemma find_unique:
  "distinct (map f xs) \<Longrightarrow> x \<in> set xs \<Longrightarrow> List.find (\<lambda>y. f y = f x) xs = Some x"
  by (induction xs) (auto simp: image_iff)

lemma toWorkflow_node:
  assumes "wf_graph h g" "r \<in> nodes_of g"
  shows "getNode (newWorkflow h (vals (dg_nodes g)) C pd) (node_name (h r)) = Some r"
proof -
  have "map (\<lambda>r. node_name (h r)) (vals (dg_nodes g)) = keys (dg_nodes g)"
    using wf_graphD(3) [OF assms(1)] by (force simp: vals_def keys_def)
  then have "distinct (map (\<lambda>r. node_name (h r)) (rev (vals (dg_nodes g))))"
    using wf_graphD(1) [OF assms(1)] by (simp add: rev_map [symmetric])
  then have "List.find (\<lambda>q. node_name (h q) = node_name (h r)) (rev (vals (dg_nodes g))) = Some r"
    by (rule find_unique) (use assms(2) in \<open>simp add: nodes_of_def\<close>)
  then show ?thesis
    using setNodes_spec(3) [of h "vals (dg_nodes g)" empty_workflow]
    by (simp add: newWorkflow_def setPinData_def setConnections_def getNode_def)
qed

lemma set_listed:
  "x \<in> set (listed h cs s t i) \<longleftrightarrow> (\<exists>c \<in> set cs. node_name (h (gc_from c)) = s \<and> gc_type c = t \<and> gc_output c = i \<and>
    x = mk_conn (node_name (h (gc_to c))) t (gc_input c))"
  by (auto simp: listed_def simp del: conn_eq_mk)

lemma toWorkflow_edges:
  assumes "wf_graph h g" "exported h (vals (dg_conns g)) C" "w = newWorkflow h (vals (dg_nodes g)) C pd"
  shows "wf_workflow h w" "graph_edge (getNode w) ` set (edges_of C) = conns_of g"
    "set (vals (wf_nodes w)) = nodes_of g"
proof -
  note x = exportedD [OF assms(2)]
  have C: "connectionsBySourceNode w = C" "connectionsByDestinationNode w = mapConnectionsByDestination C"
    "wf_nodes w = wf_nodes (setNodes h (vals (dg_nodes g)) empty_workflow)"
    by (simp_all add: assms(3) newWorkflow_def setPinData_def setConnections_def)
  have node: "getNode w (node_name (h r)) = Some r" if "r \<in> nodes_of g" for r
    unfolding assms(3) by (rule toWorkflow_node [OF assms(1) that])
  have ends: "gc_from c \<in> nodes_of g" "gc_to c \<in> nodes_of g" if "c \<in> conns_of g" for c
    using wf_graphD(5,6) [OF assms(1) that] by auto
  have edge: "e \<in> set (edges_of C) \<longleftrightarrow> (\<exists>c \<in> conns_of g. e = (node_name (h (gc_from c)), gc_type c, gc_output c,
      mk_conn (node_name (h (gc_to c))) (gc_type c) (gc_input c)))" for e
  proof -
    obtain s t i d where e: "e = (s, t, i, d)" by (cases e)
    show ?thesis unfolding e edges_of_iff [OF x(1)] x(2) set_listed conns_of_def by blast
  qed
  have dist: "distinct (keys (wf_nodes w))" unfolding C(3) by (rule setNodes_spec(1))
  have named: "n = node_name (h r)" if "(n, r) \<in> set (wf_nodes w)" for n r
    using setNodes_spec(2) that unfolding C(3) by blast
  show "wf_workflow h w"
    unfolding wf_workflow_def C(1,2) list_all_iff
  proof (intro conjI ballI)
    fix s assume "s \<in> set (keys C)"
    then have "map_of C s \<noteq> None" by (auto simp: map_of_eq_None_iff)
    then obtain c where c: "c \<in> conns_of g" "node_name (h (gc_from c)) = s"
      using x(3) [of s] unfolding conns_of_def by metis
    have "getNode w s = Some (gc_from c)" using node [OF ends(1) [OF c(1)]] c(2) by simp
    then show "getNode w s \<noteq> None" by simp
  next
    fix e assume "e \<in> set (edges_of C)"
    then obtain c where "c \<in> conns_of g" "e = (node_name (h (gc_from c)), gc_type c, gc_output c,
        mk_conn (node_name (h (gc_to c))) (gc_type c) (gc_input c))" using edge by blast
    then show "case e of (s, t, i, c) \<Rightarrow> getNode w (conn_node c) \<noteq> None"
      using node [OF ends(2)] by (simp add: mk_conn_def)
  qed (use dist named x(1) in auto)
  show "graph_edge (getNode w) ` set (edges_of C) = conns_of g"
  proof -
    let ?e = "\<lambda>c. (node_name (h (gc_from c)), gc_type c, gc_output c,
        mk_conn (node_name (h (gc_to c))) (gc_type c) (gc_input c))"
    have "graph_edge (getNode w) (?e c) = c" if "c \<in> conns_of g" for c
      using node [OF ends(1) [OF that]] node [OF ends(2) [OF that]] by (simp add: graph_edge_def mk_conn_def)
    moreover have "set (edges_of C) = ?e ` conns_of g" using edge by blast
    ultimately show ?thesis by (simp add: image_image)
  qed
  show "set (vals (wf_nodes w)) = nodes_of g"
  proof (intro set_eqI iffI)
    fix r assume "r \<in> set (vals (wf_nodes w))"
    then obtain n where n: "(n, r) \<in> set (wf_nodes w)" by auto
    then have "getNode w n = Some r" using dist by (simp add: getNode_def keys_def)
    then have "List.find (\<lambda>r. node_name (h r) = n) (rev (vals (dg_nodes g))) = Some r"
      using setNodes_spec(3) [of h "vals (dg_nodes g)" empty_workflow n] by (simp add: getNode_def C(3))
    then show "r \<in> nodes_of g" by (metis find_Some_iff nth_mem set_rev nodes_of_def)
  next
    fix r assume "r \<in> nodes_of g"
    then have "(node_name (h r), r) \<in> set (wf_nodes w)"
      using node unfolding getNode_def by (blast dest: map_of_SomeD)
    then show "r \<in> set (vals (wf_nodes w))" by force
  qed
qed

lemma from_toWorkflow:
  assumes "wf_graph h g" "single_typed h (vals (dg_conns g))"
  shows "\<exists>w g'. toWorkflow h g pd = Inr w \<and> wf_workflow h w \<and> fromWorkflow h w = Inr g' \<and> wf_graph h g' \<and>
    nodes_of g' = nodes_of g \<and> conns_of g' = conns_of g"
proof -
  obtain C where C: "toIConnections h g = Inr C" "exported h (vals (dg_conns g)) C"
    using toIConnections_spec [OF assms(2)] by blast
  define w where "w = newWorkflow h (vals (dg_nodes g)) C pd"
  note e = toWorkflow_edges [OF assms(1) C(2) w_def]
  have conns: "connectionsBySourceNode w = C" by (simp add: w_def newWorkflow_def setPinData_def setConnections_def)
  have "inj_on (makeKey h) (conns_of g)" using key_inj_conns [OF assms(1)] by (auto simp: inj_on_def)
  then obtain g' where "fromWorkflow h w = Inr g'" "wf_graph h g'" "nodes_of g' = nodes_of g" "conns_of g' = conns_of g"
    using fromWorkflow_spec [OF e(1)] e(2,3) unfolding conns by auto
  moreover have "toWorkflow h g pd = Inr w" using C(1) by (simp add: toWorkflow_def w_def)
  ultimately show ?thesis using e(1) by blast
qed

end
