(* ===== verification/Workflow_Lookup.thy ===== *)
theory Workflow_Lookup
  imports Workflow_Model
begin

text \<open>
  Two upward searches of \<open>Workflow\<close>: \<open>getNodeConnectionIndexes\<close>, which finds the connection through
  which a parent node feeds a node, and \<open>getHighestNode\<close>, the roots above a node.
\<close>

section \<open>getNodeConnectionIndexes\<close>

record INodeConnection =
  sourceIndex :: nat
  destinationIndex :: nat

definition indexed_conns :: "IConnections \<Rightarrow> NodeConnectionType \<Rightarrow> string \<Rightarrow> (nat \<times> IConnection) list" where
  "indexed_conns C t n = concat (map (\<lambda>g. enumerate 0 (group_list g)) (type_conns (node_conns C n) t))"

fun scan_conns ::
    "string \<Rightarrow> string list \<Rightarrow> (nat \<times> IConnection) list \<Rightarrow> string list \<Rightarrow> INodeConnection + string list" where
  "scan_conns parentNodeName visited [] queue = Inr queue"
| "scan_conns parentNodeName visited ((i, c) # cs) queue =
     (if parentNodeName = conn_node c then Inl \<lparr>sourceIndex = conn_index c, destinationIndex = i\<rparr>
      else scan_conns parentNodeName visited cs
        (if conn_node c \<in> set visited then queue else queue @ [conn_node c]))"

definition type_targets :: "IConnections \<Rightarrow> NodeConnectionType \<Rightarrow> string set" where
  "type_targets C t = (\<Union>(n, obj) \<in> set C. (\<lambda>ic. conn_node (snd ic)) ` set (indexed_conns C t n))"

lemma indexed_nbr:
  "(a, b) \<in> nbr_rel C (OfType t) \<longleftrightarrow> (\<exists>i c. (i, c) \<in> set (indexed_conns C t a) \<and> conn_node c = b)"
proof -
  have "c \<in> set l \<longleftrightarrow> (\<exists>i. (i, c) \<in> set (enumerate 0 l))" for c :: IConnection and l
    by (metis (no_types, lifting) in_set_conv_nth in_set_enumerate_eq fst_conv snd_conv le0 add.right_neutral
        minus_nat.diff_0 add_0 prod.collapse)
  then show ?thesis
    by (simp add: nbr_rel_def neighbours_def filter_types_def group_nodes_def indexed_conns_def image_iff) blast
qed

lemma finite_type_targets [simp]: "finite (type_targets C t)"
  by (auto simp: type_targets_def)

lemma indexed_targets: "(i, c) \<in> set (indexed_conns C t n) \<Longrightarrow> conn_node c \<in> type_targets C t"
proof (cases "n \<in> fst ` set C")
  case True
  assume "(i, c) \<in> set (indexed_conns C t n)"
  then show ?thesis using True by (force simp: type_targets_def)
next
  case False
  assume c: "(i, c) \<in> set (indexed_conns C t n)"
  have "map_of C n = None" using False by (simp add: map_of_eq_None_iff)
  then show ?thesis using c by (simp add: indexed_conns_def node_conns_def type_conns_def)
qed

lemma scan_conns_Inr:
  "scan_conns p vis cs q = Inr q' \<Longrightarrow> (\<forall>(i, c) \<in> set cs. conn_node c \<noteq> p) \<and>
    set q' = set q \<union> ((\<lambda>ic. conn_node (snd ic)) ` set cs - set vis)"
  by (induction p vis cs q rule: scan_conns.induct) (auto split: if_splits)

lemma scan_conns_Inl:
  "scan_conns p vis cs q = Inl r \<Longrightarrow> \<exists>i c. (i, c) \<in> set cs \<and> conn_node c = p \<and>
    r = \<lparr>sourceIndex = conn_index c, destinationIndex = i\<rparr>"
  by (induction p vis cs q rule: scan_conns.induct) (auto split: if_splits)

function index_loop ::
    "IConnections \<Rightarrow> NodeConnectionType \<Rightarrow> string \<Rightarrow> string list \<Rightarrow> string list \<Rightarrow> INodeConnection option" where
  "index_loop C t parentNodeName [] visitedNodes = None"
| "index_loop C t parentNodeName (currentNodeName # queue) visitedNodes =
     (if currentNodeName \<in> set visitedNodes then index_loop C t parentNodeName queue visitedNodes
      else let visited' = set_add currentNodeName visitedNodes in
        case scan_conns parentNodeName visited' (indexed_conns C t currentNodeName) queue of
          Inl found \<Rightarrow> Some found
        | Inr queue' \<Rightarrow> index_loop C t parentNodeName queue' visited')"
  by pat_completeness auto
termination
proof (relation "measures [\<lambda>(C, t, p, q, v). card (type_targets C t \<union> set q - set v), \<lambda>(C, t, p, q, v). length q]",
    goal_cases)
  case 1
  then show ?case by simp
next
  case (2 C t p n q v)
  have "card (type_targets C t \<union> set q - set v) \<le> card (type_targets C t \<union> set (n # q) - set v)"
    by (rule card_mono) auto
  then show ?case by auto
next
  case (3 C t p n q v v' q')
  have "set q' = set q \<union> ((\<lambda>ic. conn_node (snd ic)) ` set (indexed_conns C t n) - set v')"
    using scan_conns_Inr 3(3) by metis
  moreover have "(\<lambda>ic. conn_node (snd ic)) ` set (indexed_conns C t n) \<subseteq> type_targets C t"
    using indexed_targets by force
  ultimately have "type_targets C t \<union> set q' \<subseteq> type_targets C t \<union> set (n # q)" by auto
  then have "card (type_targets C t \<union> set q' - set v') < card (type_targets C t \<union> set (n # q) - set v)"
    using 3(1,2) by (intro card_less_insert [of _ n]) auto
  then show ?case by simp
qed

definition getNodeConnectionIndexes ::
    "Workflow \<Rightarrow> string \<Rightarrow> string \<Rightarrow> NodeConnectionType \<Rightarrow> INodeConnection option" where
  "getNodeConnectionIndexes w nodeName parentNodeName t =
     (case getNode w parentNodeName of
        None \<Rightarrow> None
      | Some _ \<Rightarrow> index_loop (connectionsByDestinationNode w) t parentNodeName [nodeName] [])"

lemma index_loop_Some:
  "index_loop C t p q v = Some r \<Longrightarrow>
    \<exists>x \<in> set q. \<exists>y i c. (x, y) \<in> (nbr_rel C (OfType t))\<^sup>* \<and> (i, c) \<in> set (indexed_conns C t y) \<and> conn_node c = p \<and>
      r = \<lparr>sourceIndex = conn_index c, destinationIndex = i\<rparr>"
proof (induction C t p q v rule: index_loop.induct [case_names Nil Cons])
  case (Cons C t p n q v)
  let ?R = "nbr_rel C (OfType t)" and ?v = "set_add n v"
  consider (seen) "n \<in> set v" | (found) "n \<notin> set v" "scan_conns p ?v (indexed_conns C t n) q = Inl r"
    | (queued) q' where "n \<notin> set v" "scan_conns p ?v (indexed_conns C t n) q = Inr q'" "index_loop C t p q' ?v = Some r"
    using Cons.prems by (auto simp: Let_def split: if_splits sum.splits)
  then show ?case
  proof cases
    case seen
    then show ?thesis using Cons by auto
  next
    case found
    then show ?thesis using scan_conns_Inl [OF found(2)] by auto
  next
    case queued
    obtain x y i c where x: "x \<in> set q'" "(x, y) \<in> ?R\<^sup>*" "(i, c) \<in> set (indexed_conns C t y)" "conn_node c = p"
        "r = \<lparr>sourceIndex = conn_index c, destinationIndex = i\<rparr>"
      using Cons.IH(2) [OF queued(1) refl queued(2,3)] by blast
    have "x \<in> set q \<or> (n, x) \<in> ?R"
      using scan_conns_Inr [OF queued(2)] x(1) by (force simp: indexed_nbr)
    then obtain z where "z \<in> set (n # q)" "(z, y) \<in> ?R\<^sup>*"
      using converse_rtrancl_into_rtrancl [OF _ x(2), of n] x(2) by auto
    then show ?thesis using x(3-5) by blast
  qed
qed simp

lemma index_loop_None:
  assumes "index_loop C t p q v = None"
    and "\<And>x y. x \<in> set v \<Longrightarrow> (x, y) \<in> nbr_rel C (OfType t) \<Longrightarrow> y \<in> set v \<union> set q \<and> y \<noteq> p"
  shows "x \<in> set v \<union> set q \<Longrightarrow> (x, y) \<in> (nbr_rel C (OfType t))\<^sup>* \<Longrightarrow> (y, p) \<notin> nbr_rel C (OfType t)"
  using assms
proof (induction C t p q v arbitrary: x rule: index_loop.induct [case_names Nil Cons])
  case (Nil C t p v)
  have "y \<in> set v" by (rule closed_rtrancl [OF Nil(2)]) (use Nil in auto)
  then show ?case using Nil(4) by auto
next
  case (Cons C t p n q v)
  let ?R = "nbr_rel C (OfType t)" and ?v = "set_add n v"
  consider (seen) "n \<in> set v" "index_loop C t p q v = None"
    | (queued) q' where "n \<notin> set v" "scan_conns p ?v (indexed_conns C t n) q = Inr q'" "index_loop C t p q' ?v = None"
    using Cons.prems(3) by (auto simp: Let_def split: if_splits sum.splits)
  then show ?case
  proof cases
    case seen
    show ?thesis by (rule Cons.IH(1) [OF seen(1) _ Cons.prems(2) seen(2)]) (use Cons.prems(1,4) seen(1) in auto)
  next
    case queued
    note s = scan_conns_Inr [OF queued(2)]
    show ?thesis
    proof (rule Cons.IH(2) [OF queued(1) refl queued(2) _ Cons.prems(2) queued(3)])
      show "x \<in> set ?v \<union> set q'" using Cons.prems(1) s by auto
      fix a b assume ab: "a \<in> set ?v" "(a, b) \<in> ?R"
      show "b \<in> set ?v \<union> set q' \<and> b \<noteq> p"
      proof (cases "a = n")
        case True
        then obtain i c where "(i, c) \<in> set (indexed_conns C t n)" "conn_node c = b" using ab(2) by (auto simp: indexed_nbr)
        then show ?thesis using s by force
      next
        case False
        then show ?thesis using ab Cons.prems(4) [of a b] s by auto
      qed
    qed
  qed
qed

lemma getNodeConnectionIndexes_None:
  assumes "getNode w p \<noteq> None"
  shows "getNodeConnectionIndexes w n p t = None \<longleftrightarrow>
    (n, p) \<notin> (nbr_rel (connectionsByDestinationNode w) (OfType t))\<^sup>+"
proof -
  let ?C = "connectionsByDestinationNode w"
  let ?R = "nbr_rel ?C (OfType t)"
  have e: "getNodeConnectionIndexes w n p t = index_loop ?C t p [n] []"
    using assms by (auto simp: getNodeConnectionIndexes_def)
  have split: "(n, p) \<in> ?R\<^sup>+ \<longleftrightarrow> (\<exists>y. (n, y) \<in> ?R\<^sup>* \<and> (y, p) \<in> ?R)"
    by (meson rtrancl_into_trancl1 tranclD2)
  show ?thesis
  proof
    assume "getNodeConnectionIndexes w n p t = None"
    then show "(n, p) \<notin> ?R\<^sup>+" using index_loop_None [of ?C t p "[n]" "[]" n] unfolding e split by auto
  next
    assume no: "(n, p) \<notin> ?R\<^sup>+"
    show "getNodeConnectionIndexes w n p t = None"
    proof (rule ccontr)
      assume "getNodeConnectionIndexes w n p t \<noteq> None"
      then obtain r where "index_loop ?C t p [n] [] = Some r" using e by auto
      from index_loop_Some [OF this] obtain y where "(n, y) \<in> ?R\<^sup>*" "(y, p) \<in> ?R"
        by (auto simp: indexed_nbr)
      then show False using no split by blast
    qed
  qed
qed

section \<open>getHighestNode\<close>

text \<open>
  The array of checked nodes is shared by all calls, so it is threaded; the loop over the
  connections is the recursion, with the recursive call inlined. \<open>disabled === false\<close> and
  \<open>disabled !== true\<close> differ on nodes without the flag.
\<close>

definition own_highest :: "heap \<Rightarrow> noderef \<Rightarrow> string \<Rightarrow> string list" where
  "own_highest h r nodeName = (if disabled (h r) = Some False then [nodeName] else [])"

definition has_main :: "IConnections \<Rightarrow> string \<Rightarrow> bool" where
  "has_main C n \<longleftrightarrow> map_of (node_conns C n) Main \<noteq> None"

definition merge_found :: "heap \<Rightarrow> noderef \<Rightarrow> string \<Rightarrow> string list \<Rightarrow> string list \<Rightarrow> string list" where
  "merge_found h r nodeName found returnNodes =
     (let found' = (if length found = 0 then if disabled (h r) \<noteq> Some True then [nodeName] else found
        else found)
      in fold set_add found' returnNodes)"

definition named_conns :: "IConnections \<Rightarrow> nat option \<Rightarrow> string \<Rightarrow> string list" where
  "named_conns C nodeConnectionIndex n =
     concat (map (\<lambda>(i, g). if nodeConnectionIndex \<noteq> None \<and> nodeConnectionIndex \<noteq> Some i then []
       else map conn_node (group_list g)) (enumerate 0 (type_conns (node_conns C n) Main)))"

function highest_loop ::
    "heap \<Rightarrow> Workflow \<Rightarrow> string list \<Rightarrow> string list \<Rightarrow> string list \<Rightarrow> string list \<times> string list" where
  "highest_loop h w [] returnNodes checkedNodes = (returnNodes, checkedNodes)"
| "highest_loop h w (n # ns) returnNodes checkedNodes =
     (if n \<in> set checkedNodes then highest_loop h w ns returnNodes checkedNodes
      else case getNode w n of
        None \<Rightarrow> highest_loop h w ns returnNodes checkedNodes
      | Some r \<Rightarrow>
          (let (found, checked') =
             (if has_main (connectionsByDestinationNode w) n
              then highest_loop h w (named_conns (connectionsByDestinationNode w) None n) [] (checkedNodes @ [n])
              else (own_highest h r n, checkedNodes))
           in highest_loop h w ns (merge_found h r n found returnNodes) checked'))"
  by pat_completeness auto

lemma highest_loop_grows:
  "highest_loop_dom (h, w, ns, ret, chk) \<Longrightarrow> set chk \<subseteq> set (snd (highest_loop h w ns ret chk))"
proof (induction h w ns ret chk rule: highest_loop.pinduct)
  case (1 h w ret chk)
  then show ?case by (simp add: highest_loop.psimps)
next
  case (2 h w n ns ret chk)
  then show ?case
    by (force simp: highest_loop.psimps Let_def split: option.splits prod.splits if_splits)
qed

termination highest_loop
proof (relation "measures [\<lambda>(h, w, ns, ret, chk). card (fst ` set (wf_nodes w) - set chk), \<lambda>(h, w, ns, ret, chk). length ns]",
    goal_cases)
  case 1
  then show ?case by simp
next
  case 2
  then show ?case by simp
next
  case 3
  then show ?case by simp
next
  case (4 h w n ns ret chk r)
  have "n \<in> fst ` set (wf_nodes w)" using 4(2) by (force simp: getNode_def dest: map_of_SomeD)
  then have "card (fst ` set (wf_nodes w) - set (chk @ [n])) < card (fst ` set (wf_nodes w) - set chk)"
    using 4(1) by (intro card_less_insert [of _ n]) auto
  then show ?case by simp
next
  case (5 h w n ns ret chk r x add chk')
  have "set chk \<subseteq> set chk'"
  proof (cases "has_main (connectionsByDestinationNode w) n")
    case True
    then have "(add, chk') = highest_loop h w (named_conns (connectionsByDestinationNode w) None n) [] (chk @ [n])"
      using 5(3,4) by simp
    then show ?thesis using highest_loop_grows [OF 5(5) [OF True]] by (metis snd_conv set_append le_sup_iff)
  next
    case False
    then show ?thesis using 5(3,4) by simp
  qed
  then have "card (fst ` set (wf_nodes w) - set chk') \<le> card (fst ` set (wf_nodes w) - set chk)"
    by (intro card_mono) auto
  then show ?case by auto
qed

definition getHighestNode :: "heap \<Rightarrow> Workflow \<Rightarrow> string \<Rightarrow> nat option \<Rightarrow> string list result" where
  "getHighestNode h w nodeName nodeConnectionIndex =
     (case getNode w nodeName of
        None \<Rightarrow> Inl TypeError
      | Some r \<Rightarrow>
          if has_main (connectionsByDestinationNode w) nodeName
          then Inr (fst (highest_loop h w
            (named_conns (connectionsByDestinationNode w) nodeConnectionIndex nodeName) [] [nodeName]))
          else Inr (own_highest h r nodeName))"

text \<open>What is found are enabled ancestors.\<close>

definition enabled_node :: "heap \<Rightarrow> Workflow \<Rightarrow> string \<Rightarrow> bool" where
  "enabled_node h w n \<longleftrightarrow> (case getNode w n of None \<Rightarrow> False | Some r \<Rightarrow> \<not> is_disabled (h r))"

definition ancestors :: "heap \<Rightarrow> Workflow \<Rightarrow> string set \<Rightarrow> string set" where
  "ancestors h w N =
     {m. enabled_node h w m \<and> (\<exists>n \<in> N. (n, m) \<in> (nbr_rel (connectionsByDestinationNode w) (OfType Main))\<^sup>*)}"

lemma ancestors_Cons: "ancestors h w (set (n # ns)) = ancestors h w {n} \<union> ancestors h w (set ns)"
  by (auto simp: ancestors_def)

lemma named_conns_nbr: "m \<in> set (named_conns C i n) \<Longrightarrow> (n, m) \<in> nbr_rel C (OfType Main)"
proof -
  assume "m \<in> set (named_conns C i n)"
  then obtain j g where "(j, g) \<in> set (enumerate 0 (type_conns (node_conns C n) Main))" "m \<in> conn_node ` set (group_list g)"
    by (auto simp: named_conns_def split: if_splits)
  then have "g \<in> set (type_conns (node_conns C n) Main)" "m \<in> conn_node ` set (group_list g)"
    by (metis enumerate_eq_zip set_zip_rightD)+
  then show ?thesis by (auto simp: nbr_rel_def neighbours_def filter_types_def group_nodes_def)
qed

lemma ancestors_named: "ancestors h w (set (named_conns (connectionsByDestinationNode w) i n)) \<subseteq> ancestors h w {n}"
  using named_conns_nbr by (fastforce simp: ancestors_def intro: converse_rtrancl_into_rtrancl)

lemma own_highest_ancestor: "getNode w n = Some r \<Longrightarrow> set (own_highest h r n) \<subseteq> ancestors h w {n}"
  by (auto simp: own_highest_def ancestors_def enabled_node_def is_disabled_def)

lemma merge_found_ancestor:
  "getNode w n = Some r \<Longrightarrow> set found \<subseteq> ancestors h w {n} \<Longrightarrow>
    set (merge_found h r n found ret) \<subseteq> set ret \<union> ancestors h w {n}"
  by (auto simp: merge_found_def Let_def ancestors_def enabled_node_def is_disabled_def)

lemma highest_loop_ancestors:
  "set (fst (highest_loop h w ns ret chk)) \<subseteq> set ret \<union> ancestors h w (set ns)"
proof (induction h w ns ret chk rule: highest_loop.induct [case_names Nil Cons])
  case (Nil h w ret chk)
  then show ?case by (simp add: ancestors_def)
next
  case (Cons h w n ns ret chk)
  consider (skip) "n \<in> set chk \<or> getNode w n = None" | (visit) r where "n \<notin> set chk" "getNode w n = Some r" by auto
  then show ?case
  proof cases
    case skip
    then show ?thesis unfolding ancestors_Cons using Cons.IH(1,2) by auto
  next
    case visit
    obtain found chk' where f: "(found, chk') = (if has_main (connectionsByDestinationNode w) n
        then highest_loop h w (named_conns (connectionsByDestinationNode w) None n) [] (chk @ [n])
        else (own_highest h r n, chk))" by (metis surj_pair)
    have found: "set found \<subseteq> ancestors h w {n}"
    proof (cases "has_main (connectionsByDestinationNode w) n")
      case True
      have "set (fst (highest_loop h w (named_conns (connectionsByDestinationNode w) None n) [] (chk @ [n]))) \<subseteq>
          set [] \<union> ancestors h w (set (named_conns (connectionsByDestinationNode w) None n))"
        by (rule Cons.IH(3) [OF visit True])
      then show ?thesis using f True ancestors_named [of h w None n] by (metis (no_types) empty_set fst_conv subset_trans sup_bot_left)
    next
      case False
      then show ?thesis using f own_highest_ancestor [OF visit(2)] by simp
    qed
    have "highest_loop h w (n # ns) ret chk = highest_loop h w ns (merge_found h r n found ret) chk'"
      using visit by (simp add: f [symmetric])
    moreover have "set (fst (highest_loop h w ns (merge_found h r n found ret) chk')) \<subseteq>
        set (merge_found h r n found ret) \<union> ancestors h w (set ns)"
      by (rule Cons.IH(4) [OF visit f refl])
    ultimately show ?thesis unfolding ancestors_Cons using merge_found_ancestor [OF visit(2) found, of ret] by auto
  qed
qed

lemma getHighestNode_ancestors:
  assumes "getHighestNode h w n i = Inr ns"
  shows "set ns \<subseteq> ancestors h w {n}"
proof -
  obtain r where r: "getNode w n = Some r" using assms by (auto simp: getHighestNode_def split: option.splits)
  show ?thesis
  proof (cases "has_main (connectionsByDestinationNode w) n")
    case True
    then have "ns = fst (highest_loop h w (named_conns (connectionsByDestinationNode w) i n) [] [n])"
      using assms r by (simp add: getHighestNode_def)
    then show ?thesis
      using highest_loop_ancestors [of h w "named_conns (connectionsByDestinationNode w) i n" "[]" "[n]"]
        ancestors_named [of h w i n] by auto
  next
    case False
    then have "ns = own_highest h r n" using assms r by (simp add: getHighestNode_def)
    then show ?thesis using own_highest_ancestor [OF r, of h] by simp
  qed
qed

end
