(* ===== verification/Workflow_Start.thy ===== *)
theory Workflow_Start
  imports Workflow_Lookup Source_Data_Groups
begin

text \<open>
  The choice of the node an execution starts from: \<open>__getStartNode\<close> and \<open>getStartNode\<close> of
  \<open>packages/workflow/src/workflow.ts\<close>.
\<close>

section \<open>Start nodes\<close>

definition MANUAL_CHAT_TRIGGER_LANGCHAIN_NODE_TYPE :: string where
  "MANUAL_CHAT_TRIGGER_LANGCHAIN_NODE_TYPE = ''@n8n/n8n-nodes-langchain.manualChatTrigger''"

definition STARTING_NODE_TYPES :: "string list" where
  "STARTING_NODE_TYPES =
     [''n8n-nodes-base.manualTrigger'', ''n8n-nodes-base.executeWorkflowTrigger'',
      ''n8n-nodes-base.errorTrigger'', ''n8n-nodes-base.evaluationTrigger'', ''n8n-nodes-base.formTrigger'']"

fun index_of :: "'a \<Rightarrow> 'a list \<Rightarrow> int" where
  "index_of x [] = -1"
| "index_of x (y # ys) = (if x = y then 0 else if index_of x ys = -1 then -1 else index_of x ys + 1)"

text \<open>
  The first loop. A name that is no node of the workflow and a type that is not known are a
  \<open>TypeError\<close>, since a property of \<open>undefined\<close> is read.
\<close>

fun first_trigger :: "heap \<Rightarrow> node_types \<Rightarrow> Workflow \<Rightarrow> string list \<Rightarrow> noderef option result" where
  "first_trigger h nodeTypes w [] = Inr None"
| "first_trigger h nodeTypes w (nodeName # names) =
     (case getNode w nodeName of
        None \<Rightarrow> Inl TypeError
      | Some node \<Rightarrow> (case nodeTypes (node_type (h node)) (typeVersion (h node)) of
          None \<Rightarrow> Inl TypeError
        | Some nodeType \<Rightarrow>
            if nt_name nodeType = MANUAL_CHAT_TRIGGER_LANGCHAIN_NODE_TYPE then first_trigger h nodeTypes w names
            else if (nt_trigger nodeType \<or> nt_poll nodeType) \<and> \<not> is_disabled (h node) then Inr (Some node)
            else first_trigger h nodeTypes w names))"

definition start_rank :: "heap \<Rightarrow> noderef \<Rightarrow> int" where
  "start_rank h r = index_of (node_type (h r)) STARTING_NODE_TYPES"

text \<open>The second loop looks the sorted nodes up again by their names.\<close>

definition first_starting :: "heap \<Rightarrow> Workflow \<Rightarrow> noderef option" where
  "first_starting h w =
     (let sortedNodeNames = map (\<lambda>r. node_name (h r))
        (js_sort (\<lambda>a b. start_rank h a - start_rank h b) (vals (wf_nodes w)))
      in List.find (\<lambda>node. node_type (h node) \<in> set STARTING_NODE_TYPES \<and> \<not> is_disabled (h node))
        (List.map_filter (getNode w) sortedNodeNames))"

definition single_start :: "heap \<Rightarrow> Workflow \<Rightarrow> string list \<Rightarrow> noderef option" where
  "single_start h w nodeNames =
     (case nodeNames of
        [n] \<Rightarrow> (case getNode w n of None \<Rightarrow> None | Some r \<Rightarrow> if is_disabled (h r) then None else Some r)
      | _ \<Rightarrow> None)"

definition start_among :: "heap \<Rightarrow> node_types \<Rightarrow> Workflow \<Rightarrow> string list \<Rightarrow> noderef option result" where
  "start_among h nodeTypes w nodeNames =
     (case single_start h w nodeNames of
        Some r \<Rightarrow> Inr (Some r)
      | None \<Rightarrow> rbind (first_trigger h nodeTypes w nodeNames) (\<lambda>found.
          case found of Some r \<Rightarrow> Inr (Some r) | None \<Rightarrow> Inr (first_starting h w)))"

text \<open>An empty destination name is falsy and counts as no destination.\<close>

definition getStartNode ::
    "heap \<Rightarrow> node_types \<Rightarrow> Workflow \<Rightarrow> string option \<Rightarrow> noderef option result" where
  "getStartNode h nodeTypes w destinationNode =
     (if destinationNode \<noteq> None \<and> destinationNode \<noteq> Some [] then
        rbind (getHighestNode h w (the destinationNode) None) (\<lambda>highest.
          let nodeNames = (if length highest = 0 then [the destinationNode] else highest) in
          rbind (start_among h nodeTypes w nodeNames) (\<lambda>node.
            case node of Some r \<Rightarrow> Inr (Some r) | None \<Rightarrow> Inr (getNode w (hd nodeNames))))
      else start_among h nodeTypes w (keys (wf_nodes w)))"

section \<open>What is chosen\<close>

definition starts_by_itself :: "heap \<Rightarrow> node_types \<Rightarrow> noderef \<Rightarrow> bool" where
  "starts_by_itself h nodeTypes r \<longleftrightarrow> \<not> is_disabled (h r) \<and>
     (case nodeTypes (node_type (h r)) (typeVersion (h r)) of
        None \<Rightarrow> False
      | Some nt \<Rightarrow> nt_name nt \<noteq> MANUAL_CHAT_TRIGGER_LANGCHAIN_NODE_TYPE \<and> (nt_trigger nt \<or> nt_poll nt))"

definition typed :: "heap \<Rightarrow> node_types \<Rightarrow> Workflow \<Rightarrow> bool" where
  "typed h nodeTypes w \<longleftrightarrow>
     list_all (\<lambda>r. nodeTypes (node_type (h r)) (typeVersion (h r)) \<noteq> None) (vals (wf_nodes w))"

lemma typedD: "typed h nodeTypes w \<Longrightarrow> r \<in> set (vals (wf_nodes w)) \<Longrightarrow>
    \<exists>nt. nodeTypes (node_type (h r)) (typeVersion (h r)) = Some nt"
  unfolding typed_def list_all_iff by blast

lemma first_trigger_find:
  assumes "typed h nodeTypes w" "list_all (\<lambda>n. getNode w n \<noteq> None) names"
  shows "first_trigger h nodeTypes w names =
    Inr (List.find (starts_by_itself h nodeTypes) (map (\<lambda>n. the (getNode w n)) names))"
  using assms(2)
proof (induction names)
  case (Cons n names)
  then obtain r where r: "getNode w n = Some r" by auto
  then have "r \<in> set (vals (wf_nodes w))"
    unfolding getNode_def by (force simp: vals_def dest: map_of_SomeD)
  then obtain nt where "nodeTypes (node_type (h r)) (typeVersion (h r)) = Some nt"
    using assms(1) unfolding typed_def list_all_iff by blast
  then show ?case using Cons r by (auto simp: starts_by_itself_def)
qed simp

lemma index_of_mem: "0 \<le> index_of x xs \<longleftrightarrow> x \<in> set xs" "-1 \<le> index_of x xs"
  by (induction xs) auto

lemma find_sorted_least:
  assumes "List.find P (xs :: 'a list) = Some x" "sorted_wrt (\<lambda>a b. (rank a :: int) \<le> rank b) xs" "y \<in> set xs" "P y"
  shows "rank x \<le> rank y"
  using assms by (induction xs) (auto split: if_splits)

lemma getNode_vals:
  assumes "wf_workflow h w"
  shows "r \<in> set (vals (wf_nodes w)) \<longleftrightarrow> getNode w (node_name (h r)) = Some r"
proof
  assume "r \<in> set (vals (wf_nodes w))"
  then obtain n where n: "(n, r) \<in> set (wf_nodes w)" by (auto simp: vals_def)
  have "map_of (wf_nodes w) n = Some r"
    by (rule map_of_is_SomeI [OF _ n]) (use wf_workflowD(1) [OF assms] in \<open>simp add: keys_def\<close>)
  then show "getNode w (node_name (h r)) = Some r"
    using wf_workflowD(2) [OF assms n] by (simp add: getNode_def)
next
  assume "getNode w (node_name (h r)) = Some r"
  then show "r \<in> set (vals (wf_nodes w))"
    unfolding getNode_def by (force simp: vals_def dest: map_of_SomeD)
qed

lemma first_starting_sorted:
  assumes "wf_workflow h w"
  shows "first_starting h w = List.find
    (\<lambda>r. node_type (h r) \<in> set STARTING_NODE_TYPES \<and> \<not> is_disabled (h r))
    (js_sort (\<lambda>a b. start_rank h a - start_rank h b) (vals (wf_nodes w)))"
proof -
  have "List.map_filter (getNode w) (map (\<lambda>r. node_name (h r)) rs) = rs"
    if "set rs \<subseteq> set (vals (wf_nodes w))" for rs
    using that getNode_vals [OF assms] by (induction rs) (simp_all add: map_filter_simps del: vals_simps)
  then show ?thesis by (simp add: first_starting_def Let_def)
qed

lemma first_starting_spec:
  assumes "wf_workflow h w"
  shows "first_starting h w = Some r \<Longrightarrow> r \<in> set (vals (wf_nodes w)) \<and> \<not> is_disabled (h r) \<and> 0 \<le> start_rank h r \<and>
      (\<forall>q \<in> set (vals (wf_nodes w)). \<not> is_disabled (h q) \<and> 0 \<le> start_rank h q \<longrightarrow> start_rank h r \<le> start_rank h q)"
    "first_starting h w = None \<longleftrightarrow> (\<forall>q \<in> set (vals (wf_nodes w)). \<not> is_disabled (h q) \<longrightarrow> start_rank h q < 0)"
proof -
  let ?ok = "\<lambda>r. node_type (h r) \<in> set STARTING_NODE_TYPES \<and> \<not> is_disabled (h r)"
  let ?s = "js_sort (\<lambda>a b. start_rank h a - start_rank h b) (vals (wf_nodes w))"
  have ok: "?ok q \<longleftrightarrow> \<not> is_disabled (h q) \<and> 0 \<le> start_rank h q" for q
    using index_of_mem [of "node_type (h q)" STARTING_NODE_TYPES] by (auto simp: start_rank_def)
  have f: "first_starting h w = List.find ?ok ?s" by (rule first_starting_sorted [OF assms])
  show "first_starting h w = None \<longleftrightarrow> (\<forall>q \<in> set (vals (wf_nodes w)). \<not> is_disabled (h q) \<longrightarrow> start_rank h q < 0)"
    unfolding f find_None_iff ok by (auto simp del: vals_simps)
  assume "first_starting h w = Some r"
  then have r: "List.find ?ok ?s = Some r" using f by simp
  have sorted: "sorted_wrt (\<lambda>a b. start_rank h a \<le> start_rank h b) ?s" by (rule js_sort_rank) simp
  obtain i where "i < length ?s" "?ok (?s ! i)" "r = ?s ! i" using r unfolding find_Some_iff by blast
  then have m: "?ok r" "r \<in> set ?s" by (metis, metis nth_mem)
  moreover have "start_rank h r \<le> start_rank h q" if "q \<in> set (vals (wf_nodes w))" "?ok q" for q
    by (rule find_sorted_least [OF r sorted]) (use that in simp_all)
  ultimately show "r \<in> set (vals (wf_nodes w)) \<and> \<not> is_disabled (h r) \<and> 0 \<le> start_rank h r \<and>
      (\<forall>q \<in> set (vals (wf_nodes w)). \<not> is_disabled (h q) \<and> 0 \<le> start_rank h q \<longrightarrow> start_rank h r \<le> start_rank h q)"
    using ok by (simp del: vals_simps)
qed

text \<open>Without a destination: the first trigger or poller, otherwise the best starting type.\<close>

definition best_start :: "heap \<Rightarrow> Workflow \<Rightarrow> noderef option \<Rightarrow> bool" where
  "best_start h w res \<longleftrightarrow> (case res of
     None \<Rightarrow> list_all (\<lambda>q. is_disabled (h q) \<or> start_rank h q < 0) (vals (wf_nodes w))
   | Some r \<Rightarrow> r \<in> set (vals (wf_nodes w)) \<and> \<not> is_disabled (h r) \<and> 0 \<le> start_rank h r \<and>
       list_all (\<lambda>q. is_disabled (h q) \<or> start_rank h q < 0 \<or> start_rank h r \<le> start_rank h q) (vals (wf_nodes w)))"

lemma first_starting_best: "wf_workflow h w \<Longrightarrow> best_start h w (first_starting h w)"
  using first_starting_spec [of h w]
  by (cases "first_starting h w") (auto simp: best_start_def list_all_iff not_less simp del: vals_simps)

lemma start_among_spec:
  assumes "wf_workflow h w" "typed h nodeTypes w" "list_all (\<lambda>n. getNode w n \<noteq> None) names"
    and "single_start h w names = None"
  shows "\<exists>res. start_among h nodeTypes w names = Inr res \<and>
    (case List.find (starts_by_itself h nodeTypes) (map (\<lambda>n. the (getNode w n)) names) of
       Some r \<Rightarrow> res = Some r
     | None \<Rightarrow> best_start h w res)"
  using first_trigger_find [OF assms(2,3)] first_starting_best [OF assms(1)] assms(4)
  by (auto simp: start_among_def split: option.splits)

lemma single_start_Some:
  "single_start h w names = Some r \<Longrightarrow> \<exists>n. names = [n] \<and> getNode w n = Some r \<and> \<not> is_disabled (h r)"
  by (auto simp: single_start_def split: list.splits option.splits if_splits)

lemma getNode_in: "getNode w n = Some r \<Longrightarrow> r \<in> set (vals (wf_nodes w))"
  unfolding getNode_def by (force simp: vals_def dest: map_of_SomeD)

text \<open>Whatever names it chooses among, a start node is an enabled node of the workflow.\<close>

lemma start_among_enabled:
  assumes "wf_workflow h w" "typed h nodeTypes w" "list_all (\<lambda>n. getNode w n \<noteq> None) names"
  shows "\<exists>res. start_among h nodeTypes w names = Inr res \<and>
    (\<forall>r. res = Some r \<longrightarrow> r \<in> set (vals (wf_nodes w)) \<and> \<not> is_disabled (h r))"
proof (cases "single_start h w names")
  case (Some r)
  then show ?thesis
    using single_start_Some [OF Some] getNode_in by (auto simp: start_among_def simp del: vals_simps)
next
  case None
  obtain res where res: "start_among h nodeTypes w names = Inr res"
    "case List.find (starts_by_itself h nodeTypes) (map (\<lambda>n. the (getNode w n)) names) of
       Some r \<Rightarrow> res = Some r | None \<Rightarrow> best_start h w res"
    using start_among_spec [OF assms None] by blast
  have "r \<in> set (vals (wf_nodes w)) \<and> \<not> is_disabled (h r)" if r: "res = Some r" for r
  proof (cases "List.find (starts_by_itself h nodeTypes) (map (\<lambda>n. the (getNode w n)) names)")
    case None
    then show ?thesis using res(2) r by (simp add: best_start_def del: vals_simps)
  next
    case (Some q)
    then have "q = r" using res(2) r by simp
    then obtain i where i: "i < length (map (\<lambda>n. the (getNode w n)) names)" "starts_by_itself h nodeTypes r"
        "r = map (\<lambda>n. the (getNode w n)) names ! i"
      using Some unfolding find_Some_iff by blast
    then have "names ! i \<in> set names" "r = the (getNode w (names ! i))" by simp_all
    then have "getNode w (names ! i) = Some r" using assms(3) unfolding list_all_iff by force
    then show ?thesis using getNode_in i(2) unfolding starts_by_itself_def by blast
  qed
  then show ?thesis using res(1) by blast
qed

lemma getStartNode_none:
  assumes "wf_workflow h w" "typed h nodeTypes w" "length (wf_nodes w) \<noteq> 1"
  shows "\<exists>res. getStartNode h nodeTypes w None = Inr res \<and>
    (case List.find (starts_by_itself h nodeTypes) (vals (wf_nodes w)) of
       Some r \<Rightarrow> res = Some r
     | None \<Rightarrow> best_start h w res)"
proof -
  have names: "map_of (wf_nodes w) (fst e) = Some (snd e)" if "e \<in> set (wf_nodes w)" for e
    by (rule map_of_is_SomeI) (use wf_workflowD(1) [OF assms(1)] that in \<open>simp_all add: keys_def\<close>)
  then have "list_all (\<lambda>n. getNode w n \<noteq> None) (keys (wf_nodes w))"
    by (simp add: list_all_iff getNode_def keys_def)
  moreover have "map (\<lambda>n. the (getNode w n)) (keys (wf_nodes w)) = vals (wf_nodes w)"
    using names by (simp add: getNode_def keys_def vals_def)
  moreover have "single_start h w (keys (wf_nodes w)) = None"
    using assms(3) by (auto simp: single_start_def keys_def split: list.splits)
  ultimately show ?thesis
    using start_among_spec [OF assms(1,2), of "keys (wf_nodes w)"] by (simp add: getStartNode_def)
qed

text \<open>With a destination, only the destination itself can be returned disabled.\<close>

lemma getStartNode_destination:
  assumes "wf_workflow h w" "typed h nodeTypes w" "getNode w dest = Some d" "dest \<noteq> []"
  shows "\<exists>r. getStartNode h nodeTypes w (Some dest) = Inr (Some r) \<and> r \<in> set (vals (wf_nodes w)) \<and>
    (is_disabled (h r) \<longrightarrow> r = d \<and> getHighestNode h w dest None = Inr [])"
proof -
  obtain hs where hs: "getHighestNode h w dest None = Inr hs"
    using assms(3) by (cases "has_main (connectionsByDestinationNode w) dest") (simp_all add: getHighestNode_def)
  define ns where "ns = (if length hs = 0 then [dest] else hs)"
  have en: "enabled_node h w n" if "n \<in> set hs" for n
    using getHighestNode_ancestors [OF hs] that by (auto simp: ancestors_def)
  have "getNode w n \<noteq> None" if "n \<in> set hs" for n
    using en [OF that] by (cases "getNode w n") (simp_all add: enabled_node_def)
  then have ns: "list_all (\<lambda>n. getNode w n \<noteq> None) ns"
    using assms(3) by (simp add: ns_def list_all_iff)
  obtain res where res: "start_among h nodeTypes w ns = Inr res"
    "\<forall>r. res = Some r \<longrightarrow> r \<in> set (vals (wf_nodes w)) \<and> \<not> is_disabled (h r)"
    using start_among_enabled [OF assms(1,2) ns] by blast
  have start: "getStartNode h nodeTypes w (Some dest) =
      (case res of Some r \<Rightarrow> Inr (Some r) | None \<Rightarrow> Inr (getNode w (hd ns)))"
    using hs res(1) assms(4) by (cases hs) (simp_all add: getStartNode_def ns_def split: option.splits)
  show ?thesis
  proof (cases res)
    case (Some r)
    then show ?thesis using res(2) start by (simp del: vals_simps)
  next
    case None
    have "hd ns \<in> set ns" by (cases hs) (simp_all add: ns_def)
    then obtain r where r: "getNode w (hd ns) = Some r" using ns by (auto simp: list_all_iff)
    have "r = d \<and> hs = []" if "is_disabled (h r)"
    proof (cases hs)
      case Nil
      then show ?thesis using r assms(3) by (simp add: ns_def)
    next
      case (Cons a as)
      then show ?thesis using en [of a] r that by (simp add: ns_def enabled_node_def)
    qed
    then show ?thesis using start None r getNode_in [OF r] hs by (simp del: vals_simps)
  qed
qed

end
