(* ===== verification/Find_Trigger.thy ===== *)
theory Find_Trigger
  imports Workflow_Start Graph_Queries
begin

text \<open>
  \<open>find-trigger-for-partial-execution.ts\<close>: which trigger a partial execution is attributed to, and
  whether a root above a node has run data.
\<close>

section \<open>Triggers above a node\<close>

definition isTriggerNode :: "INodeType \<Rightarrow> bool" where
  "isTriggerNode nodeType \<longleftrightarrow> ''trigger'' \<in> set (nt_group nodeType)"

definition endsWith :: "string \<Rightarrow> string \<Rightarrow> bool" where
  "endsWith s suffix \<longleftrightarrow> length suffix \<le> length s \<and> drop (length s - length suffix) s = suffix"

definition type_of_node :: "heap \<Rightarrow> node_types \<Rightarrow> noderef \<Rightarrow> INodeType option" where
  "type_of_node h nodeTypes r = nodeTypes (node_type (h r)) (typeVersion (h r))"

text \<open>
  The nodes of all parents are looked up first, then the ones of a trigger type are kept; reading
  the description of an unknown type is a \<open>TypeError\<close>.
\<close>

definition keep_trigger ::
    "heap \<Rightarrow> node_types \<Rightarrow> noderef \<Rightarrow> noderef list \<Rightarrow> noderef list result" where
  "keep_trigger h nodeTypes r acc =
     (case type_of_node h nodeTypes r of
        None \<Rightarrow> Inl TypeError
      | Some nt \<Rightarrow> Inr (if isTriggerNode nt then acc @ [r] else acc))"

definition findAllParentTriggers ::
    "heap \<Rightarrow> node_types \<Rightarrow> Workflow \<Rightarrow> string \<Rightarrow> noderef list result" where
  "findAllParentTriggers h nodeTypes w destinationNodeName =
     rbind (rfold (\<lambda>name acc. case getNode w name of None \<Rightarrow> Inl AssertionError | Some r \<Rightarrow> Inr (acc @ [r]))
       (workflow_getParentNodes w destinationNodeName (OfType Main) (-1)) []) (\<lambda>nodes.
     rfold (keep_trigger h nodeTypes) nodes [])"

definition is_webhook :: "heap \<Rightarrow> noderef \<Rightarrow> bool" where
  "is_webhook h r \<longleftrightarrow> endsWith (node_type (h r)) ''webhook''"

definition webhook_order :: "heap \<Rightarrow> noderef \<Rightarrow> noderef \<Rightarrow> int" where
  "webhook_order h a b = (if is_webhook h a then -1 else if is_webhook h b then 1 else 0)"

definition head_of :: "'a list \<Rightarrow> 'a option" where
  "head_of xs = (case xs of [] \<Rightarrow> None | x # _ \<Rightarrow> Some x)"

definition choose_trigger ::
    "heap \<Rightarrow> Workflow \<Rightarrow> IRunData \<Rightarrow> noderef list \<Rightarrow> noderef option" where
  "choose_trigger h w runData parentTriggers =
     (case List.find (\<lambda>r. node_name (h r) \<in> fst ` set runData) parentTriggers of
        Some r \<Rightarrow> Some r
      | None \<Rightarrow>
          (let pinnedTriggers = js_sort (webhook_order h)
                 (filter (\<lambda>r. getPinDataOfNode w (node_name (h r)) \<noteq> None) parentTriggers)
           in if length pinnedTriggers > 0 then head_of pinnedTriggers
              else let webhookTriggers = filter (is_webhook h) parentTriggers
                   in if length webhookTriggers > 0 then head_of webhookTriggers else head_of parentTriggers))"

definition findTriggerForPartialExecution ::
    "heap \<Rightarrow> node_types \<Rightarrow> Workflow \<Rightarrow> string \<Rightarrow> IRunData \<Rightarrow> noderef option result" where
  "findTriggerForPartialExecution h nodeTypes w destinationNodeName runData =
     (case getNode w destinationNodeName of
        None \<Rightarrow> Inr None
      | Some d \<Rightarrow> (case type_of_node h nodeTypes d of
          None \<Rightarrow> Inl TypeError
        | Some nt \<Rightarrow>
            if isTriggerNode nt \<and> \<not> is_disabled (h d) then Inr (Some d)
            else rbind (findAllParentTriggers h nodeTypes w destinationNodeName) (\<lambda>triggers.
              Inr (choose_trigger h w runData (filter (\<lambda>r. \<not> is_disabled (h r)) triggers)))))"

text \<open>Whether a node without parents above the destination, in the directed graph, has run data.\<close>

definition anyReachableRootHasRunData ::
    "heap \<Rightarrow> DirectedGraph \<Rightarrow> string \<Rightarrow> IRunData \<Rightarrow> bool result" where
  "anyReachableRootHasRunData h g destinationNodeName runData =
     (case map_of (getNodes g) destinationNodeName of
        None \<Rightarrow> Inr False
      | Some destinationNode \<Rightarrow>
          rbind (getParentConnections h g destinationNode) (\<lambda>parentConnections.
          rbind (rfold (\<lambda>parentNode rootNodes.
              rbind (getDirectParentConnections h g parentNode) (\<lambda>ps.
                Inr (if length ps > 0 then rootNodes else set_add parentNode rootNodes)))
            (set_of_list (map gc_from parentConnections)) []) (\<lambda>rootNodes.
          Inr (list_ex (\<lambda>r. node_name (h r) \<in> fst ` set runData) rootNodes))))"

lemma anyReachableRoot_iff:
  assumes "wf_graph h g" "map_of (getNodes g) n = Some d"
  shows "anyReachableRootHasRunData h g n rd = Inr (\<exists>r. (r, d) \<in> (edge_rel g)\<^sup>+ \<and>
    (\<forall>p. (p, r) \<notin> edge_rel g) \<and> node_name (h r) \<in> fst ` set rd)"
proof -
  have d: "d \<in> nodes_of g"
    using assms(2) by (force simp: getNodes_def nodes_of_def dest: map_of_SomeD)
  obtain pcs where pcs: "getParentConnections h g d = Inr pcs"
      "set pcs = {c \<in> conns_of g. (gc_to c, d) \<in> (edge_rel g)\<^sup>*}"
    using dg.parent_conns_spec [OF assms(1) d] by blast
  let ?f = "\<lambda>parentNode rootNodes. rbind (getDirectParentConnections h g parentNode) (\<lambda>ps.
    Inr (if length ps > 0 then rootNodes else set_add parentNode rootNodes))"
  have roots: "\<exists>rs. rfold ?f (set_of_list (map gc_from pcs)) [] = Inr rs \<and> True \<and>
      set rs = set [] \<union> (\<Union>x \<in> set (set_of_list (map gc_from pcs)). {r. r = x \<and> (\<forall>p. (p, r) \<notin> edge_rel g)})"
  proof (rule rfold_collect [where P = "\<lambda>_. True"])
    fix x rs assume "x \<in> set (set_of_list (map gc_from pcs))"
    then have x: "x \<in> nodes_of g" using pcs(2) wf_graphD(5) [OF assms(1)] by auto
    obtain ps where ps: "getDirectParentConnections h g x = Inr ps"
      using direct_parents [OF assms(1) x] by blast
    have "ps = [] \<longleftrightarrow> (\<forall>p. (p, x) \<notin> edge_rel g)"
      unfolding set_empty [symmetric] direct_parents_sub [OF ps] by (auto simp: edge_rel_def)
    then show "\<exists>t. ?f x rs = Inr t \<and> True \<and> set t = set rs \<union> {r. r = x \<and> (\<forall>p. (p, r) \<notin> edge_rel g)}"
      using ps by auto
  qed simp
  have above: "r \<in> gc_from ` set pcs \<longleftrightarrow> (r, d) \<in> (edge_rel g)\<^sup>+" for r
    unfolding pcs(2) by (auto simp: edge_rel_def intro: rtrancl_into_trancl2 dest!: tranclD)
  from roots obtain rs where rs: "rfold ?f (set_of_list (map gc_from pcs)) [] = Inr rs"
      "set rs = set [] \<union> (\<Union>x \<in> set (set_of_list (map gc_from pcs)). {r. r = x \<and> (\<forall>p. (p, r) \<notin> edge_rel g)})"
    by blast
  have "r \<in> set rs \<longleftrightarrow> (r, d) \<in> (edge_rel g)\<^sup>+ \<and> (\<forall>p. (p, r) \<notin> edge_rel g)" for r
    using rs(2) above [of r] by auto
  then have "list_ex (\<lambda>r. node_name (h r) \<in> fst ` set rd) rs \<longleftrightarrow>
      (\<exists>r. (r, d) \<in> (edge_rel g)\<^sup>+ \<and> (\<forall>p. (p, r) \<notin> edge_rel g) \<and> node_name (h r) \<in> fst ` set rd)"
    by (auto simp: list_ex_iff)
  then show ?thesis using assms(2) pcs(1) rs(1) by (simp add: anyReachableRootHasRunData_def)
qed

section \<open>Which trigger is found\<close>

definition trigger_typed :: "heap \<Rightarrow> node_types \<Rightarrow> noderef \<Rightarrow> bool" where
  "trigger_typed h nodeTypes r \<longleftrightarrow>
     (case type_of_node h nodeTypes r of None \<Rightarrow> False | Some nt \<Rightarrow> isTriggerNode nt)"

lemma head_of_in: "head_of xs = Some x \<Longrightarrow> x \<in> set xs"
  by (cases xs) (simp_all add: head_of_def)

lemma head_of_None [simp]: "head_of xs = None \<longleftrightarrow> xs = []"
  by (cases xs) (simp_all add: head_of_def)

lemma lookup_all:
  "list_all (\<lambda>n. getNode w n \<noteq> None) ns \<Longrightarrow>
    rfold (\<lambda>name acc. case getNode w name of None \<Rightarrow> Inl AssertionError | Some r \<Rightarrow> Inr (acc @ [r])) ns acc =
      Inr (acc @ map (\<lambda>n. the (getNode w n)) ns)"
  by (induction ns arbitrary: acc) auto

lemma keep_triggers:
  "list_all (\<lambda>r. type_of_node h nodeTypes r \<noteq> None) rs \<Longrightarrow>
    rfold (keep_trigger h nodeTypes) rs acc = Inr (acc @ filter (trigger_typed h nodeTypes) rs)"
  by (induction rs arbitrary: acc) (auto simp: keep_trigger_def trigger_typed_def)

text \<open>The parents of a node of a well-formed workflow are nodes of it.\<close>

lemma parent_is_node:
  assumes "wf_workflow h w" "p \<in> set (workflow_getParentNodes w n (OfType t) d)"
  shows "getNode w p \<noteq> None"
proof -
  let ?R = "nbr_rel (connectionsByDestinationNode w) (OfType t)"
  obtain k where "0 < k" "(n, p) \<in> ?R ^^ k"
    using assms(2) by (auto simp: workflow_getParentNodes_def getParentNodes_def set_getConnectedNodes_top)
  then obtain m where "(m, p) \<in> ?R" by (metis gr0_conv_Suc relpow_Suc_E)
  then show ?thesis by (rule destination_nbr_node [OF assms(1)])
qed

abbreviation parents_of :: "Workflow \<Rightarrow> string \<Rightarrow> string list" where
  "parents_of w n \<equiv> workflow_getParentNodes w n (OfType Main) (-1)"

lemma findAllParentTriggers_eq:
  assumes "wf_workflow h w" "typed h nodeTypes w"
  shows "findAllParentTriggers h nodeTypes w n =
    Inr (filter (trigger_typed h nodeTypes) (map (\<lambda>p. the (getNode w p)) (parents_of w n)))"
proof -
  have all: "list_all (\<lambda>p. getNode w p \<noteq> None) (parents_of w n)"
    using parent_is_node [OF assms(1)] by (simp add: list_all_iff)
  have "the (getNode w p) \<in> set (vals (wf_nodes w))" if "p \<in> set (parents_of w n)" for p
    using all that getNode_in [of w p] unfolding list_all_iff by force
  then have "list_all (\<lambda>r. type_of_node h nodeTypes r \<noteq> None) (map (\<lambda>p. the (getNode w p)) (parents_of w n))"
    using typedD [OF assms(2)] by (auto simp: list_all_iff type_of_node_def simp del: vals_simps)
  then show ?thesis
    using lookup_all [OF all, of "[]"] keep_triggers by (simp add: findAllParentTriggers_def)
qed

text \<open>The enabled triggers above a node.\<close>

definition triggers_above :: "heap \<Rightarrow> node_types \<Rightarrow> Workflow \<Rightarrow> string \<Rightarrow> noderef list" where
  "triggers_above h nodeTypes w n =
     filter (\<lambda>r. trigger_typed h nodeTypes r \<and> \<not> is_disabled (h r))
       (map (\<lambda>p. the (getNode w p)) (parents_of w n))"

lemma findTrigger_eq:
  assumes "wf_workflow h w" "typed h nodeTypes w" "getNode w n = Some d"
  shows "findTriggerForPartialExecution h nodeTypes w n runData =
    Inr (if trigger_typed h nodeTypes d \<and> \<not> is_disabled (h d) then Some d
         else choose_trigger h w runData (triggers_above h nodeTypes w n))"
proof -
  have "d \<in> set (vals (wf_nodes w))" by (rule getNode_in [OF assms(3)])
  then obtain nt where "type_of_node h nodeTypes d = Some nt"
    using typedD [OF assms(2)] by (auto simp: type_of_node_def simp del: vals_simps)
  then show ?thesis
    using assms(3) findAllParentTriggers_eq [OF assms(1,2)]
    by (simp add: findTriggerForPartialExecution_def trigger_typed_def triggers_above_def conj_commute)
qed

text \<open>The preference among them: run data, then pinned data with webhooks first, then webhooks.\<close>

lemma webhooks_first:
  "js_sort (webhook_order h) rs = rev (filter (is_webhook h) rs) @ filter (\<lambda>r. \<not> is_webhook h r) rs"
proof -
  have ins: "insert_by (webhook_order h) x (ws @ os) =
      (if is_webhook h x then x # ws @ os else ws @ os @ [x])"
    if "list_all (is_webhook h) ws" "list_all (\<lambda>r. \<not> is_webhook h r) os" for x ws os
  proof (cases "is_webhook h x")
    case True
    then show ?thesis by (cases "ws @ os") (auto simp: webhook_order_def)
  next
    case False
    have "insert_by (webhook_order h) x ys = ys @ [x]" for ys
      using False by (induction ys) (auto simp: webhook_order_def)
    then show ?thesis using False by simp
  qed
  have "fold (insert_by (webhook_order h)) rs (ws @ os) =
      rev (filter (is_webhook h) rs) @ ws @ os @ filter (\<lambda>r. \<not> is_webhook h r) rs"
    if "list_all (is_webhook h) ws" "list_all (\<lambda>r. \<not> is_webhook h r) os" for ws os
    using that
  proof (induction rs arbitrary: ws os)
    case (Cons r rs)
    show ?case
    proof (cases "is_webhook h r")
      case True
      then show ?thesis using Cons.IH [of "r # ws" os] Cons.prems ins [OF Cons.prems, of r] by simp
    next
      case False
      then show ?thesis using Cons.IH [of ws "os @ [r]"] Cons.prems ins [OF Cons.prems, of r] by simp
    qed
  qed simp
  from this [of "[]" "[]"] show ?thesis by (simp add: js_sort_def)
qed

definition preferred :: "heap \<Rightarrow> Workflow \<Rightarrow> IRunData \<Rightarrow> noderef \<Rightarrow> nat" where
  "preferred h w runData r =
     (if node_name (h r) \<in> fst ` set runData then 0
      else if getPinDataOfNode w (node_name (h r)) \<noteq> None then if is_webhook h r then 1 else 2
      else if is_webhook h r then 3 else 4)"

lemma head_of_filter: "head_of (filter P xs) = Some x \<Longrightarrow> x \<in> set xs \<and> P x"
  using head_of_in [of "filter P xs" x] by auto

lemma choose_trigger_None: "choose_trigger h w rd ts = None \<longleftrightarrow> ts = []"
proof
  assume none: "choose_trigger h w rd ts = None"
  then have "length (filter (is_webhook h) ts) = 0 \<and> head_of ts = None"
    by (auto simp: choose_trigger_def Let_def split: option.splits if_splits)
  then show "ts = []" by simp
qed (simp add: choose_trigger_def js_sort_def head_of_def)

lemma choose_trigger_best:
  assumes "choose_trigger h w rd ts = Some r"
  shows "r \<in> set ts \<and> (\<forall>q \<in> set ts. preferred h w rd r \<le> preferred h w rd q)"
proof (cases "List.find (\<lambda>r. node_name (h r) \<in> fst ` set rd) ts")
  case (Some q)
  then have "q = r" using assms by (simp add: choose_trigger_def)
  moreover have "q \<in> set ts \<and> node_name (h q) \<in> fst ` set rd"
    using Some unfolding find_Some_iff by (metis nth_mem)
  ultimately show ?thesis by (simp add: preferred_def)
next
  case None
  then have no_run: "node_name (h q) \<notin> fst ` set rd" if "q \<in> set ts" for q
    using that by (auto simp: find_None_iff)
  let ?pin = "\<lambda>r. getPinDataOfNode w (node_name (h r)) \<noteq> None"
  let ?p = "js_sort (webhook_order h) (filter ?pin ts)"
  show ?thesis
  proof (cases "filter ?pin ts = []")
    case False
    then have first: "head_of ?p = Some r" using assms None by (simp add: choose_trigger_def)
    then have r: "r \<in> set ts" "?pin r" using head_of_in [OF first] by auto
    show ?thesis
    proof (cases "filter (is_webhook h) (filter ?pin ts) = []")
      case True
      then have "\<not> is_webhook h q" if "q \<in> set ts" "?pin q" for q using that by (auto simp: filter_empty_conv)
      then show ?thesis using r no_run by (auto simp: preferred_def)
    next
      case False
      then have "head_of ?p = head_of (rev (filter (is_webhook h) (filter ?pin ts)))"
        unfolding webhooks_first by (cases "rev (filter (is_webhook h) (filter ?pin ts))") (auto simp: head_of_def)
      then have "is_webhook h r" using first head_of_in by fastforce
      then show ?thesis using r no_run by (auto simp: preferred_def)
    qed
  next
    case no_pin: True
    then have np: "\<not> ?pin q" if "q \<in> set ts" for q using that by (auto simp: filter_empty_conv)
    show ?thesis
    proof (cases "filter (is_webhook h) ts = []")
      case True
      then have "head_of ts = Some r" using assms None no_pin by (simp add: choose_trigger_def)
      then have "r \<in> set ts" by (rule head_of_in)
      moreover have "\<not> is_webhook h q" if "q \<in> set ts" for q using True that by (auto simp: filter_empty_conv)
      ultimately show ?thesis using no_run np by (auto simp: preferred_def)
    next
      case False
      then have "head_of (filter (is_webhook h) ts) = Some r" using assms None no_pin by (simp add: choose_trigger_def)
      then have "r \<in> set ts \<and> is_webhook h r" by (rule head_of_filter)
      then show ?thesis using no_run np by (auto simp: preferred_def)
    qed
  qed
qed

end
