(* ===== verification/Rewire_Graph.thy ===== *)
theory Rewire_Graph
  imports Graph_Queries Graph_Editing
begin

text \<open>
  \<open>rewire-graph.ts\<close>: to run a tool on its own, the agent that it serves is replaced by a virtual
  node that calls the tool. The new node object is allocated at a given fresh reference, and the
  tool itself is marked in the heap.
\<close>

section \<open>JSON text\<close>

definition hex_digit :: "nat \<Rightarrow> char" where
  "hex_digit n = (''0123456789abcdef'' ! n)"

definition json_escape :: "char \<Rightarrow> string" where
  "json_escape c =
     (let n = of_char c :: nat in
      if n = 34 then [CHR 0x5C, CHR 0x22]
      else if n = 92 then [CHR 0x5C, CHR 0x5C]
      else if n = 8 then CHR 0x5C # ''b''
      else if n = 9 then CHR 0x5C # ''t''
      else if n = 10 then CHR 0x5C # ''n''
      else if n = 12 then CHR 0x5C # ''f''
      else if n = 13 then CHR 0x5C # ''r''
      else if n < 32 then CHR 0x5C # ''u00'' @ [hex_digit (n div 16), hex_digit (n mod 16)]
      else [c])"

definition json_string :: "string \<Rightarrow> string" where
  "json_string s = [CHR 0x22] @ concat (map json_escape s) @ [CHR 0x22]"

fun comma_separated :: "string list \<Rightarrow> string" where
  "comma_separated [] = []"
| "comma_separated [x] = x"
| "comma_separated (x # xs) = x @ '','' @ comma_separated xs"

fun json_stringify :: "json \<Rightarrow> string" where
  "json_stringify JNull = ''null''"
| "json_stringify (JBool b) = (if b then ''true'' else ''false'')"
| "json_stringify (JNum i) = (if i < 0 then ''-'' @ show_nat (nat (- i)) else show_nat (nat i))"
| "json_stringify (JStr s) = json_string s"
| "json_stringify (JArr xs) = ''['' @ comma_separated (map json_stringify xs) @ '']''"
| "json_stringify (JObj kvs) =
     ''{'' @ comma_separated (map (\<lambda>(k, v). json_string k @ '':'' @ json_stringify v) kvs) @ ''}''"

section \<open>Rewiring\<close>

definition TOOL_EXECUTOR_NODE_NAME :: string where
  "TOOL_EXECUTOR_NODE_NAME = ''PartialExecutionToolExecutor''"

record AiAgentRequest =
  ar_query :: "(string \<times> json) list"
  ar_tool :: string

definition toolExecutor :: "heap \<Rightarrow> noderef \<Rightarrow> noderef \<Rightarrow> AiAgentRequest option \<Rightarrow> INode" where
  "toolExecutor h tool rootNode agentRequest =
     \<lparr>node_id = node_id (h rootNode), node_name = TOOL_EXECUTOR_NODE_NAME,
      node_type = ''@n8n/n8n-nodes-langchain.toolExecutor'', typeVersion = 0, disabled = Some False,
      parameters =
        [(''query'', JStr (json_stringify (JObj (case agentRequest of None \<Rightarrow> [] | Some r \<Rightarrow> ar_query r)))),
         (''toolName'', JStr (case agentRequest of None \<Rightarrow> [] | Some r \<Rightarrow> ar_tool r)),
         (''node'', JStr (node_name (h tool)))],
      rewireOutputLogTo = None\<rparr>"

definition rewireGraph ::
    "noderef \<Rightarrow> heap \<Rightarrow> noderef \<Rightarrow> DirectedGraph \<Rightarrow> AiAgentRequest option \<Rightarrow> (heap \<times> DirectedGraph) result" where
  "rewireGraph new h tool graph agentRequest =
     rbind (clone h graph) (\<lambda>modifiedGraph.
     rbind (getChildren h modifiedGraph tool) (\<lambda>children.
       if length children = 0 then Inr (h, graph)
       else
         let rootNode = last children in
         rbind (getDirectParentConnections h modifiedGraph rootNode) (\<lambda>parents.
           let allIncomingConnection = filter (\<lambda>cn. gc_type cn = Main) parents;
               h1 = h(new := toolExecutor h tool rootNode agentRequest);
               g1 = addNode h1 new modifiedGraph;
               h2 = h1(tool := (h1 tool)\<lparr>rewireOutputLogTo := Some AiTool\<rparr>)
           in rbind (addConnection h2 \<lparr>ci_from = tool, ci_to = new, ci_type = Some AiTool,
                ci_output = None, ci_input = None\<rparr> g1) (\<lambda>g2.
              rbind (rfold (\<lambda>cn. addConnection h2 \<lparr>ci_from = gc_from cn, ci_to = new, ci_type = Some (gc_type cn),
                ci_output = None, ci_input = None\<rparr>) allIncomingConnection g2) (\<lambda>g3.
                Inr (h2, removeNode h2 rootNode g3))))))"

section \<open>The rewired graph\<close>

lemma wf_graph_names:
  assumes "\<And>r. r \<in> nodes_of g \<Longrightarrow> node_name (h' r) = node_name (h r)"
  shows "wf_graph h' g \<longleftrightarrow> wf_graph h g"
proof -
  have key: "makeKey h' c = makeKey h c" if "gc_from c \<in> nodes_of g" "gc_to c \<in> nodes_of g" for c
    using assms that by (simp add: makeKey_def)
  have "r \<in> nodes_of g" if "(n, r) \<in> set (dg_nodes g)" for n r
    using that by (force simp: nodes_of_def)
  then show ?thesis unfolding wf_graph_iff using key assms by metis
qed

definition plain_conn :: "noderef \<Rightarrow> noderef \<Rightarrow> NodeConnectionType \<Rightarrow> GraphConnection" where
  "plain_conn a b t = \<lparr>gc_from = a, gc_to = b, gc_type = t, gc_output = 0, gc_input = 0\<rparr>"

text \<open>Adding a connection whose key is new.\<close>

lemma add_plain:
  assumes "wf_graph h g" "a \<in> nodes_of g" "b \<in> nodes_of g"
    and "\<And>c. c \<in> conns_of g \<Longrightarrow> dashless h c" "dashless h (plain_conn a b t)"
  shows "\<exists>g'. addConnection h \<lparr>ci_from = a, ci_to = b, ci_type = Some t, ci_output = None, ci_input = None\<rparr> g = Inr g' \<and>
    wf_graph h g' \<and> nodes_of g' = nodes_of g \<and> conns_of g' = conns_of g \<union> {plain_conn a b t}"
proof -
  let ?c = "plain_conn a b t"
  have c: "complete_input \<lparr>ci_from = a, ci_to = b, ci_type = Some t, ci_output = None, ci_input = None\<rparr> = ?c"
    by (simp add: complete_input_def plain_conn_def dflt_def)
  have "d = ?c" if "d \<in> conns_of g" "makeKey h d = makeKey h ?c" for d
    by (rule makeKey_inj [OF assms(1) that(2) assms(4) [OF that(1)] assms(5)])
      (use wf_graphD(5,6) [OF assms(1) that(1)] assms(2,3) in \<open>simp add: plain_conn_def\<close>)
  then have "conns_of (set_connection h ?c g) = conns_of g \<union> {?c}"
    unfolding set_connection_sets(2) [OF assms(1)] by blast
  then show ?thesis
    using wf_set_connection [OF assms(1), of ?c] assms(2,3) set_connection_sets(1) [OF assms(1)]
    by (simp add: addConnection_eq [OF assms(1)] c) (simp add: plain_conn_def)
qed

text \<open>
  The tool executor takes the place of the root node: it receives the tool, and the main inputs of
  the root node on its first input, whatever input and output they connected before.
\<close>

definition rewired_conns :: "DirectedGraph \<Rightarrow> noderef \<Rightarrow> noderef \<Rightarrow> noderef \<Rightarrow> GraphConnection set" where
  "rewired_conns g tool agent new =
     {c \<in> conns_of g. gc_from c \<noteq> agent \<and> gc_to c \<noteq> agent} \<union> {plain_conn tool new AiTool | x :: unit. tool \<noteq> agent} \<union>
     {plain_conn (gc_from c) new Main | c. c \<in> conns_of g \<and> gc_to c = agent \<and> gc_type c = Main \<and> gc_from c \<noteq> agent}"

lemma rewireGraph_spec:
  assumes wf: "wf_graph h g" and tool: "tool \<in> nodes_of g" and fresh: "new \<notin> nodes_of g"
    and name: "\<not> hasNode g TOOL_EXECUTOR_NODE_NAME" and nd: "\<And>c. c \<in> conns_of g \<Longrightarrow> dashless h c"
    and ch: "getChildren h g tool = Inr ch" "ch \<noteq> []"
  shows "\<exists>h' g'. rewireGraph new h tool g q = Inr (h', g') \<and> wf_graph h' g' \<and>
    nodes_of g' = insert new (nodes_of g - {last ch}) \<and> conns_of g' = rewired_conns g tool (last ch) new \<and>
    node_name (h' new) = TOOL_EXECUTOR_NODE_NAME \<and> \<not> is_disabled (h' new) \<and>
    (\<forall>r \<in> nodes_of g. node_name (h' r) = node_name (h r) \<and> disabled (h' r) = disabled (h r))"
proof -
  let ?root = "last ch"
  define h1 where "h1 = h(new := toolExecutor h tool ?root q)"
  define h2 where "h2 = h1(tool := (h1 tool)\<lparr>rewireOutputLogTo := Some AiTool\<rparr>)"
  let ?g1 = "addNode h1 new g"
  have tn: "tool \<noteq> new" using tool fresh by blast
  have same: "node_name (h1 r) = node_name (h r)" "node_name (h2 r) = node_name (h r)" "disabled (h2 r) = disabled (h r)"
    if "r \<in> nodes_of g" for r
    using that fresh by (auto simp: h1_def h2_def)
  have new_name: "node_name (h1 new) = TOOL_EXECUTOR_NODE_NAME" "node_name (h2 new) = TOOL_EXECUTOR_NODE_NAME"
      "\<not> is_disabled (h2 new)"
    using tn by (simp_all add: h1_def h2_def toolExecutor_def is_disabled_def)
  have wf1: "wf_graph h1 g" using wf_graph_names [of g h1 h] same wf by blast
  have free: "name_free h1 g new" using name new_name by (simp add: name_free_def hasNode_def)
  note g1 = addNode_nodes [OF wf1 free] wf_addNode [OF wf1 free]
  have "node_name (h2 r) = node_name (h1 r)" if "r \<in> nodes_of ?g1" for r
    using that g1(1) same new_name by auto
  then have wf2: "wf_graph h2 ?g1" using wf_graph_names [of ?g1 h2 h1] g1(2) by blast
  have root: "?root \<in> nodes_of g"
    using dg.children_iff [OF wf tool ch(1), of ?root] dg.reach_nodes [OF wf tool] ch(2) last_in_set trancl_into_rtrancl
    by metis
  have dl: "dashless h2 c" if "gc_from c \<in> nodes_of g" "no_dash (node_name (h (gc_from c)))" "no_dash (gc_type c)" for c
    using that same by (simp add: dashless_def)
  have nd2: "dashless h2 c" if "c \<in> conns_of g" for c
    using dl [of c] nd [OF that] wf_graphD(5) [OF wf that] by (simp add: dashless_def)
  have tool_nd: "no_dash (node_name (h tool))"
  proof -
    have "(tool, last ch) \<in> (edge_rel g)\<^sup>+" using dg.children_iff [OF wf tool ch(1), of "last ch"] ch(2) by simp
    then obtain y where "(tool, y) \<in> edge_rel g" by (metis tranclD)
    then show ?thesis using nd by (auto simp: edge_rel_def dashless_def)
  qed
  have ai: "no_dash AiTool" by (simp add: no_dash_def)
  let ?new = "plain_conn tool new AiTool"
  obtain g2 where g2: "addConnection h2 \<lparr>ci_from = tool, ci_to = new, ci_type = Some AiTool, ci_output = None, ci_input = None\<rparr> ?g1 = Inr g2"
      "wf_graph h2 g2" "nodes_of g2 = insert new (nodes_of g)" "conns_of g2 = conns_of g \<union> {?new}"
    using add_plain [OF wf2, of tool new AiTool] g1 tool nd2 dl [of ?new] tool_nd ai by (auto simp: plain_conn_def)
  have ps: "getDirectParentConnections h g ?root = Inr (filter (\<lambda>c. gc_to c = ?root) (vals (dg_conns g)))"
    by (rule direct_parents [OF wf root])
  define ins where "ins = filter (\<lambda>cn. gc_type cn = Main) (filter (\<lambda>c. gc_to c = ?root) (vals (dg_conns g)))"
  have ins: "c \<in> set ins \<longleftrightarrow> c \<in> conns_of g \<and> gc_to c = ?root \<and> gc_type c = Main" for c
    by (auto simp: ins_def conns_of_def simp del: vals_simps)
  let ?P = "\<lambda>s. wf_graph h2 s \<and> nodes_of s = insert new (nodes_of g) \<and> (\<forall>c \<in> conns_of s. dashless h2 c)"
  have "\<exists>g3. rfold (\<lambda>cn. addConnection h2 \<lparr>ci_from = gc_from cn, ci_to = new, ci_type = Some (gc_type cn),
      ci_output = None, ci_input = None\<rparr>) ins g2 = Inr g3 \<and> ?P g3 \<and>
      conns_of g3 = conns_of g2 \<union> (\<Union>c \<in> set ins. {plain_conn (gc_from c) new (gc_type c)})"
  proof (rule rfold_collect [where P = ?P])
    show "?P g2" using g2 nd2 dl [of ?new] tool tool_nd ai by (auto simp: plain_conn_def)
  next
    fix c s assume c: "c \<in> set ins" and s: "?P s"
    have m: "gc_from c \<in> nodes_of g" using c wf_graphD(5) [OF wf] by (simp add: ins)
    have d: "dashless h2 (plain_conn (gc_from c) new (gc_type c))"
      using dl [of "plain_conn (gc_from c) new (gc_type c)"] m nd c by (simp add: ins plain_conn_def dashless_def)
    obtain t where t: "addConnection h2 \<lparr>ci_from = gc_from c, ci_to = new, ci_type = Some (gc_type c), ci_output = None,
        ci_input = None\<rparr> s = Inr t" "wf_graph h2 t" "nodes_of t = nodes_of s"
        "conns_of t = conns_of s \<union> {plain_conn (gc_from c) new (gc_type c)}"
      using add_plain [of h2 s "gc_from c" new "gc_type c"] s m d by blast
    then show "\<exists>t. addConnection h2 \<lparr>ci_from = gc_from c, ci_to = new, ci_type = Some (gc_type c), ci_output = None,
        ci_input = None\<rparr> s = Inr t \<and> ?P t \<and> conns_of t = conns_of s \<union> {plain_conn (gc_from c) new (gc_type c)}"
      using s d by auto
  qed
  then obtain g3 where g3: "rfold (\<lambda>cn. addConnection h2 \<lparr>ci_from = gc_from cn, ci_to = new, ci_type = Some (gc_type cn),
      ci_output = None, ci_input = None\<rparr>) ins g2 = Inr g3" "wf_graph h2 g3" "nodes_of g3 = insert new (nodes_of g)"
      "conns_of g3 = conns_of g2 \<union> (\<Union>c \<in> set ins. {plain_conn (gc_from c) new (gc_type c)})"
    by blast
  have result: "rewireGraph new h tool g q = Inr (h2, removeNode h2 ?root g3)"
    using ch(2) by (simp only: rewireGraph_def clone_eq [OF wf] ch(1) rbind_Inr length_0_conv if_False Let_def
      h1_def [symmetric] h2_def [symmetric] ps ins_def [symmetric] g2(1) g3(1))
  have rn: "?root \<noteq> new" using root fresh by blast
  note rem = wf_removeNode [OF g3(2), of ?root]
  have "conns_of (removeNode h2 ?root g3) = rewired_conns g tool ?root new"
  proof -
    have ends: "gc_from c \<noteq> new \<and> gc_to c \<noteq> new" if "c \<in> conns_of g" for c
      using wf_graphD(5,6) [OF wf that] fresh by blast
    have "conns_of g3 = conns_of g \<union> {?new} \<union> {plain_conn (gc_from c) new Main | c. c \<in> conns_of g \<and> gc_to c = ?root \<and> gc_type c = Main}"
      unfolding g3(4) g2(4) using ins by auto
    then show ?thesis
      unfolding rem(3) [unfolded g3(3), OF insertI2 [OF root]] rewired_conns_def using rn
      by (auto simp: plain_conn_def)
  qed
  moreover have "nodes_of (removeNode h2 ?root g3) = insert new (nodes_of g - {?root})"
    using rem(2) g3(3) root rn by auto
  ultimately show ?thesis using result rem(1) g3(3) root same new_name by auto
qed

end
