(* ===== verification/Partial_Execution.thy ===== *)
theory Partial_Execution
  imports Clean_Run_Data Filter_Disabled Find_Subgraph Handle_Cycles Execution_Stack Graph_Conversion
    Find_Trigger Rewire_Graph
begin

text \<open>
  The preparation of a partial execution, \<open>WorkflowExecute.runPartialWorkflow2\<close> of
  \<open>packages/core/src/execution-engine/workflow-execute.ts\<close>: it composes the functions of
  \<open>partial-execution-utils\<close>. The result is the state the run loop starts from.
\<close>

section \<open>Tools\<close>

fun contains :: "string \<Rightarrow> string \<Rightarrow> bool" where
  "contains p [] = (p = [])"
| "contains p (c # s) = (take (length p) (c # s) = p \<or> contains p s)"

fun tool_output :: "node_output list \<Rightarrow> bool" where
  "tool_output [] = False"
| "tool_output (OutputName t # os) = (t = AiTool)"
| "tool_output (OutputConfig t # os) = (t = AiTool \<or> tool_output os)"

definition isTool :: "INodeType \<Rightarrow> (string \<times> json) list \<Rightarrow> bool" where
  "isTool nodeType params =
     (if contains ''vectorStore'' (nt_name nodeType)
      then map_of params ''mode'' = Some (JStr ''retrieve-as-tool'')
      else case nt_outputs nodeType of None \<Rightarrow> False | Some os \<Rightarrow> tool_output os)"

section \<open>Preparation\<close>

datatype destination_mode = Inclusive | Exclusive

record IDestinationNode =
  dn_nodeName :: string
  dn_mode :: destination_mode

record partial_run =
  pr_heap :: heap
  pr_workflow :: Workflow
  pr_destinationNode :: IDestinationNode
  pr_originalDestinationNode :: IDestinationNode
  pr_runNodeFilter :: "string list"
  pr_runData :: IRunData
  pr_pinData :: IPinData
  pr_stacks :: exec_state
  pr_currentNodeExecutionIndex :: nat

text \<open>The rewired graph and workflow, when the destination is a tool.\<close>

definition rewire_tool ::
    "noderef \<Rightarrow> heap \<Rightarrow> Workflow \<Rightarrow> noderef \<Rightarrow> DirectedGraph \<Rightarrow> AiAgentRequest option \<Rightarrow>
     (heap \<times> Workflow \<times> DirectedGraph \<times> noderef) result" where
  "rewire_tool new h w d graph agentRequest =
     rbind (rewireGraph new h d graph agentRequest) (\<lambda>(h', graph').
     rbind (toWorkflow h' graph' (wf_pinData w)) (\<lambda>w'.
       case getNode w' TOOL_EXECUTOR_NODE_NAME of
         None \<Rightarrow> Inl (OperationalError ''ToolExecutor can not be found'')
       | Some toolExecutorNode \<Rightarrow> Inr (h', w', graph', toolExecutorNode)))"

text \<open>Without a trigger the first parent that has run data is the start.\<close>

definition trigger_or_parent ::
    "heap \<Rightarrow> node_types \<Rightarrow> Workflow \<Rightarrow> string \<Rightarrow> IRunData \<Rightarrow> noderef result" where
  "trigger_or_parent h nodeTypes w nodeName runData =
     rbind (findTriggerForPartialExecution h nodeTypes w nodeName runData) (\<lambda>trigger.
       case trigger of
         Some t \<Rightarrow> Inr t
       | None \<Rightarrow>
           (case List.find (\<lambda>p. p \<in> fst ` set runData) (parents_of w nodeName) of
              None \<Rightarrow> Inl (UserError ''Connect a trigger to run this node'')
            | Some p \<Rightarrow> (case getNode w p of
                None \<Rightarrow> Inl (UserError ''Connect a trigger to run this node'')
              | Some startNode \<Rightarrow> Inr startNode)))"

text \<open>Steps 2 to 7: from the graph, the destination and the trigger to the stacks.\<close>

definition prepare_graph ::
    "heap \<Rightarrow> (string \<Rightarrow> string \<Rightarrow> int) \<Rightarrow> DirectedGraph \<Rightarrow> noderef \<Rightarrow> noderef \<Rightarrow> IRunData \<Rightarrow> IPinData \<Rightarrow>
     string list \<Rightarrow> (DirectedGraph \<times> IRunData \<times> exec_state) result" where
  "prepare_graph h localeCompare graph destination trigger runData pinData dirtyNodeNames =
     rbind (filterDisabledNodes h graph) (\<lambda>filtered.
     rbind (findSubgraph h filtered destination trigger) (\<lambda>graph.
     rbind (cleanRunData h runData graph (getNodesByNames graph dirtyNodeNames)) (\<lambda>runData.
     rbind (findStartNodes h graph trigger destination pinData runData) (\<lambda>startNodes.
     rbind (handleCycles h graph startNodes trigger) (\<lambda>startNodes.
     rbind (cleanRunData h runData graph startNodes) (\<lambda>runData.
     rbind (recreateNodeExecutionStack h localeCompare graph startNodes runData pinData) (\<lambda>stacks.
       Inr (graph, runData, stacks))))))))"

definition runPartialWorkflow2 ::
    "noderef \<Rightarrow> heap \<Rightarrow> node_types \<Rightarrow> (string \<Rightarrow> string \<Rightarrow> int) \<Rightarrow> Workflow \<Rightarrow> IRunData \<Rightarrow> IPinData \<Rightarrow> string list \<Rightarrow>
     IDestinationNode \<Rightarrow> AiAgentRequest option \<Rightarrow> partial_run result" where
  "runPartialWorkflow2 new h nodeTypes localeCompare w runData pinData dirtyNodeNames destinationNode agentRequest =
     (case getNode w (dn_nodeName destinationNode) of
        None \<Rightarrow> Inl AssertionError
      | Some d \<Rightarrow>
          rbind (fromWorkflow h w) (\<lambda>graph.
          case type_of_node h nodeTypes d of
            None \<Rightarrow> Inl TypeError
          | Some nt \<Rightarrow>
              rbind (if isTool nt (parameters (h d))
                then rbind (rewire_tool new h w d graph agentRequest) (\<lambda>(h', w', graph', destination).
                  Inr (h', w', graph', destination,
                    \<lparr>dn_nodeName = node_name (h' destination), dn_mode = Inclusive\<rparr>))
                else Inr (h, w, graph, d, destinationNode)) (\<lambda>(h, w, graph, destination, dest).
              rbind (trigger_or_parent h nodeTypes w (dn_nodeName dest) runData) (\<lambda>trigger.
              rbind (prepare_graph h localeCompare graph destination trigger runData pinData dirtyNodeNames)
                (\<lambda>(graph, runData, stacks).
                Inr \<lparr>pr_heap = h, pr_workflow = w, pr_destinationNode = dest,
                  pr_originalDestinationNode = destinationNode,
                  pr_runNodeFilter = map (\<lambda>r. node_name (h r)) (vals (getNodes graph)),
                  pr_runData = runData, pr_pinData = pinData, pr_stacks = stacks,
                  pr_currentNodeExecutionIndex = getNextExecutionIndex runData\<rparr>)))))"

section \<open>Paths that survive the removal of disabled nodes\<close>

definition main_edges :: "GraphConnection set \<Rightarrow> (noderef \<times> noderef) set" where
  "main_edges C = {(gc_from c, gc_to c) | c. c \<in> C \<and> gc_type c = Main}"

definition outside :: "GraphConnection set \<Rightarrow> noderef set \<Rightarrow> GraphConnection set" where
  "outside C D = {c. routed C D c \<and> gc_from c \<notin> D \<and> gc_to c \<notin> D}"

lemma outside_reach:
  assumes "(x, z) \<in> (main_edges C)\<^sup>*" "x \<notin> D"
  shows "\<exists>u. u \<notin> D \<and> (x, u) \<in> (main_edges (outside C D))\<^sup>* \<and>
    (z = u \<or> z \<in> D \<and> (\<exists>c. routed C D c \<and> gc_type c = Main \<and> gc_from c = u \<and> gc_to c = z))"
  using assms(1)
proof (induction rule: rtrancl_induct)
  case base
  then show ?case using assms(2) by blast
next
  case (step z z')
  then obtain u where u: "u \<notin> D" "(x, u) \<in> (main_edges (outside C D))\<^sup>*"
      "z = u \<or> z \<in> D \<and> (\<exists>c. routed C D c \<and> gc_type c = Main \<and> gc_from c = u \<and> gc_to c = z)"
    by blast
  obtain d where d: "d \<in> C" "gc_type d = Main" "gc_from d = z" "gc_to d = z'"
    using step.hyps(2) by (auto simp: main_edges_def)
  have "\<exists>e. routed C D e \<and> gc_type e = Main \<and> gc_from e = u \<and> gc_to e = z'"
  proof (cases "z = u")
    case True
    then show ?thesis using d routed.direct by blast
  next
    case False
    then obtain c where c: "routed C D c" "gc_type c = Main" "gc_from c = u" "gc_to c = z" "z \<in> D" using u(3) by blast
    then have "routed C D (bypass c d)" using routed.via [OF c(1,2) d(1,2)] d(3) by simp
    then show ?thesis using c d by (intro exI [of _ "bypass c d"]) (simp add: bypass_def)
  qed
  then obtain e where e: "routed C D e" "gc_type e = Main" "gc_from e = u" "gc_to e = z'" by blast
  show ?case
  proof (cases "z' \<in> D")
    case True
    then show ?thesis using u e by blast
  next
    case False
    then have "(u, z') \<in> main_edges (outside C D)" using e u(1) by (auto simp: main_edges_def outside_def)
    then have "(x, z') \<in> (main_edges (outside C D))\<^sup>*" by (rule rtrancl_into_rtrancl [OF u(2)])
    then show ?thesis using False by blast
  qed
qed

lemma outside_path:
  assumes "(x, y) \<in> (main_edges C)\<^sup>*" "x \<notin> D" "y \<notin> D"
  shows "(x, y) \<in> (main_edges (outside C D))\<^sup>*"
  using outside_reach [OF assms(1,2)] assms(3) by blast

text \<open>A main path from the trigger puts the trigger and the destination into the subgraph.\<close>

lemma rtrancl_avoid_end:
  assumes "(x, m) \<in> Q\<^sup>*"
  shows "(x, m) \<in> (Q \<inter> {(a, b). a \<noteq> m})\<^sup>*"
proof -
  have "(m, x) \<in> (Q\<inverse> \<inter> {(a, b). b \<noteq> m})\<^sup>*"
    by (rule rtrancl_avoid_start) (use assms in \<open>simp add: rtrancl_converse\<close>)
  moreover have "Q\<inverse> \<inter> {(a, b). b \<noteq> m} = (Q \<inter> {(a, b). a \<noteq> m})\<inverse>" by auto
  ultimately show ?thesis by (simp add: rtrancl_converse)
qed

lemma main_nodes_ends:
  assumes "(trig, dest) \<in> (main_edges (conns_of g))\<^sup>*"
  shows "trig \<in> main_nodes g dest trig" "dest \<in> main_nodes g dest trig"
proof -
  have "trig \<in> main_nodes g dest trig \<and> dest \<in> main_nodes g dest trig"
  proof (cases "dest = trig")
    case True
    then show ?thesis by (simp add: main_nodes_def)
  next
    case False
    let ?W = "walk_rel (conns_of g) dest trig"
    have "(trig, dest) \<in> (main_edges (conns_of g) \<inter> {(a, b). b \<noteq> trig} \<inter> {(a, b). a \<noteq> dest})\<^sup>*"
      by (rule rtrancl_avoid_end [OF rtrancl_avoid_start [OF assms]])
    moreover have "main_edges (conns_of g) \<inter> {(a, b). b \<noteq> trig} \<inter> {(a, b). a \<noteq> dest} = ?W"
      by (auto simp: main_edges_def walk_rel_def)
    ultimately have w: "(trig, dest) \<in> ?W\<^sup>*" by simp
    obtain y where y: "(trig, y) \<in> ?W" "(y, dest) \<in> ?W\<^sup>*"
      using w False by (metis converse_rtranclE)
    obtain x where x: "(trig, x) \<in> ?W\<^sup>*" "(x, dest) \<in> ?W"
      using w False by (metis rtranclE)
    obtain c where "leads (conns_of g) dest trig c" "gc_from c = trig"
      using y by (auto simp: walk_rel_def leads_def grounded_def)
    moreover obtain d where "leads (conns_of g) dest trig d" "gc_to d = dest"
      using x by (auto simp: walk_rel_def leads_def grounded_def)
    ultimately show ?thesis using False by (auto simp: main_nodes_def ends_def)
  qed
  then show "trig \<in> main_nodes g dest trig" "dest \<in> main_nodes g dest trig" by auto
qed

section \<open>Preparation succeeds\<close>

lemma readable_mono:
  assumes "readable h g rd" "set rd' \<subseteq> set rd"
    and "\<And>c. c \<in> conns_of g' \<Longrightarrow> \<exists>d \<in> conns_of g. gc_from d = gc_from c \<and> gc_type d = gc_type c"
  shows "readable h g' rd'"
proof -
  have "map_of data Main \<noteq> None \<and>
      (\<forall>c \<in> conns_of g'. node_name (h (gc_from c)) = n \<longrightarrow> map_of data (gc_type c) \<noteq> None)"
    if "(n, runs) \<in> set rd'" "run \<in> set runs" "task_data run = Some data" for n runs run data
  proof -
    have "(n, runs) \<in> set rd" using that(1) assms(2) by blast
    then have r: "map_of data Main \<noteq> None"
        "\<And>c. c \<in> conns_of g \<Longrightarrow> node_name (h (gc_from c)) = n \<Longrightarrow> map_of data (gc_type c) \<noteq> None"
      using assms(1) that(2,3) unfolding readable_def conns_of_def list_all_iff by fastforce+
    show ?thesis using r assms(3) by metis
  qed
  then show ?thesis
    unfolding readable_def list_all_iff conns_of_def by (fastforce split: option.splits simp del: vals_simps)
qed

lemma routed_source:
  "routed C D c \<Longrightarrow> \<exists>d \<in> C. gc_from d = gc_from c \<and> gc_type d = gc_type c"
  by (induction rule: routed.induct) (auto simp: bypass_def)

lemma set_add_distinct_rfold:
  "rfold f xs s = Inr t \<Longrightarrow> distinct s \<Longrightarrow>
    (\<And>x s t. x \<in> set xs \<Longrightarrow> distinct s \<Longrightarrow> f x s = Inr t \<Longrightarrow> distinct t) \<Longrightarrow> distinct t"
  by (rule rfold_invariant [where P = distinct])

lemma findStartNodesRecursive_distinct:
  "findStartNodesRecursive h g cur dest rd pd sn seen = Inr sn' \<Longrightarrow> distinct sn \<Longrightarrow> distinct sn'"
proof (induction h g cur dest rd pd sn seen arbitrary: sn' rule: findStartNodesRecursive.induct [case_names rec])
  case (rec h g x dest rd pd sn seen sn')
  note unfolded = rec.prems(1) [unfolded findStartNodesRecursive.simps [of h g x dest rd pd sn seen]]
  obtain st where st: "startsHere h g dest rd pd x = Inr st"
    using unfolded by (cases "startsHere h g dest rd pd x") simp_all
  show ?case
  proof (cases "st \<or> x \<in> set seen")
    case True
    then show ?thesis using unfolded st rec.prems(2) by (auto split: if_splits)
  next
    case False
    then obtain cs where cs: "getDirectChildConnections h g x = Inr cs"
      using unfolded st by (cases "getDirectChildConnections h g x") simp_all
    let ?body = "\<lambda>c s. rbind (followed h rd pd c) (\<lambda>follow.
      if follow then findStartNodesRecursive h g (gc_to c) dest rd pd s (set_add x seen) else Inr s)"
    have "rfold ?body cs sn = Inr sn'" using unfolded st False cs by simp
    then show ?thesis
    proof (rule set_add_distinct_rfold)
      fix c s t assume c: "c \<in> set cs" and s: "distinct s" and t: "?body c s = Inr t"
      obtain f where f: "followed h rd pd c = Inr f" using t by (auto simp: result_simps)
      show "distinct t"
      proof (cases f)
        case True
        then show ?thesis using rec.IH [OF st _ _ cs c f] False s t f by auto
      qed (use t f s in simp)
    qed (rule rec.prems(2))
  qed
qed

lemma search_rel_edges: "search_rel h g dest rd pd \<subseteq> edge_rel g"
  by (auto simp: search_rel_def edge_rel_def)

lemma getNodesByNames_sub: "set (getNodesByNames g names) \<subseteq> nodes_of g"
proof -
  have "set (fold (\<lambda>name nodes. case map_of (dg_nodes g) name of None \<Rightarrow> nodes | Some r \<Rightarrow> set_add r nodes) names s)
      \<subseteq> set s \<union> nodes_of g" for s
  proof (induction names arbitrary: s)
    case (Cons n names)
    show ?case
    proof (cases "map_of (dg_nodes g) n")
      case None
      then show ?thesis using Cons.IH [of s] by simp
    next
      case (Some r)
      then have "r \<in> nodes_of g" by (force simp: nodes_of_def dest: map_of_SomeD)
      then show ?thesis using Cons.IH [of "set_add r s"] Some by auto
    qed
  qed simp
  then show ?thesis by (force simp: getNodesByNames_def)
qed

text \<open>
  Steps 2 to 7 as a whole. The subgraph contains the trigger and the destination and no disabled
  node; the run data that is kept belongs to nodes of the subgraph, and the stack holds nodes of
  the subgraph whose run data was removed.
\<close>

definition prepared ::
    "heap \<Rightarrow> DirectedGraph \<Rightarrow> noderef \<Rightarrow> noderef \<Rightarrow> IRunData \<Rightarrow> DirectedGraph \<Rightarrow> IRunData \<Rightarrow> exec_state \<Rightarrow> bool" where
  "prepared h g dest trig rd sub rd' st \<longleftrightarrow>
     wf_graph h sub \<and> {dest, trig} \<subseteq> nodes_of sub \<and>
     nodes_of sub \<subseteq> {r \<in> nodes_of g. \<not> is_disabled (h r)} \<and>
     (\<exists>K. rd' = filter (\<lambda>e. fst e \<notin> K \<and> hasNode sub (fst e)) rd) \<and>
     (\<forall>e \<in> set (nodeExecutionStack st). ed_node e \<in> nodes_of sub \<and>
        node_name (h (ed_node e)) \<notin> fst ` set rd')"

lemma start_entries_node: "start_entries h lc g rd pd n es \<Longrightarrow> e \<in> set es \<Longrightarrow> ed_node e = n"
  by (auto simp: start_entries_def group_entry_def list_all2_conv_all_nth in_set_conv_nth split: if_splits)

lemma cleaned_self: "n \<in> set ns \<Longrightarrow> node_name (h n) \<in> cleaned h g ns"
  by (auto simp: cleaned_def)

lemma prepare_graph_spec:
  assumes wf: "wf_graph h g" and nd: "\<And>c. c \<in> conns_of g \<Longrightarrow> dashless h c"
    and acy: "acyclic (inner (conns_of g) {r \<in> nodes_of g. is_disabled (h r)})"
    and rd: "readable h g rd"
    and nodes: "dest \<in> nodes_of g" "trig \<in> nodes_of g" "\<not> is_disabled (h dest)" "\<not> is_disabled (h trig)"
    and path: "(trig, dest) \<in> (main_edges (conns_of g))\<^sup>*"
  shows "\<exists>sub rd' st. prepare_graph h lc g dest trig rd pd dirty = Inr (sub, rd', st) \<and>
    prepared h g dest trig rd sub rd' st"
proof -
  define D where "D = {r \<in> nodes_of g. is_disabled (h r)}"
  obtain f where f: "filterDisabledNodes h g = Inr f" "wf_graph h f" "nodes_of f = nodes_of g - D"
      "conns_of f = outside (conns_of g) D"
    using filterDisabledNodes_routes [OF wf nd refl acy] by (auto simp: D_def outside_def)
  have df: "dest \<in> nodes_of f" "trig \<in> nodes_of f" using nodes f(3) by (auto simp: D_def)
  have pf: "(trig, dest) \<in> (main_edges (conns_of f))\<^sup>*"
    unfolding f(4) by (rule outside_path [OF path]) (use nodes in \<open>auto simp: D_def\<close>)
  obtain sub where sub: "findSubgraph h f dest trig = Inr sub" "subgraph_of h f sub"
      "conns_of sub = subgraph_conns f dest trig" "nodes_of sub = main_nodes f dest trig \<union> ends (subgraph_conns f dest trig)"
    using findSubgraph_spec [OF f(2) df] by blast
  have ws: "wf_graph h sub" and ns: "nodes_of sub \<subseteq> nodes_of f" and cs: "conns_of sub \<subseteq> conns_of f"
    using sub(2) by (auto simp: subgraph_of_def)
  have ends: "dest \<in> nodes_of sub" "trig \<in> nodes_of sub" using main_nodes_ends [OF pf] sub(4) by auto
  have src: "\<exists>d \<in> conns_of g. gc_from d = gc_from c \<and> gc_type d = gc_type c" if "c \<in> conns_of sub" for c
    using that cs f(4) routed_source [of "conns_of g" D c] by (auto simp: outside_def)
  let ?dirty = "getNodesByNames sub dirty"
  define rd1 where "rd1 = filter (\<lambda>e. fst e \<notin> cleaned h sub ?dirty \<and> hasNode sub (fst e)) rd"
  have c1: "cleanRunData h rd sub ?dirty = Inr rd1"
    unfolding rd1_def by (rule cleanRunData_drop [OF ws getNodesByNames_sub])
  have r1: "readable h sub rd1" by (rule readable_mono [OF rd _ src]) (auto simp: rd1_def)
  obtain sn where sn: "findStartNodes h sub trig dest pd rd1 = Inr sn"
    using findStartNodesRecursive_total [OF ws r1 ends(2)] unfolding findStartNodes_def by blast
  have dsn: "distinct sn"
    by (rule findStartNodesRecursive_distinct [OF sn [unfolded findStartNodes_def]]) simp
  have reach: "(trig, s) \<in> (edge_rel sub)\<^sup>*" if "s \<in> set sn" for s
    using that findStartNodes_set [OF sn] rtrancl_mono [OF search_rel_edges] by blast
  obtain cycles where cyc: "getStronglyConnectedComponents h sub = Inr cycles" "set (concat cycles) \<subseteq> nodes_of sub"
    using dg.components_spec [OF ws] by blast
  obtain sn' where sn': "handleCycles h sub sn trig = Inr sn'" "distinct sn'"
      "set sn' = enter_at h sub trig cycles ` set sn"
    using handleCycles_set [OF ws ends(2) cyc(1) dsn reach] by blast
  have in_sub: "set sn' \<subseteq> nodes_of sub"
  proof
    fix x assume "x \<in> set sn'"
    then obtain s where s: "s \<in> set sn" "x = enter_at h sub trig cycles s" unfolding sn'(3) by blast
    show "x \<in> nodes_of sub"
    proof (cases "x = s")
      case True
      then show ?thesis using dg.reach_nodes [OF ws ends(2) reach [OF s(1)]] by simp
    next
      case False
      then obtain S where S: "S \<in> set cycles" "s \<in> set S" "x = first_of h sub trig S"
        using enter_at_cases [of h sub trig cycles s] s(2) by auto
      obtain fr where fr: "depthFirstSearch h sub trig (\<lambda>n. n \<in> set S) = Inr (Some fr)" "fr \<in> set S"
        using dg.find_in_component [OF ws ends(2) cyc(1) S(1,2) reach [OF s(1)]] by blast
      then have "x = fr" using S(3) by (simp add: first_of_def)
      then show ?thesis using fr(2) S(1) cyc(2) by auto
    qed
  qed
  define rd2 where "rd2 = filter (\<lambda>e. fst e \<notin> cleaned h sub sn' \<and> hasNode sub (fst e)) rd1"
  have c2: "cleanRunData h rd1 sub sn' = Inr rd2" unfolding rd2_def by (rule cleanRunData_drop [OF ws in_sub])
  have r2: "readable h sub rd2" by (rule readable_mono [OF r1]) (auto simp: rd2_def)
  have en: "\<not> is_disabled (h n)" if "n \<in> nodes_of sub" for n using that ns f(3) by (auto simp: D_def)
  obtain st ess where st: "recreateNodeExecutionStack h lc sub sn' rd2 pd = Inr st"
      "nodeExecutionStack st = concat ess" "list_all2 (start_entries h lc sub rd2 pd) sn' ess"
    using recreateNodeExecutionStack_spec [OF ws r2 in_sub en] by blast
  have stack: "ed_node e \<in> set sn'" if "e \<in> set (nodeExecutionStack st)" for e
    using that st(2,3) start_entries_node
    by (fastforce simp: list_all2_conv_all_nth in_set_conv_nth [of _ ess] in_set_conv_nth [of _ sn'])
  have "prepare_graph h lc g dest trig rd pd dirty = Inr (sub, rd2, st)"
    using f(1) sub(1) c1 sn sn'(1) c2 st(1) by (simp add: prepare_graph_def)
  moreover have "prepared h g dest trig rd sub rd2 st"
  proof -
    have "rd2 = filter (\<lambda>e. fst e \<notin> cleaned h sub ?dirty \<union> cleaned h sub sn' \<and> hasNode sub (fst e)) rd"
      unfolding rd2_def rd1_def filter_filter by (rule filter_cong) auto
    then have K: "\<exists>K. rd2 = filter (\<lambda>e. fst e \<notin> K \<and> hasNode sub (fst e)) rd" by blast
    have gone: "node_name (h n) \<notin> fst ` set rd2" if "n \<in> set sn'" for n
      using cleaned_self [OF that] by (auto simp: rd2_def)
    show ?thesis unfolding prepared_def using ws ends ns f(3) en K stack gone in_sub by blast
  qed
  ultimately show ?thesis by blast
qed

section \<open>The whole preparation\<close>

text \<open>Names and types without dashes, and connections filed under their own type.\<close>

definition plain_workflow :: "heap \<Rightarrow> Workflow \<Rightarrow> bool" where
  "plain_workflow h w \<longleftrightarrow> list_all (\<lambda>r. no_dash (node_name (h r))) (vals (wf_nodes w)) \<and>
     list_all (\<lambda>(s, t, i, c). no_dash t \<and> conn_type c = t) (edges_of (connectionsBySourceNode w))"

definition workflow_conns :: "Workflow \<Rightarrow> GraphConnection list" where
  "workflow_conns w = map (graph_edge (getNode w)) (edges_of (connectionsBySourceNode w))"

lemma fromWorkflow_plain:
  assumes "wf_workflow h w" "plain_workflow h w"
  shows "\<exists>g. fromWorkflow h w = Inr g \<and> wf_graph h g \<and> nodes_of g = set (vals (wf_nodes w)) \<and>
    conns_of g = set (workflow_conns w) \<and> (\<forall>c \<in> conns_of g. dashless h c)"
proof -
  let ?L = "getNode w" and ?E = "set (edges_of (connectionsBySourceNode w))"
  obtain g where g: "fromWorkflow h w = Inr g" "wf_graph h g" "nodes_of g = set (vals (wf_nodes w))"
      "conns_of g \<subseteq> graph_edge ?L ` ?E"
      "inj_on (makeKey h) (graph_edge ?L ` ?E) \<longrightarrow> conns_of g = graph_edge ?L ` ?E"
    using fromWorkflow_spec [OF assms(1)] by blast
  have ends: "gc_from c \<in> nodes_of g \<and> gc_to c \<in> nodes_of g \<and> dashless h c" if image: "c \<in> graph_edge ?L ` ?E" for c
  proof -
    have "\<exists>s t i k. (s, t, i, k) \<in> ?E \<and> c = graph_edge ?L (s, t, i, k)"
    proof -
      obtain e where e: "e \<in> ?E" "c = graph_edge ?L e" using image by blast
      obtain s t i k where "e = (s, t, i, k)" by (rule prod_cases4)
      then show ?thesis using e by blast
    qed
    then obtain s t i k where e: "(s, t, i, k) \<in> ?E" "c = graph_edge ?L (s, t, i, k)"
      by blast
    have "s \<in> set (keys (connectionsBySourceNode w))"
      using e(1) unfolding in_edges_of by (force simp: keys_def)
    then obtain a where a: "?L s = Some a" using wf_workflowD(5) [OF assms(1)] by blast
    obtain b where b: "?L (conn_node k) = Some b" using wf_workflowD(6) [OF assms(1) e(1)] by blast
    have "a \<in> nodes_of g" "b \<in> nodes_of g" using getNode_in [OF a] getNode_in [OF b] g(3) by simp_all
    moreover have "no_dash (node_name (h a))" "no_dash t"
      using assms(2) e(1) calculation(1) g(3) unfolding plain_workflow_def list_all_iff by auto
    ultimately show ?thesis using e(2) a b by (simp add: graph_edge_def dashless_def)
  qed
  have "inj_on (makeKey h) (graph_edge ?L ` ?E)"
  proof (rule inj_onI)
    fix c d assume c: "c \<in> graph_edge ?L ` ?E" and d: "d \<in> graph_edge ?L ` ?E" and k: "makeKey h c = makeKey h d"
    show "c = d" by (rule makeKey_inj [OF g(2) k]) (use ends [OF c] ends [OF d] in auto)
  qed
  then show ?thesis using g ends by (auto simp: workflow_conns_def)
qed

text \<open>A parent of a node in the workflow lies on a main path to it in the graph.\<close>

lemma parent_path:
  assumes wf: "wf_workflow h w" "plain_workflow h w" and "p \<in> set (parents_of w n)" "getNode w p = Some a" "getNode w n = Some b"
  shows "(a, b) \<in> (main_edges (set (workflow_conns w)))\<^sup>*"
proof -
  let ?R = "nbr_rel (connectionsByDestinationNode w) (OfType Main)"
  let ?M = "main_edges (set (workflow_conns w))"
  have step: "(the (getNode w s), the (getNode w d)) \<in> ?M" if ds: "(d, s) \<in> ?R" for d s
  proof -
    obtain t i j where m: "mk_conn d Main j \<in> set (group_at (connectionsBySourceNode w) s t i)"
      using ds nbr_destination [OF wf(1)] by blast
    then have e: "(s, t, i, mk_conn d Main j) \<in> set (edges_of (connectionsBySourceNode w))"
      using edges_of_iff [OF wf_workflowD(3) [OF wf(1)]] by blast
    have "t = Main" using wf(2) e unfolding plain_workflow_def list_all_iff by (fastforce simp: mk_conn_def)
    moreover have "graph_edge (getNode w) (s, t, i, mk_conn d Main j) \<in> set (workflow_conns w)"
      using e unfolding workflow_conns_def by (metis image_eqI set_map)
    ultimately show ?thesis
      unfolding main_edges_def mem_Collect_eq
      by (intro exI [of _ "graph_edge (getNode w) (s, t, i, mk_conn d Main j)"]) (simp add: graph_edge_def mk_conn_def)
  qed
  obtain k where "(n, p) \<in> ?R ^^ k"
    using assms(3) by (auto simp: workflow_getParentNodes_def getParentNodes_def set_getConnectedNodes_top)
  then have "(n, p) \<in> ?R\<^sup>*" by (rule relpow_imp_rtrancl)
  then have "(the (getNode w p), the (getNode w n)) \<in> ?M\<^sup>*"
    by (induction rule: rtrancl_induct) (auto intro: converse_rtrancl_into_rtrancl step)
  then show ?thesis using assms(4,5) by simp
qed

lemma findTrigger_path:
  assumes "wf_workflow h w" "typed h nodeTypes w" "plain_workflow h w" "getNode w n = Some d"
    and "findTriggerForPartialExecution h nodeTypes w n rd = Inr (Some t)"
  shows "t \<in> set (vals (wf_nodes w)) \<and> \<not> is_disabled (h t) \<and> trigger_typed h nodeTypes t \<and>
    (t, d) \<in> (main_edges (set (workflow_conns w)))\<^sup>*"
proof (cases "trigger_typed h nodeTypes d \<and> \<not> is_disabled (h d)")
  case True
  then have "t = d" using assms(5) findTrigger_eq [OF assms(1,2,4)] by simp
  then show ?thesis using True getNode_in [OF assms(4)] by (simp del: vals_simps)
next
  case False
  then have "choose_trigger h w rd (triggers_above h nodeTypes w n) = Some t"
    using assms(5) unfolding findTrigger_eq [OF assms(1,2,4)] by (simp only: if_False sum.inject)
  then have "t \<in> set (triggers_above h nodeTypes w n)" using choose_trigger_best by blast
  then obtain p where p: "p \<in> set (parents_of w n)" "t = the (getNode w p)" "trigger_typed h nodeTypes t" "\<not> is_disabled (h t)"
    by (auto simp: triggers_above_def)
  obtain a where a: "getNode w p = Some a" using parent_is_node [OF assms(1) p(1)] by blast
  then have "t = a" using p(2) by simp
  then show ?thesis using parent_path [OF assms(1,3) p(1) a assms(4)] getNode_in [OF a] p(3,4) by blast
qed

lemma runPartialWorkflow2_spec:
  assumes w: "wf_workflow h w" "typed h nodeTypes w" "plain_workflow h w"
    and acy: "acyclic (inner (set (workflow_conns w)) {r \<in> set (vals (wf_nodes w)). is_disabled (h r)})"
    and g: "fromWorkflow h w = Inr g" "readable h g rd"
    and d: "getNode w (dn_nodeName dest) = Some d" "\<not> is_disabled (h d)"
    and tool: "type_of_node h nodeTypes d = Some nt" "\<not> isTool nt (parameters (h d))"
    and t: "findTriggerForPartialExecution h nodeTypes w (dn_nodeName dest) rd = Inr (Some t)"
  shows "\<exists>sub pr. runPartialWorkflow2 new h nodeTypes lc w rd pd dirty dest q = Inr pr \<and>
    prepared h g d t rd sub (pr_runData pr) (pr_stacks pr) \<and>
    pr_runNodeFilter pr = keys (dg_nodes sub) \<and> pr_heap pr = h \<and> pr_workflow pr = w \<and>
    pr_destinationNode pr = dest \<and>
    pr_currentNodeExecutionIndex pr = getNextExecutionIndex (pr_runData pr)"
proof -
  have G: "wf_graph h g" "nodes_of g = set (vals (wf_nodes w))" "conns_of g = set (workflow_conns w)"
      "\<And>c. c \<in> conns_of g \<Longrightarrow> dashless h c"
    using fromWorkflow_plain [OF w(1,3)] g(1) by auto
  note T = findTrigger_path [OF w d(1) t]
  obtain sub rd' st where s: "prepare_graph h lc g d t rd pd dirty = Inr (sub, rd', st)" "prepared h g d t rd sub rd' st"
    using prepare_graph_spec [OF G(1) G(4) _ g(2), of d t lc pd dirty] acy T d(2) getNode_in [OF d(1)] G(2,3)
    by auto
  have ws: "wf_graph h sub" using s(2) by (simp add: prepared_def)
  have "map (\<lambda>r. node_name (h r)) (vals (dg_nodes sub)) = keys (dg_nodes sub)"
    using wf_graphD(3) [OF ws] by (auto simp: vals_def keys_def)
  then show ?thesis using g(1) d(1) tool t s
    by (intro exI [of _ sub]) (simp add: runPartialWorkflow2_def trigger_or_parent_def getNodes_def)
qed

end
