(* ===== verification/Graph_Properties.thy ===== *)
theory Graph_Properties
  imports Handle_Cycles Connected_Nodes
begin

text \<open>
  The properties of the connection tables and of \<open>DirectedGraph\<close>, stated over the model's own
  definitions, with a sample graph on which the ones with hypotheses are applied.
\<close>

section \<open>Sample graphs\<close>

definition sample_node :: "string \<Rightarrow> INode" where
  "sample_node n = \<lparr>node_id = n, node_name = n, node_type = ''n8n-nodes-base.set'', typeVersion = 1,
     disabled = None, parameters = [], rewireOutputLogTo = None\<rparr>"

definition sample_heap :: heap where
  "sample_heap r = sample_node (show_nat r)"

definition sample_conn :: "noderef \<Rightarrow> noderef \<Rightarrow> GraphConnection" where
  "sample_conn a b = \<lparr>gc_from = a, gc_to = b, gc_type = Main, gc_output = 0, gc_input = 0\<rparr>"

definition sample_graph :: "noderef list \<Rightarrow> (noderef \<times> noderef) list \<Rightarrow> DirectedGraph" where
  "sample_graph ns es =
     fold (\<lambda>(a, b). set_connection sample_heap (sample_conn a b)) es
       (addNodes sample_heap ns newDirectedGraph)"

text \<open>A trigger 0 in front of the cycle 1, 2, 3, and a node 4 behind it.\<close>

definition loop_graph :: DirectedGraph where
  "loop_graph = sample_graph [0, 1, 2, 3, 4] [(0, 1), (1, 2), (2, 3), (3, 1), (3, 4)]"

lemma loop_graph_wf: "wf_graph sample_heap loop_graph"
  by code_simp

lemma loop_graph_nodes: "nodes_of loop_graph = {0, 1, 2, 3, 4}"
  by code_simp

section \<open>Connection tables\<close>

text \<open>
  C8: \<open>mapConnectionsByDestination\<close> is an involution up to order: inverting a connection table
  twice gives, for every node, connection type and output index, the same connections with the
  same multiplicities.
\<close>

theorem connections_inverse_twice:
  assumes "wf_conns C"
  shows "mset (group_at (mapConnectionsByDestination (mapConnectionsByDestination C)) s t i) =
    mset (group_at C s t i)"
  by (rule inverse_twice [OF assms])

definition sample_table :: IConnections where
  "sample_table =
     [(''A'', [(''main'', [Some [mk_conn ''B'' ''main'' 0, mk_conn ''C'' ''main'' 1], None,
        Some [mk_conn ''B'' ''main'' 0]])]),
      (''M'', [(''ai_tool'', [Some [mk_conn ''C'' ''ai_tool'' 0]])])]"

lemma connections_inverse_twice_witness:
  "wf_conns sample_table \<and>
   mset (group_at (mapConnectionsByDestination (mapConnectionsByDestination sample_table)) ''A'' ''main'' 2) =
     {# mk_conn ''B'' ''main'' 0 #}"
proof -
  have wf: "wf_conns sample_table" by code_simp
  have "group_at sample_table ''A'' ''main'' 2 = [mk_conn ''B'' ''main'' 0]" by code_simp
  then show ?thesis using wf connections_inverse_twice [OF wf, of "''A''" "''main''" 2] by simp
qed

text \<open>
  C9: \<open>getConnectedNodes\<close> returns exactly the other nodes at a distance of at most the given
  depth, over the connections of the given types; a negative depth is no bound. It does so
  although it copies the list of checked nodes at every call, and it returns on every table,
  cyclic or not.
\<close>

theorem getConnectedNodes_exact:
  "set (getConnectedNodes C n f depth []) =
     {x. x \<noteq> n \<and> (\<exists>k > 0. within_depth depth k \<and> (n, x) \<in> nbr_rel C f ^^ k)}"
  by (rule set_getConnectedNodes_top)

section \<open>Traversals\<close>

text \<open>
  C10: on a well-formed graph \<open>getChildren\<close> never fails an assertion and returns, without
  repetition, the nodes at the end of a non-empty path from the given node; the node itself is
  among them if and only if it lies on a cycle.
\<close>

theorem getChildren_descendants:
  assumes "wf_graph h g" "r \<in> nodes_of g"
  shows "\<exists>ch. getChildren h g r = Inr ch \<and> distinct ch \<and> set ch = {x. (r, x) \<in> (edge_rel g)\<^sup>+}"
  by (rule getChildren_spec [OF assms])

lemma getChildren_descendants_witness:
  "{x. (2, x) \<in> (edge_rel loop_graph)\<^sup>+} = {1, 2, 3, 4}"
proof -
  have "getChildren sample_heap loop_graph 2 = Inr [3, 1, 2, 4]" by code_simp
  then show ?thesis
    using getChildren_descendants [OF loop_graph_wf, of 2] by (auto simp: loop_graph_nodes)
qed

text \<open>
  C11: \<open>getStronglyConnectedComponents\<close> never fails an assertion on a well-formed graph; what it
  reports are disjoint non-empty sets of nodes of the graph whose members reach each other.
\<close>

theorem scc_sound:
  assumes "wf_graph h g"
  shows "\<exists>sccs. getStronglyConnectedComponents h g = Inr sccs \<and> distinct (concat sccs) \<and>
    set (concat sccs) \<subseteq> nodes_of g \<and>
    (\<forall>S \<in> set sccs. S \<noteq> [] \<and> (\<forall>x \<in> set S. \<forall>y \<in> set S. (x, y) \<in> (edge_rel g)\<^sup>*))"
  by (rule dg.components_spec [OF assms])

lemma scc_sound_witness:
  "{1, 2, 3} \<times> {1, 2, 3} \<subseteq> (edge_rel loop_graph)\<^sup>*"
proof -
  have "getStronglyConnectedComponents sample_heap loop_graph = Inr [[4], [3, 2, 1], [0]]" by code_simp
  then show ?thesis using scc_sound [OF loop_graph_wf] by auto
qed

text \<open>
  The algorithm is not complete: on this graph of two cycles that share a node it reports no
  component at all, although the three nodes form one.
\<close>

definition shared_cycles :: DirectedGraph where
  "shared_cycles = sample_graph [0, 1, 2] [(0, 1), (1, 2), (2, 1), (1, 0)]"

theorem scc_incomplete:
  "wf_graph sample_heap shared_cycles \<and>
   getStronglyConnectedComponents sample_heap shared_cycles = Inr [] \<and>
   getChildren sample_heap shared_cycles 0 = Inr [1, 2, 0]"
  by code_simp

text \<open>
  C12: \<open>handleCycles\<close> replaces every start node inside a reported component by the first node of
  that component in the depth-first order from the trigger and keeps every other start node,
  provided the trigger reaches the start nodes; no assertion fails and the result is a set.
\<close>

theorem handleCycles_entries:
  assumes "wf_graph h g" "trigger \<in> nodes_of g"
    and "getStronglyConnectedComponents h g = Inr cycles" "distinct startNodes"
    and "\<And>s. s \<in> set startNodes \<Longrightarrow> (trigger, s) \<in> (edge_rel g)\<^sup>*"
  shows "\<exists>sn. handleCycles h g startNodes trigger = Inr sn \<and> distinct sn \<and>
    set sn = enter_at h g trigger cycles ` set startNodes"
  by (rule handleCycles_set [OF assms])

lemma handleCycles_entries_witness:
  "\<exists>sn. handleCycles sample_heap loop_graph [3, 4] 0 = Inr sn \<and> set sn = {1, 4}"
proof -
  have ch: "getChildren sample_heap loop_graph 0 = Inr [1, 2, 3, 4]" by code_simp
  have "(0, s) \<in> (edge_rel loop_graph)\<^sup>*" if "s \<in> set [3, 4]" for s
    using dg.self_and_children [OF loop_graph_wf _ ch] that by (auto simp: loop_graph_nodes)
  moreover have "getStronglyConnectedComponents sample_heap loop_graph = Inr [[4], [3, 2, 1], [0]]"
    by code_simp
  moreover have "map (enter_at sample_heap loop_graph 0 [[4], [3, 2, 1], [0]]) [3, 4] = [1, 4]"
    by code_simp
  ultimately show ?thesis
    using handleCycles_entries [OF loop_graph_wf, of 0 _ "[3, 4]"] by (auto simp: loop_graph_nodes)
qed

end
