(* ===== verification/Partial_Execution_Properties.thy ===== *)
theory Partial_Execution_Properties
  imports Partial_Execution Graph_Properties
begin

text \<open>
  The properties of the functions that prepare a partial execution, and of their composition,
  with a sample workflow on which the ones with hypotheses are applied.
\<close>

section \<open>A sample workflow\<close>

text \<open>
  A manual trigger 0 in front of 1, the disabled node 2 and the destination 3; the tool 4
  serves node 3.
\<close>

definition flow_heap :: heap where
  "flow_heap r = (sample_heap r)
     \<lparr>node_type := if r = 0 then ''n8n-nodes-base.manualTrigger'' else ''n8n-nodes-base.set'',
      disabled := if r = 2 then Some True else None\<rparr>"

definition flow_types :: node_types where
  "flow_types t v = Some \<lparr>nt_name = t, nt_outputs = Some [OutputName Main],
     nt_group = (if t = ''n8n-nodes-base.manualTrigger'' then [''trigger''] else [''transform'']),
     nt_trigger = (t = ''n8n-nodes-base.manualTrigger''), nt_poll = False\<rparr>"

definition flow_conns :: IConnections where
  "flow_conns =
     [(''0'', [(Main, [Some [mk_conn ''1'' Main 0]])]), (''1'', [(Main, [Some [mk_conn ''2'' Main 0]])]),
      (''2'', [(Main, [Some [mk_conn ''3'' Main 0]])]), (''4'', [(AiTool, [Some [mk_conn ''3'' AiTool 0]])])]"

definition flow :: Workflow where
  "flow = newWorkflow flow_heap [0, 1, 2, 3, 4] flow_conns None"

definition flow_graph :: DirectedGraph where
  "flow_graph = projr (fromWorkflow flow_heap flow)"

definition flow_run :: ITaskData where
  "flow_run = \<lparr>executionIndex = Some 0, task_source = [], task_status = Some TaskSuccess, task_error = None,
     task_data = Some [(Main, [Some [empty_item]]), (AiTool, [Some [empty_item]])], task_inputOverride = None,
     task_metadata = None\<rparr>"

definition flow_data :: IRunData where
  "flow_data = [(''0'', [flow_run]), (''1'', [flow_run]), (''3'', [flow_run]), (''4'', [flow_run])]"

definition compare_length :: "string \<Rightarrow> string \<Rightarrow> int" where
  "compare_length a b = int (length a) - int (length b)"

lemma flow_wf: "wf_workflow flow_heap flow" "plain_workflow flow_heap flow" "typed flow_heap flow_types flow"
  by code_simp+

lemma flow_graph_eq: "fromWorkflow flow_heap flow = Inr flow_graph"
  by code_simp

lemma flow_graph_wf: "wf_graph flow_heap flow_graph" "readable flow_heap flow_graph flow_data"
  by code_simp+

lemma flow_graph_sets:
  "nodes_of flow_graph = {0, 1, 2, 3, 4}"
  "conns_of flow_graph = {sample_conn 0 1, sample_conn 1 2, sample_conn 2 3, plain_conn 4 3 AiTool}"
  "list_all (dashless flow_heap) (vals (dg_conns flow_graph))"
  "set (vals (wf_nodes flow)) = {0, 1, 2, 3, 4}"
  "set (workflow_conns flow) = {sample_conn 0 1, sample_conn 1 2, sample_conn 2 3, plain_conn 4 3 AiTool}"
  by code_simp+

lemma flow_disabled:
  "{r \<in> nodes_of flow_graph. is_disabled (flow_heap r)} = {2}"
  "inner (conns_of flow_graph) {2} = {}"
proof -
  have "is_disabled (flow_heap r) \<longleftrightarrow> r = 2" for r by (simp add: flow_heap_def is_disabled_def sample_heap_def sample_node_def)
  then show "{r \<in> nodes_of flow_graph. is_disabled (flow_heap r)} = {2}" by (auto simp: flow_graph_sets(1))
  show "inner (conns_of flow_graph) {2} = {}"
    unfolding inner_def flow_graph_sets(2) by (auto simp: sample_conn_def plain_conn_def)
qed

lemma flow_dashless: "c \<in> conns_of flow_graph \<Longrightarrow> dashless flow_heap c"
  using flow_graph_sets(3) by (simp add: list_all_iff conns_of_def del: vals_simps)

section \<open>The composition\<close>

text \<open>
  C13: the preparation of a partial execution succeeds for every enabled destination that is no tool and
  has a trigger, on every well-formed workflow without cycles of disabled nodes whose names and connection
  types have no dashes, whose connections lead to inputs of the type of their output, and whose run data
  can be read (for the conditions on cycles and names see Theorem \<open>disabled_cycle_dangles\<close> and Lemma
  \<open>connection_keys_collide\<close>): the subgraph it works on contains the trigger and the destination and no
  disabled node, the run filter lists exactly the nodes of the subgraph, only run data of its nodes is
  kept, and every node on the stack is one of it and has lost its run data.
\<close>

theorem partial_execution_prepared:
  assumes "wf_workflow h w" "typed h nodeTypes w" "plain_workflow h w"
    and "acyclic (inner (set (workflow_conns w)) {r \<in> set (vals (wf_nodes w)). is_disabled (h r)})"
    and "fromWorkflow h w = Inr g" "readable h g rd"
    and "getNode w (dn_nodeName dest) = Some d" "\<not> is_disabled (h d)"
    and "type_of_node h nodeTypes d = Some nt" "\<not> isTool nt (parameters (h d))"
    and "findTriggerForPartialExecution h nodeTypes w (dn_nodeName dest) rd = Inr (Some t)"
  shows "\<exists>sub pr. runPartialWorkflow2 new h nodeTypes lc w rd pd dirty dest q = Inr pr \<and>
    prepared h g d t rd sub (pr_runData pr) (pr_stacks pr) \<and>
    pr_runNodeFilter pr = keys (dg_nodes sub) \<and> pr_heap pr = h \<and> pr_workflow pr = w \<and>
    pr_destinationNode pr = dest \<and>
    pr_currentNodeExecutionIndex pr = getNextExecutionIndex (pr_runData pr)"
  by (rule runPartialWorkflow2_spec [OF assms])

definition flow_dest :: IDestinationNode where
  "flow_dest = \<lparr>dn_nodeName = ''3'', dn_mode = Inclusive\<rparr>"

lemma partial_execution_prepared_witness:
  "\<exists>pr sub. runPartialWorkflow2 9 flow_heap flow_types compare_length flow flow_data [] [''1''] flow_dest None = Inr pr \<and>
    pr_runNodeFilter pr = keys (dg_nodes sub) \<and> {3, 0} \<subseteq> nodes_of sub \<and> 2 \<notin> nodes_of sub"
proof -
  have a: "acyclic (inner (set (workflow_conns flow)) {r \<in> set (vals (wf_nodes flow)). is_disabled (flow_heap r)})"
    using flow_disabled flow_graph_sets by (simp add: acyclic_def del: vals_simps)
  have d: "getNode flow (dn_nodeName flow_dest) = Some 3" by code_simp
  have e: "\<not> is_disabled (flow_heap 3)" "is_disabled (flow_heap 2)" by code_simp+
  obtain nt where nt: "type_of_node flow_heap flow_types 3 = Some nt" "\<not> isTool nt (parameters (flow_heap 3))"
  proof
    show "type_of_node flow_heap flow_types 3 = Some (the (type_of_node flow_heap flow_types 3))" by code_simp
    show "\<not> isTool (the (type_of_node flow_heap flow_types 3)) (parameters (flow_heap 3))" by code_simp
  qed
  have t: "findTriggerForPartialExecution flow_heap flow_types flow (dn_nodeName flow_dest) flow_data = Inr (Some 0)"
    by code_simp
  obtain sub pr where "runPartialWorkflow2 9 flow_heap flow_types compare_length flow flow_data [] [''1''] flow_dest None = Inr pr"
      "prepared flow_heap flow_graph 3 0 flow_data sub (pr_runData pr) (pr_stacks pr)" "pr_runNodeFilter pr = keys (dg_nodes sub)"
    using partial_execution_prepared [OF flow_wf(1,3,2) a flow_graph_eq flow_graph_wf(2) d e(1) nt t] by blast
  then show ?thesis using e(2) by (intro exI [of _ pr] exI [of _ sub]) (auto simp: prepared_def)
qed

section \<open>Its parts\<close>

text \<open>
  C14: \<open>findTriggerForPartialExecution\<close> returns the destination if it is an enabled trigger, and
  otherwise one of the enabled triggers above it, preferring run data, then pinned data, then
  webhooks; it returns nothing only if there is none.
\<close>

theorem findTrigger_preferred:
  assumes "wf_workflow h w" "typed h nodeTypes w" "getNode w n = Some d"
  shows "\<exists>res. findTriggerForPartialExecution h nodeTypes w n rd = Inr res \<and>
    (if trigger_typed h nodeTypes d \<and> \<not> is_disabled (h d) then res = Some d
     else case res of
       None \<Rightarrow> triggers_above h nodeTypes w n = []
     | Some r \<Rightarrow> r \<in> set (triggers_above h nodeTypes w n) \<and>
         preferred h w rd r = Min (preferred h w rd ` set (triggers_above h nodeTypes w n)))"
proof (cases "trigger_typed h nodeTypes d \<and> \<not> is_disabled (h d)")
  case False
  let ?ts = "triggers_above h nodeTypes w n"
  have eq: "findTriggerForPartialExecution h nodeTypes w n rd = Inr (choose_trigger h w rd ?ts)"
    unfolding findTrigger_eq [OF assms] using False by (simp only: if_False)
  show ?thesis
  proof (cases "choose_trigger h w rd ?ts")
    case (Some r)
    then have "preferred h w rd r = Min (preferred h w rd ` set ?ts)"
      by (intro Min_eqI [symmetric]) (use choose_trigger_best [OF Some] in auto)
    then show ?thesis using eq False Some choose_trigger_best [OF Some] by auto
  next
    case None
    then have "?ts = []" using choose_trigger_None by blast
    then show ?thesis using eq False None by auto
  qed
qed (simp add: findTrigger_eq [OF assms])

lemma findTrigger_preferred_witness:
  "findTriggerForPartialExecution flow_heap flow_types flow ''3'' [] = Inr (Some 0)"
proof -
  have d: "getNode flow ''3'' = Some 3" "\<not> trigger_typed flow_heap flow_types 3" by code_simp+
  have t: "triggers_above flow_heap flow_types flow ''3'' = [0]" by code_simp
  show ?thesis
    using findTrigger_preferred [OF flow_wf(1,3) d(1), of "[]"] d(2) t by (auto split: option.splits)
qed

text \<open>
  C15: in a graph whose node names and connection types have no dashes and whose disabled nodes form no
  cycle, removing the disabled nodes keeps the other nodes and joins the main connections through
  them: the connections that are left are those of the graph and the ones that lead through
  disabled nodes only. Without them it can fail (Lemma \<open>connection_keys_collide\<close>, Theorem
  \<open>disabled_cycle_dangles\<close>).
\<close>

theorem filterDisabledNodes_joins:
  assumes "wf_graph h g" "\<And>c. c \<in> conns_of g \<Longrightarrow> dashless h c"
    and "D = {r \<in> nodes_of g. is_disabled (h r)}" "acyclic (inner (conns_of g) D)"
  shows "\<exists>g'. filterDisabledNodes h g = Inr g' \<and> wf_graph h g' \<and> nodes_of g' = nodes_of g - D \<and>
    conns_of g' = {c. routed (conns_of g) D c \<and> gc_from c \<notin> D \<and> gc_to c \<notin> D}"
  by (rule filterDisabledNodes_routes [OF assms])

lemma filterDisabledNodes_joins_witness:
  "\<exists>g'. filterDisabledNodes flow_heap flow_graph = Inr g' \<and> nodes_of g' = {0, 1, 3, 4} \<and>
    sample_conn 1 3 \<in> conns_of g'"
proof -
  let ?C = "conns_of flow_graph"
  have "routed ?C {2} (bypass (sample_conn 1 2) (sample_conn 2 3))"
    by (rule routed.via [OF routed.direct]) (simp_all add: flow_graph_sets(2) sample_conn_def)
  then have r: "routed ?C {2} (sample_conn 1 3)" by (simp add: bypass_def sample_conn_def)
  have acy: "acyclic (inner ?C {2})" using flow_disabled(2) by (simp add: acyclic_def)
  obtain g' where "filterDisabledNodes flow_heap flow_graph = Inr g'" "nodes_of g' = nodes_of flow_graph - {2}"
      "conns_of g' = {c. routed ?C {2} c \<and> gc_from c \<notin> {2} \<and> gc_to c \<notin> {2}}"
    using filterDisabledNodes_joins [OF flow_graph_wf(1) flow_dashless flow_disabled(1) [symmetric] acy] by blast
  then show ?thesis using r by (auto simp: flow_graph_sets(1) sample_conn_def)
qed

text \<open>
  On a cycle of disabled nodes the removal leaves connections to nodes that are gone, and
  the search for the subgraph fails its assertion.
\<close>

definition cyc_heap :: heap where
  "cyc_heap r = (sample_heap r)\<lparr>disabled := if r = 1 \<or> r = 2 then Some True else None\<rparr>"

definition cyc_graph :: DirectedGraph where
  "cyc_graph = sample_graph [0, 1, 2, 3] [(0, 1), (1, 2), (2, 1), (2, 3)]"

theorem disabled_cycle_dangles:
  "wf_graph cyc_heap cyc_graph \<and>
   (case filterDisabledNodes cyc_heap cyc_graph of
      Inl e \<Rightarrow> False
    | Inr g \<Rightarrow> \<not> wf_graph cyc_heap g \<and> findSubgraph cyc_heap g 3 0 = Inl AssertionError)"
  by code_simp

text \<open>
  C16: \<open>findSubgraph\<close> never fails an assertion and keeps exactly the connections on the main
  paths to the destination that start at the trigger or at a cycle, and the connections of the
  sub-nodes above the nodes of these paths.
\<close>

theorem findSubgraph_exact:
  assumes "wf_graph h g" "dest \<in> nodes_of g" "trig \<in> nodes_of g"
  shows "\<exists>s. findSubgraph h g dest trig = Inr s \<and> subgraph_of h g s \<and>
    conns_of s = subgraph_conns g dest trig \<and>
    nodes_of s = main_nodes g dest trig \<union> ends (subgraph_conns g dest trig)"
  by (rule findSubgraph_spec [OF assms])

lemma findSubgraph_exact_witness:
  "plain_conn 4 3 AiTool \<in> subgraph_conns flow_graph 3 0"
proof -
  have "case findSubgraph flow_heap flow_graph 3 0 of Inl e \<Rightarrow> False
      | Inr s \<Rightarrow> plain_conn 4 3 AiTool \<in> conns_of s" by code_simp
  then show ?thesis
    using findSubgraph_exact [OF flow_graph_wf(1), of 3 0] by (auto simp: flow_graph_sets(1))
qed

text \<open>
  C17: \<open>cleanRunData\<close> removes exactly the entries of the given nodes, of all nodes below them, of
  the sub-nodes connected anywhere above those, and of names that are no node of the graph.
\<close>

theorem cleanRunData_exact:
  assumes "wf_graph h g" "set ns \<subseteq> nodes_of g"
  shows "cleanRunData h rd g ns =
    Inr (filter (\<lambda>e. fst e \<notin> cleaned h g ns \<and> hasNode g (fst e)) rd)"
  by (rule cleanRunData_drop [OF assms])

lemma cleanRunData_exact_witness:
  "''4'' \<in> cleaned flow_heap flow_graph [2] \<and> ''1'' \<notin> cleaned flow_heap flow_graph [2]"
proof -
  have "cleanRunData flow_heap flow_data flow_graph [2] = Inr [(''0'', [flow_run]), (''1'', [flow_run])]"
    by code_simp
  then have kept: "filter (\<lambda>e. fst e \<notin> cleaned flow_heap flow_graph [2] \<and> hasNode flow_graph (fst e)) flow_data =
      [(''0'', [flow_run]), (''1'', [flow_run])]" (is "?f = _")
    using cleanRunData_exact [OF flow_graph_wf(1), of "[2]" flow_data] by (simp add: flow_graph_sets(1))
  have "(''1'', [flow_run]) \<in> set ?f" "(''4'', [flow_run]) \<notin> set ?f" unfolding kept by simp_all
  moreover have "(''4'', [flow_run]) \<in> set flow_data" by (simp add: flow_data_def)
  moreover have "hasNode flow_graph ''4''" by code_simp
  ultimately show ?thesis by auto
qed

text \<open>
  C18: on readable run data \<open>findStartNodes\<close> does not fail and returns, without repetition, the
  nodes that start here and are reached from the trigger through nodes that do not, along
  outputs with data.
\<close>

theorem findStartNodes_exact:
  assumes "wf_graph h g" "readable h g rd" "trigger \<in> nodes_of g"
  shows "\<exists>sn. findStartNodes h g trigger dest pd rd = Inr sn \<and> distinct sn \<and>
    set sn = {m. startsHere h g dest rd pd m = Inr True \<and> (trigger, m) \<in> (search_rel h g dest rd pd)\<^sup>*}"
proof -
  obtain sn where sn: "findStartNodes h g trigger dest pd rd = Inr sn"
    using findStartNodesRecursive_total [OF assms] unfolding findStartNodes_def by blast
  then show ?thesis
    using findStartNodesRecursive_distinct [of h g trigger dest rd pd "[]" "[]" sn] findStartNodes_set [OF sn]
    by (simp add: findStartNodes_def)
qed

lemma findStartNodes_exact_witness:
  "startsHere flow_heap flow_graph 3 flow_data [] 2 = Inr True \<and>
   (0, 2) \<in> (search_rel flow_heap flow_graph 3 flow_data [])\<^sup>*"
proof -
  have "findStartNodes flow_heap flow_graph 0 3 [] flow_data = Inr [2]" by code_simp
  moreover have "0 \<in> nodes_of flow_graph" by (simp add: flow_graph_sets(1))
  ultimately have "2 \<in> {m. startsHere flow_heap flow_graph 3 flow_data [] m = Inr True \<and>
      (0, m) \<in> (search_rel flow_heap flow_graph 3 flow_data [])\<^sup>*}"
    using findStartNodes_exact [OF flow_graph_wf, of 0 3 "[]"] by (metis list.set_intros(1) sum.inject(2))
  then show ?thesis by blast
qed

text \<open>
  C19: the groups of connections into a node partition the connections that have data or are of
  type main: a group holds connections of consecutive inputs, is complete exactly if all of them
  have data, and takes a connection without data only when none with data is left for its input.
\<close>

theorem getSourceDataGroups_grouping:
  "grouping (hasData h rd pd) (getSourceDataGroups h localeCompare g node rd pd) \<and>
   members (getSourceDataGroups h localeCompare g node rd pd) =
     mset (filter (\<lambda>c. hasData h rd pd c \<or> gc_type c = Main) (getConnections g (Some node)))"
  using getSourceDataGroups_spec [OF refl] by blast

text \<open>
  C20: on a graph without disabled nodes and readable run data \<open>recreateNodeExecutionStack\<close> does
  not fail; the stack holds one empty item for a start node without main connections, and
  otherwise one entry per complete group, with the data and the sources of its connections.
\<close>

theorem recreateNodeExecutionStack_exact:
  assumes "wf_graph h g" "readable h g rd" "set startNodes \<subseteq> nodes_of g"
    and "\<And>n. n \<in> nodes_of g \<Longrightarrow> \<not> is_disabled (h n)"
  shows "\<exists>st ess. recreateNodeExecutionStack h lc g startNodes rd pd = Inr st \<and>
    nodeExecutionStack st = concat ess \<and> list_all2 (start_entries h lc g rd pd) startNodes ess"
  by (rule recreateNodeExecutionStack_spec [OF assms])

definition pair_graph :: DirectedGraph where
  "pair_graph = sample_graph [0, 1] [(0, 1)]"

lemma recreateNodeExecutionStack_exact_witness:
  "start_entries flow_heap compare_length pair_graph flow_data [] 0
     [\<lparr>ed_node = 0, ed_data = [(Main, [Some [empty_item]])], ed_source = None, ed_runIndex = None, ed_metadata = None\<rparr>]"
proof -
  have wf: "wf_graph flow_heap pair_graph" "readable flow_heap pair_graph flow_data" by code_simp+
  have n: "nodes_of pair_graph = {0, 1}" by code_simp
  have en: "\<not> is_disabled (flow_heap r)" if "r \<in> nodes_of pair_graph" for r
    using that by (simp add: n flow_heap_def is_disabled_def sample_heap_def sample_node_def)
      (auto simp: is_disabled_def sample_heap_def sample_node_def)
  obtain st ess where s: "recreateNodeExecutionStack flow_heap compare_length pair_graph [0] flow_data [] = Inr st"
      "nodeExecutionStack st = concat ess" "list_all2 (start_entries flow_heap compare_length pair_graph flow_data []) [0] ess"
    using recreateNodeExecutionStack_exact [OF wf, of "[0]" compare_length "[]"] en n by auto
  then obtain es where es: "ess = [es]" "start_entries flow_heap compare_length pair_graph flow_data [] 0 es"
    by (auto simp: list_all2_Cons1)
  have "map_sum id nodeExecutionStack (recreateNodeExecutionStack flow_heap compare_length pair_graph [0] flow_data []) =
      Inr [\<lparr>ed_node = 0, ed_data = [(Main, [Some [empty_item]])], ed_source = None, ed_runIndex = None, ed_metadata = None\<rparr>]" by code_simp
  then show ?thesis using s(1,2) es by simp
qed

text \<open>
  Rewiring a tool replaces the last node below it by the tool executor, which gets the tool
  as its only tool and the main inputs of that node; all other nodes and connections stay, and no
  assertion fails.
\<close>

theorem rewireGraph_replaces:
  assumes "wf_graph h g" "tool \<in> nodes_of g" "new \<notin> nodes_of g"
    and "\<not> hasNode g TOOL_EXECUTOR_NODE_NAME" "\<And>c. c \<in> conns_of g \<Longrightarrow> dashless h c"
    and "getChildren h g tool = Inr ch" "ch \<noteq> []"
  shows "\<exists>h' g'. rewireGraph new h tool g q = Inr (h', g') \<and> wf_graph h' g' \<and>
    nodes_of g' = insert new (nodes_of g - {last ch}) \<and> conns_of g' = rewired_conns g tool (last ch) new \<and>
    node_name (h' new) = TOOL_EXECUTOR_NODE_NAME \<and> \<not> is_disabled (h' new) \<and>
    (\<forall>r \<in> nodes_of g. node_name (h' r) = node_name (h r) \<and> disabled (h' r) = disabled (h r))"
  by (rule rewireGraph_spec [OF assms])

lemma rewireGraph_replaces_witness:
  "\<exists>h' g'. rewireGraph 9 flow_heap 4 flow_graph None = Inr (h', g') \<and> nodes_of g' = {9, 0, 1, 2, 4} \<and>
    plain_conn 4 9 AiTool \<in> conns_of g' \<and> plain_conn 2 9 Main \<in> conns_of g'"
proof -
  have ch: "getChildren flow_heap flow_graph 4 = Inr [3]" by code_simp
  have name: "\<not> hasNode flow_graph TOOL_EXECUTOR_NODE_NAME" by code_simp
  have c: "sample_conn 2 3 \<in> conns_of flow_graph" by (simp add: flow_graph_sets(2))
  have "plain_conn (gc_from (sample_conn 2 3)) 9 Main \<in> rewired_conns flow_graph 4 3 9"
    unfolding rewired_conns_def using c
    by (intro UnI2 CollectI exI [of _ "sample_conn 2 3"] conjI refl) (simp_all add: sample_conn_def)
  then have "plain_conn 2 9 Main \<in> rewired_conns flow_graph 4 3 9" by (simp add: sample_conn_def)
  moreover have "plain_conn 4 9 AiTool \<in> rewired_conns flow_graph 4 3 9" by (simp add: rewired_conns_def)
  moreover have n: "insert 9 (nodes_of flow_graph - {3}) = {9, 0, 1, 2, 4}" "4 \<in> nodes_of flow_graph" "9 \<notin> nodes_of flow_graph"
    by (auto simp: flow_graph_sets(1))
  moreover obtain h' g' where "rewireGraph 9 flow_heap 4 flow_graph None = Inr (h', g')"
      "nodes_of g' = insert 9 (nodes_of flow_graph - {last [3]})" "conns_of g' = rewired_conns flow_graph 4 (last [3]) 9"
    using rewireGraph_replaces [OF flow_graph_wf(1) n(2,3) name flow_dashless ch] by blast
  ultimately show ?thesis by auto
qed

text \<open>
  The tool executor is connected to the first output of every input node, whatever output
  the replaced node was connected to.
\<close>

definition agent_graph :: DirectedGraph where
  "agent_graph = set_connection sample_heap (plain_conn 2 1 AiTool)
     (set_connection sample_heap ((sample_conn 0 1)\<lparr>gc_output := 1\<rparr>)
       (addNodes sample_heap [0, 1, 2] newDirectedGraph))"

lemma rewireGraph_drops_output:
  "wf_graph sample_heap agent_graph \<and>
   getConnections agent_graph (Some 1) = [(sample_conn 0 1)\<lparr>gc_output := 1\<rparr>, plain_conn 2 1 AiTool] \<and>
   map_sum id (\<lambda>x. getConnections (snd x) (Some 9)) (rewireGraph 9 sample_heap 2 agent_graph None) =
     Inr [plain_conn 2 9 AiTool, plain_conn 0 9 Main]"
  by code_simp

text \<open>
  Without a trigger a parent that has run data is taken as the start even if it is disabled,
  and the preparation then fails an assertion, since the disabled node is not in the filtered
  graph.
\<close>

definition headless :: Workflow where
  "headless = newWorkflow flow_heap [1, 2, 3, 4] (tl flow_conns) None"

lemma disabled_parent_fails:
  "wf_workflow flow_heap headless \<and>
   runPartialWorkflow2 9 flow_heap flow_types compare_length headless [(''2'', [flow_run])] [] [] flow_dest None =
     Inl AssertionError"
proof
  show "wf_workflow flow_heap headless" by code_simp
  have "map_sum id (\<lambda>_. ()) (runPartialWorkflow2 9 flow_heap flow_types compare_length headless [(''2'', [flow_run])] [] [] flow_dest None) =
      Inl AssertionError" by code_simp
  then show "runPartialWorkflow2 9 flow_heap flow_types compare_length headless [(''2'', [flow_run])] [] [] flow_dest None =
      Inl AssertionError"
    by (cases "runPartialWorkflow2 9 flow_heap flow_types compare_length headless [(''2'', [flow_run])] [] [] flow_dest None")
      simp_all
qed

text \<open>
  The keys of connections are not unique: of these two connections between different nodes,
  whose names contain dashes, the graph keeps only the second.
\<close>

definition dash_heap :: heap where
  "dash_heap r = sample_node (if r = 0 then ''a'' else if r = 1 then ''b-main-0-0-c''
     else if r = 2 then ''a-main-0-0-b'' else ''c'')"

lemma connection_keys_collide:
  "map_sum id (\<lambda>g. getConnections g None) (fromNodesAndConnections dash_heap [0, 1, 2, 3]
     [(''a'', [(Main, [Some [mk_conn ''b-main-0-0-c'' Main 0]])]),
      (''a-main-0-0-b'', [(Main, [Some [mk_conn ''c'' Main 0]])])]) =
   Inr [sample_conn 2 3]"
  by code_simp

end
