(* ===== verification/Graph_Selection.thy ===== *)
theory Graph_Selection
  imports Connections
begin

text \<open>
  \<open>packages/workflow/src/graph/graph-utils.ts\<close>: which selections of nodes can be extracted into a
  sub-workflow. A member of an adjacency \<open>Set\<close> is a connection object of the workflow, and two
  objects with equal fields are two members, so a set of connections is the list of its members.
\<close>

section \<open>Adjacency lists\<close>

type_synonym adjacency = "(string \<times> IConnection list) list"

definition adjacent :: "adjacency \<Rightarrow> string \<Rightarrow> IConnection list" where
  "adjacent adj n = (case map_of adj n of None \<Rightarrow> [] | Some cs \<Rightarrow> cs)"

definition addOrCreate :: "string \<Rightarrow> IConnection \<Rightarrow> adjacency \<Rightarrow> adjacency" where
  "addOrCreate k v adj = map_put k (adjacent adj k @ [v]) adj"

definition buildAdjacencyList :: "IConnections \<Rightarrow> adjacency" where
  "buildAdjacencyList connectionsBySourceNode =
     fold (\<lambda>(sourceNode, t, sourceIndex, connection). addOrCreate sourceNode connection)
       (edges_of connectionsBySourceNode) []"

lemma adjacent_addOrCreate:
  "adjacent (addOrCreate k v adj) n = adjacent adj n @ (if n = k then [v] else [])"
  by (simp add: adjacent_def addOrCreate_def map_put_of)

lemma adjacent_build:
  "adjacent (buildAdjacencyList C) n = map (\<lambda>(s, t, i, c). c) (filter (\<lambda>e. fst e = n) (edges_of C))"
proof -
  have "adjacent (fold (\<lambda>(s, t, i, c). addOrCreate s c) es adj) n =
      adjacent adj n @ map (\<lambda>(s, t, i, c). c) (filter (\<lambda>e. fst e = n) es)" for es adj
    by (induction es arbitrary: adj) (auto simp: adjacent_addOrCreate)
  from this [of "edges_of C" "[]"] show ?thesis
    by (simp add: buildAdjacencyList_def) (simp add: adjacent_def)
qed

lemma adjacent_build_iff:
  assumes "wf_conns C"
  shows "c \<in> set (adjacent (buildAdjacencyList C) n) \<longleftrightarrow> (\<exists>t i. c \<in> set (group_at C n t i))"
  using edges_of_iff [OF assms] by (force simp: adjacent_build)

lemma distinct_build: "distinct (keys (buildAdjacencyList C))"
proof -
  have "distinct (keys (fold (\<lambda>(s, t, i, c). addOrCreate s c) es adj))"
    if "distinct (keys adj)" for es :: "edge list" and adj :: adjacency
    using that by (induction es arbitrary: adj) (auto simp: addOrCreate_def map_put_distinct)
  then show ?thesis by (simp add: buildAdjacencyList_def)
qed

section \<open>Edges across the selection\<close>

definition getInputEdges :: "string list \<Rightarrow> adjacency \<Rightarrow> (string \<times> IConnection) list" where
  "getInputEdges graphIds adj =
     concat (map (\<lambda>(from, tos). if from \<in> set graphIds then []
       else map (Pair from) (filter (\<lambda>to. conn_node to \<in> set graphIds) tos)) adj)"

definition getOutputEdges :: "string list \<Rightarrow> adjacency \<Rightarrow> (string \<times> IConnection) list" where
  "getOutputEdges graphIds adj =
     concat (map (\<lambda>(from, tos). if from \<notin> set graphIds then []
       else map (Pair from) (filter (\<lambda>to. conn_node to \<notin> set graphIds) tos)) adj)"

definition intersection :: "'a list \<Rightarrow> 'a list \<Rightarrow> 'a list" where
  "intersection a b = fold (\<lambda>x r. if x \<in> set b then set_add x r else r) a []"

definition union :: "'a list \<Rightarrow> 'a list \<Rightarrow> 'a list" where
  "union a b = fold set_add b (fold set_add a [])"

definition difference :: "'a list \<Rightarrow> 'a list \<Rightarrow> 'a list" where
  "difference minuend subtrahend = fold set_delete subtrahend (set_of_list minuend)"

lemma intersection_props [simp]:
  "set (intersection a b) = set a \<inter> set b" "distinct (intersection a b)"
proof -
  have "set (fold (\<lambda>x r. if x \<in> set b then set_add x r else r) a r) = set r \<union> (set a \<inter> set b) \<and>
      (distinct r \<longrightarrow> distinct (fold (\<lambda>x r. if x \<in> set b then set_add x r else r) a r))" for r
    by (induction a arbitrary: r) auto
  then show "set (intersection a b) = set a \<inter> set b" "distinct (intersection a b)"
    by (simp_all add: intersection_def)
qed

lemma union_props [simp]: "set (union a b) = set a \<union> set b" "distinct (union a b)"
  by (simp_all add: union_def)

lemma difference_props [simp]:
  "set (difference a b) = set a - set b" "distinct (difference a b)"
proof -
  have "set (fold set_delete b r) = set r - set b \<and> (distinct r \<longrightarrow> distinct (fold set_delete b r))" for r
    by (induction b arbitrary: r) auto
  then show "set (difference a b) = set a - set b" "distinct (difference a b)"
    by (simp_all add: difference_def)
qed

definition main_targets :: "adjacency \<Rightarrow> string \<Rightarrow> string list" where
  "main_targets adj n = map conn_node (filter (\<lambda>x. conn_type x = Main) (adjacent adj n))"

definition other_targets :: "adjacency \<Rightarrow> string \<Rightarrow> string list" where
  "other_targets adj n = map conn_node (filter (\<lambda>x. conn_type x = Main \<and> conn_node x \<noteq> n) (adjacent adj n))"

definition getRootNodes :: "string list \<Rightarrow> adjacency \<Rightarrow> string list" where
  "getRootNodes graphIds adj =
     (let innerNodes = fold (\<lambda>nodeId innerNodes. union innerNodes (set_of_list (other_targets adj nodeId))) graphIds []
      in difference graphIds innerNodes)"

definition getLeafNodes :: "string list \<Rightarrow> adjacency \<Rightarrow> string list" where
  "getLeafNodes graphIds adj =
     fold (\<lambda>nodeId result.
       if length (intersection (set_of_list (other_targets adj nodeId)) graphIds) = 0
       then set_add nodeId result else result) graphIds []"

lemma set_getRootNodes:
  "set (getRootNodes ids adj) = {n \<in> set ids. \<forall>m \<in> set ids. n \<notin> set (other_targets adj m)}"
proof -
  have "set (fold (\<lambda>m inner. union inner (set_of_list (other_targets adj m))) ms inner) =
      set inner \<union> (\<Union>m \<in> set ms. set (other_targets adj m))" for ms inner
    by (induction ms arbitrary: inner) auto
  then show ?thesis by (auto simp: getRootNodes_def Let_def)
qed

lemma set_getLeafNodes:
  "set (getLeafNodes ids adj) = {n \<in> set ids. set (other_targets adj n) \<inter> set ids = {}}"
proof -
  have nil: "xs = [] \<longleftrightarrow> set xs = {}" for xs :: "string list" by simp
  have "set (fold (\<lambda>n r. if length (intersection (set_of_list (other_targets adj n)) ids) = 0
      then set_add n r else r) ms r) = set r \<union> {n \<in> set ms. set (other_targets adj n) \<inter> set ids = {}}" for ms r
    by (induction ms arbitrary: r) (auto simp: nil)
  then show ?thesis by (simp add: getLeafNodes_def)
qed

section \<open>Paths\<close>

text \<open>
  The worklist of \<open>hasPath\<close> can hold a node several times, and a node that is popped again is
  expanded again. The loop ends because what is pushed had not been seen: an entry weighs more
  than all that popping it can push.
\<close>

fun weight :: "nat \<Rightarrow> nat \<Rightarrow> nat" where
  "weight k 0 = 1"
| "weight k (Suc u) = Suc (k * weight k u)"

definition all_targets :: "adjacency \<Rightarrow> string list" where
  "all_targets adj = concat (map (\<lambda>(n, cs). map conn_node cs) adj)"

definition load :: "adjacency \<Rightarrow> string list \<Rightarrow> string list \<Rightarrow> nat" where
  "load adj paths seen =
     (let k = length (all_targets adj); u = card (set (all_targets adj) \<union> set paths - set seen)
      in sum_list (map (\<lambda>x. weight k (if x \<in> set seen then Suc u else u)) paths))"

lemma weight_mono: "u \<le> v \<Longrightarrow> weight k u \<le> weight k v"
proof (induction v arbitrary: u)
  case (Suc v)
  show ?case
  proof (cases u)
    case (Suc w)
    then have "weight k w \<le> weight k v" using Suc.IH Suc.prems by simp
    then show ?thesis using Suc by simp
  qed simp
qed simp

lemma main_targets_sub: "set (main_targets adj n) \<subseteq> set (all_targets adj)"
proof -
  have "cs = adjacent adj n \<Longrightarrow> set (map conn_node cs) \<subseteq> set (all_targets adj)" for cs
    by (fastforce simp: adjacent_def all_targets_def split: option.splits dest: map_of_SomeD)
  then show ?thesis by (force simp: main_targets_def)
qed

lemma length_difference_targets:
  "length (difference (set_of_list (main_targets adj n)) seen) \<le> length (all_targets adj)"
proof -
  have "length (difference (set_of_list (main_targets adj n)) seen) =
      card (set (difference (set_of_list (main_targets adj n)) seen))"
    by (simp add: distinct_card del: difference_props(1))
  also have "\<dots> \<le> card (set (all_targets adj))"
    using main_targets_sub [of adj n] by (intro card_mono) auto
  finally show ?thesis using card_length [of "all_targets adj"] by simp
qed

lemma load_step:
  "load adj (paths @ difference (set_of_list (main_targets adj n)) (set_add n seen)) (set_add n seen) <
    load adj (paths @ [n]) seen"
proof -
  define d where "d = difference (set_of_list (main_targets adj n)) (set_add n seen)"
  define k where "k = length (all_targets adj)"
  define V where "V = set (all_targets adj)"
  define u where "u = card (V \<union> set (paths @ [n]) - set seen)"
  define u' where "u' = card (V \<union> set (paths @ d) - set (set_add n seen))"
  have dV: "set d \<subseteq> V" "set d \<inter> set (set_add n seen) = {}" "length d \<le> k"
    using main_targets_sub [of adj n] length_difference_targets [of adj n "set_add n seen"]
    by (auto simp: d_def V_def k_def)
  have sub: "V \<union> set (paths @ d) - set (set_add n seen) \<subseteq> V \<union> set (paths @ [n]) - set seen - {n}"
    using dV(1) by auto
  have fin: "finite V" by (simp add: V_def)
  have u: "u' \<le> u" unfolding u_def u'_def by (rule card_mono) (use sub fin in auto)
  have less: "Suc u' \<le> u" if "n \<notin> set seen"
  proof -
    have "u' \<le> card (V \<union> set (paths @ [n]) - set seen - {n})"
      unfolding u'_def by (rule card_mono [OF _ sub]) (simp add: fin)
    also have "\<dots> < u" unfolding u_def using that by (intro psubset_card_mono) (auto simp: fin)
    finally show ?thesis by simp
  qed
  let ?w' = "\<lambda>x. weight k (if x \<in> set (set_add n seen) then Suc u' else u')"
  let ?w = "\<lambda>x. weight k (if x \<in> set seen then Suc u else u)"
  have old: "?w' x \<le> ?w x" for x
    by (rule weight_mono) (use u less in auto)
  have "map ?w' d = map (\<lambda>_. weight k u') d" by (rule map_cong) (use dV(2) in auto)
  then have "sum_list (map ?w' d) = sum_list (map (\<lambda>_. weight k u') d)" by (simp only:)
  also have "\<dots> = length d * weight k u'" by (simp add: sum_list_triv)
  also have "\<dots> \<le> k * weight k u'" by (rule mult_right_mono [OF dV(3)]) simp
  also have "\<dots> < weight k (Suc u')" by simp
  also have "\<dots> \<le> ?w n" by (rule weight_mono) (use u less in auto)
  finally have new: "sum_list (map ?w' d) < ?w n" .
  have "sum_list (map ?w' paths) \<le> sum_list (map ?w paths)" using old by (rule sum_list_mono)
  then have "sum_list (map ?w' (paths @ d)) < sum_list (map ?w (paths @ [n]))" using new by simp
  then show ?thesis
    unfolding load_def Let_def d_def [symmetric] k_def [symmetric] V_def [symmetric]
      u_def [symmetric] u'_def [symmetric] .
qed

text \<open>\<open>paths.pop()\<close> takes the last entry.\<close>

function path_loop :: "adjacency \<Rightarrow> string \<Rightarrow> string list \<Rightarrow> string list \<Rightarrow> bool" where
  "path_loop adj goal [] seen = False"
| "path_loop adj goal (p # ps) seen =
     (let last_node = last (p # ps); paths = butlast (p # ps) in
      if last_node = goal then True
      else path_loop adj goal
        (paths @ difference (set_of_list (main_targets adj last_node)) (set_add last_node seen)) (set_add last_node seen))"
  by pat_completeness auto
termination
proof (relation "measure (\<lambda>(adj, goal, paths, seen). load adj paths seen)", goal_cases)
  case 1
  then show ?case by simp
next
  case (2 adj goal p ps seen last_node paths)
  have "p # ps = paths @ [last_node]" using 2(1,2) by simp
  then show ?case using load_step [of adj paths last_node seen] by simp
qed

definition hasPath :: "string \<Rightarrow> string \<Rightarrow> adjacency \<Rightarrow> bool" where
  "hasPath start goal adj = path_loop adj goal [start] []"

definition main_rel :: "adjacency \<Rightarrow> (string \<times> string) set" where
  "main_rel adj = {(a, b). b \<in> set (main_targets adj a)}"

lemma path_loop_spec:
  assumes "\<And>a b. a \<in> set seen \<Longrightarrow> (a, b) \<in> main_rel adj \<Longrightarrow> b \<in> set seen \<union> set paths" "goal \<notin> set seen"
  shows "path_loop adj goal paths seen \<longleftrightarrow> (\<exists>x \<in> set paths. (x, goal) \<in> (main_rel adj)\<^sup>*)"
  using assms
proof (induction adj goal paths seen rule: path_loop.induct [case_names Nil Cons])
  case (Nil adj goal seen)
  then show ?case by simp
next
  case (Cons adj goal p ps seen)
  let ?R = "main_rel adj"
  define n where "n = last (p # ps)"
  define rest where "rest = butlast (p # ps)"
  define d where "d = difference (set_of_list (main_targets adj n)) (set_add n seen)"
  have pp: "p # ps = rest @ [n]" by (simp add: n_def rest_def)
  have split: "set (p # ps) = insert n (set rest)" unfolding pp by auto
  have step: "path_loop adj goal (p # ps) seen \<longleftrightarrow> n = goal \<or> path_loop adj goal (rest @ d) (set_add n seen)"
    unfolding n_def rest_def d_def by (simp add: Let_def)
  show ?case
  proof (cases "n = goal")
    case True
    then show ?thesis unfolding step split by auto
  next
    case False
    have closed: "b \<in> set (set_add n seen) \<union> set (rest @ d)" if "a \<in> set (set_add n seen)" "(a, b) \<in> ?R" for a b
    proof (cases "a = n")
      case True
      then show ?thesis using that(2) by (auto simp: d_def main_rel_def)
    next
      case False
      then show ?thesis using that Cons.prems(1) [of a b] split by auto
    qed
    have goal: "goal \<notin> set (set_add n seen)" using False Cons.prems(2) by simp
    have IH: "path_loop adj goal (rest @ d) (set_add n seen) \<longleftrightarrow> (\<exists>x \<in> set (rest @ d). (x, goal) \<in> ?R\<^sup>*)"
      unfolding d_def
    proof (rule Cons.IH [OF n_def rest_def False])
      show "b \<in> set (set_add n seen) \<union> set (rest @ difference (set_of_list (main_targets adj n)) (set_add n seen))"
        if "a \<in> set (set_add n seen)" "(a, b) \<in> ?R" for a b
        using closed [OF that] by (simp add: d_def)
    qed (rule goal)
    have "(\<exists>x \<in> set (rest @ d). (x, goal) \<in> ?R\<^sup>*) \<longleftrightarrow> (\<exists>x \<in> insert n (set rest). (x, goal) \<in> ?R\<^sup>*)"
    proof
      assume "\<exists>x \<in> insert n (set rest). (x, goal) \<in> ?R\<^sup>*"
      then obtain x where x: "x \<in> insert n (set rest)" "(x, goal) \<in> ?R\<^sup>*" by blast
      have "x \<in> set (set_add n seen) \<union> set (rest @ d)" using x(1) by auto
      then show "\<exists>x \<in> set (rest @ d). (x, goal) \<in> ?R\<^sup>*"
        by (rule frontier_reaches [OF x(2) _ goal closed])
    next
      assume "\<exists>x \<in> set (rest @ d). (x, goal) \<in> ?R\<^sup>*"
      then obtain x where x: "x \<in> set rest \<or> x \<in> set d" "(x, goal) \<in> ?R\<^sup>*" by auto
      have "(n, x) \<in> ?R" if "x \<in> set d" using that by (auto simp: d_def main_rel_def)
      then show "\<exists>x \<in> insert n (set rest). (x, goal) \<in> ?R\<^sup>*"
        using x by (meson converse_rtrancl_into_rtrancl insertCI)
    qed
    then show ?thesis unfolding step split IH using False by blast
  qed
qed

lemma hasPath_iff: "hasPath start goal adj \<longleftrightarrow> (start, goal) \<in> (main_rel adj)\<^sup>*"
  using path_loop_spec [of "[]" adj "[start]" goal] by (simp add: hasPath_def)

section \<open>Parsing a selection\<close>

datatype ExtractableErrorResult =
    MultipleInputNodes "string list"
  | MultipleOutputNodes "string list"
  | InputEdgeToNonRootNode string
  | OutputEdgeFromNonLeafNode string
  | NoContinuousPathFromRootToLeaf string string

definition first_of_set :: "string list \<Rightarrow> string option" where
  "first_of_set s = (case s of [] \<Rightarrow> None | x # _ \<Rightarrow> Some x)"

definition truthy :: "string option \<Rightarrow> bool" where
  "truthy x \<longleftrightarrow> x \<noteq> None \<and> x \<noteq> Some []"

definition inputNodes_of :: "string list \<Rightarrow> adjacency \<Rightarrow> string list" where
  "inputNodes_of graphIds adj =
     set_of_list (map (\<lambda>x. conn_node (snd x)) (filter (\<lambda>x. conn_type (snd x) = Main) (getInputEdges graphIds adj)))"

definition outputNodes_of :: "string list \<Rightarrow> adjacency \<Rightarrow> string list" where
  "outputNodes_of graphIds adj =
     set_of_list (map fst (filter (\<lambda>x. conn_type (snd x) = Main) (getOutputEdges graphIds adj)))"

text \<open>A failed parse returns the list of its errors, a successful one the optional ends.\<close>

definition parseExtractableSubgraphSelection ::
    "string list \<Rightarrow> adjacency \<Rightarrow> ExtractableErrorResult list + (string option \<times> string option)" where
  "parseExtractableSubgraphSelection graphIds adj =
     (let inputNodes = inputNodes_of graphIds adj;
          rootNodes0 = getRootNodes graphIds adj;
          rootNodes = (if length rootNodes0 = 0 \<and> length inputNodes = 1 then inputNodes else rootNodes0);
          errors1 = map InputEdgeToNonRootNode (difference inputNodes rootNodes);
          rootInputNodes = intersection rootNodes inputNodes;
          errors2 = (if length rootInputNodes > 1 then [MultipleInputNodes rootInputNodes] else []);
          outputNodes = outputNodes_of graphIds adj;
          leafNodes0 = getLeafNodes graphIds adj;
          leafNodes = (if length leafNodes0 = 0 \<and> length outputNodes = 1 then outputNodes else leafNodes0);
          errors3 = map OutputEdgeFromNonLeafNode (difference outputNodes leafNodes);
          leafOutputNodes = intersection leafNodes outputNodes;
          errors4 = (if length leafOutputNodes > 1 then [MultipleOutputNodes leafOutputNodes] else []);
          start = first_of_set rootInputNodes;
          goal = first_of_set leafOutputNodes;
          errors5 = (if truthy start \<and> truthy goal \<and> \<not> hasPath (the start) (the goal) adj
            then [NoContinuousPathFromRootToLeaf (the start) (the goal)] else []);
          errors = errors1 @ errors2 @ errors3 @ errors4 @ errors5
      in if length errors > 0 then Inl errors else Inr (start, goal))"

text \<open>Main connections that enter or leave the selection.\<close>

lemma adjacent_entry:
  "distinct (keys adj) \<Longrightarrow> (n, cs) \<in> set adj \<Longrightarrow> adjacent adj n = cs"
  by (simp add: adjacent_def keys_def)

lemma adjacent_member: "c \<in> set (adjacent adj n) \<Longrightarrow> (n, adjacent adj n) \<in> set adj"
  by (auto simp: adjacent_def split: option.splits dest: map_of_SomeD)

lemma entry_iff:
  assumes "distinct (keys adj)"
  shows "c \<in> set (adjacent adj a) \<longleftrightarrow> (\<exists>cs. (a, cs) \<in> set adj \<and> c \<in> set cs)"
  using adjacent_entry [OF assms] adjacent_member [of c adj a] by auto

lemma main_rel_iff:
  "(a, b) \<in> main_rel adj \<longleftrightarrow> (\<exists>c. c \<in> set (adjacent adj a) \<and> conn_type c = Main \<and> conn_node c = b)"
  by (auto simp: main_rel_def main_targets_def)

lemma in_input_edges:
  assumes "distinct (keys adj)"
  shows "(a, c) \<in> set (getInputEdges ids adj) \<longleftrightarrow> c \<in> set (adjacent adj a) \<and> a \<notin> set ids \<and> conn_node c \<in> set ids"
  unfolding entry_iff [OF assms] getInputEdges_def by auto

lemma in_output_edges:
  assumes "distinct (keys adj)"
  shows "(a, c) \<in> set (getOutputEdges ids adj) \<longleftrightarrow> c \<in> set (adjacent adj a) \<and> a \<in> set ids \<and> conn_node c \<notin> set ids"
  unfolding entry_iff [OF assms] getOutputEdges_def by auto

lemma main_edges_image:
  "x \<in> f ` {e \<in> set es. conn_type (snd e) = Main} \<longleftrightarrow> (\<exists>a c. (a, c) \<in> set es \<and> conn_type c = Main \<and> x = f (a, c))"
  by (auto simp: image_iff Bex_def)

lemma set_inputNodes:
  assumes "distinct (keys adj)"
  shows "set (inputNodes_of ids adj) = {b. \<exists>a. (a, b) \<in> main_rel adj \<and> a \<notin> set ids \<and> b \<in> set ids}"
proof (rule set_eqI)
  fix b
  have "b \<in> set (inputNodes_of ids adj) \<longleftrightarrow>
      (\<exists>a c. (a, c) \<in> set (getInputEdges ids adj) \<and> conn_type c = Main \<and> b = conn_node (snd (a, c)))"
    by (simp only: inputNodes_of_def set_of_list_simps set_map set_filter
        main_edges_image [of b "\<lambda>x. conn_node (snd x)"])
  then show "b \<in> set (inputNodes_of ids adj) \<longleftrightarrow> b \<in> {b. \<exists>a. (a, b) \<in> main_rel adj \<and> a \<notin> set ids \<and> b \<in> set ids}"
    unfolding in_input_edges [OF assms] by (simp add: main_rel_iff) blast
qed

lemma set_outputNodes:
  assumes "distinct (keys adj)"
  shows "set (outputNodes_of ids adj) = {a. \<exists>b. (a, b) \<in> main_rel adj \<and> a \<in> set ids \<and> b \<notin> set ids}"
proof (rule set_eqI)
  fix x
  have "x \<in> set (outputNodes_of ids adj) \<longleftrightarrow>
      (\<exists>a c. (a, c) \<in> set (getOutputEdges ids adj) \<and> conn_type c = Main \<and> x = fst (a, c))"
    by (simp only: outputNodes_of_def set_of_list_simps set_map set_filter main_edges_image [of x fst])
  then show "x \<in> set (outputNodes_of ids adj) \<longleftrightarrow> x \<in> {a. \<exists>b. (a, b) \<in> main_rel adj \<and> a \<in> set ids \<and> b \<notin> set ids}"
    unfolding in_output_edges [OF assms] by (simp add: main_rel_iff) blast
qed

lemma at_most_one:
  assumes "length (intersection r i) \<le> 1" "set (difference i r) = {}" "x \<in> set i"
  shows "first_of_set (intersection r i) = Some x"
proof -
  have m: "x \<in> set (intersection r i)" using assms(2,3) by auto
  then obtain y ys where "intersection r i = y # ys" by (cases "intersection r i") auto
  then show ?thesis using m assms(1) by (auto simp: first_of_set_def)
qed

text \<open>A path between two selected nodes stays inside if the selection is entered at its start only.\<close>

lemma path_inside:
  assumes "(s, x) \<in> R\<^sup>*" "s \<in> S" "\<And>a b. (a, b) \<in> R \<Longrightarrow> a \<notin> S \<Longrightarrow> b \<in> S \<Longrightarrow> b = s" "x \<in> S"
  shows "(s, x) \<in> (R \<inter> S \<times> S)\<^sup>*"
proof -
  have "y \<in> S \<longrightarrow> (s, y) \<in> (R \<inter> S \<times> S)\<^sup>*" if "(s, y) \<in> R\<^sup>*" for y
    using that
  proof (induction rule: rtrancl_induct)
    case (step y z)
    show ?case
    proof (intro impI)
      assume z: "z \<in> S"
      show "(s, z) \<in> (R \<inter> S \<times> S)\<^sup>*"
      proof (cases "y \<in> S")
        case True
        then show ?thesis using step z by (auto intro: rtrancl_into_rtrancl)
      next
        case False
        then show ?thesis using assms(3) [OF step.hyps(2) False z] by simp
      qed
    qed
  qed simp
  then show ?thesis using assms(1,4) by blast
qed

lemma no_errors:
  assumes "(if length (a @ b @ c @ d @ e) > 0 then Inl (a @ b @ c @ d @ e) else Inr x) = Inr y"
  shows "a = []" "b = []" "c = []" "d = []" "e = []" "y = x"
  using assms by (simp_all split: if_splits)

lemma parse_ok:
  assumes "distinct (keys adj)" "parseExtractableSubgraphSelection ids adj = Inr (start, goal)"
  shows "(a, b) \<in> main_rel adj \<Longrightarrow> a \<notin> set ids \<Longrightarrow> b \<in> set ids \<Longrightarrow> start = Some b"
    "(a, b) \<in> main_rel adj \<Longrightarrow> a \<in> set ids \<Longrightarrow> b \<notin> set ids \<Longrightarrow> goal = Some a"
    "start = Some s \<Longrightarrow> s \<in> set ids" "goal = Some e \<Longrightarrow> e \<in> set ids"
    "start = Some s \<Longrightarrow> goal = Some e \<Longrightarrow> s \<noteq> [] \<Longrightarrow> e \<noteq> [] \<Longrightarrow>
      (s, e) \<in> (main_rel adj \<inter> set ids \<times> set ids)\<^sup>*"
proof -
  let ?i = "inputNodes_of ids adj" and ?ou = "outputNodes_of ids adj"
  obtain r where r: "r = (if length (getRootNodes ids adj) = 0 \<and> length ?i = 1 then ?i else getRootNodes ids adj)" by simp
  obtain l where l: "l = (if length (getLeafNodes ids adj) = 0 \<and> length ?ou = 1 then ?ou else getLeafNodes ids adj)" by simp
  let ?s = "first_of_set (intersection r ?i)" and ?e = "first_of_set (intersection l ?ou)"
  have parts: "map InputEdgeToNonRootNode (difference ?i r) = []"
    "(if length (intersection r ?i) > 1 then [MultipleInputNodes (intersection r ?i)] else []) = []"
    "map OutputEdgeFromNonLeafNode (difference ?ou l) = []"
    "(if length (intersection l ?ou) > 1 then [MultipleOutputNodes (intersection l ?ou)] else []) = []"
    "(if truthy ?s \<and> truthy ?e \<and> \<not> hasPath (the ?s) (the ?e) adj
      then [NoContinuousPathFromRootToLeaf (the ?s) (the ?e)] else []) = []" "(start, goal) = (?s, ?e)"
    using assms(2) unfolding parseExtractableSubgraphSelection_def Let_def r [symmetric] l [symmetric]
    by (rule no_errors)+
  have res: "set (difference ?i r) = {}" "length (intersection r ?i) \<le> 1" "set (difference ?ou l) = {}"
    "length (intersection l ?ou) \<le> 1" "start = ?s" "goal = ?e"
    "truthy start \<Longrightarrow> truthy goal \<Longrightarrow> hasPath (the start) (the goal) adj"
    using parts(1) parts(2) parts(3) parts(4) parts(6) parts(5)
    by (simp_all del: difference_props intersection_props split: if_splits)
  show start: "start = Some b" if "(a, b) \<in> main_rel adj" "a \<notin> set ids" "b \<in> set ids" for a b
    unfolding res(5) by (rule at_most_one [OF res(2,1)]) (use set_inputNodes [OF assms(1)] that in auto)
  show "goal = Some a" if "(a, b) \<in> main_rel adj" "a \<in> set ids" "b \<notin> set ids"
    unfolding res(6) by (rule at_most_one [OF res(4,3)]) (use set_outputNodes [OF assms(1)] that in auto)
  have sub: "x \<in> set xs" if "first_of_set xs = Some x" for x xs
    using that by (auto simp: first_of_set_def split: list.splits)
  show s: "s \<in> set ids" if "start = Some s" for s
    using sub [OF that [unfolded res(5)]] set_inputNodes [OF assms(1)] by auto
  show e: "e \<in> set ids" if "goal = Some e" for e
    using sub [OF that [unfolded res(6)]] set_outputNodes [OF assms(1)] by auto
  show "(s, e) \<in> (main_rel adj \<inter> set ids \<times> set ids)\<^sup>*"
    if "start = Some s" "goal = Some e" "s \<noteq> []" "e \<noteq> []"
  proof (rule path_inside)
    show "(s, e) \<in> (main_rel adj)\<^sup>*" using res(7) that by (simp add: truthy_def hasPath_iff)
    show "s \<in> set ids" "e \<in> set ids" using s e that by auto
    show "b = s" if "(a, b) \<in> main_rel adj" "a \<notin> set ids" "b \<in> set ids" for a b
      using start [OF that] \<open>start = Some s\<close> by simp
  qed
qed

end
