(* ===== verification/Workflow_Search.thy ===== *)
theory Workflow_Search
  imports Workflow_Model
begin

text \<open>
  The breadth-first searches of \<open>Workflow\<close>: \<open>searchNodesBFS\<close> goes level by level and is specified
  by the distance from its source; \<open>getNodeConnectionIndexes\<close> stops at the first connection from
  the parent node.
\<close>

section \<open>searchNodesBFS\<close>

record IConnectedNode =
  cn_name :: string
  cn_indicies :: "nat list"
  cn_depth :: nat

definition dedupe :: "'a list \<Rightarrow> 'a list" where
  "dedupe arr = set_of_list arr"

definition main_conns :: "IConnections \<Rightarrow> string \<Rightarrow> IConnection list" where
  "main_conns connections n = concat (map group_list (type_conns (node_conns connections n) Main))"

text \<open>
  \<open>visited\<close> maps names to the node objects that \<open>returnConns\<close> shares, so the list of visited
  nodes in insertion order stands for both.
\<close>

definition bfs_visit ::
    "IConnections \<Rightarrow> nat \<Rightarrow> IConnectedNode \<Rightarrow> IConnectedNode list \<times> IConnectedNode list \<Rightarrow>
     IConnectedNode list \<times> IConnectedNode list" where
  "bfs_visit connections depth node st = (case st of (visited, queue) \<Rightarrow>
     if cn_name node \<in> cn_name ` set visited
     then (map (\<lambda>v. if cn_name v = cn_name node
         then v\<lparr>cn_indicies := dedupe (cn_indicies v @ cn_indicies node)\<rparr> else v) visited, queue)
     else (visited @ [node],
       queue @ map (\<lambda>c. \<lparr>cn_name = conn_node c, cn_indicies = [conn_index c], cn_depth = depth\<rparr>)
         (main_conns connections (cn_name node))))"

definition bfs_level ::
    "IConnections \<Rightarrow> nat \<Rightarrow> IConnectedNode list \<Rightarrow> IConnectedNode list \<Rightarrow>
     IConnectedNode list \<times> IConnectedNode list" where
  "bfs_level connections depth toAdd visited = fold (bfs_visit connections depth) toAdd (visited, [])"

definition conn_targets :: "IConnections \<Rightarrow> string set" where
  "conn_targets C = (\<Union>(n, obj) \<in> set C. conn_node ` set (main_conns C n))"

lemma finite_conn_targets [simp]: "finite (conn_targets C)"
  by (auto simp: conn_targets_def)

lemma main_conns_targets: "conn_node ` set (main_conns C n) \<subseteq> conn_targets C"
proof (cases "n \<in> fst ` set C")
  case True
  then show ?thesis by (force simp: conn_targets_def)
next
  case False
  then have "map_of C n = None" by (simp add: map_of_eq_None_iff)
  then show ?thesis by (simp add: main_conns_def node_conns_def type_conns_def)
qed

text \<open>What a level does to the names and depths.\<close>

abbreviation dated :: "IConnectedNode \<Rightarrow> string \<times> nat" where
  "dated e \<equiv> (cn_name e, cn_depth e)"

definition successors :: "IConnections \<Rightarrow> nat \<Rightarrow> string \<Rightarrow> IConnectedNode list" where
  "successors C d n = map (\<lambda>c. \<lparr>cn_name = conn_node c, cn_indicies = [conn_index c], cn_depth = d\<rparr>) (main_conns C n)"

lemma bfs_visit_cases:
  assumes "bfs_visit C d t (v, q) = (v1, q1)"
  shows "cn_name t \<in> cn_name ` set v \<Longrightarrow> map dated v1 = map dated v \<and> q1 = q"
    "cn_name t \<notin> cn_name ` set v \<Longrightarrow> v1 = v @ [t] \<and> q1 = q @ successors C d (cn_name t)"
  using assms by (auto simp: bfs_visit_def successors_def)

lemma names_of_dated: "map dated v = map dated w \<Longrightarrow> map cn_name v = map cn_name w"
proof -
  assume "map dated v = map dated w"
  then have "map fst (map dated v) = map fst (map dated w)" by simp
  then show ?thesis by (simp add: comp_def)
qed

definition level_result ::
    "IConnections \<Rightarrow> nat \<Rightarrow> IConnectedNode list \<Rightarrow> IConnectedNode list \<Rightarrow> IConnectedNode list \<Rightarrow>
     IConnectedNode list \<Rightarrow> IConnectedNode list \<Rightarrow> bool" where
  "level_result C d ts v q v' q' \<longleftrightarrow>
     set (map cn_name v') = set (map cn_name v) \<union> set (map cn_name ts) \<and>
     set q' = set q \<union> (\<Union>n \<in> set (map cn_name ts) - set (map cn_name v). set (successors C d n)) \<and>
     set (map dated v') \<subseteq> set (map dated v) \<union> {dated e | e. e \<in> set ts \<and> cn_name e \<notin> set (map cn_name v)} \<and>
     set (map dated v) \<subseteq> set (map dated v') \<and>
     (distinct (map cn_name v) \<longrightarrow> distinct (map cn_name v'))"

lemma bfs_fold_names:
  assumes "fold (bfs_visit C d) ts (v, q) = (v', q')"
  shows "level_result C d ts v q v' q'"
  using assms
proof (induction ts arbitrary: v q)
  case Nil
  then show ?case by (simp add: level_result_def)
next
  case (Cons t ts)
  obtain v1 q1 where st: "bfs_visit C d t (v, q) = (v1, q1)" by fastforce
  have IH: "level_result C d ts v1 q1 v' q'" using Cons st by simp
  show ?case
  proof (cases "cn_name t \<in> cn_name ` set v")
    case True
    then have d: "map dated v1 = map dated v" "q1 = q" using bfs_visit_cases(1) [OF st] by auto
    have n: "map cn_name v1 = map cn_name v" by (rule names_of_dated [OF d(1)])
    have "cn_name t \<in> set (map cn_name v)" using True by auto
    then have i: "insert (cn_name t) (set (map cn_name v) \<union> X) = set (map cn_name v) \<union> X"
      "insert (cn_name t) X - set (map cn_name v) = X - set (map cn_name v)" for X by blast+
    have e: "{dated e |e. e \<in> insert t (set ts) \<and> cn_name e \<notin> set (map cn_name v)} =
        {dated e |e. e \<in> set ts \<and> cn_name e \<notin> set (map cn_name v)}" using True by auto
    show ?thesis
      using IH [unfolded level_result_def n d]
      unfolding level_result_def e list.map list.set Un_insert_right i .
  next
    case False
    then have "v1 = v @ [t]" "q1 = q @ successors C d (cn_name t)" using bfs_visit_cases(2) [OF st] by auto
    then have v: "set (map cn_name v1) = insert (cn_name t) (set (map cn_name v))"
        "set (map dated v1) = insert (dated t) (set (map dated v))"
        "set q1 = set q \<union> set (successors C d (cn_name t))"
        "distinct (map cn_name v) \<Longrightarrow> distinct (map cn_name v1)"
      using False by auto
    have t: "cn_name t \<notin> set (map cn_name v)" using False by simp
    from IH have r: "set (map cn_name v') = set (map cn_name v1) \<union> set (map cn_name ts)"
      "set q' = set q1 \<union> (\<Union>n \<in> set (map cn_name ts) - set (map cn_name v1). set (successors C d n))"
      "set (map dated v') \<subseteq> set (map dated v1) \<union> {dated e | e. e \<in> set ts \<and> cn_name e \<notin> set (map cn_name v1)}"
      "set (map dated v1) \<subseteq> set (map dated v')"
      "distinct (map cn_name v1) \<Longrightarrow> distinct (map cn_name v')"
      unfolding level_result_def by blast+
    have "set (map cn_name (t # ts)) - set (map cn_name v) =
        insert (cn_name t) (set (map cn_name ts) - set (map cn_name v1))" unfolding v(1) using t by auto
    then have "set q' = set q \<union> (\<Union>n \<in> set (map cn_name (t # ts)) - set (map cn_name v). set (successors C d n))"
      unfolding r(2) v(3) by (simp only: UN_insert Un_assoc)
    moreover have "set (map dated v') \<subseteq> set (map dated v) \<union>
        {dated e | e. e \<in> set (t # ts) \<and> cn_name e \<notin> set (map cn_name v)}"
    proof -
      have "{dated e | e. e \<in> set ts \<and> cn_name e \<notin> set (map cn_name v1)} \<subseteq>
          {dated e | e. e \<in> set (t # ts) \<and> cn_name e \<notin> set (map cn_name v)}" unfolding v(1) by auto
      moreover have "dated t \<in> {dated e | e. e \<in> set (t # ts) \<and> cn_name e \<notin> set (map cn_name v)}" using t by auto
      ultimately show ?thesis using r(3) unfolding v(2) by blast
    qed
    moreover have "set (map dated v) \<subseteq> set (map dated v')" using r(4) v(2) by blast
    moreover have "set (map cn_name v') = set (map cn_name v) \<union> set (map cn_name (t # ts))"
      unfolding r(1) v(1) by simp
    ultimately show ?thesis unfolding level_result_def using r(5) v(4) by blast
  qed
qed

lemma bfs_levelD:
  assumes "bfs_level C d ts v = (v', q')"
  shows "set (map cn_name v') = set (map cn_name v) \<union> set (map cn_name ts)"
    "set q' = (\<Union>n \<in> set (map cn_name ts) - set (map cn_name v). set (successors C d n))"
    "set (map dated v') \<subseteq> set (map dated v) \<union> {dated e | e. e \<in> set ts \<and> cn_name e \<notin> set (map cn_name v)}"
    "set (map dated v) \<subseteq> set (map dated v')"
    "distinct (map cn_name v) \<Longrightarrow> distinct (map cn_name v')"
  using bfs_fold_names [OF assms [unfolded bfs_level_def]] by (simp_all add: level_result_def)

lemma successors_names: "cn_name ` set (successors C d n) = conn_node ` set (main_conns C n)"
  by (force simp: successors_def)

function bfs_loop ::
    "IConnections \<Rightarrow> int \<Rightarrow> nat \<Rightarrow> IConnectedNode list \<Rightarrow> IConnectedNode list \<Rightarrow> IConnectedNode list" where
  "bfs_loop connections maxDepth depth queue visited =
     (if length queue = 0 then visited
      else if maxDepth \<noteq> -1 \<and> int depth > maxDepth then visited
      else let (visited', queue') = bfs_level connections (depth + 1) queue visited in
        bfs_loop connections maxDepth (depth + 1) queue' visited')"
  by pat_completeness auto
termination
proof (relation "measure (\<lambda>(C, m, d, q, v).
    2 * card (cn_name ` set q \<union> conn_targets C - cn_name ` set v) + (if q = [] then 0 else 1))", goal_cases)
  case 1
  then show ?case by simp
next
  case (2 C m d q v st v' q')
  have f: "bfs_level C (d + 1) q v = (v', q')" using 2(3,4) by simp
  note n = bfs_levelD [OF f]
  have sub: "cn_name ` set q' \<subseteq> conn_targets C"
    using main_conns_targets [of C] successors_names [of C "d + 1"] unfolding n(2) by blast
  have n1: "cn_name ` set v' = cn_name ` set v \<union> cn_name ` set q" using n(1) by simp
  define a where "a = card (cn_name ` set q \<union> conn_targets C - cn_name ` set v)"
  define b where "b = card (cn_name ` set q' \<union> conn_targets C - cn_name ` set v')"
  have q: "q \<noteq> []" using 2(1) by simp
  have "2 * b + (if q' = [] then 0 else 1) < 2 * a + (if q = [] then 0 else (1 :: nat))"
  proof (cases "cn_name ` set q \<subseteq> cn_name ` set v")
    case True
    then have "set (map cn_name q) - set (map cn_name v) = {}" by auto
    then have "q' = []" using n(2) by (metis UN_empty set_empty)
    moreover have "b \<le> a" unfolding a_def b_def
    proof (rule card_mono)
      show "cn_name ` set q' \<union> conn_targets C - cn_name ` set v' \<subseteq> cn_name ` set q \<union> conn_targets C - cn_name ` set v"
        using n1 \<open>q' = []\<close> by simp blast
    qed simp
    ultimately show ?thesis using q by simp
  next
    case False
    then obtain x where x: "x \<in> cn_name ` set q" "x \<notin> cn_name ` set v" by blast
    have "b < a" unfolding a_def b_def
    proof (rule psubset_card_mono [OF _ psubsetI])
      show "cn_name ` set q' \<union> conn_targets C - cn_name ` set v' \<subseteq> cn_name ` set q \<union> conn_targets C - cn_name ` set v"
        unfolding n1 using sub by (intro Diff_mono) auto
      have "x \<in> cn_name ` set q \<union> conn_targets C - cn_name ` set v"
        "x \<notin> cn_name ` set q' \<union> conn_targets C - cn_name ` set v'"
        unfolding n1 using x by simp_all
      then show "cn_name ` set q' \<union> conn_targets C - cn_name ` set v' \<noteq> cn_name ` set q \<union> conn_targets C - cn_name ` set v"
        by metis
    qed simp
    then show ?thesis using q by simp
  qed
  then show ?case by (simp add: a_def b_def)
qed

declare bfs_loop.simps [simp del]

definition searchNodesBFS :: "IConnections \<Rightarrow> string \<Rightarrow> int \<Rightarrow> IConnectedNode list" where
  "searchNodesBFS connections sourceNode maxDepth =
     filter (\<lambda>v. cn_name v \<noteq> sourceNode)
       (bfs_loop connections maxDepth 0 [\<lparr>cn_name = sourceNode, cn_indicies = [], cn_depth = 0\<rparr>] [])"

definition getParentNodesByDepth :: "Workflow \<Rightarrow> string \<Rightarrow> int \<Rightarrow> IConnectedNode list" where
  "getParentNodesByDepth w nodeName maxDepth =
     searchNodesBFS (connectionsByDestinationNode w) nodeName maxDepth"

section \<open>Distances\<close>

definition distance :: "IConnections \<Rightarrow> string \<Rightarrow> string \<Rightarrow> nat \<Rightarrow> bool" where
  "distance C s x k \<longleftrightarrow> (s, x) \<in> nbr_rel C (OfType Main) ^^ k \<and>
     (\<forall>j < k. (s, x) \<notin> nbr_rel C (OfType Main) ^^ j)"

lemma main_nbr: "(a, b) \<in> nbr_rel C (OfType Main) \<longleftrightarrow> b \<in> conn_node ` set (main_conns C a)"
  by (auto simp: nbr_rel_def neighbours_def filter_types_def group_nodes_def main_conns_def)

lemma distance_unique: "distance C s x j \<Longrightarrow> distance C s x k \<Longrightarrow> j = k"
  unfolding distance_def by (metis linorder_neqE_nat)

lemma distance_exists:
  assumes "(s, x) \<in> nbr_rel C (OfType Main) ^^ k"
  shows "\<exists>j \<le> k. distance C s x j"
proof -
  let ?P = "\<lambda>j. (s, x) \<in> nbr_rel C (OfType Main) ^^ j"
  have "?P (LEAST j. ?P j)" using assms by (rule LeastI)
  moreover have "(LEAST j. ?P j) \<le> k" using assms by (rule Least_le)
  moreover have "\<not> ?P i" if "i < (LEAST j. ?P j)" for i using that by (rule not_less_Least)
  ultimately show ?thesis unfolding distance_def by blast
qed

lemma distance_Suc:
  assumes "distance C s x (Suc k)"
  obtains y where "distance C s y k" "(y, x) \<in> nbr_rel C (OfType Main)"
proof -
  let ?R = "nbr_rel C (OfType Main)"
  obtain y where y: "(s, y) \<in> ?R ^^ k" "(y, x) \<in> ?R" using assms by (auto simp: distance_def)
  have "(s, y) \<notin> ?R ^^ j" if "j < k" for j
  proof
    assume "(s, y) \<in> ?R ^^ j"
    then have "(s, x) \<in> ?R ^^ Suc j" using y(2) by auto
    then show False using assms that unfolding distance_def by blast
  qed
  then show thesis using that y unfolding distance_def by blast
qed

lemma distance_gap:
  assumes "distance C s x k" "d \<le> k"
  shows "\<exists>y. distance C s y d"
  using assms
proof (induction k arbitrary: x)
  case (Suc k)
  then show ?case by (metis distance_Suc le_Suc_eq)
qed auto

definition bfs_inv ::
    "IConnections \<Rightarrow> string \<Rightarrow> nat \<Rightarrow> IConnectedNode list \<Rightarrow> IConnectedNode list \<Rightarrow> bool" where
  "bfs_inv C s d q v \<longleftrightarrow> distinct (map cn_name v) \<and>
     set (map cn_name v) = {x. \<exists>k < d. distance C s x k} \<and>
     (\<forall>e \<in> set v. distance C s (cn_name e) (cn_depth e)) \<and>
     (\<forall>e \<in> set q. cn_depth e = d \<and> (s, cn_name e) \<in> nbr_rel C (OfType Main) ^^ d) \<and>
     {x. distance C s x d} \<subseteq> set (map cn_name q)"

lemma bfs_invD:
  assumes "bfs_inv C s d q v"
  shows "distinct (map cn_name v)" "set (map cn_name v) = {x. \<exists>k < d. distance C s x k}"
    "e \<in> set v \<Longrightarrow> distance C s (cn_name e) (cn_depth e)"
    "e \<in> set q \<Longrightarrow> cn_depth e = d" "e \<in> set q \<Longrightarrow> (s, cn_name e) \<in> nbr_rel C (OfType Main) ^^ d"
    "distance C s x d \<Longrightarrow> x \<in> set (map cn_name q)"
  using assms unfolding bfs_inv_def by blast+

lemma bfs_inv_step:
  assumes inv: "bfs_inv C s d q v" and level: "bfs_level C (d + 1) q v = (v', q')"
  shows "bfs_inv C s (d + 1) q' v'"
proof -
  note i = bfs_invD [OF inv] and l = bfs_levelD [OF level]
  let ?R = "nbr_rel C (OfType Main)"
  have near: "\<exists>k \<le> d. distance C s (cn_name e) k" if "e \<in> set q" for e
    using distance_exists [OF i(5) [OF that]] by blast
  have exact: "distance C s x d" if "x \<in> set (map cn_name q) - set (map cn_name v)" for x
  proof -
    have "x \<in> cn_name ` set q" using that by simp
    then obtain e where e: "e \<in> set q" "x = cn_name e" by blast
    obtain k where k: "k \<le> d" "distance C s x k" using near [OF e(1)] e(2) by blast
    have "\<not> k < d" using that k(2) unfolding i(2) by blast
    then show ?thesis using k by (simp add: le_less)
  qed
  have "set (map cn_name v') = {x. \<exists>k < d + 1. distance C s x k}"
  proof -
    have "x \<in> set (map cn_name q) \<Longrightarrow> \<exists>k < d + 1. distance C s x k" for x
      using near by (auto simp: less_Suc_eq_le)
    moreover have "x \<in> set (map cn_name v) \<or> x \<in> set (map cn_name q)" if "k < d + 1" "distance C s x k" for x k
      using that i(2) i(6) [of x] by (cases "k = d") auto
    moreover have "\<exists>k < d + 1. distance C s x k" if "x \<in> set (map cn_name v)" for x
      using that unfolding i(2) by (auto intro: less_SucI)
    ultimately show ?thesis unfolding l(1) by blast
  qed
  moreover have "distance C s (cn_name e) (cn_depth e)" if "e \<in> set v'" for e
  proof -
    have "dated e \<in> set (map dated v')" using that by simp
    then consider f where "f \<in> set v" "dated e = dated f"
      | f where "f \<in> set q" "cn_name f \<notin> set (map cn_name v)" "dated e = dated f"
      using l(3) by auto
    then show ?thesis
    proof cases
      case 1
      then show ?thesis using i(3) by auto
    next
      case 2
      then have "distance C s (cn_name f) d" using exact by simp
      then show ?thesis using 2 i(4) by simp
    qed
  qed
  moreover have "cn_depth e = d + 1 \<and> (s, cn_name e) \<in> ?R ^^ (d + 1)" if e: "e \<in> set q'" for e
  proof -
    obtain n where n: "n \<in> set (map cn_name q) - set (map cn_name v)" "e \<in> set (successors C (d + 1) n)"
      using e unfolding l(2) by blast
    then have "cn_depth e = d + 1" "(n, cn_name e) \<in> ?R"
      using successors_names [of C "d + 1" n] by (auto simp: successors_def main_nbr)
    moreover have "(s, n) \<in> ?R ^^ d" using exact [OF n(1)] by (simp add: distance_def)
    ultimately show ?thesis by auto
  qed
  moreover have "x \<in> set (map cn_name q')" if x: "distance C s x (d + 1)" for x
  proof -
    obtain y where y: "distance C s y d" "(y, x) \<in> ?R" by (rule distance_Suc [OF x [simplified]])
    have "y \<in> set (map cn_name q) - set (map cn_name v)"
      using i(6) [OF y(1)] distance_unique [OF y(1)] unfolding i(2) by blast
    moreover have "x \<in> cn_name ` set (successors C (d + 1) y)"
      using y(2) by (simp add: successors_names main_nbr)
    ultimately show ?thesis using l(2) by auto
  qed
  ultimately show ?thesis using l(5) [OF i(1)] unfolding bfs_inv_def by blast
qed

lemma dated_visited:
  assumes "bfs_inv C s d q v"
  shows "set (map dated v) = {(x, k). distance C s x k \<and> k < d}"
proof -
  note i = bfs_invD [OF assms]
  have "k < d" if "e \<in> set v" "distance C s (cn_name e) k" for e k
  proof -
    have "cn_name e \<in> set (map cn_name v)" using that(1) by simp
    then obtain j where "j < d" "distance C s (cn_name e) j" unfolding i(2) by blast
    then show ?thesis using distance_unique [OF that(2)] by blast
  qed
  moreover have "(x, k) \<in> dated ` set v" if "distance C s x k" "k < d" for x k
  proof -
    have "x \<in> set (map cn_name v)" using that unfolding i(2) by blast
    then obtain e where "e \<in> set v" "x = cn_name e" by auto
    then show ?thesis using i(3) distance_unique [OF that(1)] by force
  qed
  ultimately show ?thesis using i(3) by auto
qed

lemma bfs_loop_spec:
  assumes "bfs_inv C s d q v" "m \<noteq> -1 \<longrightarrow> int d \<le> m + 1"
  shows "distinct (map cn_name (bfs_loop C m d q v)) \<and>
    set (map dated (bfs_loop C m d q v)) = {(x, k). distance C s x k \<and> (m \<noteq> -1 \<longrightarrow> int k \<le> m)}"
  using assms
proof (induction C m d q v rule: bfs_loop.induct [case_names loop])
  case (loop C m d q v)
  note i = bfs_invD [OF loop.prems(1)] and u = bfs_loop.simps [of C m d q v]
  consider (empty) "q = []" | (deep) "q \<noteq> []" "m \<noteq> -1" "int d > m" | (level) "q \<noteq> []" "\<not> (m \<noteq> -1 \<and> int d > m)"
    by blast
  then show ?case
  proof cases
    case empty
    have "k < d" if "distance C s x k" for x k
      using distance_gap [OF that, of d] i(6) empty by (cases "k < d") auto
    then have "{(x, k). distance C s x k \<and> k < d} = {(x, k). distance C s x k \<and> (m \<noteq> -1 \<longrightarrow> int k \<le> m)}"
      using loop.prems(2) by force
    then show ?thesis unfolding u using i(1) dated_visited [OF loop.prems(1)] empty by simp
  next
    case deep
    have "{(x, k). distance C s x k \<and> k < d} = {(x, k). distance C s x k \<and> (m \<noteq> -1 \<longrightarrow> int k \<le> m)}"
      using loop.prems(2) deep by auto
    then show ?thesis unfolding u using i(1) dated_visited [OF loop.prems(1)] deep by simp
  next
    case level
    obtain v' q' where l: "bfs_level C (d + 1) q v = (v', q')" by fastforce
    have "bfs_loop C m d q v = bfs_loop C m (d + 1) q' v'"
      using level l unfolding u by auto
    moreover have "distinct (map cn_name (bfs_loop C m (d + 1) q' v')) \<and>
        set (map dated (bfs_loop C m (d + 1) q' v')) = {(x, k). distance C s x k \<and> (m \<noteq> -1 \<longrightarrow> int k \<le> m)}"
    proof (rule loop.IH)
      show "length q \<noteq> 0" using level(1) by simp
      show "\<not> (m \<noteq> -1 \<and> m < int d)" using level(2) by simp
      show "bfs_inv C s (d + 1) q' v'" by (rule bfs_inv_step [OF loop.prems(1) l])
      show "m \<noteq> -1 \<longrightarrow> int (d + 1) \<le> m + 1" using level(2) by auto
    qed (use l in auto)
    ultimately show ?thesis by simp
  qed
qed

lemma searchNodesBFS_spec:
  "distinct (map cn_name (searchNodesBFS C s m))"
  "set (map dated (searchNodesBFS C s m)) = {(x, k). x \<noteq> s \<and> distance C s x k \<and> (m \<noteq> -1 \<longrightarrow> int k \<le> m)}"
proof -
  let ?q = "[\<lparr>cn_name = s, cn_indicies = [], cn_depth = 0\<rparr>]"
  have "distinct (map cn_name (bfs_loop C m 0 ?q [])) \<and>
      set (map dated (bfs_loop C m 0 ?q [])) = {(x, k). distance C s x k \<and> (m \<noteq> -1 \<longrightarrow> int k \<le> m)}"
  proof (cases "m < -1")
    case True
    then have "bfs_loop C m 0 ?q [] = []" by (subst bfs_loop.simps) simp
    then show ?thesis using True by auto
  next
    case False
    have "bfs_inv C s 0 ?q []" by (auto simp: bfs_inv_def distance_def)
    then show ?thesis by (rule bfs_loop_spec) (use False in simp)
  qed
  then have d: "distinct (map cn_name (bfs_loop C m 0 ?q []))"
    and e: "set (map dated (bfs_loop C m 0 ?q [])) = {(x, k). distance C s x k \<and> (m \<noteq> -1 \<longrightarrow> int k \<le> m)}" by blast+
  show "distinct (map cn_name (searchNodesBFS C s m))"
    unfolding searchNodesBFS_def by (rule distinct_map_filter [OF d])
  have f: "set (map dated (filter (\<lambda>v. cn_name v \<noteq> s) vs)) = {p. fst p \<noteq> s \<and> p \<in> set (map dated vs)}" for vs
    by (induction vs) auto
  show "set (map dated (searchNodesBFS C s m)) = {(x, k). x \<noteq> s \<and> distance C s x k \<and> (m \<noteq> -1 \<longrightarrow> int k \<le> m)}"
    unfolding searchNodesBFS_def f e by (simp add: case_prod_unfold)
qed

end
