(* ===== verification/Workflow_Properties.thy ===== *)
theory Workflow_Properties
  imports Partial_Execution_Properties Graph_Selection Workflow_Search
begin

text \<open>
  The properties of the class \<open>Workflow\<close>, of its conversion to and from the directed graph, and
  of the selection of extractable subgraphs.
\<close>

section \<open>Conversion\<close>

text \<open>
  C21: a graph whose nodes have outgoing connections of one type each survives the conversion to
  a workflow and back: the workflow is well-formed, and the graph made from it has the same nodes
  and the same connections.
\<close>

theorem toWorkflow_fromWorkflow:
  assumes "wf_graph h g" "single_typed h (vals (dg_conns g))"
  shows "\<exists>w g'. toWorkflow h g pd = Inr w \<and> wf_workflow h w \<and> fromWorkflow h w = Inr g' \<and> wf_graph h g' \<and>
    nodes_of g' = nodes_of g \<and> conns_of g' = conns_of g"
  by (rule from_toWorkflow [OF assms])

lemma toWorkflow_fromWorkflow_witness:
  "\<exists>w g'. toWorkflow flow_heap flow_graph None = Inr w \<and> wf_workflow flow_heap w \<and>
    fromWorkflow flow_heap w = Inr g' \<and> conns_of g' = conns_of flow_graph"
proof -
  have "single_typed flow_heap (vals (dg_conns flow_graph))" by code_simp
  then show ?thesis using toWorkflow_fromWorkflow [OF flow_graph_wf(1)] by blast
qed

text \<open>
  A node with outgoing connections of two types cannot be exported: the object of the node is
  created with an entry for the first type only, and the second type reads a property of
  \<open>undefined\<close>.
\<close>

lemma toIConnections_two_types:
  "map_sum id length (toIConnections sample_heap
     (set_connection sample_heap (plain_conn 0 1 AiTool) (sample_graph [0, 1] [(0, 1)]))) = Inl TypeError"
  by code_simp

section \<open>Searches\<close>

text \<open>
  C22: \<open>searchNodesBFS\<close> returns every other node within the given distance over main connections
  exactly once, together with its distance.
\<close>

theorem searchNodesBFS_distances:
  "distinct (map cn_name (searchNodesBFS C s m)) \<and>
   set (map dated (searchNodesBFS C s m)) = {(x, k). x \<noteq> s \<and> distance C s x k \<and> (m \<noteq> -1 \<longrightarrow> int k \<le> m)}"
  using searchNodesBFS_spec by blast

lemma searchNodesBFS_distances_witness:
  "distance flow_conns ''0'' ''3'' 3 \<and> \<not> distance flow_conns ''0'' ''4'' 1"
proof -
  have "map dated (searchNodesBFS flow_conns ''0'' (-1)) = [(''1'', 1), (''2'', 2), (''3'', 3)]" by code_simp
  then have d: "{(x, k). x \<noteq> ''0'' \<and> distance flow_conns ''0'' x k} = {(''1'', 1), (''2'', 2), (''3'', 3)}"
    using searchNodesBFS_distances [of flow_conns "''0''" "-1"] by simp
  have "(''3'', 3) \<in> {(x, k). x \<noteq> ''0'' \<and> distance flow_conns ''0'' x k}"
    "(''4'', 1) \<notin> {(x, k). x \<noteq> ''0'' \<and> distance flow_conns ''0'' x k}" unfolding d by simp_all
  then show ?thesis by simp
qed

text \<open>
  \<open>getNodeConnectionIndexes\<close> finds indexes exactly if a path of connections of the given type
  leads from the parent to the node, and the indexes are those of a connection out of the parent
  into the node or into a node above it.
\<close>

theorem getNodeConnectionIndexes_path:
  assumes "getNode w p \<noteq> None"
  shows "case getNodeConnectionIndexes w n p t of
     None \<Rightarrow> (n, p) \<notin> (nbr_rel (connectionsByDestinationNode w) (OfType t))\<^sup>+
   | Some r \<Rightarrow> (n, p) \<in> (nbr_rel (connectionsByDestinationNode w) (OfType t))\<^sup>+ \<and>
       (\<exists>y i c. (n, y) \<in> (nbr_rel (connectionsByDestinationNode w) (OfType t))\<^sup>* \<and>
         (i, c) \<in> set (indexed_conns (connectionsByDestinationNode w) t y) \<and> conn_node c = p \<and>
         r = \<lparr>sourceIndex = conn_index c, destinationIndex = i\<rparr>)"
proof (cases "getNodeConnectionIndexes w n p t")
  case None
  then show ?thesis using getNodeConnectionIndexes_None [OF assms, of n t] by simp
next
  case (Some r)
  then have "index_loop (connectionsByDestinationNode w) t p [n] [] = Some r"
    using assms by (auto simp: getNodeConnectionIndexes_def)
  from index_loop_Some [OF this] show ?thesis
    using Some getNodeConnectionIndexes_None [OF assms, of n t] by auto
qed

lemma getNodeConnectionIndexes_path_witness:
  "(''3'', ''1'') \<in> (nbr_rel (connectionsByDestinationNode flow) (OfType Main))\<^sup>+ \<and>
   (''3'', ''4'') \<notin> (nbr_rel (connectionsByDestinationNode flow) (OfType Main))\<^sup>+"
proof -
  have "getNodeConnectionIndexes flow ''3'' ''1'' Main = Some \<lparr>sourceIndex = 0, destinationIndex = 0\<rparr>"
    "getNodeConnectionIndexes flow ''3'' ''4'' Main = None"
    "getNode flow ''1'' \<noteq> None" "getNode flow ''4'' \<noteq> None" by code_simp+
  then show ?thesis
    using getNodeConnectionIndexes_path [of flow "''1''" "''3''" Main]
      getNodeConnectionIndexes_path [of flow "''4''" "''3''" Main] by simp
qed

section \<open>Start nodes\<close>

text \<open>
  Without a destination the start node is the first enabled trigger or poller that is no
  manual chat trigger; without one it is an enabled node of a starting type of the highest
  priority, and nothing is returned only if there is none. A single enabled node is an exception.
\<close>

theorem getStartNode_best:
  assumes "wf_workflow h w" "typed h nodeTypes w" "length (wf_nodes w) \<noteq> 1"
  shows "\<exists>res. getStartNode h nodeTypes w None = Inr res \<and>
    (case List.find (starts_by_itself h nodeTypes) (vals (wf_nodes w)) of
       Some r \<Rightarrow> res = Some r
     | None \<Rightarrow> best_start h w res)"
  by (rule getStartNode_none [OF assms])

lemma getStartNode_best_witness:
  "getStartNode flow_heap flow_types flow None = Inr (Some 0)"
proof -
  have "length (wf_nodes flow) \<noteq> 1" "List.find (starts_by_itself flow_heap flow_types) (vals (wf_nodes flow)) = Some 0"
    by code_simp+
  then show ?thesis using getStartNode_best [OF flow_wf(1,3)] by auto
qed

text \<open>
  With a destination a start node of the workflow is always found, and it is disabled only if
  it is the destination itself and nothing enabled lies above it.
\<close>

theorem getStartNode_enabled:
  assumes "wf_workflow h w" "typed h nodeTypes w" "getNode w dest = Some d" "dest \<noteq> []"
  shows "\<exists>r. getStartNode h nodeTypes w (Some dest) = Inr (Some r) \<and> r \<in> set (vals (wf_nodes w)) \<and>
    (is_disabled (h r) \<longrightarrow> r = d \<and> getHighestNode h w dest None = Inr [])"
  by (rule getStartNode_destination [OF assms])

lemma getStartNode_enabled_witness:
  "\<exists>r. getStartNode flow_heap flow_types flow (Some ''3'') = Inr (Some r) \<and> \<not> is_disabled (flow_heap r)"
proof -
  have "getNode flow ''3'' = Some 3" "\<not> is_disabled (flow_heap 3)" by code_simp+
  then show ?thesis using getStartNode_enabled [OF flow_wf(1,3), of "''3''" 3] by auto
qed

section \<open>Extractable selections\<close>

text \<open>
  C23: a selection that the parser accepts is entered by main connections at the start only and
  left at the end only; both lie in the selection, and a path inside the selection leads from the
  start to the end.
\<close>

theorem parse_accepts:
  assumes "distinct (keys adj)" "parseExtractableSubgraphSelection ids adj = Inr (start, goal)"
  shows "{b. \<exists>a. (a, b) \<in> main_rel adj \<and> a \<notin> set ids \<and> b \<in> set ids} \<subseteq> set_option start \<and>
    {a. \<exists>b. (a, b) \<in> main_rel adj \<and> a \<in> set ids \<and> b \<notin> set ids} \<subseteq> set_option goal \<and>
    set_option start \<union> set_option goal \<subseteq> set ids \<and>
    (case (start, goal) of
       (Some s, Some e) \<Rightarrow> s = [] \<or> e = [] \<or> (s, e) \<in> (main_rel adj \<inter> set ids \<times> set ids)\<^sup>*
     | _ \<Rightarrow> True)"
proof (intro conjI)
  note ok = parse_ok [OF assms]
  show "{b. \<exists>a. (a, b) \<in> main_rel adj \<and> a \<notin> set ids \<and> b \<in> set ids} \<subseteq> set_option start"
    using ok(1) by fastforce
  show "{a. \<exists>b. (a, b) \<in> main_rel adj \<and> a \<in> set ids \<and> b \<notin> set ids} \<subseteq> set_option goal"
    using ok(2) by fastforce
  show "set_option start \<union> set_option goal \<subseteq> set ids" using ok(3,4) by (cases start; cases goal) simp_all
  show "case (start, goal) of (Some s, Some e) \<Rightarrow> s = [] \<or> e = [] \<or> (s, e) \<in> (main_rel adj \<inter> set ids \<times> set ids)\<^sup>*
     | _ \<Rightarrow> True"
    using ok(5) by (cases start; cases goal) auto
qed

lemma parse_accepts_witness:
  "(''1'', ''2'') \<in> (main_rel (buildAdjacencyList flow_conns) \<inter> {''1'', ''2''} \<times> {''1'', ''2''})\<^sup>*"
proof -
  have "parseExtractableSubgraphSelection [''1'', ''2''] (buildAdjacencyList flow_conns) = Inr (Some ''1'', Some ''2'')"
    by code_simp
  then show ?thesis using parse_accepts [OF distinct_build [of flow_conns], of "[''1'', ''2'']"] by simp
qed

end
