(* ===== verification/Concurrency_Queue.thy ===== *)
theory Concurrency_Queue
  imports N8n_Prelude "HOL-Library.Multiset"
begin

text \<open>
  \<open>ConcurrencyQueue\<close> of \<open>packages/cli/src/concurrency/concurrency-queue.ts\<close>: a counter of free
  places and the executions that wait for one. A waiting execution has its identifier and the number of
  the promise its caller awaits; \<open>resolve()\<close> is the effect \<open>Resolve\<close> of that number.
\<close>

section \<open>State and operations\<close>

datatype concurrency_event =
    ConcurrencyCheck int
  | ExecutionThrottled string
  | ExecutionReleased string
  | Resolve nat

type_synonym queue_item = "string \<times> nat"

record ConcurrencyQueue =
  cq_queue :: "queue_item list"
  cq_capacity :: int

definition newConcurrencyQueue :: "int \<Rightarrow> ConcurrencyQueue" where
  "newConcurrencyQueue capacity = \<lparr>cq_queue = [], cq_capacity = capacity\<rparr>"

text \<open>The last component tells whether the caller has to wait.\<close>

definition enqueue :: "string \<Rightarrow> nat \<Rightarrow> ConcurrencyQueue \<Rightarrow> ConcurrencyQueue \<times> concurrency_event list \<times> bool" where
  "enqueue executionId promise q =
     (let capacity = cq_capacity q - 1; q' = q\<lparr>cq_capacity := capacity\<rparr> in
      if capacity < 0
      then (q'\<lparr>cq_queue := cq_queue q @ [(executionId, promise)]\<rparr>,
        [ConcurrencyCheck capacity, ExecutionThrottled executionId], True)
      else (q', [ConcurrencyCheck capacity], False))"

definition currentCapacity :: "ConcurrencyQueue \<Rightarrow> int" where
  "currentCapacity q = cq_capacity q"

definition resolveNext :: "ConcurrencyQueue \<Rightarrow> ConcurrencyQueue \<times> concurrency_event list" where
  "resolveNext q =
     (case cq_queue q of
        [] \<Rightarrow> (q, [])
      | (executionId, promise) # rest \<Rightarrow> (q\<lparr>cq_queue := rest\<rparr>, [ExecutionReleased executionId, Resolve promise]))"

definition dequeue :: "ConcurrencyQueue \<Rightarrow> ConcurrencyQueue \<times> concurrency_event list" where
  "dequeue q = resolveNext (q\<lparr>cq_capacity := cq_capacity q + 1\<rparr>)"

text \<open>\<open>findIndex\<close> and \<open>splice(index, 1)\<close>.\<close>

fun splice_item :: "string \<Rightarrow> queue_item list \<Rightarrow> queue_item list" where
  "splice_item executionId [] = []"
| "splice_item executionId (item # items) =
     (if fst item = executionId then items else item # splice_item executionId items)"

definition queue_has :: "string \<Rightarrow> ConcurrencyQueue \<Rightarrow> bool" where
  "queue_has executionId q \<longleftrightarrow> list_ex (\<lambda>item. fst item = executionId) (cq_queue q)"

definition remove :: "string \<Rightarrow> ConcurrencyQueue \<Rightarrow> ConcurrencyQueue \<times> concurrency_event list" where
  "remove executionId q =
     (if queue_has executionId q
      then resolveNext (q\<lparr>cq_queue := splice_item executionId (cq_queue q), cq_capacity := cq_capacity q + 1\<rparr>)
      else (q, []))"

definition getAll :: "ConcurrencyQueue \<Rightarrow> string list" where
  "getAll q = set_of_list (map fst (cq_queue q))"

lemmas queue_defs = enqueue_def dequeue_def remove_def resolveNext_def Let_def

section \<open>The queue and the executions it let through\<close>

text \<open>
  The abstract view: the limit, the multiset of the calls that hold a place and the waiting ones. A
  caller that is let through or resolved holds a place; one that ends calls \<open>dequeue\<close>.
\<close>

record admission =
  ad_limit :: nat
  ad_running :: "queue_item multiset"
  ad_waiting :: "queue_item list"

definition resolved :: "concurrency_event list \<Rightarrow> nat list" where
  "resolved es = List.map_filter (\<lambda>e. case e of Resolve p \<Rightarrow> Some p | _ \<Rightarrow> None) es"

lemma resolved_simps [simp]:
  "resolved [] = []" "resolved (Resolve p # es) = p # resolved es" "resolved (ExecutionReleased x # es) = resolved es"
  "resolved (ConcurrencyCheck c # es) = resolved es" "resolved (ExecutionThrottled x # es) = resolved es"
  by (simp_all add: resolved_def map_filter_simps)

lemma resolved_append [simp]: "resolved (es @ fs) = resolved es @ resolved fs"
  by (simp add: resolved_def map_filter_def)

definition represents :: "admission \<Rightarrow> ConcurrencyQueue \<Rightarrow> bool" where
  "represents a q \<longleftrightarrow> cq_queue q = ad_waiting a \<and>
     cq_capacity q = int (ad_limit a) - int (size (ad_running a)) - int (length (ad_waiting a))"

text \<open>No one waits while a place is free, and no more run than the limit allows.\<close>

definition full_or_idle :: "admission \<Rightarrow> bool" where
  "full_or_idle a \<longleftrightarrow> size (ad_running a) \<le> ad_limit a \<and>
     (ad_waiting a \<noteq> [] \<longrightarrow> size (ad_running a) = ad_limit a)"

definition arrive :: "queue_item \<Rightarrow> admission \<Rightarrow> admission" where
  "arrive x a = (if size (ad_running a) + length (ad_waiting a) < ad_limit a
     then a\<lparr>ad_running := add_mset x (ad_running a)\<rparr> else a\<lparr>ad_waiting := ad_waiting a @ [x]\<rparr>)"

text \<open>The first waiting call gets a place.\<close>

definition admit :: "admission \<Rightarrow> admission" where
  "admit a = a\<lparr>ad_running := ad_running a + mset (take 1 (ad_waiting a)), ad_waiting := tl (ad_waiting a)\<rparr>"

definition finish :: "queue_item \<Rightarrow> admission \<Rightarrow> admission" where
  "finish x a = admit (a\<lparr>ad_running := ad_running a - {#x#}\<rparr>)"

definition cancel :: "string \<Rightarrow> admission \<Rightarrow> admission" where
  "cancel i a = (if i \<notin> fst ` set (ad_waiting a) then a
     else admit (a\<lparr>ad_waiting := splice_item i (ad_waiting a)\<rparr>))"

text \<open>Every operation of the queue simulates its abstract counterpart.\<close>

lemma enqueue_arrive:
  assumes "represents a q" "enqueue i p q = (q', es, waits)"
  shows "represents (arrive (i, p) a) q'" "waits \<longleftrightarrow> ad_limit a \<le> size (ad_running a) + length (ad_waiting a)"
    "resolved es = []"
  using assms by (auto simp: represents_def queue_defs arrive_def split: if_splits)

lemma resolveNext_cases:
  "fst (resolveNext q) = q\<lparr>cq_queue := tl (cq_queue q)\<rparr>"
  "resolved (snd (resolveNext q)) = map snd (take 1 (cq_queue q))"
  by (cases "cq_queue q"; auto simp: resolveNext_def)+

text \<open>A queue with one more place than the abstract view admits its first waiting call.\<close>

lemma resolveNext_admit:
  assumes "cq_queue q = ad_waiting a"
    "cq_capacity q = int (ad_limit a) - int (size (ad_running a)) - int (length (ad_waiting a))"
  shows "represents (admit a) (fst (resolveNext q))"
  using assms by (cases "ad_waiting a") (auto simp: represents_def resolveNext_def admit_def split: prod.splits)

lemma dequeue_finish:
  assumes "represents a q" "x \<in># ad_running a" "dequeue q = (q', es)"
  shows "represents (finish x a) q'" "resolved es = map snd (take 1 (ad_waiting a))"
proof -
  have "size (ad_running a) = Suc (size (ad_running a - {#x#}))"
    using assms(2) by (metis insert_DiffM size_add_mset)
  then have "represents (finish x a) (fst (dequeue q))"
    using assms(1) unfolding finish_def dequeue_def by (intro resolveNext_admit) (auto simp: represents_def)
  then show "represents (finish x a) q'" using assms(3) by simp
  show "resolved es = map snd (take 1 (ad_waiting a))"
    using assms(1,3) resolveNext_cases(2) [of "q\<lparr>cq_capacity := cq_capacity q + 1\<rparr>"]
    by (simp add: represents_def dequeue_def)
qed

lemma queue_has_set: "queue_has i q \<longleftrightarrow> i \<in> fst ` set (cq_queue q)"
  by (auto simp: queue_has_def list_ex_iff)

lemma length_splice: "i \<in> fst ` set xs \<Longrightarrow> length xs = Suc (length (splice_item i xs))"
  by (induction xs) auto

lemma remove_cancel:
  assumes "represents a q" "remove i q = (q', es)"
  shows "represents (cancel i a) q'"
    "resolved es = (if i \<in> fst ` set (ad_waiting a) then map snd (take 1 (splice_item i (ad_waiting a))) else [])"
proof -
  have w: "cq_queue q = ad_waiting a" using assms(1) by (simp add: represents_def)
  let ?q = "q\<lparr>cq_queue := splice_item i (cq_queue q), cq_capacity := cq_capacity q + 1\<rparr>"
  show "resolved es = (if i \<in> fst ` set (ad_waiting a) then map snd (take 1 (splice_item i (ad_waiting a))) else [])"
    using assms(2) w resolveNext_cases(2) [of ?q] by (simp add: remove_def queue_has_set split: if_splits)
  show "represents (cancel i a) q'"
  proof (cases "i \<in> fst ` set (ad_waiting a)")
    case False
    then show ?thesis using assms w by (auto simp: remove_def cancel_def queue_has_set)
  next
    case True
    let ?a = "a\<lparr>ad_waiting := splice_item i (ad_waiting a)\<rparr>"
    have "represents (admit ?a) (fst (resolveNext ?q))"
      using assms(1) length_splice [OF True] by (intro resolveNext_admit) (simp_all add: represents_def)
    moreover have "cancel i a = admit ?a" using True by (simp add: cancel_def)
    moreover have "(q', es) = resolveNext ?q"
      using assms(2) True w by (simp only: remove_def queue_has_set if_True)
    ultimately show ?thesis by (metis fst_conv)
  qed
qed

section \<open>Reachable states\<close>

text \<open>Arrivals, ends of running executions, and cancellations of waiting ones if \<open>canc\<close> allows.\<close>

inductive reachable :: "bool \<Rightarrow> nat \<Rightarrow> admission \<Rightarrow> bool" for canc :: bool and limit :: nat where
  start: "reachable canc limit \<lparr>ad_limit = limit, ad_running = {#}, ad_waiting = []\<rparr>"
| arrival: "reachable canc limit a \<Longrightarrow> reachable canc limit (arrive x a)"
| ending: "reachable canc limit a \<Longrightarrow> x \<in># ad_running a \<Longrightarrow> reachable canc limit (finish x a)"
| cancellation: "canc \<Longrightarrow> reachable canc limit a \<Longrightarrow> reachable canc limit (cancel i a)"

lemma ad_limit_simps [simp]:
  "ad_limit (admit a) = ad_limit a" "ad_limit (arrive x a) = ad_limit a" "ad_limit (finish x a) = ad_limit a"
  "ad_limit (cancel i a) = ad_limit a"
  by (simp_all add: admit_def arrive_def finish_def cancel_def)

lemma reachable_limit: "reachable canc limit a \<Longrightarrow> ad_limit a = limit"
  by (induction rule: reachable.induct) simp_all

lemma full_or_idle_arrive: "full_or_idle a \<Longrightarrow> full_or_idle (arrive x a)"
  by (auto simp: full_or_idle_def arrive_def)

lemma full_or_idle_finish:
  assumes "full_or_idle a" "x \<in># ad_running a"
  shows "full_or_idle (finish x a)"
proof -
  have "size (ad_running a) = Suc (size (ad_running a - {#x#}))"
    using assms(2) by (metis insert_DiffM size_add_mset)
  then show ?thesis
    using assms(1) by (cases "ad_waiting a") (auto simp: full_or_idle_def finish_def admit_def)
qed

lemma reachable_full_or_idle: "reachable False limit a \<Longrightarrow> full_or_idle a"
proof (induction rule: reachable.induct)
  case start
  show ?case by (simp add: full_or_idle_def)
qed (auto intro: full_or_idle_arrive full_or_idle_finish)

text \<open>Waiting executions are released in the order they arrived in.\<close>

definition dequeue_times :: "nat \<Rightarrow> ConcurrencyQueue \<Rightarrow> ConcurrencyQueue \<times> concurrency_event list" where
  "dequeue_times n q = ((\<lambda>(q, es). let (q', es') = dequeue q in (q', es @ es')) ^^ n) (q, [])"

lemma dequeue_times_fifo:
  "resolved (snd (dequeue_times n q)) = map snd (take n (cq_queue q)) \<and>
    cq_queue (fst (dequeue_times n q)) = drop n (cq_queue q) \<and>
    cq_capacity (fst (dequeue_times n q)) = cq_capacity q + int n"
proof (induction n)
  case 0
  show ?case by (simp add: dequeue_times_def)
next
  case (Suc n)
  obtain p es where p: "dequeue_times n q = (p, es)" by fastforce
  let ?p = "p\<lparr>cq_capacity := cq_capacity p + 1\<rparr>"
  have s: "dequeue_times (Suc n) q = (?p\<lparr>cq_queue := tl (cq_queue p)\<rparr>, es @ snd (dequeue p))"
    using p resolveNext_cases(1) [of ?p] by (simp add: dequeue_times_def dequeue_def split_beta)
  have "map snd (take (Suc n) xs) = map snd (take n xs) @ map snd (take 1 (drop n xs))" for xs :: "queue_item list"
    unfolding map_append [symmetric] take_add [symmetric] by simp
  moreover have "resolved (snd (dequeue p)) = map snd (take 1 (cq_queue p))"
    using resolveNext_cases(2) [of ?p] by (simp add: dequeue_def)
  ultimately show ?case using Suc p s by (simp add: drop_Suc tl_drop)
qed

end
