(* ===== verification/Concurrency_Control.thy ===== *)
theory Concurrency_Control
  imports Concurrency_Queue
begin

text \<open>
  \<open>ConcurrencyControlService\<close> and \<open>ConcurrencyCapacityReservation\<close> of
  \<open>packages/cli/src/concurrency\<close>: one queue per limited kind of execution. What the listeners of
  the constructor do with the events of the queues is in the effects an operation returns; the
  debounced \<open>concurrency-check\<close> is counted at its request. Logging is left out.
\<close>

section \<open>Modes, limits and queues\<close>

datatype WorkflowExecuteMode =
    Cli | ErrorMode | Integrated | Internal | Manual | Retry | TriggerMode | WebhookMode | Evaluation | Chat

datatype ConcurrencyQueueType = ProductionQueue | EvaluationQueue

record CapacityTarget =
  ct_executionId :: string
  ct_mode :: WorkflowExecuteMode

record executions_config =
  productionLimit :: int
  evaluationLimit :: int
  executions_mode :: string
  deployment_type :: string

record ConcurrencyControl =
  cc_isEnabled :: bool
  cc_limits :: "(ConcurrencyQueueType \<times> int) list"
  cc_queues :: "(ConcurrencyQueueType \<times> ConcurrencyQueue) list"
  cc_deployment :: string

datatype control_effect =
    TrackLimit int ConcurrencyQueueType
  | EmitThrottled string ConcurrencyQueueType
  | ResolvePromise nat

definition CLOUD_TEMP_PRODUCTION_LIMIT :: int where
  "CLOUD_TEMP_PRODUCTION_LIMIT = 999"

definition CLOUD_TEMP_REPORTABLE_THRESHOLDS :: "int list" where
  "CLOUD_TEMP_REPORTABLE_THRESHOLDS = [5, 10, 20, 50, 100, 200]"

definition limitsToReport :: "int list" where
  "limitsToReport = map (\<lambda>t. CLOUD_TEMP_PRODUCTION_LIMIT - t) CLOUD_TEMP_REPORTABLE_THRESHOLDS"

definition shouldReport :: "ConcurrencyControl \<Rightarrow> int \<Rightarrow> bool" where
  "shouldReport s capacity \<longleftrightarrow> cc_deployment s = ''cloud'' \<and> capacity \<in> set limitsToReport"

definition checked_limits :: "executions_config \<Rightarrow> (ConcurrencyQueueType \<times> int) list result" where
  "checked_limits cfg =
     rfold (\<lambda>(t, limit) limits.
        if limit = 0 then Inl (UserError ''Concurrency limit set to invalid value'')
        else Inr (limits @ [(t, if limit < -1 then -1 else limit)]))
       [(ProductionQueue, productionLimit cfg), (EvaluationQueue, evaluationLimit cfg)] []"

definition newConcurrencyControl :: "executions_config \<Rightarrow> ConcurrencyControl result" where
  "newConcurrencyControl cfg =
     rbind (checked_limits cfg) (\<lambda>limits.
       if list_all (\<lambda>(t, limit). limit = -1) limits \<or> executions_mode cfg = ''queue''
       then Inr \<lparr>cc_isEnabled = False, cc_limits = limits, cc_queues = [], cc_deployment = deployment_type cfg\<rparr>
       else Inr \<lparr>cc_isEnabled = True, cc_limits = limits,
         cc_queues = map (\<lambda>(t, limit). (t, newConcurrencyQueue limit)) (filter (\<lambda>(t, limit). limit > 0) limits),
         cc_deployment = deployment_type cfg\<rparr>)"

fun queue_type :: "WorkflowExecuteMode \<Rightarrow> ConcurrencyQueueType option" where
  "queue_type ErrorMode = None"
| "queue_type Integrated = None"
| "queue_type Cli = None"
| "queue_type Internal = None"
| "queue_type Manual = None"
| "queue_type Retry = None"
| "queue_type WebhookMode = Some ProductionQueue"
| "queue_type TriggerMode = Some ProductionQueue"
| "queue_type Chat = Some ProductionQueue"
| "queue_type Evaluation = Some EvaluationQueue"

definition getQueue :: "ConcurrencyControl \<Rightarrow> WorkflowExecuteMode \<Rightarrow> (ConcurrencyQueueType \<times> ConcurrencyQueue) option" where
  "getQueue s mode =
     (case queue_type mode of
        None \<Rightarrow> None
      | Some t \<Rightarrow> map_option (Pair t) (map_of (cc_queues s) t))"

definition isUnlimited :: "ConcurrencyControl \<Rightarrow> WorkflowExecuteMode \<Rightarrow> bool" where
  "isUnlimited s mode \<longleftrightarrow> getQueue s mode = None"

text \<open>The listeners of a queue; the one for released executions only logs.\<close>

fun listen :: "ConcurrencyControl \<Rightarrow> ConcurrencyQueueType \<Rightarrow> concurrency_event \<Rightarrow> control_effect list" where
  "listen s t (ConcurrencyCheck capacity) =
     (if shouldReport s capacity then [TrackLimit (CLOUD_TEMP_PRODUCTION_LIMIT - capacity) t] else [])"
| "listen s t (ExecutionThrottled executionId) = [EmitThrottled executionId t]"
| "listen s t (ExecutionReleased executionId) = []"
| "listen s t (Resolve promise) = [ResolvePromise promise]"

definition put_queue ::
    "ConcurrencyQueueType \<Rightarrow> ConcurrencyQueue \<Rightarrow> ConcurrencyControl \<Rightarrow> ConcurrencyControl" where
  "put_queue t q s = s\<lparr>cc_queues := map_put t q (cc_queues s)\<rparr>"

section \<open>Operations\<close>

definition control_has :: "string \<Rightarrow> ConcurrencyControl \<Rightarrow> bool" where
  "control_has executionId s \<longleftrightarrow> cc_isEnabled s \<and> list_ex (\<lambda>(t, q). queue_has executionId q) (cc_queues s)"

definition throttle ::
    "CapacityTarget \<Rightarrow> nat \<Rightarrow> ConcurrencyControl \<Rightarrow> ConcurrencyControl \<times> control_effect list \<times> bool" where
  "throttle target promise s =
     (if \<not> cc_isEnabled s \<or> isUnlimited s (ct_mode target) then (s, [], False)
      else case getQueue s (ct_mode target) of
        None \<Rightarrow> (s, [], False)
      | Some (t, q) \<Rightarrow>
          (let (q', es, waits) = enqueue (ct_executionId target) promise q
           in (put_queue t q' s, concat (map (listen s t) es), waits)))"

definition release :: "WorkflowExecuteMode \<Rightarrow> ConcurrencyControl \<Rightarrow> ConcurrencyControl \<times> control_effect list" where
  "release mode s =
     (if \<not> cc_isEnabled s \<or> isUnlimited s mode then (s, [])
      else case getQueue s mode of
        None \<Rightarrow> (s, [])
      | Some (t, q) \<Rightarrow> (let (q', es) = dequeue q in (put_queue t q' s, concat (map (listen s t) es))))"

definition control_remove :: "CapacityTarget \<Rightarrow> ConcurrencyControl \<Rightarrow> ConcurrencyControl \<times> control_effect list" where
  "control_remove target s =
     (if \<not> cc_isEnabled s \<or> isUnlimited s (ct_mode target) then (s, [])
      else case getQueue s (ct_mode target) of
        None \<Rightarrow> (s, [])
      | Some (t, q) \<Rightarrow>
          (let (q', es) = remove (ct_executionId target) q in (put_queue t q' s, concat (map (listen s t) es))))"

text \<open>The identifiers are read before the loop removes them.\<close>

definition remove_each :: "string list \<Rightarrow> ConcurrencyQueue \<Rightarrow> ConcurrencyQueue \<times> concurrency_event list" where
  "remove_each ids q =
     fold (\<lambda>i (q, es). let (q', es') = remove i q in (q', es @ es')) ids (q, [])"

definition removeAll ::
    "string list \<Rightarrow> ConcurrencyControl \<Rightarrow> ConcurrencyControl \<times> control_effect list \<times> string list" where
  "removeAll executionIdsToCancel s =
     (if \<not> cc_isEnabled s then (s, [], [])
      else
        let (s', fx) = fold (\<lambda>(t, q) (s, fx).
              let (q', es) = remove_each (getAll q) q
              in (put_queue t q' s, fx @ concat (map (listen s t) es))) (cc_queues s) (s, [])
        in (s', fx, if length executionIdsToCancel = 0 then [] else executionIdsToCancel))"

definition disable :: "ConcurrencyControl \<Rightarrow> ConcurrencyControl" where
  "disable s = s\<lparr>cc_isEnabled := False\<rparr>"

section \<open>Capacity reservations\<close>

record ConcurrencyCapacityReservation =
  acquiredReservation :: "CapacityTarget option"

definition new_reservation :: ConcurrencyCapacityReservation where
  "new_reservation = \<lparr>acquiredReservation = None\<rparr>"

text \<open>\<open>reserve\<close> up to its \<open>await\<close>, and what it does once the call is let through.\<close>

definition reserve_begin ::
    "CapacityTarget \<Rightarrow> nat \<Rightarrow> ConcurrencyCapacityReservation \<Rightarrow> ConcurrencyControl \<Rightarrow>
     (ConcurrencyControl \<times> control_effect list \<times> bool) result" where
  "reserve_begin capacityFor promise r s =
     (if acquiredReservation r \<noteq> None then Inl AssertionError else Inr (throttle capacityFor promise s))"

definition reserve_end :: "CapacityTarget \<Rightarrow> ConcurrencyCapacityReservation \<Rightarrow> ConcurrencyCapacityReservation" where
  "reserve_end capacityFor r = r\<lparr>acquiredReservation := Some capacityFor\<rparr>"

definition release_reservation ::
    "ConcurrencyCapacityReservation \<Rightarrow> ConcurrencyControl \<Rightarrow>
     ConcurrencyCapacityReservation \<times> ConcurrencyControl \<times> control_effect list" where
  "release_reservation r s =
     (case acquiredReservation r of
        None \<Rightarrow> (r, s, [])
      | Some target \<Rightarrow>
          (let (s', fx) = release (ct_mode target) s in (r\<lparr>acquiredReservation := None\<rparr>, s', fx)))"

section \<open>Properties\<close>

text \<open>The queues are those of the positive limits, with any capacity up to the limit.\<close>

definition control_ok :: "ConcurrencyControl \<Rightarrow> bool" where
  "control_ok s \<longleftrightarrow> map fst (cc_limits s) = [ProductionQueue, EvaluationQueue] \<and>
     list_all (\<lambda>(t, limit). limit = -1 \<or> limit > 0) (cc_limits s) \<and>
     (cc_isEnabled s \<longrightarrow> keys (cc_queues s) = map fst (filter (\<lambda>(t, limit). limit > 0) (cc_limits s)))"

lemma new_control_ok: "newConcurrencyControl cfg = Inr s \<Longrightarrow> control_ok s"
  by (auto simp: newConcurrencyControl_def checked_limits_def control_ok_def result_simps keys_def
      split: if_splits)

lemma new_control_error:
  "newConcurrencyControl cfg = Inl e \<longleftrightarrow>
    e = UserError ''Concurrency limit set to invalid value'' \<and> (productionLimit cfg = 0 \<or> evaluationLimit cfg = 0)"
  by (auto simp: newConcurrencyControl_def checked_limits_def)

lemma new_control_queue:
  assumes "newConcurrencyControl cfg = Inr s" "cc_isEnabled s"
  shows "getQueue s m = (case queue_type m of
      None \<Rightarrow> None
    | Some ProductionQueue \<Rightarrow> if productionLimit cfg > 0
        then Some (ProductionQueue, newConcurrencyQueue (productionLimit cfg)) else None
    | Some EvaluationQueue \<Rightarrow> if evaluationLimit cfg > 0
        then Some (EvaluationQueue, newConcurrencyQueue (evaluationLimit cfg)) else None)"
  using assms
  by (auto simp: newConcurrencyControl_def checked_limits_def getQueue_def result_simps
      split: if_splits option.splits ConcurrencyQueueType.splits)

lemma keys_put_queue:
  "map_of (cc_queues s) t = Some q \<Longrightarrow> keys (cc_queues (put_queue t q' s)) = keys (cc_queues s)"
proof -
  have "map_of m t = Some q \<Longrightarrow> keys (map_put t q' m) = keys m" for m :: "(ConcurrencyQueueType \<times> ConcurrencyQueue) list"
    by (induction m) (auto simp: keys_def split: if_splits)
  then show "map_of (cc_queues s) t = Some q \<Longrightarrow> ?thesis" by (simp add: put_queue_def)
qed

lemma getQueue_Some: "getQueue s m = Some (t, q) \<Longrightarrow> map_of (cc_queues s) t = Some q"
  by (auto simp: getQueue_def split: option.splits)

lemma control_ok_put:
  "control_ok s \<Longrightarrow> map_of (cc_queues s) t = Some q \<Longrightarrow> control_ok (put_queue t q' s)"
  using keys_put_queue [of s t q q'] by (simp add: control_ok_def) (simp add: put_queue_def)

lemma throttle_ok: "control_ok s \<Longrightarrow> control_ok (fst (throttle target promise s))"
  by (auto simp: throttle_def control_ok_put dest!: getQueue_Some split: option.splits prod.splits)

lemma release_ok: "control_ok s \<Longrightarrow> control_ok (fst (release mode s))"
  by (auto simp: release_def control_ok_put dest!: getQueue_Some split: option.splits prod.splits)

text \<open>Removing all waiting executions releases every second one.\<close>

fun every_second :: "'a list \<Rightarrow> 'a list" where
  "every_second [] = []"
| "every_second [x] = []"
| "every_second (x # y # zs) = y # every_second zs"

lemma remove_each_Cons:
  "remove_each (i # ids) q = (let (q', es) = remove i q; (q'', es') = remove_each ids q' in (q'', es @ es'))"
proof -
  have step: "fold (\<lambda>i (q, es). let (q', es') = remove i q in (q', es @ es')) ids (q, es) =
      (let (q', es') = remove_each ids q in (q', es @ es'))" for q es ids
  proof (induction ids arbitrary: q es)
    case (Cons i ids)
    obtain q' es' where r: "remove i q = (q', es')" by fastforce
    show ?case
      using Cons.IH [of q' "es @ es'"] Cons.IH [of q' es'] r
      by (simp add: remove_each_def split: prod.splits)
  qed (simp add: remove_each_def)
  obtain q' es' where r: "remove i q = (q', es')" by fastforce
  have "remove_each (i # ids) q = fold (\<lambda>i (q, es). let (q', es') = remove i q in (q', es @ es')) ids (q', es')"
    by (simp add: remove_each_def r)
  then show ?thesis using step [of ids q' es'] r by simp
qed

lemma remove_item:
  "queue_has i q \<Longrightarrow> remove i q = resolveNext (q\<lparr>cq_queue := splice_item i (cq_queue q), cq_capacity := cq_capacity q + 1\<rparr>)"
  "\<not> queue_has i q \<Longrightarrow> remove i q = (q, [])"
  by (simp_all add: remove_def)

lemma remove_each_all:
  "distinct (map fst (cq_queue q)) \<Longrightarrow>
    cq_queue (fst (remove_each (map fst (cq_queue q)) q)) = [] \<and>
    cq_capacity (fst (remove_each (map fst (cq_queue q)) q)) =
      cq_capacity q + int (length (cq_queue q) - length (cq_queue q) div 2) \<and>
    resolved (snd (remove_each (map fst (cq_queue q)) q)) = map snd (every_second (cq_queue q))"
proof (induction "cq_queue q" arbitrary: q rule: every_second.induct)
  case (3 x y zs)
  let ?q = "q\<lparr>cq_queue := zs, cq_capacity := cq_capacity q + 1\<rparr>"
  have "distinct (map fst (x # y # zs))" using 3(2,3) by simp
  then have d: "fst x \<notin> fst ` set zs" "fst y \<notin> fst ` set zs" "fst x \<noteq> fst y" "distinct (map fst zs)" by auto
  have rx: "remove (fst x) q = (?q, [ExecutionReleased (fst y), Resolve (snd y)])"
    by (simp add: remove_def queue_has_def resolveNext_def 3(2) [symmetric] split_beta)
  have ry: "remove (fst y) ?q = (?q, [])" using d by (simp add: remove_def queue_has_set)
  have e: "remove_each (map fst (x # y # zs)) q =
      (fst (remove_each (map fst zs) ?q),
       [ExecutionReleased (fst y), Resolve (snd y)] @ snd (remove_each (map fst zs) ?q))"
    by (simp add: remove_each_Cons rx ry split_beta)
  have "Suc (Suc (length zs)) - Suc (Suc (length zs)) div 2 = Suc (length zs - length zs div 2)"
    by (simp add: Suc_diff_le)
  then show ?case using 3(1) [of ?q] d unfolding 3(2) [symmetric] e by simp
next
  case 1
  then show ?case by (simp add: remove_each_def 1(1) [symmetric])
next
  case (2 x)
  then have "remove (fst x) q = (q\<lparr>cq_queue := [], cq_capacity := cq_capacity q + 1\<rparr>, [])"
    by (simp add: remove_def queue_has_def resolveNext_def 2(1) [symmetric])
  then show ?case unfolding 2(1) [symmetric] by (simp add: remove_each_Cons) (simp add: remove_each_def)
qed

end
