(* ===== verification/Active_Executions.thy ===== *)
theory Active_Executions
  imports Concurrency_Control
begin

text \<open>
  \<open>ActiveExecutions\<close> of \<open>packages/cli/src/active-executions.ts\<close>: the executions of the process,
  their promises and their places in the concurrency queues.

  Objects that closures share are entries of tables under the number of the \<open>add\<close> call that
  makes them. An asynchronous method is one operation per stretch between two \<open>await\<close>s; what the
  database answers is an argument. A promise that was settled keeps its handler for a later step.
\<close>

section \<open>State\<close>

datatype ExecutionStatus =
    Canceled | Crashed | ErrorStatus | New | Running | Success | Unknown | Waiting

record execution_data =
  xd_executionMode :: WorkflowExecuteMode
  xd_workflowId :: string
  xd_retryOf :: "string option"
  xd_httpResponse :: "nat option"

datatype promise_state = PromisePending | PromiseSettled | PromiseHandled

record executing =
  xe_id :: string
  xe_data :: execution_data
  xe_startedAt :: int
  xe_post :: promise_state
  xe_status :: ExecutionStatus
  xe_responsePromise :: "nat option"
  xe_httpResponse :: "nat option"
  xe_workflowExecution :: "nat option"

text \<open>An \<open>add\<close> call that waits for its place or for the database.\<close>

record pending_add =
  pa_id :: string
  pa_data :: execution_data
  pa_resuming :: bool
  pa_reserved :: bool

record active_state =
  ax_active :: "(string \<times> nat) list"
  ax_entries :: "(nat \<times> executing) list"
  ax_pending :: "(nat \<times> pending_add) list"
  ax_reservations :: "(nat \<times> ConcurrencyCapacityReservation) list"
  ax_responseModes :: "(string \<times> string) list"
  ax_control :: ConcurrencyControl
  ax_mode :: string

datatype execution_effect =
    ControlEffect control_effect
  | EmitCancelled string
  | RejectResponse nat
  | ResolveResponse nat
  | CancelRun nat
  | EndHttp nat
  | WriteChunk nat string

definition new_active :: "ConcurrencyControl \<Rightarrow> string \<Rightarrow> active_state" where
  "new_active control mode = \<lparr>ax_active = [], ax_entries = [], ax_pending = [], ax_reservations = [],
     ax_responseModes = [], ax_control = control, ax_mode = mode\<rparr>"

definition reservation :: "active_state \<Rightarrow> nat \<Rightarrow> ConcurrencyCapacityReservation" where
  "reservation s ref = (case map_of (ax_reservations s) ref of None \<Rightarrow> new_reservation | Some r \<Rightarrow> r)"

definition active_has :: "active_state \<Rightarrow> string \<Rightarrow> bool" where
  "active_has s executionId \<longleftrightarrow> map_of (ax_active s) executionId \<noteq> None"

definition getExecution :: "active_state \<Rightarrow> string \<Rightarrow> (nat \<times> executing) option" where
  "getExecution s executionId =
     (case map_of (ax_active s) executionId of
        None \<Rightarrow> None
      | Some ref \<Rightarrow> map_option (Pair ref) (map_of (ax_entries s) ref))"

definition getExecutionOrFail :: "active_state \<Rightarrow> string \<Rightarrow> (nat \<times> executing) result" where
  "getExecutionOrFail s executionId =
     (case getExecution s executionId of
        None \<Rightarrow> Inl (UnexpectedError ''No active execution found'')
      | Some e \<Rightarrow> Inr e)"

definition put_entry :: "nat \<Rightarrow> executing \<Rightarrow> active_state \<Rightarrow> active_state" where
  "put_entry ref e s = s\<lparr>ax_entries := map_put ref e (ax_entries s)\<rparr>"

section \<open>Adding an execution\<close>

text \<open>
  The promise of a waiting \<open>add\<close> call has the number of the call. Resolving it lets the call
  continue: its reservation notes the place.
\<close>

definition target_of :: "pending_add \<Rightarrow> CapacityTarget" where
  "target_of p = \<lparr>ct_executionId = pa_id p, ct_mode = xd_executionMode (pa_data p)\<rparr>"

definition reserved_by :: "nat \<Rightarrow> pending_add \<Rightarrow> active_state \<Rightarrow> active_state" where
  "reserved_by ref p s =
     s\<lparr>ax_pending := map_put ref (p\<lparr>pa_reserved := True\<rparr>) (ax_pending s),
       ax_reservations := map_put ref (reserve_end (target_of p) (reservation s ref)) (ax_reservations s)\<rparr>"

fun let_through :: "control_effect \<Rightarrow> active_state \<Rightarrow> active_state" where
  "let_through (ResolvePromise ref) s =
     (case map_of (ax_pending s) ref of
        None \<Rightarrow> s
      | Some p \<Rightarrow> reserved_by ref p s)"
| "let_through _ s = s"

definition release_place :: "nat \<Rightarrow> active_state \<Rightarrow> active_state \<times> execution_effect list" where
  "release_place ref s =
     (let (r, control, fx) = release_reservation (reservation s ref) (ax_control s)
      in (fold let_through fx (s\<lparr>ax_reservations := map_put ref r (ax_reservations s), ax_control := control\<rparr>),
          map ControlEffect fx))"

text \<open>
  \<open>add\<close> up to its first \<open>await\<close> on the queue; \<open>created\<close> is the identifier the database gives to a
  new execution.
\<close>

definition add_begin ::
    "nat \<Rightarrow> execution_data \<Rightarrow> string option \<Rightarrow> string \<Rightarrow> active_state \<Rightarrow> (active_state \<times> execution_effect list) result" where
  "add_begin ref executionData maybeExecutionId created s =
     (if maybeExecutionId = None \<and> created = [] then Inl AssertionError
      else
        let executionId = (case maybeExecutionId of None \<Rightarrow> created | Some i \<Rightarrow> i);
            p = \<lparr>pa_id = executionId, pa_data = executionData, pa_resuming = maybeExecutionId \<noteq> None,
              pa_reserved = False\<rparr>
        in rbind (reserve_begin (target_of p) ref new_reservation (ax_control s)) (\<lambda>(control, fx, waits).
          let s' = s\<lparr>ax_pending := ax_pending s @ [(ref, p)], ax_control := control,
                ax_reservations := map_put ref new_reservation (ax_reservations s)\<rparr>
          in Inr (if waits then s' else reserved_by ref p s', map ControlEffect fx)))"

datatype db_outcome = DbDone | DbRefused | DbThrows js_error

text \<open>The empty identifier is falsy: resuming it keeps the status of a new execution.\<close>

definition initial_status :: "pending_add \<Rightarrow> ExecutionStatus" where
  "initial_status p = (if pa_resuming p \<and> pa_id p = [] then New else Running)"

definition register :: "nat \<Rightarrow> pending_add \<Rightarrow> int \<Rightarrow> active_state \<Rightarrow> active_state" where
  "register ref p now s =
     (let resumingExecution = map_option snd (getExecution s (pa_id p));
          execution = \<lparr>xe_id = pa_id p, xe_data = pa_data p,
            xe_startedAt = (case resumingExecution of None \<Rightarrow> now | Some e \<Rightarrow> xe_startedAt e),
            xe_post = PromisePending, xe_status = initial_status p,
            xe_responsePromise = (case resumingExecution of None \<Rightarrow> None | Some e \<Rightarrow> xe_responsePromise e),
            xe_httpResponse = xd_httpResponse (pa_data p), xe_workflowExecution = None\<rparr>
      in s\<lparr>ax_pending := map_delete ref (ax_pending s), ax_entries := map_put ref execution (ax_entries s),
           ax_active := obj_put (pa_id p) ref (ax_active s)\<rparr>)"

text \<open>
  \<open>add\<close> after the database call: a new execution is marked as running in regular mode only, a
  resumed one is refused if another process resumes it; every error gives the place back.
\<close>

definition add_stored ::
    "nat \<Rightarrow> db_outcome \<Rightarrow> int \<Rightarrow> active_state \<Rightarrow> (js_error + string) \<times> active_state \<times> execution_effect list" where
  "add_stored ref outcome now s =
     (case map_of (ax_pending s) ref of
        None \<Rightarrow> (Inl AssertionError, s, [])
      | Some p \<Rightarrow>
          (let failed = (case outcome of
                 DbDone \<Rightarrow> None
               | DbRefused \<Rightarrow> if pa_resuming p
                   then Some (OperationalError ''Execution is already being resumed by another process'') else None
               | DbThrows e \<Rightarrow> if pa_resuming p \<or> ax_mode s = ''regular'' then Some e else None)
           in case failed of
                None \<Rightarrow> (Inr (pa_id p), register ref p now s, [])
              | Some e \<Rightarrow>
                  (let (s', fx) = release_place ref (s\<lparr>ax_pending := map_delete ref (ax_pending s)\<rparr>)
                   in (Inl e, s', fx))))"

text \<open>The handler of the post-execution promise.\<close>

definition after_post :: "nat \<Rightarrow> active_state \<Rightarrow> active_state \<times> execution_effect list" where
  "after_post ref s =
     (case map_of (ax_entries s) ref of
        None \<Rightarrow> (s, [])
      | Some e \<Rightarrow>
          if xe_post e \<noteq> PromiseSettled then (s, [])
          else
            let (s1, fx) = release_place ref s;
                e' = e\<lparr>xe_post := PromiseHandled\<rparr>
            in if xe_status e = Waiting
               then (put_entry ref (e'\<lparr>xe_workflowExecution := None\<rparr>) s1, fx)
               else ((put_entry ref e' s1)\<lparr>ax_active := map_delete (xe_id e) (ax_active s1),
                   ax_responseModes := map_delete (xe_id e) (ax_responseModes s1)\<rparr>, fx))"

section \<open>Operations on an active execution\<close>

definition settle :: "nat \<Rightarrow> executing \<Rightarrow> active_state \<Rightarrow> active_state" where
  "settle ref e s =
     (if xe_post e = PromisePending then put_entry ref (e\<lparr>xe_post := PromiseSettled\<rparr>) s else s)"

definition attachWorkflowExecution :: "string \<Rightarrow> nat \<Rightarrow> active_state \<Rightarrow> active_state result" where
  "attachWorkflowExecution executionId run s =
     rbind (getExecutionOrFail s executionId) (\<lambda>(ref, e).
       Inr (put_entry ref (e\<lparr>xe_workflowExecution := Some run\<rparr>) s))"

definition attachResponsePromise :: "string \<Rightarrow> nat \<Rightarrow> active_state \<Rightarrow> active_state result" where
  "attachResponsePromise executionId promise s =
     rbind (getExecutionOrFail s executionId) (\<lambda>(ref, e).
       Inr (put_entry ref (e\<lparr>xe_responsePromise := Some promise\<rparr>) s))"

definition option_effect :: "('a \<Rightarrow> execution_effect) \<Rightarrow> 'a option \<Rightarrow> execution_effect list" where
  "option_effect f x = (case x of None \<Rightarrow> [] | Some y \<Rightarrow> [f y])"

definition resolveResponsePromise :: "string \<Rightarrow> active_state \<Rightarrow> execution_effect list" where
  "resolveResponsePromise executionId s =
     (case getExecution s executionId of
        None \<Rightarrow> []
      | Some (ref, e) \<Rightarrow> option_effect ResolveResponse (xe_responsePromise e))"

definition sendChunk :: "string \<Rightarrow> string \<Rightarrow> active_state \<Rightarrow> execution_effect list" where
  "sendChunk executionId chunkText s =
     (case getExecution s executionId of
        None \<Rightarrow> []
      | Some (ref, e) \<Rightarrow> option_effect (\<lambda>r. WriteChunk r (chunkText @ [CHR 0x0A])) (xe_httpResponse e))"

definition stopExecution :: "string \<Rightarrow> active_state \<Rightarrow> active_state \<times> execution_effect list" where
  "stopExecution executionId s =
     (case getExecution s executionId of
        None \<Rightarrow> (s, [])
      | Some (ref, e) \<Rightarrow>
          let fx = EmitCancelled executionId # option_effect RejectResponse (xe_responsePromise e) in
          if xe_status e = Waiting
          then (s\<lparr>ax_active := map_delete executionId (ax_active s),
                  ax_responseModes := map_delete executionId (ax_responseModes s)\<rparr>, fx)
          else (settle ref e s, fx @ option_effect CancelRun (xe_workflowExecution e)))"

definition finalizeExecution :: "string \<Rightarrow> active_state \<Rightarrow> (active_state \<times> execution_effect list) result" where
  "finalizeExecution executionId s =
     (if \<not> active_has s executionId then Inr (s, [])
      else rbind (getExecutionOrFail s executionId) (\<lambda>(ref, e).
        Inr (settle ref e s, option_effect EndHttp (xd_httpResponse (xe_data e)))))"

definition resolveExecutionResponsePromise :: "string \<Rightarrow> active_state \<Rightarrow> execution_effect list result" where
  "resolveExecutionResponsePromise executionId s =
     (if \<not> active_has s executionId then Inr []
      else rbind (getExecutionOrFail s executionId) (\<lambda>(ref, e).
        Inr (if xe_status e \<noteq> Waiting then option_effect ResolveResponse (xe_responsePromise e) else [])))"

record IExecutionsCurrentSummary =
  sm_id :: string
  sm_retryOf :: "string option"
  sm_startedAt :: int
  sm_mode :: WorkflowExecuteMode
  sm_workflowId :: string
  sm_status :: ExecutionStatus

definition getActiveExecutions :: "active_state \<Rightarrow> IExecutionsCurrentSummary list" where
  "getActiveExecutions s =
     List.map_filter (\<lambda>executionId. map_option (\<lambda>(ref, e).
         \<lparr>sm_id = executionId, sm_retryOf = xd_retryOf (xe_data e), sm_startedAt = xe_startedAt e,
          sm_mode = xd_executionMode (xe_data e), sm_workflowId = xd_workflowId (xe_data e), sm_status = xe_status e\<rparr>)
       (getExecution s executionId)) (keys (ax_active s))"

definition setStatus :: "string \<Rightarrow> ExecutionStatus \<Rightarrow> active_state \<Rightarrow> active_state result" where
  "setStatus executionId status s =
     rbind (getExecutionOrFail s executionId) (\<lambda>(ref, e). Inr (put_entry ref (e\<lparr>xe_status := status\<rparr>) s))"

definition getStatus :: "string \<Rightarrow> active_state \<Rightarrow> ExecutionStatus result" where
  "getStatus executionId s = rbind (getExecutionOrFail s executionId) (\<lambda>(ref, e). Inr (xe_status e))"

definition setResponseMode :: "string \<Rightarrow> string \<Rightarrow> active_state \<Rightarrow> active_state" where
  "setResponseMode executionId responseMode s =
     s\<lparr>ax_responseModes := map_put executionId responseMode (ax_responseModes s)\<rparr>"

definition getResponseMode :: "string \<Rightarrow> active_state \<Rightarrow> string option" where
  "getResponseMode executionId s = map_of (ax_responseModes s) executionId"

section \<open>Stopping and shutting down\<close>

text \<open>
  \<open>stopInRegularMode\<close> of \<open>executions/execution.service.ts\<close>, without the wait tracker: a queued
  execution is taken out of the queue, an active one is stopped.
\<close>

definition stopInRegularMode ::
    "WorkflowExecuteMode \<Rightarrow> string \<Rightarrow> active_state \<Rightarrow> active_state \<times> execution_effect list" where
  "stopInRegularMode mode executionId s =
     (if control_has executionId (ax_control s) then
        let (control, fx) = control_remove \<lparr>ct_executionId = executionId, ct_mode = mode\<rparr> (ax_control s)
        in (fold let_through fx (s\<lparr>ax_control := control\<rparr>), map ControlEffect fx)
      else if active_has s executionId then stopExecution executionId s
      else (s, []))"

text \<open>
  \<open>shutdown\<close> before it waits: the last component are the executions that are cancelled in the
  database.
\<close>

definition shutdown_one ::
    "bool \<Rightarrow> bool \<Rightarrow> string \<Rightarrow> active_state \<times> execution_effect list \<times> string list \<Rightarrow>
     active_state \<times> execution_effect list \<times> string list" where
  "shutdown_one isRegularMode cancelAll executionId acc =
     (case acc of (s, fx, toCancel) \<Rightarrow>
       (case getExecution s executionId of
          None \<Rightarrow> (s, fx, toCancel)
        | Some (ref, e) \<Rightarrow>
            if isRegularMode \<and> cancelAll
            then let (s', fx') = stopExecution executionId s in (s', fx @ fx', toCancel @ [executionId])
            else if xe_status e = Waiting \<or> xe_status e = New
            then (s\<lparr>ax_active := map_delete executionId (ax_active s)\<rparr>, fx, toCancel)
            else (s, fx, toCancel)))"

definition shutdown_begin ::
    "bool \<Rightarrow> active_state \<Rightarrow> active_state \<times> execution_effect list \<times> string list" where
  "shutdown_begin cancelAll s =
     (let isRegularMode = ax_mode s = ''regular'';
          s0 = (if isRegularMode then s\<lparr>ax_control := disable (ax_control s)\<rparr> else s);
          (s1, fx, toCancel) = fold (shutdown_one isRegularMode cancelAll) (keys (ax_active s0)) (s0, [], []);
          (control, cfx, cancelled) = removeAll toCancel (ax_control s1)
      in (fold let_through cfx (s1\<lparr>ax_control := control\<rparr>), fx @ map ControlEffect cfx, cancelled))"

text \<open>The loop ends once no execution is active.\<close>

definition shutdown_done :: "active_state \<Rightarrow> bool" where
  "shutdown_done s \<longleftrightarrow> length (keys (ax_active s)) = 0"

end
