(* ===== verification/Execution_Invariant.thy ===== *)
theory Execution_Invariant
  imports Active_Executions
begin

text \<open>
  The places of the concurrency queues as the active executions hold them. Every queue refines an
  abstract admission (theory \<open>Concurrency_Queue\<close>) whose running calls are the reservations held
  and whose waiting calls are the \<open>add\<close> calls that wait.
\<close>

section \<open>The abstract view of a queue\<close>

definition held_by :: "ConcurrencyQueueType \<Rightarrow> nat \<times> ConcurrencyCapacityReservation \<Rightarrow> queue_item option" where
  "held_by t e = (case acquiredReservation (snd e) of
     None \<Rightarrow> None
   | Some tg \<Rightarrow> if queue_type (ct_mode tg) = Some t then Some (ct_executionId tg, fst e) else None)"

definition waits_for :: "ConcurrencyQueueType \<Rightarrow> nat \<times> pending_add \<Rightarrow> queue_item option" where
  "waits_for t e = (if \<not> pa_reserved (snd e) \<and> queue_type (xd_executionMode (pa_data (snd e))) = Some t
     then Some (pa_id (snd e), fst e) else None)"

definition held_places :: "ConcurrencyQueueType \<Rightarrow> active_state \<Rightarrow> queue_item list" where
  "held_places t s = List.map_filter (held_by t) (ax_reservations s)"

definition waiting_adds :: "ConcurrencyQueueType \<Rightarrow> active_state \<Rightarrow> queue_item list" where
  "waiting_adds t s = List.map_filter (waits_for t) (ax_pending s)"

definition limit_of :: "ConcurrencyQueueType \<Rightarrow> ConcurrencyControl \<Rightarrow> nat" where
  "limit_of t control = (case map_of (cc_limits control) t of None \<Rightarrow> 0 | Some l \<Rightarrow> nat l)"

definition queue_view :: "ConcurrencyQueueType \<Rightarrow> active_state \<Rightarrow> admission" where
  "queue_view t s = \<lparr>ad_limit = limit_of t (ax_control s), ad_running = mset (held_places t s),
     ad_waiting = waiting_adds t s\<rparr>"

definition enabled_queue :: "active_state \<Rightarrow> ConcurrencyQueueType \<Rightarrow> ConcurrencyQueue option" where
  "enabled_queue s t = (if cc_isEnabled (ax_control s) then map_of (cc_queues (ax_control s)) t else None)"

definition queues_ok :: "active_state \<Rightarrow> bool" where
  "queues_ok s \<longleftrightarrow> (\<forall>t q. enabled_queue s t = Some q \<longrightarrow>
     reachable False (limit_of t (ax_control s)) (queue_view t s) \<and> represents (queue_view t s) q)"

text \<open>A call that waits holds nothing, one that was let through holds its target.\<close>

definition pendings_ok :: "active_state \<Rightarrow> bool" where
  "pendings_ok s \<longleftrightarrow> distinct (keys (ax_pending s)) \<and> (\<forall>ref p. map_of (ax_pending s) ref = Some p \<longrightarrow>
     acquiredReservation (reservation s ref) = (if pa_reserved p then Some (target_of p) else None))"

section \<open>Collected entries of a map\<close>

lemma mset_filter_put:
  "mset (List.map_filter f (map_put k v m)) + mset (case map_of m k of None \<Rightarrow> [] | Some w \<Rightarrow> List.map_filter f [(k, w)])
    = mset (List.map_filter f m) + mset (List.map_filter f [(k, v)])"
  by (induction m) (auto simp: map_filter_simps split: option.splits)

lemma map_filter_append: "List.map_filter f (xs @ ys) = List.map_filter f xs @ List.map_filter f ys"
  by (simp add: map_filter_def)

lemma map_filter_delete:
  assumes "distinct (keys m)" "map_of m k = Some w" "f (k, w) = None"
  shows "List.map_filter f (map_delete k m) = List.map_filter f m"
proof -
  have "e \<in> set m \<Longrightarrow> fst e = k \<Longrightarrow> f e = None" for e
    using assms by (cases e) (auto simp: keys_def map_of_eq_Some_iff dest: eq_key_imp_eq_value)
  then show ?thesis
    unfolding map_filter_def map_delete_def
    by (auto intro!: arg_cong [where f = "map _"] simp: filter_filter cong: filter_cong) (auto intro!: filter_cong)
qed

lemma map_filter_put_none:
  assumes "f (k, v) = None" "map_of m k = Some w" "f (k, w) = Some y" "List.map_filter f m = y # ys"
    and "distinct (keys m)" "\<And>e z. f e = Some z \<Longrightarrow> snd z = fst e"
  shows "List.map_filter f (map_put k v m) = ys"
  using assms
proof (induction m)
  case (Cons e m)
  obtain k' w' where e: "e = (k', w')" by (cases e)
  show ?case
  proof (cases "k' = k")
    case True
    then show ?thesis using Cons.prems e by (simp add: map_filter_simps)
  next
    case False
    have "snd y = k" using Cons.prems(3,6) by fastforce
    have "f (k', w') = None"
    proof (cases "f (k', w')")
      case (Some z)
      then have "z = y" using Cons.prems(4) e by (simp add: map_filter_simps)
      then show ?thesis using Some Cons.prems(6) [OF Some] \<open>snd y = k\<close> False by simp
    qed
    then show ?thesis using Cons False e by (simp add: map_filter_simps)
  qed
qed simp

lemma held_by_snd: "held_by t e = Some z \<Longrightarrow> snd z = fst e"
  by (auto simp: held_by_def split: option.splits if_splits)

lemma waits_for_snd: "waits_for t e = Some z \<Longrightarrow> snd z = fst e"
  by (auto simp: waits_for_def split: if_splits)

lemma reservation_cases:
  "acquiredReservation (reservation s ref) = Some tg \<longleftrightarrow>
    (\<exists>r. map_of (ax_reservations s) ref = Some r \<and> acquiredReservation r = Some tg)"
  by (auto simp: reservation_def new_reservation_def split: option.splits)

section \<open>Letting a call through and giving a place back\<close>

text \<open>What a step changes of the reservations, as a change of the places held.\<close>

definition place_of :: "ConcurrencyQueueType \<Rightarrow> nat \<Rightarrow> ConcurrencyCapacityReservation \<Rightarrow> queue_item multiset" where
  "place_of t ref r = (case held_by t (ref, r) of None \<Rightarrow> {#} | Some x \<Rightarrow> {#x#})"

lemma held_put:
  "mset (held_places t (s\<lparr>ax_reservations := map_put ref r (ax_reservations s)\<rparr>)) + place_of t ref (reservation s ref)
    = mset (held_places t s) + place_of t ref r"
proof -
  have n: "held_by t (ref, new_reservation) = None" by (simp add: held_by_def new_reservation_def)
  have p: "mset (List.map_filter (held_by t) [(ref, r)]) = place_of t ref r" for r
    by (simp add: place_of_def map_filter_simps split: option.splits)
  show ?thesis
    using mset_filter_put [of "held_by t" ref r "ax_reservations s"]
    by (auto simp: held_places_def reservation_def p n place_of_def split: option.splits)
qed

lemma place_of_new [simp]: "place_of t ref new_reservation = {#}" "acquiredReservation r = None \<Longrightarrow> place_of t ref r = {#}"
  by (simp_all add: place_of_def held_by_def new_reservation_def)

lemma pendings_waiting:
  "distinct (keys (ax_pending s)) \<Longrightarrow> (i, ref) \<in> set (waiting_adds t s) \<longleftrightarrow>
    (\<exists>p. map_of (ax_pending s) ref = Some p \<and> waits_for t (ref, p) = Some (i, ref))"
  by (auto simp: waiting_adds_def map_filter_def keys_def map_of_eq_Some_iff image_iff waits_for_def)

text \<open>The first waiting call is let through.\<close>

lemma let_through_admit:
  assumes ok: "pendings_ok s" and w: "waiting_adds t s = (i, ref) # ws"
  shows "pendings_ok (let_through (ResolvePromise ref) s)"
    "queue_view t (let_through (ResolvePromise ref) s) = admit (queue_view t s)"
    "t' \<noteq> t \<Longrightarrow> queue_view t' (let_through (ResolvePromise ref) s) = queue_view t' s"
    "\<exists>p. map_of (ax_pending (let_through (ResolvePromise ref) s)) ref = Some p \<and> pa_reserved p"
proof -
  have d: "distinct (keys (ax_pending s))" using ok by (simp add: pendings_ok_def)
  obtain p where p: "map_of (ax_pending s) ref = Some p" "waits_for t (ref, p) = Some (i, ref)"
    using pendings_waiting [OF d, of i ref t] w by auto
  then have q: "\<not> pa_reserved p" "queue_type (xd_executionMode (pa_data p)) = Some t" "pa_id p = i"
    by (auto simp: waits_for_def split: if_splits)
  let ?s = "let_through (ResolvePromise ref) s"
  have s: "?s = reserved_by ref p s" using p(1) by simp
  show "\<exists>p. map_of (ax_pending ?s) ref = Some p \<and> pa_reserved p"
    unfolding s by (simp add: reserved_by_def jsmap.lookup_put)
  have none: "acquiredReservation (reservation s ref) = None"
    using ok p(1) q(1) by (auto simp: pendings_ok_def)
  show "pendings_ok ?s"
    using ok unfolding s reserved_by_def pendings_ok_def
    by (auto simp: jsmap.lookup_put jsmap.distinct_put reservation_def reserve_end_def target_of_def)
  have h: "mset (held_places t' ?s) = mset (held_places t' s) + place_of t' ref (reserve_end (target_of p) new_reservation)" for t'
    using held_put [where t = t' and s = s and ref = ref and r = "reserve_end (target_of p) (reservation s ref)"] none
    by (simp add: s reserved_by_def held_places_def place_of_def held_by_def reserve_end_def del: let_through.simps)
  have pl: "place_of t' ref (reserve_end (target_of p) new_reservation) = (if t' = t then {#(i, ref)#} else {#})" for t'
    using q by (auto simp: place_of_def held_by_def reserve_end_def target_of_def)
  have put: "waits_for t' (ref, p\<lparr>pa_reserved := True\<rparr>) = None" for t' by (simp add: waits_for_def)
  have "waiting_adds t ?s = ws"
    using map_filter_put_none [OF put p [unfolded] w [unfolded waiting_adds_def] d waits_for_snd]
    by (simp add: s reserved_by_def waiting_adds_def del: let_through.simps)
  then show "queue_view t ?s = admit (queue_view t s)"
    using w h [of t] pl [of t] by (simp add: queue_view_def admit_def s reserved_by_def del: let_through.simps)
  assume t: "t' \<noteq> t"
  have "List.map_filter (waits_for t') (map_put ref (p\<lparr>pa_reserved := True\<rparr>) m) = List.map_filter (waits_for t') m"
    if "map_of m ref = Some p" for m
    using that q t by (induction m) (auto simp: map_filter_simps waits_for_def split: option.splits if_splits)
  then have "waiting_adds t' ?s = waiting_adds t' s"
    using p(1) by (simp add: s reserved_by_def waiting_adds_def del: let_through.simps)
  then show "queue_view t' ?s = queue_view t' s"
    using t h [of t'] pl [of t'] by (simp add: queue_view_def s reserved_by_def del: let_through.simps)
qed

definition freed :: "nat \<Rightarrow> active_state \<Rightarrow> active_state" where
  "freed ref s = s\<lparr>ax_reservations := map_put ref ((reservation s ref)\<lparr>acquiredReservation := None\<rparr>) (ax_reservations s)\<rparr>"

lemma reservation_freed: "reservation (freed ref s) ref' = (if ref' = ref then new_reservation else reservation s ref')"
  by (simp add: freed_def reservation_def jsmap.lookup_put new_reservation_def)

lemma pendings_freed: "pendings_ok s \<Longrightarrow> map_of (ax_pending s) ref = None \<Longrightarrow> pendings_ok (freed ref s)"
  by (auto simp: pendings_ok_def reservation_freed) (auto simp: freed_def)

lemma view_freed:
  "queue_view t (freed ref s) =
    (queue_view t s)\<lparr>ad_running := ad_running (queue_view t s) - place_of t ref (reservation s ref)\<rparr>"
proof -
  let ?r = "(reservation s ref)\<lparr>acquiredReservation := None\<rparr>"
  have "mset (held_places t (freed ref s)) + place_of t ref (reservation s ref) = mset (held_places t s)"
    using held_put [where t = t and s = s and ref = ref and r = ?r] by (simp add: freed_def)
  then have "mset (held_places t (freed ref s)) = mset (held_places t s) - place_of t ref (reservation s ref)"
    by (metis add_diff_cancel_right')
  then show ?thesis by (simp add: queue_view_def freed_def waiting_adds_def)
qed

lemma view_control [simp]:
  "cc_limits c = cc_limits (ax_control s) \<Longrightarrow> queue_view t (s\<lparr>ax_control := c\<rparr>) = queue_view t s"
  by (simp add: queue_view_def limit_of_def held_places_def waiting_adds_def)

lemma pendings_control [simp]: "pendings_ok (s\<lparr>ax_control := c\<rparr>) = pendings_ok s"
  by (simp add: pendings_ok_def reservation_def)

text \<open>\<open>release_place\<close> frees the place and lets the oldest waiting call of the same queue through.\<close>

lemma release_place_eq:
  "fst (release_place ref s) = (case acquiredReservation (reservation s ref) of
      None \<Rightarrow> freed ref s
    | Some tg \<Rightarrow> (let (c, fx) = release (ct_mode tg) (ax_control s)
        in fold let_through fx ((freed ref s)\<lparr>ax_control := c\<rparr>)))"
proof -
  have n: "acquiredReservation r = None \<Longrightarrow> r\<lparr>acquiredReservation := None\<rparr> = r" for r :: ConcurrencyCapacityReservation
    by (cases r) simp
  show ?thesis
  proof (cases "acquiredReservation (reservation s ref)")
    case None
    then show ?thesis by (simp add: release_place_def release_reservation_def freed_def n [OF None])
  next
    case (Some tg)
    then show ?thesis by (simp add: release_place_def release_reservation_def freed_def split_beta)
  qed
qed

lemma release_cases:
  assumes "cc_isEnabled c" "queue_type m = Some t" "map_of (cc_queues c) t = Some q"
  shows "release m c = (put_queue t (fst (dequeue q)) c,
    map ResolvePromise (map snd (take 1 (cq_queue q))))"
  using assms
  by (cases "cq_queue q") (auto simp: release_def isUnlimited_def getQueue_def dequeue_def resolveNext_def split: prod.splits)

lemma release_unlimited:
  assumes "\<And>t. queue_type m = Some t \<Longrightarrow> map_of (cc_queues c) t = None"
  shows "release m c = (c, [])"
  using assms by (auto simp: release_def isUnlimited_def getQueue_def split: option.splits)

lemma release_disabled: "\<not> cc_isEnabled c \<Longrightarrow> release m c = (c, [])"
  by (simp add: release_def)

lemma let_through_control [simp]:
  "ax_control (let_through fx s) = ax_control s" "ax_mode (let_through fx s) = ax_mode s"
  "ax_entries (let_through fx s) = ax_entries s" "ax_active (let_through fx s) = ax_active s"
  by (cases fx; simp add: reserved_by_def split: option.splits)+

lemma release_place_view:
  assumes ok: "pendings_ok s" "queues_ok s" and out: "map_of (ax_pending s) ref = None"
    and tg: "acquiredReservation (reservation s ref) = Some tg" "queue_type (ct_mode tg) = Some t"
    and q: "enabled_queue s t = Some q"
  defines "g \<equiv> fst (release_place ref s)" and "x \<equiv> (ct_executionId tg, ref)"
  shows "pendings_ok g" "queue_view t g = finish x (queue_view t s)" "t' \<noteq> t \<Longrightarrow> queue_view t' g = queue_view t' s"
    "ax_control g = put_queue t (fst (dequeue q)) (ax_control s)" "x \<in># ad_running (queue_view t s)"
    "waiting_adds t s = (i, r) # ws \<Longrightarrow> \<exists>p. map_of (ax_pending g) r = Some p \<and> pa_reserved p"
proof -
  let ?f = "freed ref s"
  let ?c = "put_queue t (fst (dequeue q)) (ax_control s)"
  let ?s = "?f\<lparr>ax_control := ?c\<rparr>"
  have pf: "pendings_ok ?f" using pendings_freed [OF ok(1) out] .
  have cf: "ax_control ?f = ax_control s" by (simp add: freed_def)
  have e: "cc_isEnabled (ax_control s)" "map_of (cc_queues (ax_control s)) t = Some q"
    using q by (auto simp: enabled_queue_def split: if_splits)
  have g: "g = fold let_through (map ResolvePromise (map snd (take 1 (cq_queue q)))) ?s"
    using tg(1) release_cases [OF e(1) tg(2) e(2)] by (simp add: g_def release_place_eq)
  have rq: "represents (queue_view t s) q" using ok(2) q by (auto simp: queues_ok_def)
  have lim: "cc_limits ?c = cc_limits (ax_control s)" by (simp add: put_queue_def)
  have v: "queue_view t ?s = (queue_view t s)\<lparr>ad_running := ad_running (queue_view t s) - {#x#}\<rparr>"
    "\<And>t'. t' \<noteq> t \<Longrightarrow> queue_view t' ?s = queue_view t' s"
    using lim tg by (simp_all add: view_freed cf place_of_def held_by_def x_def)
  have w: "cq_queue q = waiting_adds t ?s"
    using rq v(1) by (simp add: represents_def queue_view_def)
  have "waiting_adds t ?s = waiting_adds t s" using v(1) by (simp add: queue_view_def)
  then show "\<exists>p. map_of (ax_pending g) r = Some p \<and> pa_reserved p" if "waiting_adds t s = (i, r) # ws"
    using let_through_admit(4) [of ?s t i r ws] pf w that by (simp add: g del: let_through.simps)
  have gv: "pendings_ok g \<and> queue_view t g = admit (queue_view t ?s) \<and>
      (\<forall>t'. t' \<noteq> t \<longrightarrow> queue_view t' g = queue_view t' ?s) \<and> ax_control g = ?c"
  proof (cases "cq_queue q")
    case Nil
    then show ?thesis using pf w by (simp add: g admit_def queue_view_def)
  next
    case (Cons y ys)
    obtain i ref' where y: "y = (i, ref')" by (cases y)
    then show ?thesis
      using let_through_admit [of ?s t i ref' ys] pf Cons w by (simp add: g del: let_through.simps)
  qed
  show "pendings_ok g" "t' \<noteq> t \<Longrightarrow> queue_view t' g = queue_view t' s" "ax_control g = ?c" using gv v(2) by simp_all
  show "queue_view t g = finish x (queue_view t s)" using gv v(1) by (simp add: finish_def)
  show "x \<in># ad_running (queue_view t s)"
    using tg by (force simp: queue_view_def held_places_def map_filter_def reservation_cases held_by_def x_def
        dest!: map_of_SomeD intro!: image_eqI [where x = "(ref, _)"])
qed

lemma release_place_ok:
  assumes ok: "pendings_ok s" "queues_ok s" and out: "map_of (ax_pending s) ref = None"
  shows "pendings_ok (fst (release_place ref s)) \<and> queues_ok (fst (release_place ref s))"
proof -
  let ?f = "freed ref s"
  have pf: "pendings_ok ?f" using pendings_freed [OF ok(1) out] .
  have cf: "ax_control ?f = ax_control s" by (simp add: freed_def)
  have keep: "queues_ok ?f" if "\<And>t q. enabled_queue s t = Some q \<Longrightarrow> place_of t ref (reservation s ref) = {#}"
    using ok(2) that unfolding queues_ok_def view_freed by (simp add: enabled_queue_def cf)
  show ?thesis
  proof (cases "acquiredReservation (reservation s ref)")
    case None
    then show ?thesis using pf keep by (simp add: release_place_eq)
  next
    case (Some tg)
    have pl: "place_of t ref (reservation s ref) =
        (if queue_type (ct_mode tg) = Some t then {#(ct_executionId tg, ref)#} else {#})" for t
      by (simp add: place_of_def held_by_def Some)
    show ?thesis
    proof (cases "\<exists>t q. queue_type (ct_mode tg) = Some t \<and> enabled_queue s t = Some q")
      case False
      then have "release (ct_mode tg) (ax_control s) = (ax_control s, [])"
        by (cases "cc_isEnabled (ax_control s)") (auto simp: release_disabled enabled_queue_def release_unlimited)
      then have "fst (release_place ref s) = ?f" using Some cf by (simp add: release_place_eq)
      moreover have "queues_ok ?f" by (rule keep) (use pl False in auto)
      ultimately show ?thesis using pf by simp
    next
      case True
      then obtain t q where t: "queue_type (ct_mode tg) = Some t" "enabled_queue s t = Some q" by auto
      let ?g = "fst (release_place ref s)"
      note v = release_place_view [OF ok out Some t]
      have r: "reachable False (limit_of t (ax_control s)) (queue_view t s)" "represents (queue_view t s) q"
        using ok(2) t(2) by (auto simp: queues_ok_def)
      have "represents (queue_view t ?g) (fst (dequeue q))"
        unfolding v(2) using dequeue_finish(1) [OF r(2) v(5)] by (metis prod.collapse)
      moreover have "reachable False (limit_of t (ax_control s)) (queue_view t ?g)"
        unfolding v(2) by (rule reachable.ending [OF r(1) v(5)])
      moreover have "enabled_queue ?g t' = (if t' = t then Some (fst (dequeue q)) else enabled_queue s t')" for t'
        using v(4) t(2) by (simp add: enabled_queue_def put_queue_def jsmap.lookup_put split: if_splits)
      moreover have "limit_of t' (ax_control ?g) = limit_of t' (ax_control s)" for t'
        by (simp add: limit_of_def put_queue_def v(4))
      ultimately have "queues_ok ?g" using ok(2) v(3) unfolding queues_ok_def by (auto split: if_splits)
      then show ?thesis using v(1) by simp
    qed
  qed
qed

text \<open>What giving a place back leaves alone.\<close>

definition same_outside :: "active_state \<Rightarrow> active_state \<Rightarrow> bool" where
  "same_outside s s' \<longleftrightarrow> (\<forall>ref. map_of (ax_pending s') ref = None \<longleftrightarrow> map_of (ax_pending s) ref = None) \<and>
     (\<forall>ref. map_of (ax_pending s) ref = None \<longrightarrow> reservation s' ref = reservation s ref) \<and>
     ax_entries s' = ax_entries s \<and> ax_active s' = ax_active s \<and> ax_mode s' = ax_mode s \<and>
     ax_responseModes s' = ax_responseModes s \<and>
     cc_isEnabled (ax_control s') = cc_isEnabled (ax_control s)"

lemma same_outside_trans: "same_outside s s' \<Longrightarrow> same_outside s' s'' \<Longrightarrow> same_outside s s''"
  by (simp add: same_outside_def)

lemma same_outside_let: "same_outside s (let_through fx s)"
  by (cases fx) (auto simp: same_outside_def reserved_by_def jsmap.lookup_put reservation_def split: option.splits)

lemma same_outside_fold: "same_outside s (fold let_through fxs s)"
proof (induction fxs arbitrary: s)
  case Nil
  show ?case by (simp add: same_outside_def)
next
  case (Cons fx fxs)
  show ?case
    using same_outside_trans [OF same_outside_let [of s fx] Cons.IH [of "let_through fx s"]] by simp
qed

lemma release_enabled: "cc_isEnabled (fst (release m c)) = cc_isEnabled c"
  by (auto simp: release_def put_queue_def split: option.splits prod.splits)

lemma release_place_outside: "same_outside (freed ref s) (fst (release_place ref s))"
proof (cases "acquiredReservation (reservation s ref)")
  case None
  then show ?thesis by (simp add: release_place_eq same_outside_def)
next
  case (Some tg)
  obtain c fx where c: "release (ct_mode tg) (ax_control s) = (c, fx)" by fastforce
  then have "same_outside (freed ref s) ((freed ref s)\<lparr>ax_control := c\<rparr>)"
    using release_enabled [of "ct_mode tg" "ax_control s"] by (simp add: same_outside_def reservation_def freed_def)
  then show ?thesis
    using same_outside_trans [OF _ same_outside_fold] c Some by (simp add: release_place_eq)
qed

lemma release_place_frame:
  "ax_entries (fst (release_place ref s)) = ax_entries s"
  "ax_active (fst (release_place ref s)) = ax_active s" "ax_mode (fst (release_place ref s)) = ax_mode s"
  "ax_responseModes (fst (release_place ref s)) = ax_responseModes s"
  "cc_isEnabled (ax_control (fst (release_place ref s))) = cc_isEnabled (ax_control s)"
  "map_of (ax_pending (fst (release_place ref s))) ref' = None \<longleftrightarrow> map_of (ax_pending s) ref' = None"
  "map_of (ax_pending s) ref' = None \<Longrightarrow>
    reservation (fst (release_place ref s)) ref' = (if ref' = ref then new_reservation else reservation s ref')"
  using release_place_outside [of ref s]
  by (auto simp: same_outside_def reservation_freed) (auto simp: freed_def)

section \<open>The steps of the active executions\<close>

text \<open>
  The calls the process makes, in any order; the number of an \<open>add\<close> call is new. Taking a queued
  execution out of its queue (\<open>stopInRegularMode\<close>) is left out here: it breaks the limit, as
  theory \<open>Execution_Properties\<close> shows.
\<close>

definition unused :: "nat \<Rightarrow> active_state \<Rightarrow> bool" where
  "unused ref s \<longleftrightarrow> map_of (ax_pending s) ref = None \<and> map_of (ax_entries s) ref = None \<and>
     map_of (ax_reservations s) ref = None"

inductive active_step :: "active_state \<Rightarrow> active_state \<Rightarrow> bool" where
  add: "unused ref s \<Longrightarrow> add_begin ref d i created s = Inr (s', fx) \<Longrightarrow> active_step s s'"
| stored: "map_of (ax_pending s) ref = Some p \<Longrightarrow> pa_reserved p \<Longrightarrow>
    add_stored ref outcome now s = (r, s', fx) \<Longrightarrow> active_step s s'"
| post: "after_post ref s = (s', fx) \<Longrightarrow> active_step s s'"
| attach: "attachWorkflowExecution i run s = Inr s' \<Longrightarrow> active_step s s'"
| promise: "attachResponsePromise i n s = Inr s' \<Longrightarrow> active_step s s'"
| status: "setStatus i st s = Inr s' \<Longrightarrow> active_step s s'"
| response: "active_step s (setResponseMode i m s)"
| stop: "stopExecution i s = (s', fx) \<Longrightarrow> active_step s s'"
| finalize: "finalizeExecution i s = Inr (s', fx) \<Longrightarrow> active_step s s'"
| shutdown: "shutdown_begin cancelAll s = (s', fx, cancelled) \<Longrightarrow> active_step s s'"

inductive active_reachable :: "executions_config \<Rightarrow> active_state \<Rightarrow> bool" for cfg :: executions_config where
  start: "newConcurrencyControl cfg = Inr control \<Longrightarrow> executions_mode cfg \<in> {''regular'', ''queue''} \<Longrightarrow>
    active_reachable cfg (new_active control (executions_mode cfg))"
| step: "active_reachable cfg s \<Longrightarrow> active_step s s' \<Longrightarrow> active_reachable cfg s'"

text \<open>
  The entries: the table of active executions leads to entries of that identifier, and a call holds
  its place from the moment it is let through until its post-execution promise was handled.
\<close>

definition entries_ok :: "active_state \<Rightarrow> bool" where
  "entries_ok s \<longleftrightarrow>
     (\<forall>i ref. map_of (ax_active s) i = Some ref \<longrightarrow> (\<exists>e. map_of (ax_entries s) ref = Some e \<and> xe_id e = i)) \<and>
     (\<forall>ref. map_of (ax_pending s) ref \<noteq> None \<longrightarrow> map_of (ax_entries s) ref = None) \<and>
     (\<forall>ref. map_of (ax_pending s) ref = None \<longrightarrow> (acquiredReservation (reservation s ref) \<noteq> None \<longleftrightarrow>
        (\<exists>e. map_of (ax_entries s) ref = Some e \<and> xe_post e \<noteq> PromiseHandled)))"

definition mode_ok :: "active_state \<Rightarrow> bool" where
  "mode_ok s \<longleftrightarrow> (cc_isEnabled (ax_control s) \<longrightarrow> ax_mode s = ''regular'')"

definition active_ok :: "active_state \<Rightarrow> bool" where
  "active_ok s \<longleftrightarrow> pendings_ok s \<and> queues_ok s \<and> entries_ok s \<and> mode_ok s"

lemma start_ok:
  assumes "newConcurrencyControl cfg = Inr control" "executions_mode cfg \<in> {''regular'', ''queue''}"
  shows "active_ok (new_active control (executions_mode cfg))"
proof -
  let ?s = "new_active control (executions_mode cfg)"
  have none: "acquiredReservation (reservation ?s ref) = None" for ref
    by (simp add: reservation_def new_active_def new_reservation_def)
  have "queue_view t ?s = \<lparr>ad_limit = limit_of t control, ad_running = {#}, ad_waiting = []\<rparr>" for t
    by (simp add: queue_view_def new_active_def held_places_def waiting_adds_def map_filter_simps)
  moreover have "cq_queue q = [] \<and> cq_capacity q = int (limit_of t control)"
    if "cc_isEnabled control" "map_of (cc_queues control) t = Some q" for t q
    using assms(1) that
    by (auto simp: newConcurrencyControl_def checked_limits_def result_simps limit_of_def newConcurrencyQueue_def
        split: if_splits)
  ultimately have "queues_ok ?s"
    using reachable.start by (auto simp: queues_ok_def enabled_queue_def new_active_def represents_def split: if_splits)
  moreover have "mode_ok ?s"
    using assms by (auto simp: mode_ok_def new_active_def newConcurrencyControl_def result_simps split: if_splits)
  ultimately show ?thesis
    using none by (simp add: active_ok_def pendings_ok_def entries_ok_def new_active_def)
qed

section \<open>The invariant is kept\<close>

subsection \<open>Adding\<close>

definition added :: "nat \<Rightarrow> pending_add \<Rightarrow> bool \<Rightarrow> ConcurrencyControl \<Rightarrow> active_state \<Rightarrow> active_state" where
  "added ref p waits c s =
     s\<lparr>ax_pending := ax_pending s @ [(ref, p\<lparr>pa_reserved := \<not> waits\<rparr>)], ax_control := c,
       ax_reservations := map_put ref \<lparr>acquiredReservation = (if waits then None else Some (target_of p))\<rparr> (ax_reservations s)\<rparr>"

lemma map_put_last: "map_of m k = None \<Longrightarrow> map_put k v (m @ [(k, w)]) = m @ [(k, v)]"
  by (induction m) (auto split: if_splits)

lemma add_begin_cases:
  assumes "unused ref s" "add_begin ref d i created s = Inr (s', fx)"
  obtains p waits c fx' where "throttle (target_of p) ref (ax_control s) = (c, fx', waits)"
    "s' = added ref p waits c s"
proof -
  let ?i = "case i of None \<Rightarrow> created | Some i \<Rightarrow> i"
  let ?p = "\<lparr>pa_id = ?i, pa_data = d, pa_resuming = i \<noteq> None, pa_reserved = False\<rparr>"
  obtain c fx' waits where th: "throttle (target_of ?p) ref (ax_control s) = (c, fx', waits)"
    by (rule prod_cases3)
  have "acquiredReservation new_reservation = None" by (simp add: new_reservation_def)
  then have "s' = added ref ?p waits c s"
    using assms th
    by (auto simp: add_begin_def reserve_begin_def unused_def added_def reserved_by_def Let_def map_put_twice map_put_last
        reservation_def jsmap.lookup_put reserve_end_def new_reservation_def target_of_def split: if_splits)
  then show thesis using that th by blast
qed

lemma view_added:
  assumes "unused ref s" "cc_limits c = cc_limits (ax_control s)"
  shows "queue_view t (added ref p waits c s) =
    (if queue_type (xd_executionMode (pa_data p)) \<noteq> Some t then queue_view t s
     else if waits then (queue_view t s)\<lparr>ad_waiting := ad_waiting (queue_view t s) @ [(pa_id p, ref)]\<rparr>
     else (queue_view t s)\<lparr>ad_running := add_mset (pa_id p, ref) (ad_running (queue_view t s))\<rparr>)"
proof -
  let ?r = "\<lparr>acquiredReservation = (if waits then None else Some (target_of p))\<rparr>"
  have "reservation s ref = new_reservation" using assms(1) by (simp add: reservation_def unused_def)
  then have "mset (held_places t (added ref p waits c s)) = mset (held_places t s) + place_of t ref ?r"
    using held_put [where t = t and s = s and ref = ref and r = ?r] by (simp add: held_places_def added_def)
  moreover have "place_of t ref ?r = (if \<not> waits \<and> queue_type (xd_executionMode (pa_data p)) = Some t
      then {#(pa_id p, ref)#} else {#})"
    by (simp add: place_of_def held_by_def target_of_def)
  ultimately show ?thesis
    using assms(2)
    by (auto simp: queue_view_def limit_of_def added_def waiting_adds_def map_filter_append waits_for_def map_filter_simps)
qed

lemma reservation_added:
  "reservation (added ref p waits c s) ref' = (if ref' = ref
    then \<lparr>acquiredReservation = (if waits then None else Some (target_of p))\<rparr> else reservation s ref')"
  by (simp add: added_def reservation_def jsmap.lookup_put)

lemma pending_added:
  "unused ref s \<Longrightarrow> map_of (ax_pending (added ref p waits c s)) ref' =
    (if ref' = ref then Some (p\<lparr>pa_reserved := \<not> waits\<rparr>) else map_of (ax_pending s) ref')"
  by (simp add: unused_def added_def map_add_def split: option.splits)

lemma pendings_added:
  assumes "unused ref s" "pendings_ok s"
  shows "pendings_ok (added ref p waits c s)"
proof -
  have "distinct (keys (ax_pending (added ref p waits c s)))"
    using assms by (simp add: added_def keys_def unused_def pendings_ok_def map_of_eq_None_iff)
  then show ?thesis
    using assms unfolding pendings_ok_def pending_added [OF assms(1)] reservation_added
    by (auto simp: target_of_def)
qed

lemma throttle_frame:
  "throttle tg ref c = (c', fx, waits) \<Longrightarrow> cc_limits c' = cc_limits c \<and> cc_isEnabled c' = cc_isEnabled c"
  by (auto simp: throttle_def put_queue_def split: if_splits option.splits prod.splits)

lemma throttle_cases:
  assumes "throttle tg ref c = (c', fx, waits)" "cc_isEnabled c"
  shows "(\<exists>t q q' es. queue_type (ct_mode tg) = Some t \<and> map_of (cc_queues c) t = Some q \<and>
      enqueue (ct_executionId tg) ref q = (q', es, waits) \<and> c' = put_queue t q' c) \<or>
    (\<forall>t. queue_type (ct_mode tg) = Some t \<longrightarrow> map_of (cc_queues c) t = None) \<and> c' = c"
  using assms
  by (auto simp: throttle_def isUnlimited_def getQueue_def split: if_splits option.splits prod.splits)

lemma queues_added:
  assumes un: "unused ref s" and ok: "queues_ok s"
    and th: "throttle (target_of p) ref (ax_control s) = (c, fx, waits)"
  shows "queues_ok (added ref p waits c s)"
proof (cases "cc_isEnabled (ax_control s)")
  case False
  then show ?thesis
    using throttle_frame [OF th] by (simp add: queues_ok_def enabled_queue_def added_def)
next
  case True
  let ?s = "added ref p waits c s"
  have lim: "cc_limits c = cc_limits (ax_control s)" "cc_isEnabled c" using throttle_frame [OF th] True by auto
  then have lim': "limit_of t (ax_control ?s) = limit_of t (ax_control s)" for t
    by (simp add: limit_of_def added_def)
  have m: "ct_mode (target_of p) = xd_executionMode (pa_data p)" "ct_executionId (target_of p) = pa_id p"
    by (simp_all add: target_of_def)
  from throttle_cases [OF th True] show ?thesis
  proof (elim disjE exE conjE)
    fix t q q' es
    assume t: "queue_type (ct_mode (target_of p)) = Some t" "map_of (cc_queues (ax_control s)) t = Some q"
      and e: "enqueue (ct_executionId (target_of p)) ref q = (q', es, waits)"
      and c: "c = put_queue t q' (ax_control s)"
    have r: "reachable False (limit_of t (ax_control s)) (queue_view t s)" "represents (queue_view t s) q"
      using ok t(2) True by (auto simp: queues_ok_def enabled_queue_def)
    note sim = enqueue_arrive [OF r(2) e]
    have v: "queue_view t ?s = arrive (pa_id p, ref) (queue_view t s)"
      using sim(2) t(1) m by (auto simp: view_added [OF un lim(1)] arrive_def)
    have "enabled_queue ?s t' = (if t' = t then Some q' else enabled_queue s t')" for t'
      using True lim(2) by (simp add: enabled_queue_def added_def c put_queue_def jsmap.lookup_put)
    moreover have "queue_view t' ?s = queue_view t' s" if "t' \<noteq> t" for t'
      using that t(1) m by (simp add: view_added [OF un lim(1)])
    moreover have "represents (queue_view t ?s) q'" using sim(1) v m by simp
    moreover have "reachable False (limit_of t (ax_control s)) (queue_view t ?s)"
      unfolding v by (rule reachable.arrival [OF r(1)])
    ultimately show ?thesis using ok lim' unfolding queues_ok_def by (auto split: if_splits)
  next
    assume none: "\<forall>t. queue_type (ct_mode (target_of p)) = Some t \<longrightarrow> map_of (cc_queues (ax_control s)) t = None"
      and c: "c = ax_control s"
    have e: "enabled_queue ?s t = enabled_queue s t" for t by (simp add: enabled_queue_def added_def c)
    have "queue_view t ?s = queue_view t s" if "enabled_queue s t = Some q" for t q
      using that none m by (auto simp: view_added [OF un lim(1)] enabled_queue_def split: if_splits)
    then show ?thesis using ok lim' e unfolding queues_ok_def by auto
  qed
qed

lemma add_ok:
  assumes "active_ok s" "unused ref s" "add_begin ref d i created s = Inr (s', fx)"
  shows "active_ok s'"
proof -
  obtain p waits c fx' where th: "throttle (target_of p) ref (ax_control s) = (c, fx', waits)"
    and s': "s' = added ref p waits c s" using add_begin_cases [OF assms(2,3)] .
  have "ax_entries s' = ax_entries s" "ax_active s' = ax_active s" "ax_mode s' = ax_mode s"
    "cc_isEnabled (ax_control s') = cc_isEnabled (ax_control s)"
    using throttle_frame [OF th] by (simp_all add: s' added_def)
  then have "entries_ok s'" "mode_ok s'"
    using assms(1,2) pending_added [OF assms(2)]
    by (auto simp: active_ok_def entries_ok_def mode_ok_def unused_def s' reservation_added)
  then show ?thesis
    using pendings_added [OF assms(2)] queues_added [OF assms(2) _ th] assms(1) s' by (simp add: active_ok_def)
qed

subsection \<open>After the database call\<close>

definition without_pending :: "nat \<Rightarrow> active_state \<Rightarrow> active_state" where
  "without_pending ref s = s\<lparr>ax_pending := map_delete ref (ax_pending s)\<rparr>"

lemma reservation_without [simp]: "reservation (without_pending ref s) = reservation s"
  by (rule ext) (simp add: without_pending_def reservation_def)

lemma without_pending_ok:
  assumes "pendings_ok s" "queues_ok s" "map_of (ax_pending s) ref = Some p" "pa_reserved p"
  shows "pendings_ok (without_pending ref s)" "queues_ok (without_pending ref s)"
proof -
  show "pendings_ok (without_pending ref s)"
    using assms(1) by (auto simp: pendings_ok_def map_delete_distinct) (auto simp: without_pending_def map_delete_of
        intro: map_delete_distinct split: if_splits)
  have "distinct (keys (ax_pending s))" using assms(1) by (simp add: pendings_ok_def)
  then have "waiting_adds t (without_pending ref s) = waiting_adds t s" for t
    using map_filter_delete [OF _ assms(3), of "waits_for t"] assms(4)
    by (simp add: waiting_adds_def without_pending_def waits_for_def)
  then have "queue_view t (without_pending ref s) = queue_view t s" for t
    by (simp add: queue_view_def held_places_def) (simp add: without_pending_def)
  then show "queues_ok (without_pending ref s)"
    using assms(2) by (simp add: queues_ok_def) (simp add: enabled_queue_def without_pending_def)
qed

text \<open>The places depend on the waiting calls, the reservations and the queues only.\<close>

lemma same_places:
  assumes "ax_pending s' = ax_pending s" "ax_reservations s' = ax_reservations s" "ax_control s' = ax_control s"
  shows "pendings_ok s' = pendings_ok s" "queues_ok s' = queues_ok s" "reservation s' ref = reservation s ref"
  using assms
  by (simp_all add: pendings_ok_def queues_ok_def reservation_def queue_view_def held_places_def waiting_adds_def
      enabled_queue_def)

lemma stored_ok:
  assumes ok: "active_ok s" and p: "map_of (ax_pending s) ref = Some p" "pa_reserved p"
    and st: "add_stored ref outcome now s = (r, s', fx)"
  shows "active_ok s'"
proof -
  let ?w = "without_pending ref s"
  have w: "pendings_ok ?w" "queues_ok ?w" "map_of (ax_pending ?w) ref = None"
    using without_pending_ok [OF _ _ p] ok
    by (auto simp: active_ok_def) (simp_all add: without_pending_def map_delete_of)
  have a: "acquiredReservation (reservation s ref) = Some (target_of p)"
    using ok p by (simp add: active_ok_def pendings_ok_def)
  have e: "map_of (ax_entries s) ref = None" using ok p by (auto simp: active_ok_def entries_ok_def)
  have wp: "map_of (ax_pending ?w) ref' = (if ref' = ref then None else map_of (ax_pending s) ref')" for ref'
    by (simp add: without_pending_def map_delete_of)
  have we: "ax_entries ?w = ax_entries s" "ax_active ?w = ax_active s" "ax_mode ?w = ax_mode s" "ax_control ?w = ax_control s"
    by (simp_all add: without_pending_def)
  from st p(1) consider (failed) "s' = fst (release_place ref ?w)" | (fine) "s' = register ref p now s"
    by (auto simp: add_stored_def Let_def without_pending_def split: option.splits prod.splits)
  then show ?thesis
  proof cases
    case failed
    have "pendings_ok s'" "queues_ok s'" using release_place_ok [OF w] failed by simp_all
    moreover have "entries_ok s'" "mode_ok s'"
      using ok e release_place_frame [where ref = ref and s = ?w]
      unfolding failed active_ok_def entries_ok_def mode_ok_def
      by (auto simp: we wp new_reservation_def)
    ultimately show ?thesis by (simp add: active_ok_def)
  next
    case fine
    have s': "ax_pending s' = ax_pending ?w" "ax_reservations s' = ax_reservations ?w" "ax_control s' = ax_control ?w"
      by (simp_all add: fine register_def Let_def without_pending_def)
    obtain x where x: "map_of (ax_entries s') = (map_of (ax_entries s))(ref \<mapsto> x)" "xe_id x = pa_id p"
      "xe_post x = PromisePending" "map_of (ax_active s') = (map_of (ax_active s))(pa_id p \<mapsto> ref)"
      by (simp add: fine register_def Let_def jsmap.lookup_put jsobj.lookup_put)
    have na: "map_of (ax_active s) i \<noteq> Some ref" for i using ok e by (fastforce simp: active_ok_def entries_ok_def)
    have "entries_ok s'"
      using ok a same_places(3) [OF s'] unfolding active_ok_def entries_ok_def x(1,4) s'(1)
      by (auto simp: x(2,3) wp na)
    moreover have "mode_ok s'" using ok by (simp add: active_ok_def mode_ok_def fine register_def Let_def)
    ultimately show ?thesis using same_places(1,2) [OF s'] w by (simp add: active_ok_def)
  qed
qed

text \<open>A step that changes one entry, keeps its identifier and adds no active execution.\<close>

lemma entries_update:
  assumes ok: "entries_ok s" and e: "map_of (ax_entries s) ref = Some e"
    and x: "map_of (ax_entries s') = (map_of (ax_entries s))(ref \<mapsto> e')" "xe_id e' = xe_id e"
    and act: "\<And>i r. map_of (ax_active s') i = Some r \<Longrightarrow> map_of (ax_active s) i = Some r"
    and pend: "\<And>r. map_of (ax_pending s') r = None \<longleftrightarrow> map_of (ax_pending s) r = None"
    and res: "\<And>r. map_of (ax_pending s) r = None \<Longrightarrow> r \<noteq> ref \<Longrightarrow> reservation s' r = reservation s r"
    and held: "acquiredReservation (reservation s' ref) \<noteq> None \<longleftrightarrow> xe_post e' \<noteq> PromiseHandled"
  shows "entries_ok s'"
proof -
  have "\<exists>e. map_of (ax_entries s') r = Some e \<and> xe_id e = i" if "map_of (ax_active s') i = Some r" for i r
    using act [OF that] ok e x by (fastforce simp: entries_ok_def)
  moreover have "map_of (ax_entries s') r = None" if "map_of (ax_pending s') r \<noteq> None" for r
  proof -
    have "map_of (ax_pending s) r \<noteq> None" using that pend [of r] by simp
    then have "map_of (ax_entries s) r = None" using ok unfolding entries_ok_def by blast
    then show ?thesis using e x(1) by (metis fun_upd_apply option.distinct(1))
  qed
  moreover have "acquiredReservation (reservation s' r) \<noteq> None \<longleftrightarrow>
      (\<exists>e. map_of (ax_entries s') r = Some e \<and> xe_post e \<noteq> PromiseHandled)" if "map_of (ax_pending s') r = None" for r
  proof (cases "r = ref")
    case True
    then show ?thesis using held x(1) by simp
  next
    case False
    have "map_of (ax_pending s) r = None" using that pend [of r] by simp
    moreover from this have "reservation s' r = reservation s r" using res False by blast
    ultimately show ?thesis using ok False x(1) unfolding entries_ok_def by simp
  qed
  ultimately show ?thesis unfolding entries_ok_def by blast
qed

lemma post_ok:
  assumes ok: "active_ok s" and st: "after_post ref s = (s', fx)"
  shows "active_ok s'"
proof (cases "\<exists>e. map_of (ax_entries s) ref = Some e \<and> xe_post e = PromiseSettled")
  case False
  then show ?thesis using st ok by (auto simp: after_post_def split: option.splits if_splits)
next
  case True
  then obtain e where e: "map_of (ax_entries s) ref = Some e" "xe_post e = PromiseSettled" by auto
  let ?r = "fst (release_place ref s)"
  have out: "map_of (ax_pending s) ref = None"
    using ok e(1) by (cases "map_of (ax_pending s) ref") (auto simp: active_ok_def entries_ok_def)
  have r: "pendings_ok ?r" "queues_ok ?r"
    using release_place_ok [OF _ _ out] ok by (simp_all add: active_ok_def)
  note f = release_place_frame [where ref = ref and s = s]
  define e' where "e' = (if xe_status e = Waiting then e\<lparr>xe_post := PromiseHandled, xe_workflowExecution := None\<rparr>
    else e\<lparr>xe_post := PromiseHandled\<rparr>)"
  have e': "xe_id e' = xe_id e" "xe_post e' = PromiseHandled" by (simp_all add: e'_def)
  have eq: "s' = (if xe_status e = Waiting then put_entry ref e' ?r
      else (put_entry ref e' ?r)\<lparr>ax_active := map_delete (xe_id e) (ax_active ?r),
        ax_responseModes := map_delete (xe_id e) (ax_responseModes ?r)\<rparr>)"
    using st e by (simp add: after_post_def Let_def e'_def split_beta split: if_splits)
  have s': "ax_pending s' = ax_pending ?r" "ax_reservations s' = ax_reservations ?r" "ax_control s' = ax_control ?r"
    by (simp_all add: eq put_entry_def)
  have x: "map_of (ax_entries s') = (map_of (ax_entries s))(ref \<mapsto> e')"
      "ax_active s' = ax_active s \<or> ax_active s' = map_delete (xe_id e) (ax_active s)" "ax_mode s' = ax_mode s"
    by (simp_all add: eq put_entry_def jsmap.lookup_put f)
  have "entries_ok s'"
  proof (rule entries_update [OF _ e(1) x(1) e'(1)])
    show "entries_ok s" using ok by (simp add: active_ok_def)
    show "map_of (ax_active s) i = Some r" if "map_of (ax_active s') i = Some r" for i r
      using x(2) that by (auto simp: map_delete_of split: if_splits)
    show "map_of (ax_pending s') r = None \<longleftrightarrow> map_of (ax_pending s) r = None" for r
      unfolding s'(1) by (rule f(6))
    show "reservation s' r = reservation s r" if "map_of (ax_pending s) r = None" "r \<noteq> ref" for r
      using f(7) [OF that(1)] that(2) same_places(3) [OF s'] by simp
    show "acquiredReservation (reservation s' ref) \<noteq> None \<longleftrightarrow> xe_post e' \<noteq> PromiseHandled"
      using f(7) [OF out] same_places(3) [OF s'] e'(2) by (simp add: new_reservation_def)
  qed
  moreover have "mode_ok s'" using ok x(3) f(5) s'(3) by (simp add: active_ok_def mode_ok_def)
  ultimately show ?thesis using same_places(1,2) [OF s'] r by (simp add: active_ok_def)
qed

subsection \<open>The other calls\<close>

text \<open>They change one entry, which stays unhandled or handled, or remove active executions.\<close>

lemma put_entry_ok:
  assumes ok: "active_ok s" and e: "map_of (ax_entries s) ref = Some e"
    and e': "xe_id e' = xe_id e" "xe_post e' = PromiseHandled \<longleftrightarrow> xe_post e = PromiseHandled"
  shows "active_ok (put_entry ref e' s)"
proof -
  let ?s = "put_entry ref e' s"
  have s': "ax_pending ?s = ax_pending s" "ax_reservations ?s = ax_reservations s" "ax_control ?s = ax_control s"
    "ax_active ?s = ax_active s" "ax_mode ?s = ax_mode s"
    by (simp_all add: put_entry_def)
  note r = same_places [OF s'(1-3)]
  have out: "map_of (ax_pending s) ref = None"
    using ok e by (cases "map_of (ax_pending s) ref") (auto simp: active_ok_def entries_ok_def)
  have "entries_ok ?s"
  proof (rule entries_update [OF _ e _ e'(1)])
    show "entries_ok s" using ok by (simp add: active_ok_def)
    show "map_of (ax_entries ?s) = (map_of (ax_entries s))(ref \<mapsto> e')" by (simp add: put_entry_def jsmap.lookup_put)
    show "acquiredReservation (reservation ?s ref) \<noteq> None \<longleftrightarrow> xe_post e' \<noteq> PromiseHandled"
      using ok e e'(2) out r(3) by (simp add: active_ok_def entries_ok_def)
  qed (use s' r(3) in simp_all)
  then show ?thesis using ok r(1,2) s' by (simp add: active_ok_def mode_ok_def)
qed

lemma fewer_active_ok:
  assumes "active_ok s" "\<And>i r. map_of m i = Some r \<Longrightarrow> map_of (ax_active s) i = Some r"
  shows "active_ok (s\<lparr>ax_active := m\<rparr>)" "active_ok (s\<lparr>ax_active := m, ax_responseModes := rm\<rparr>)"
  using assms
  by (auto simp: active_ok_def mode_ok_def same_places [of "s\<lparr>ax_active := m\<rparr>" s]
      same_places [of "s\<lparr>ax_active := m, ax_responseModes := rm\<rparr>" s])
    (auto simp: entries_ok_def same_places(3) [of "s\<lparr>ax_active := m\<rparr>" s]
      same_places(3) [of "s\<lparr>ax_active := m, ax_responseModes := rm\<rparr>" s])

lemma response_ok: "active_ok s \<Longrightarrow> active_ok (setResponseMode i m s)"
  by (auto simp: setResponseMode_def active_ok_def mode_ok_def entries_ok_def
      same_places [of "s\<lparr>ax_responseModes := map_put i m (ax_responseModes s)\<rparr>" s])

lemma getExecution_Some:
  "getExecution s i = Some (ref, e) \<longleftrightarrow> map_of (ax_active s) i = Some ref \<and> map_of (ax_entries s) ref = Some e"
  by (auto simp: getExecution_def split: option.splits)

lemma getExecutionOrFail_Inr: "getExecutionOrFail s i = Inr x \<longleftrightarrow> getExecution s i = Some x"
  by (auto simp: getExecutionOrFail_def split: option.splits)

lemma settle_ok: "active_ok s \<Longrightarrow> map_of (ax_entries s) ref = Some e \<Longrightarrow> active_ok (settle ref e s)"
  by (auto simp: settle_def intro!: put_entry_ok)

lemma stop_ok:
  assumes "active_ok s" "stopExecution i s = (s', fx)"
  shows "active_ok s'"
  using assms
  by (auto simp: stopExecution_def Let_def getExecution_Some map_delete_of split: option.splits if_splits
      intro!: fewer_active_ok settle_ok)

lemma finalize_ok:
  assumes "active_ok s" "finalizeExecution i s = Inr (s', fx)"
  shows "active_ok s'"
  using assms
  by (auto simp: finalizeExecution_def result_simps getExecutionOrFail_Inr getExecution_Some split: if_splits
      intro!: settle_ok)

text \<open>Shutting down changes the entries and the active executions like the calls above.\<close>

lemma disable_ok: "active_ok s \<Longrightarrow> active_ok (s\<lparr>ax_control := disable (ax_control s)\<rparr>)"
  by (auto simp: active_ok_def queues_ok_def enabled_queue_def disable_def mode_ok_def entries_ok_def reservation_def)

lemma shutdown_one_ok:
  assumes "active_ok s" "shutdown_one regular cancelAll i (s, fx, tc) = (s', fx', tc')"
  shows "active_ok s' \<and> cc_isEnabled (ax_control s') = cc_isEnabled (ax_control s)"
proof -
  have st: "cc_isEnabled (ax_control (fst (stopExecution i s))) = cc_isEnabled (ax_control s)"
    by (auto simp: stopExecution_def Let_def settle_def put_entry_def split: option.splits)
  show ?thesis
    using assms st stop_ok [OF assms(1), of i]
    by (auto simp: shutdown_one_def map_delete_of split: option.splits if_splits prod.splits
        intro!: fewer_active_ok)
qed

lemma shutdown_all_ok:
  "active_ok s \<Longrightarrow> fold (shutdown_one regular cancelAll) ids (s, fx, tc) = (s', fx', tc') \<Longrightarrow>
    active_ok s' \<and> cc_isEnabled (ax_control s') = cc_isEnabled (ax_control s)"
proof (induction ids arbitrary: s fx tc)
  case (Cons i ids)
  obtain s1 fx1 tc1 where one: "shutdown_one regular cancelAll i (s, fx, tc) = (s1, fx1, tc1)"
    by (rule prod_cases3)
  show ?case using shutdown_one_ok [OF Cons.prems(1) one] Cons.IH [of s1 fx1 tc1] Cons.prems(2) one by auto
qed simp

lemma shutdown_ok:
  assumes "active_ok s" "shutdown_begin cancelAll s = (s', fx, cancelled)"
  shows "active_ok s' \<and> cancelled = []"
proof -
  let ?s = "if ax_mode s = ''regular'' then s\<lparr>ax_control := disable (ax_control s)\<rparr> else s"
  have s: "active_ok ?s" "\<not> cc_isEnabled (ax_control ?s)"
    using assms(1) disable_ok by (auto simp: active_ok_def mode_ok_def disable_def)
  obtain s1 fx1 tc where f: "fold (shutdown_one (ax_mode s = ''regular'') cancelAll) (keys (ax_active ?s)) (?s, [], [])
      = (s1, fx1, tc)"
    by (rule prod_cases3)
  have s1: "active_ok s1" "\<not> cc_isEnabled (ax_control s1)" using shutdown_all_ok [OF s(1) f] s(2) by auto
  then have "s' = s1" "cancelled = []"
    using assms(2) f by (simp_all add: shutdown_begin_def Let_def removeAll_def)
  then show ?thesis using s1 by simp
qed

theorem active_step_ok: "active_step s s' \<Longrightarrow> active_ok s \<Longrightarrow> active_ok s'"
proof (induction rule: active_step.induct)
  case (status i st s s')
  then show ?case by (auto simp: setStatus_def result_simps getExecutionOrFail_Inr getExecution_Some intro!: put_entry_ok)
next
  case (attach i run s s')
  then show ?case
    by (auto simp: attachWorkflowExecution_def result_simps getExecutionOrFail_Inr getExecution_Some intro!: put_entry_ok)
next
  case (promise i n s s')
  then show ?case
    by (auto simp: attachResponsePromise_def result_simps getExecutionOrFail_Inr getExecution_Some intro!: put_entry_ok)
qed (blast intro: add_ok stored_ok post_ok response_ok stop_ok finalize_ok dest: shutdown_ok)+

lemma active_reachable_ok: "active_reachable cfg s \<Longrightarrow> active_ok s"
  by (induction rule: active_reachable.induct) (auto intro: start_ok active_step_ok)

end
