(* ===== verification/Execution_Properties.thy ===== *)
theory Execution_Properties
  imports Execution_Invariant
begin

text \<open>
  The properties of the active executions and their concurrency control.
\<close>

section \<open>Limits\<close>

definition limit_in :: "executions_config \<Rightarrow> ConcurrencyQueueType \<Rightarrow> int" where
  "limit_in cfg t = (case t of ProductionQueue \<Rightarrow> productionLimit cfg | EvaluationQueue \<Rightarrow> evaluationLimit cfg)"

lemma let_through_fold_control: "ax_control (fold let_through fx s) = ax_control s"
  by (induction fx arbitrary: s) (simp_all del: let_through.simps)

lemma release_limits: "cc_limits (fst (release m c)) = cc_limits c"
  by (auto simp: release_def put_queue_def split: option.splits prod.splits)

lemma release_place_limits: "cc_limits (ax_control (fst (release_place ref s))) = cc_limits (ax_control s)"
proof (cases "acquiredReservation (reservation s ref)")
  case None
  then show ?thesis by (simp add: release_place_eq freed_def)
next
  case (Some tg)
  then show ?thesis
    using release_limits [of "ct_mode tg" "ax_control s"]
    by (simp add: release_place_eq let_through_fold_control split_beta)
qed

lemma shutdown_one_control: "ax_control (fst (shutdown_one r c i acc)) = ax_control (fst acc)"
  by (auto simp: shutdown_one_def stopExecution_def Let_def settle_def put_entry_def split: prod.splits option.splits)

lemma shutdown_fold_control: "ax_control (fst (fold (shutdown_one r c) ids acc)) = ax_control (fst acc)"
  by (induction ids arbitrary: acc) (simp_all add: shutdown_one_control)

lemma shutdown_limits:
  assumes "mode_ok s" "shutdown_begin c s = (s', fx, cancelled)"
  shows "cc_limits (ax_control s') = cc_limits (ax_control s)"
proof -
  let ?s = "if ax_mode s = ''regular'' then s\<lparr>ax_control := disable (ax_control s)\<rparr> else s"
  obtain s1 fx1 tc where f: "fold (shutdown_one (ax_mode s = ''regular'') c) (keys (ax_active ?s)) (?s, [], [])
      = (s1, fx1, tc)"
    by (rule prod_cases3)
  have c1: "ax_control s1 = ax_control ?s"
    using shutdown_fold_control [of "ax_mode s = ''regular''" c "keys (ax_active ?s)" "(?s, [], [])"] f by simp
  have d: "\<not> cc_isEnabled (ax_control ?s)" using assms(1) by (auto simp: mode_ok_def disable_def)
  then have "ax_control s' = ax_control s1"
    using assms(2) f c1 by (auto simp: shutdown_begin_def Let_def removeAll_def)
  then show ?thesis using c1 by (simp add: disable_def)
qed

lemma post_limits: "cc_limits (ax_control (fst (after_post ref s))) = cc_limits (ax_control s)"
  using release_place_limits [of ref s]
  by (auto simp: after_post_def Let_def put_entry_def split_beta split: option.splits)

lemma stored_limits: "cc_limits (ax_control (fst (snd (add_stored ref d now s)))) = cc_limits (ax_control s)"
  using release_place_limits [of ref "s\<lparr>ax_pending := map_delete ref (ax_pending s)\<rparr>"]
  by (auto simp: add_stored_def Let_def register_def split_beta split: option.splits)

lemma step_limits: "active_step s s' \<Longrightarrow> mode_ok s \<Longrightarrow> cc_limits (ax_control s') = cc_limits (ax_control s)"
proof (induction rule: active_step.induct)
  case (add ref s d i created s' fx)
  from add(1,2) show ?case by (rule add_begin_cases) (auto simp: added_def dest: throttle_frame)
next
  case (stored s ref p outcome now r s' fx)
  then show ?case using stored_limits [of ref outcome now s] by simp
next
  case (post ref s s' fx)
  then show ?case using post_limits [of ref s] by simp
next
  case (shutdown cancelAll s s' fx cancelled)
  then show ?case by (metis shutdown_limits)
qed (auto simp: attachWorkflowExecution_def attachResponsePromise_def setStatus_def setResponseMode_def
    stopExecution_def finalizeExecution_def result_simps put_entry_def settle_def Let_def
    split: option.splits if_splits)

lemma start_limits:
  "newConcurrencyControl cfg = Inr control \<Longrightarrow> limit_of t control = nat (limit_in cfg t)"
  by (cases t) (auto simp: newConcurrencyControl_def checked_limits_def result_simps limit_of_def limit_in_def
      split: if_splits)

lemma reachable_limits: "active_reachable cfg s \<Longrightarrow> limit_of t (ax_control s) = nat (limit_in cfg t)"
proof (induction rule: active_reachable.induct)
  case (start control)
  then show ?case by (simp add: new_active_def start_limits)
next
  case (step s s')
  then have "mode_ok s" using active_reachable_ok by (auto simp: active_ok_def)
  then show ?case using step step_limits by (simp add: limit_of_def)
qed

text \<open>
  C24: In every state reached without taking a waiting execution out of its queue, which is what stopping
  a queued execution does (\<open>stopInRegularMode\<close>) and which breaks the limit (Theorem
  \<open>queued_stop_exceeds_limit\<close>), the places of a concurrency queue are held by at most as many calls as
  the configured limit, all of them while a call waits, and the counter and the queue of the queue
  object are exactly the free places less the waiting calls, and these calls in the order they came.
\<close>

theorem concurrency_limit_kept:
  assumes "active_reachable cfg s" "cc_isEnabled (ax_control s)" "map_of (cc_queues (ax_control s)) t = Some q"
  shows "length (held_places t s) \<le> nat (limit_in cfg t) \<and>
    (waiting_adds t s = [] \<or> length (held_places t s) = nat (limit_in cfg t)) \<and>
    cq_queue q = waiting_adds t s \<and>
    cq_capacity q = int (nat (limit_in cfg t)) - int (length (held_places t s)) - int (length (waiting_adds t s))"
proof -
  have "active_ok s" using assms(1) by (rule active_reachable_ok)
  then have q: "reachable False (limit_of t (ax_control s)) (queue_view t s)" "represents (queue_view t s) q"
    using assms(2,3) by (auto simp: active_ok_def queues_ok_def enabled_queue_def)
  have "full_or_idle (queue_view t s)" by (rule reachable_full_or_idle [OF q(1)])
  then show ?thesis
    using q(2) reachable_limits [OF assms(1), of t] by (auto simp: full_or_idle_def represents_def queue_view_def)
qed

text \<open>
  In every reachable state, an \<open>add\<close> call holds a place exactly from the moment the queue lets it
  through until its post-execution promise was handled: no place is lost or given back twice by these
  calls.
\<close>

theorem place_held_exactly:
  assumes "active_reachable cfg s"
  shows "acquiredReservation (reservation s ref) \<noteq> None \<longleftrightarrow>
    (\<exists>p. map_of (ax_pending s) ref = Some p \<and> pa_reserved p) \<or>
    (\<exists>e. map_of (ax_entries s) ref = Some e \<and> xe_post e \<noteq> PromiseHandled)"
proof -
  have "active_ok s" using assms by (rule active_reachable_ok)
  then show ?thesis
    by (cases "map_of (ax_pending s) ref") (auto simp: active_ok_def entries_ok_def pendings_ok_def)
qed

section \<open>A lost place\<close>

lemma entries_ok_id:
  assumes "entries_ok s" "map_of (ax_active s) i = Some ref" "map_of (ax_entries s) ref = Some e"
  shows "xe_id e = i"
proof -
  have "\<exists>e. map_of (ax_entries s) ref = Some e \<and> xe_id e = i"
    using assms(1,2) unfolding entries_ok_def by blast
  then show ?thesis using assms(3) by simp
qed

definition lost :: "nat \<Rightarrow> active_state \<Rightarrow> bool" where
  "lost ref s \<longleftrightarrow> (\<exists>e. map_of (ax_entries s) ref = Some e \<and> xe_post e = PromisePending) \<and>
     (\<forall>i. map_of (ax_active s) i \<noteq> Some ref)"

lemma lost_put_entry: "lost ref s \<Longrightarrow> ref' \<noteq> ref \<Longrightarrow> lost ref (put_entry ref' e s)"
  by (simp add: lost_def put_entry_def jsmap.lookup_put)

lemma lost_other: "lost ref s \<Longrightarrow> getExecution s i = Some (ref', e) \<Longrightarrow> ref' \<noteq> ref"
  by (auto simp: lost_def getExecution_Some)

lemma lost_active:
  assumes "lost ref s" "ax_entries s' = ax_entries s"
    "\<And>i r. map_of (ax_active s') i = Some r \<Longrightarrow> map_of (ax_active s) i = Some r"
  shows "lost ref s'"
  using assms unfolding lost_def by metis

lemma lost_settle: "lost ref s \<Longrightarrow> getExecution s i = Some (ref', e) \<Longrightarrow> lost ref (settle ref' e s)"
  using lost_other lost_put_entry by (simp add: settle_def)

lemma lost_stop: "lost ref s \<Longrightarrow> lost ref (fst (stopExecution i s))"
  by (auto simp: stopExecution_def Let_def lost_settle map_delete_of split: option.splits if_splits
      elim!: lost_active)

lemma lost_delete: "lost ref s \<Longrightarrow> lost ref (s\<lparr>ax_active := map_delete i (ax_active s)\<rparr>)"
  by (rule lost_active) (auto simp: map_delete_of split: if_splits)

lemma lost_control [simp]: "lost ref (s\<lparr>ax_control := c\<rparr>) = lost ref s"
  by (simp add: lost_def)

lemma lost_shutdown_one: "lost ref (fst acc) \<Longrightarrow> lost ref (fst (shutdown_one r c i acc))"
  using lost_stop [of ref "fst acc" i]
  by (auto simp: shutdown_one_def lost_delete split: option.splits if_splits prod.splits)

lemma lost_shutdown_fold: "lost ref (fst acc) \<Longrightarrow> lost ref (fst (fold (shutdown_one r c) ids acc))"
  by (induction ids arbitrary: acc) (simp_all add: lost_shutdown_one)

lemma lost_let_through: "lost ref (fold let_through fx s) = lost ref s"
proof -
  have "ax_entries (fold let_through fx s) = ax_entries s" "ax_active (fold let_through fx s) = ax_active s"
    by (induction fx arbitrary: s) (simp_all del: let_through.simps)
  then show ?thesis by (simp add: lost_def)
qed

lemma lost_shutdown: "lost ref s \<Longrightarrow> lost ref (fst (shutdown_begin c s))"
  by (simp add: shutdown_begin_def Let_def split_beta lost_let_through lost_shutdown_fold)

lemma lost_step:
  assumes "active_step s s'" "active_ok s" "lost ref s"
  shows "lost ref s'"
  using assms
proof (induction rule: active_step.induct)
  case (add ref' s d i created s' fx)
  from add(1,2) show ?case by (rule add_begin_cases) (use add(4) in \<open>simp add: added_def lost_def\<close>)
next
  case (stored s ref' p outcome now r s' fx)
  then have n: "ref' \<noteq> ref" by (auto simp: lost_def active_ok_def entries_ok_def)
  have reg: "lost ref (register ref' p now s)"
    using stored n by (auto simp: register_def Let_def lost_def jsmap.lookup_put jsobj.lookup_put)
  have rel: "lost ref (fst (release_place ref' (s\<lparr>ax_pending := map_delete ref' (ax_pending s)\<rparr>)))"
    using stored by (simp add: lost_def release_place_frame)
  show ?case using stored reg rel
    by (auto simp: add_stored_def Let_def split: option.splits prod.splits db_outcome.splits if_splits)
next
  case (post ref' s s' fx)
  then have "after_post ref s = (s, [])" by (auto simp: lost_def after_post_def)
  then show ?case
    using post by (cases "ref' = ref")
      (auto simp: after_post_def Let_def put_entry_def lost_def jsmap.lookup_put release_place_frame map_delete_of
        split_beta split: option.splits if_splits)
next
  case (stop i s s' fx)
  then show ?case using lost_stop [of ref s i] by simp
next
  case (finalize i s s' fx)
  then show ?case
    by (auto simp: finalizeExecution_def result_simps getExecutionOrFail_Inr lost_settle split: if_splits)
next
  case (shutdown cancelAll s s' fx cancelled)
  then show ?case using lost_shutdown [of ref s cancelAll] by simp
next
  case (response s i m)
  then show ?case by (simp add: setResponseMode_def lost_def)
qed (auto simp: attachWorkflowExecution_def attachResponsePromise_def setStatus_def result_simps
    getExecutionOrFail_Inr lost_put_entry lost_other)

lemma lost_steps:
  assumes "active_step\<^sup>*\<^sup>* s s'" "active_ok s" "lost ref s"
  shows "lost ref s' \<and> active_ok s'"
  using assms by (induction rule: rtranclp_induct) (auto intro: lost_step active_step_ok)

text \<open>
  C26: An execution that is stopped while its status is \<open>waiting\<close> but its run has not ended yet loses its
  place: whatever the process does afterwards, the post-execution promise stays pending and the
  reservation is never released.
\<close>

theorem stopped_waiting_loses_place:
  assumes "active_reachable cfg s" "getExecution s i = Some (ref, e)"
    and "xe_status e = Waiting" "xe_post e = PromisePending"
    and "active_step\<^sup>*\<^sup>* (fst (stopExecution i s)) s'"
  shows "acquiredReservation (reservation s' ref) \<noteq> None \<and>
    (\<exists>e'. map_of (ax_entries s') ref = Some e' \<and> xe_post e' = PromisePending)"
proof -
  have ok: "active_ok s" using assms(1) by (rule active_reachable_ok)
  obtain s1 fx where st: "stopExecution i s = (s1, fx)" by fastforce
  have ok1: "active_ok s1" by (rule stop_ok [OF ok st])
  have eo: "entries_ok s" using ok by (simp add: active_ok_def)
  have a: "map_of (ax_active s) i = Some ref" "map_of (ax_entries s) ref = Some e"
    using assms(2) by (simp_all add: getExecution_Some)
  have j: "j = i" if "map_of (ax_active s) j = Some ref" for j
    using entries_ok_id [OF eo that a(2)] entries_ok_id [OF eo a] by simp
  have s1: "map_of (ax_active s1) = (map_of (ax_active s))(i := None)" "ax_entries s1 = ax_entries s"
    using st assms(2,3) by (auto simp: stopExecution_def Let_def map_delete_of)
  have "map_of (ax_active s1) k \<noteq> Some ref" for k
    using j [of k] by (auto simp: s1(1))
  then have "lost ref s1" using a(2) assms(4) by (simp add: lost_def s1(2))
  moreover have "active_step\<^sup>*\<^sup>* s1 s'" using assms(5) st by simp
  ultimately have l: "lost ref s'" "active_ok s'" using lost_steps ok1 by blast+
  then obtain e' where e': "map_of (ax_entries s') ref = Some e'" "xe_post e' = PromisePending"
    by (auto simp: lost_def)
  moreover have "map_of (ax_pending s') ref = None"
    using l(2) e'(1) by (cases "map_of (ax_pending s') ref") (auto simp: active_ok_def entries_ok_def)
  ultimately show ?thesis using l(2) by (auto simp: active_ok_def entries_ok_def)
qed

section \<open>The next call\<close>

text \<open>
  When the post-execution promise of a limited execution was settled and calls wait in its queue,
  handling the promise gives the place back and lets the call that waited longest through at once.
\<close>

theorem finished_lets_next_through:
  assumes "active_reachable cfg s" "cc_isEnabled (ax_control s)" "map_of (cc_queues (ax_control s)) t = Some q"
    and "map_of (ax_entries s) ref = Some e" "xe_post e = PromiseSettled"
    and "acquiredReservation (reservation s ref) = Some tg" "queue_type (ct_mode tg) = Some t"
    and "waiting_adds t s = (i, r) # ws"
  shows "acquiredReservation (reservation (fst (after_post ref s)) ref) = None \<and>
    acquiredReservation (reservation (fst (after_post ref s)) r) \<noteq> None \<and>
    waiting_adds t (fst (after_post ref s)) = ws \<and>
    length (held_places t (fst (after_post ref s))) = length (held_places t s)"
proof -
  let ?s = "fst (after_post ref s)" and ?g = "fst (release_place ref s)"
  let ?x = "(ct_executionId tg, ref)"
  have ok: "pendings_ok s" "queues_ok s" "entries_ok s"
    using active_reachable_ok [OF assms(1)] by (simp_all add: active_ok_def)
  have out: "map_of (ax_pending s) ref = None"
    using ok(3) assms(4) by (cases "map_of (ax_pending s) ref") (auto simp: entries_ok_def)
  have q: "enabled_queue s t = Some q" using assms(2,3) by (simp add: enabled_queue_def)
  note v = release_place_view [OF ok(1,2) out assms(6,7) q]
  have same: "ax_pending ?s = ax_pending ?g" "ax_reservations ?s = ax_reservations ?g" "ax_control ?s = ax_control ?g"
    using assms(4,5) by (simp_all add: after_post_def Let_def put_entry_def split_beta)
  then have res: "reservation ?s r = reservation ?g r" for r by (rule same_places(3))
  have view: "queue_view t ?s = finish ?x (queue_view t s)"
    using v(2) same by (simp add: queue_view_def held_places_def waiting_adds_def)
  then have run: "mset (held_places t ?s) = add_mset (i, r) (mset (held_places t s) - {#?x#})"
    and wait: "waiting_adds t ?s = ws"
    using assms(8) by (simp_all add: queue_view_def finish_def admit_def)
  have x: "?x \<in># mset (held_places t s)" using v(5) by (simp add: queue_view_def)
  have "size (mset (held_places t ?s)) = size (mset (held_places t s))"
    unfolding run using x by (metis insert_DiffM size_add_mset)
  moreover have "acquiredReservation (reservation ?s r) \<noteq> None"
    using v(1) v(6) [OF assms(8)] unfolding res by (auto simp: pendings_ok_def)
  moreover have "acquiredReservation (reservation ?s ref) = None"
    using release_place_frame(7) [OF out, of ref] by (simp add: res new_reservation_def)
  ultimately show ?thesis using wait by simp
qed

section \<open>A sample run\<close>

text \<open>One place: the first execution runs, two more wait for it.\<close>

definition sample_cfg :: executions_config where
  "sample_cfg = \<lparr>productionLimit = 1, evaluationLimit = -1, executions_mode = ''regular'', deployment_type = ''default''\<rparr>"

definition sample_data :: execution_data where
  "sample_data = \<lparr>xd_executionMode = WebhookMode, xd_workflowId = ''w'', xd_retryOf = None, xd_httpResponse = None\<rparr>"

definition sample_start :: active_state where
  "sample_start = new_active (projr (newConcurrencyControl sample_cfg)) (executions_mode sample_cfg)"

definition sample_first :: active_state where
  "sample_first = fst (snd (add_stored 0 DbDone 0
     (fst (projr (add_begin 0 sample_data None ''1'' sample_start)))))"

definition sample_run :: active_state where
  "sample_run = fst (projr (add_begin 2 sample_data None ''3''
     (fst (projr (add_begin 1 sample_data None ''2'' sample_first)))))"

definition sample_waiting :: active_state where
  "sample_waiting = projr (setStatus ''1'' Waiting sample_run)"

definition sample_settled :: active_state where
  "sample_settled = fst (projr (finalizeExecution ''1'' sample_run))"

lemma projr_eq: "\<not> isl r \<Longrightarrow> r = Inr (projr r)"
  by (cases r) auto

lemma reachable_add:
  assumes "active_reachable cfg s" "unused ref s" "\<not> isl (add_begin ref d i c s)"
  shows "active_reachable cfg (fst (projr (add_begin ref d i c s)))"
proof -
  have "add_begin ref d i c s = Inr (fst (projr (add_begin ref d i c s)), snd (projr (add_begin ref d i c s)))"
    using projr_eq [OF assms(3)] by simp
  then show ?thesis using active_reachable.step [OF assms(1)] active_step.add [OF assms(2)] by blast
qed

lemma sample_first_reachable: "active_reachable sample_cfg sample_first"
proof -
  let ?a = "fst (projr (add_begin 0 sample_data None ''1'' sample_start))"
  have "newConcurrencyControl sample_cfg = Inr (projr (newConcurrencyControl sample_cfg))"
    by (rule projr_eq) code_simp
  then have "active_reachable sample_cfg sample_start"
    unfolding sample_start_def by (rule active_reachable.start) (simp add: sample_cfg_def)
  then have a: "active_reachable sample_cfg ?a"
    by (rule reachable_add) (code_simp, code_simp)
  obtain p where p: "map_of (ax_pending ?a) 0 = Some p" "pa_reserved p"
  proof -
    have "map_option pa_reserved (map_of (ax_pending ?a) 0) = Some True" by code_simp
    then show thesis using that by auto
  qed
  obtain r s fx where s: "add_stored 0 DbDone 0 ?a = (r, s, fx)" by (rule prod_cases3)
  then have "s = sample_first" by (simp add: sample_first_def)
  then show ?thesis using active_reachable.step [OF a active_step.stored [OF p s]] by simp
qed

lemma sample_run_reachable: "active_reachable sample_cfg sample_run"
proof -
  have "active_reachable sample_cfg (fst (projr (add_begin 1 sample_data None ''2'' sample_first)))"
    by (rule reachable_add [OF sample_first_reachable]) (code_simp, code_simp)
  then show ?thesis unfolding sample_run_def by (rule reachable_add) (code_simp, code_simp)
qed

lemma sample_waiting_reachable: "active_reachable sample_cfg sample_waiting"
proof -
  have "setStatus ''1'' Waiting sample_run = Inr sample_waiting"
    unfolding sample_waiting_def by (rule projr_eq) code_simp
  then show ?thesis using active_reachable.step [OF sample_run_reachable active_step.status] by blast
qed

lemma sample_settled_reachable: "active_reachable sample_cfg sample_settled"
proof -
  have "finalizeExecution ''1'' sample_run = Inr (sample_settled, snd (projr (finalizeExecution ''1'' sample_run)))"
    unfolding sample_settled_def using projr_eq [of "finalizeExecution ''1'' sample_run"] by (simp, code_simp)
  then show ?thesis using active_reachable.step [OF sample_run_reachable active_step.finalize] by blast
qed

lemma concurrency_limit_kept_witness:
  "length (held_places ProductionQueue sample_run) \<le> 1 \<and> length (waiting_adds ProductionQueue sample_run) = 2"
proof -
  let ?q = "the (map_of (cc_queues (ax_control sample_run)) ProductionQueue)"
  have e: "cc_isEnabled (ax_control sample_run)" by code_simp
  have q: "map_of (cc_queues (ax_control sample_run)) ProductionQueue = Some ?q" by code_simp
  have l: "limit_in sample_cfg ProductionQueue = 1" by code_simp
  have "length (waiting_adds ProductionQueue sample_run) = 2" by code_simp
  then show ?thesis using concurrency_limit_kept [OF sample_run_reachable e q] l by simp
qed

lemma place_held_exactly_witness: "acquiredReservation (reservation sample_run 0) \<noteq> None"
proof -
  have "map_option xe_post (map_of (ax_entries sample_run) 0) = Some PromisePending" by code_simp
  then show ?thesis using place_held_exactly [OF sample_run_reachable, of 0] by auto
qed

lemma stopped_waiting_loses_place_witness:
  "acquiredReservation (reservation (fst (stopExecution ''1'' sample_waiting)) 0) \<noteq> None"
proof -
  obtain e where e: "getExecution sample_waiting ''1'' = Some (0, e)" "xe_status e = Waiting" "xe_post e = PromisePending"
  proof -
    have "map_option (\<lambda>(r, e). (r, xe_status e, xe_post e)) (getExecution sample_waiting ''1'') =
        Some (0, Waiting, PromisePending)" by code_simp
    then show thesis using that by auto
  qed
  show ?thesis using stopped_waiting_loses_place [OF sample_waiting_reachable e rtranclp.rtrancl_refl] by simp
qed

lemma finished_lets_next_through_witness:
  "acquiredReservation (reservation (fst (after_post 0 sample_settled)) 1) \<noteq> None"
proof -
  let ?q = "the (map_of (cc_queues (ax_control sample_settled)) ProductionQueue)"
  have e: "cc_isEnabled (ax_control sample_settled)" by code_simp
  have q: "map_of (cc_queues (ax_control sample_settled)) ProductionQueue = Some ?q" by code_simp
  have "map_option xe_post (map_of (ax_entries sample_settled) 0) = Some PromiseSettled" by code_simp
  then obtain x where x: "map_of (ax_entries sample_settled) 0 = Some x" "xe_post x = PromiseSettled" by auto
  have "map_option ct_mode (acquiredReservation (reservation sample_settled 0)) = Some WebhookMode" by code_simp
  then obtain tg where tg: "acquiredReservation (reservation sample_settled 0) = Some tg"
    "queue_type (ct_mode tg) = Some ProductionQueue" by auto
  have w: "waiting_adds ProductionQueue sample_settled = (''2'', 1) # [(''3'', 2)]" by code_simp
  show ?thesis using finished_lets_next_through [OF sample_settled_reachable e q x tg w] by simp
qed

section \<open>Stopping, shutting down and emptying a queue\<close>

text \<open>
  Stopping a queued execution lets the next one through although no execution has ended: with the
  limit one, two executions hold a place.
\<close>

theorem queued_stop_exceeds_limit:
  "limit_in sample_cfg ProductionQueue = 1 \<and>
    map fst (held_places ProductionQueue (fst (stopInRegularMode WebhookMode ''2'' sample_run))) = [''1'', ''3'']"
  by (rule conjI; code_simp)

lemma shutdown_one_pending: "ax_pending (fst (shutdown_one r c i acc)) = ax_pending (fst acc)"
  by (auto simp: shutdown_one_def stopExecution_def Let_def settle_def put_entry_def split: prod.splits option.splits)

lemma shutdown_fold_pending: "ax_pending (fst (fold (shutdown_one r c) ids acc)) = ax_pending (fst acc)"
  by (induction ids arbitrary: acc) (simp_all add: shutdown_one_pending)

text \<open>
  Shutting down cancels no execution in the database, also if all executions are to be cancelled,
  and leaves the waiting calls as they are: the concurrency control is disabled before it is asked to
  remove them.
\<close>

theorem shutdown_cancels_nothing:
  assumes "active_reachable cfg s"
  shows "snd (snd (shutdown_begin cancelAll s)) = [] \<and> ax_pending (fst (shutdown_begin cancelAll s)) = ax_pending s"
proof -
  have ok: "active_ok s" using assms by (rule active_reachable_ok)
  obtain s' fx cancelled where sd: "shutdown_begin cancelAll s = (s', fx, cancelled)" by (rule prod_cases3)
  let ?s = "if ax_mode s = ''regular'' then s\<lparr>ax_control := disable (ax_control s)\<rparr> else s"
  obtain s1 fx1 tc where f: "fold (shutdown_one (ax_mode s = ''regular'') cancelAll) (keys (ax_active ?s)) (?s, [], [])
      = (s1, fx1, tc)"
    by (rule prod_cases3)
  have "ax_control s1 = ax_control ?s" "ax_pending s1 = ax_pending s"
    using shutdown_fold_control [of "ax_mode s = ''regular''" cancelAll "keys (ax_active ?s)" "(?s, [], [])"]
      shutdown_fold_pending [of "ax_mode s = ''regular''" cancelAll "keys (ax_active ?s)" "(?s, [], [])"] f by simp_all
  moreover have "\<not> cc_isEnabled (ax_control ?s)" using ok by (auto simp: active_ok_def mode_ok_def disable_def)
  ultimately have "ax_pending s' = ax_pending s"
    using sd f by (auto simp: shutdown_begin_def Let_def removeAll_def)
  then show ?thesis using shutdown_ok [OF ok sd] sd by simp
qed

lemma shutdown_cancels_nothing_witness: "length (ax_pending (fst (shutdown_begin True sample_run))) = 2"
proof -
  have "length (ax_pending sample_run) = 2" by code_simp
  then show ?thesis using shutdown_cancels_nothing [OF sample_run_reachable, of True] by simp
qed

lemma listen_remove: "concat (map (listen s t) (snd (remove i q))) = map ResolvePromise (resolved (snd (remove i q)))"
proof -
  have "concat (map (listen s t) (snd (resolveNext q))) = map ResolvePromise (resolved (snd (resolveNext q)))" for q
    by (cases "cq_queue q") (auto simp: resolveNext_def)
  then show ?thesis by (simp add: remove_def)
qed

lemma listen_remove_each:
  "concat (map (listen s t) (snd (remove_each ids q))) = map ResolvePromise (resolved (snd (remove_each ids q)))"
proof (induction ids arbitrary: q)
  case Nil
  show ?case by (simp add: remove_each_def)
next
  case (Cons i ids)
  show ?case using Cons [of "fst (remove i q)"] listen_remove [of s t i q]
    by (simp add: remove_each_Cons split_beta Let_def)
qed

lemma distinct_getAll: "distinct (map fst (cq_queue q)) \<Longrightarrow> getAll q = map fst (cq_queue q)"
proof -
  have "distinct (ys @ xs) \<Longrightarrow> fold set_add xs ys = ys @ xs" for xs ys :: "string list"
    by (induction xs arbitrary: ys) (auto simp: set_add_def)
  from this [of "[]"] show "distinct (map fst (cq_queue q)) \<Longrightarrow> getAll q = map fst (cq_queue q)"
    by (simp add: getAll_def set_of_list_def)
qed

text \<open>
  Emptying the queue of an enabled concurrency control lets every second waiting execution through,
  beginning with the second, instead of none.
\<close>

lemma removeAll_lets_through:
  assumes "cc_isEnabled c" "cc_queues c = [(t, q)]" "distinct (map fst (cq_queue q))"
  shows "fst (snd (removeAll ids c)) = map ResolvePromise (map snd (every_second (cq_queue q)))"
  using assms remove_each_all [OF assms(3)]
  by (simp add: removeAll_def Let_def split_beta distinct_getAll listen_remove_each del: map_map)

lemma removeAll_lets_through_witness:
  "fst (snd (removeAll [] (ax_control sample_run))) = [ResolvePromise 2]"
proof -
  have e: "cc_isEnabled (ax_control sample_run)"
    and q: "cc_queues (ax_control sample_run) =
      [(ProductionQueue, \<lparr>cq_queue = [(''2'', 1), (''3'', 2)], cq_capacity = -2\<rparr>)]" by code_simp+
  show ?thesis using removeAll_lets_through [OF e q] by simp
qed

text \<open>
  Creating the concurrency control fails exactly if a limit is zero, with a user error; otherwise
  every limit is positive or stands for no limit, and there is a queue for exactly the positive ones.
\<close>

theorem new_concurrency_control:
  "case newConcurrencyControl cfg of
     Inl e \<Rightarrow> e = UserError ''Concurrency limit set to invalid value'' \<and> (productionLimit cfg = 0 \<or> evaluationLimit cfg = 0)
   | Inr c \<Rightarrow> productionLimit cfg \<noteq> 0 \<and> evaluationLimit cfg \<noteq> 0 \<and> control_ok c"
proof (cases "newConcurrencyControl cfg")
  case (Inl e)
  then show ?thesis using new_control_error [of cfg e] by simp
next
  case (Inr c)
  have "newConcurrencyControl cfg \<noteq> Inl (UserError ''Concurrency limit set to invalid value'')" using Inr by simp
  then have "\<not> (productionLimit cfg = 0 \<or> evaluationLimit cfg = 0)" unfolding new_control_error by simp
  then show ?thesis using Inr new_control_ok [OF Inr] by simp
qed

text \<open>
  C25: The queue refines its abstract view: \<open>enqueue\<close>, \<open>dequeue\<close> and \<open>remove\<close> are an arrival, the end of
  a running call and a cancellation, and they resolve exactly the promises of the calls that get a place.
\<close>

theorem queue_refines_admission:
  assumes "represents a q" "x \<in># ad_running a"
  shows "represents (arrive (i, p) a) (fst (enqueue i p q)) \<and> represents (finish x a) (fst (dequeue q)) \<and>
    represents (cancel i a) (fst (remove i q)) \<and>
    resolved (snd (dequeue q)) = map snd (take 1 (ad_waiting a)) \<and>
    resolved (snd (remove i q)) =
      (if i \<in> fst ` set (ad_waiting a) then map snd (take 1 (splice_item i (ad_waiting a))) else [])"
proof -
  obtain q1 es1 w where 1: "enqueue i p q = (q1, es1, w)" by (rule prod_cases3)
  obtain q2 es2 where 2: "dequeue q = (q2, es2)" by fastforce
  obtain q3 es3 where 3: "remove i q = (q3, es3)" by fastforce
  show ?thesis
    using enqueue_arrive(1) [OF assms(1) 1] dequeue_finish [OF assms 2] remove_cancel [OF assms(1) 3]
    by (simp only: 1 2 3 fst_conv snd_conv simp_thms)
qed

lemma queue_refines_admission_witness:
  "resolved (snd (dequeue \<lparr>cq_queue = [(''2'', 1), (''3'', 2)], cq_capacity = -2\<rparr>)) = [1]"
proof -
  let ?a = "\<lparr>ad_limit = 1, ad_running = {#(''1'', 0)#}, ad_waiting = [(''2'', 1), (''3'', 2)]\<rparr>"
  have "represents ?a \<lparr>cq_queue = [(''2'', 1), (''3'', 2)], cq_capacity = -2\<rparr>" "(''1'', 0) \<in># ad_running ?a"
    by (simp_all add: represents_def)
  from queue_refines_admission [OF this] show ?thesis by simp
qed

end
