(* ===== verification/Waiting_Nodes.thy ===== *)
theory Waiting_Nodes
  imports Execution_Stack Workflow_Lookup
begin

text \<open>
  How \<open>WorkflowExecute\<close> of \<open>packages/core/src/execution-engine/workflow-execute.ts\<close> hands the
  output of a node on: \<open>addNodeToBeExecuted\<close>, which queues a node with one input and collects the
  data of a node with several inputs in the waiting tables, and its helpers.

  The order of execution \<open>v1\<close> puts entries at the front of the stack, the legacy order at its end.
  A node that is not in the workflow fails where it is queued, in the code where it is read later. The
  data of a waiting entry has no holes, as an index of an input is below the number of inputs.
\<close>

section \<open>State\<close>

text \<open>
  The data of a run: \<open>resultData\<close> with its run data, pin data, last node and error, the counter of
  executions, whether the execution was put to wait, the error of the current round of the run loop,
  and the connection types under which the nodes log their output since a request of an agent set
  them, the one property of a node that the run loop changes.
\<close>

record run_state = exec_state +
  rs_runData :: IRunData
  rs_pinData :: "IPinData option"
  rs_lastNodeExecuted :: "string option"
  rs_resultError :: "js_error option"
  rs_error :: "js_error option"
  rs_executionIndex :: nat
  rs_waitTill :: bool
  rs_rewired :: "(noderef \<times> NodeConnectionType) list"

type_synonym 'a wait_entry = "(NodeConnectionType \<times> 'a option list) list"
type_synonym 'a wait_node = "(nat \<times> 'a wait_entry) list"

text \<open>An object with numbers as keys lists them in ascending order.\<close>

fun idx_insert :: "nat \<Rightarrow> 'v \<Rightarrow> (nat \<times> 'v) list \<Rightarrow> (nat \<times> 'v) list" where
  "idx_insert k v [] = [(k, v)]"
| "idx_insert k v (e # m) = (if k < fst e then (k, v) # e # m else e # idx_insert k v m)"

definition idx_put :: "nat \<Rightarrow> 'v \<Rightarrow> (nat \<times> 'v) list \<Rightarrow> (nat \<times> 'v) list" where
  "idx_put k v m = (if k \<in> fst ` set m then map_put k v m else idx_insert k v m)"

lemma idx_insert_of: "k \<notin> fst ` set m \<Longrightarrow> map_of (idx_insert k v m) = (map_of m)(k \<mapsto> v)"
  by (induction m) (auto simp: fun_eq_iff)

lemma idx_insert_keys: "fst ` set (idx_insert k v m) = insert k (fst ` set m)"
  by (induction m) auto

lemma idx_insert_distinct:
  "k \<notin> fst ` set m \<Longrightarrow> distinct (keys m) \<Longrightarrow> distinct (keys (idx_insert k v m))"
  by (induction m) (auto simp: idx_insert_keys)

interpretation idx: js_dict idx_put
  by unfold_locales
    (auto simp: idx_put_def map_put_of map_put_distinct idx_insert_of idx_insert_distinct)

section \<open>The waiting tables\<close>

definition node_inputs :: "Workflow \<Rightarrow> string \<Rightarrow> NodeInputConnections" where
  "node_inputs w n = type_conns (node_conns (connectionsByDestinationNode w) n) Main"

definition prepareWaitingToExecution :: "string \<Rightarrow> nat \<Rightarrow> nat \<Rightarrow> run_state \<Rightarrow> run_state" where
  "prepareWaitingToExecution nodeName numberOfConnections runIndex s =
     (let nodeWaiting = or_empty (map_of (waitingExecution s) nodeName);
          nodeWaitingSource = or_empty (map_of (waitingExecutionSource s) nodeName)
      in s\<lparr>waitingExecution := obj_put nodeName
             (idx_put runIndex [(Main, replicate numberOfConnections None)] nodeWaiting) (waitingExecution s),
           waitingExecutionSource := obj_put nodeName
             (idx_put runIndex [(Main, replicate numberOfConnections None)] nodeWaitingSource) (waitingExecutionSource s)\<rparr>)"

definition waiting_main :: "string \<Rightarrow> nat \<Rightarrow> 'a waiting \<Rightarrow> 'a option list result" where
  "waiting_main nodeName index w =
     (case map_of w nodeName of
        None \<Rightarrow> Inl TypeError
      | Some obj \<Rightarrow> (case map_of obj index of
          None \<Rightarrow> Inl TypeError
        | Some e \<Rightarrow> (case map_of e Main of None \<Rightarrow> Inl TypeError | Some xs \<Rightarrow> Inr xs)))"

definition put_main :: "string \<Rightarrow> nat \<Rightarrow> 'a option list \<Rightarrow> 'a waiting \<Rightarrow> 'a waiting" where
  "put_main nodeName index xs w =
     (let obj = or_empty (map_of w nodeName)
      in obj_put nodeName (idx_put index (obj_put Main xs (or_empty (map_of obj index))) obj) w)"

definition set_waiting_input :: "string \<Rightarrow> nat \<Rightarrow> nat \<Rightarrow> 'a option \<Rightarrow> 'a waiting \<Rightarrow> 'a waiting result" where
  "set_waiting_input nodeName index input v w =
     rbind (waiting_main nodeName index w) (\<lambda>xs. Inr (put_main nodeName index (array_put input v xs) w))"

fun first_missing :: "nat \<Rightarrow> items wait_node \<Rightarrow> nat option result" where
  "first_missing input [] = Inr None"
| "first_missing input ((index, e) # es) =
     (case map_of e Main of
        None \<Rightarrow> Inl TypeError
      | Some xs \<Rightarrow> if array_get xs input = None then Inr (Some index) else first_missing input es)"

definition drop_waiting :: "string \<Rightarrow> nat \<Rightarrow> run_state \<Rightarrow> run_state" where
  "drop_waiting nodeName index s =
     (let obj = map_delete index (or_empty (map_of (waitingExecution s) nodeName));
          src = map_delete index (or_empty (map_of (waitingExecutionSource s) nodeName))
      in if length (keys obj) = 0
         then s\<lparr>waitingExecution := map_delete nodeName (waitingExecution s),
           waitingExecutionSource := map_delete nodeName (waitingExecutionSource s)\<rparr>
         else s\<lparr>waitingExecution := obj_put nodeName obj (waitingExecution s),
           waitingExecutionSource := obj_put nodeName src (waitingExecutionSource s)\<rparr>)"

section \<open>Queueing\<close>

definition enqueue_entry :: "bool \<Rightarrow> IExecuteData \<Rightarrow> run_state \<Rightarrow> run_state" where
  "enqueue_entry v1 e s = s\<lparr>nodeExecutionStack :=
     (if v1 then e # nodeExecutionStack s else nodeExecutionStack s @ [e])\<rparr>"

definition source_of :: "string \<Rightarrow> nat \<Rightarrow> nat \<Rightarrow> ISourceData" where
  "source_of parentNodeName outputIndex runIndex =
     \<lparr>previousNode = parentNodeName, previousNodeOutput = Some outputIndex, previousNodeRun = Some runIndex\<rparr>"

fun incomingConnectionIsEmpty :: "IRunData \<Rightarrow> IConnection list \<Rightarrow> nat \<Rightarrow> bool result" where
  "incomingConnectionIsEmpty runData [] runIndex = Inr True"
| "incomingConnectionIsEmpty runData (c # cs) runIndex =
     (case map_of runData (conn_node c) of
        None \<Rightarrow> incomingConnectionIsEmpty runData cs runIndex
      | Some runs \<Rightarrow>
          if length runs \<le> runIndex then incomingConnectionIsEmpty runData cs runIndex
          else case task_data (runs ! runIndex) of
            None \<Rightarrow> incomingConnectionIsEmpty runData cs runIndex
          | Some data \<Rightarrow> (case map_of data Main of
              None \<Rightarrow> incomingConnectionIsEmpty runData cs runIndex
            | Some outputs \<Rightarrow>
                if length outputs \<le> conn_index c then incomingConnectionIsEmpty runData cs runIndex
                else case outputs ! conn_index c of
                  None \<Rightarrow> Inl TypeError
                | Some [] \<Rightarrow> incomingConnectionIsEmpty runData cs runIndex
                | Some _ \<Rightarrow> Inr False))"

text \<open>\<open>connectionsByDestinationNode[n].main[0] ?? []\<close>\<close>

definition first_input :: "Workflow \<Rightarrow> string \<Rightarrow> IConnection list result" where
  "first_input w n =
     (case map_of (connectionsByDestinationNode w) n of
        None \<Rightarrow> Inl TypeError
      | Some obj \<Rightarrow> (case map_of obj Main of
          None \<Rightarrow> Inl TypeError
        | Some xs \<Rightarrow> Inr (group_list (array_get xs 0))))"

section \<open>Legacy order: forcing the other inputs of a node\<close>

text \<open>
  The ancestors of an input from the top: the last one passed before a node that is queued anyway or
  has run is the node to add.
\<close>

fun climb_parents ::
    "string \<Rightarrow> string list \<Rightarrow> string list \<Rightarrow> IRunData \<Rightarrow> string list \<Rightarrow> string option \<Rightarrow> string option" where
  "climb_parents inputNode checkOutputNodes stackNodes runData [] nodeToAdd = nodeToAdd"
| "climb_parents inputNode checkOutputNodes stackNodes runData (p # ps) nodeToAdd =
     (if inputNode \<noteq> p \<and> p \<in> set checkOutputNodes then None
      else if p \<in> set stackNodes then None
      else if map_of runData p \<noteq> None then nodeToAdd
      else climb_parents inputNode checkOutputNodes stackNodes runData ps (Some p))"

definition stack_names :: "heap \<Rightarrow> run_state \<Rightarrow> string list" where
  "stack_names h s = map (\<lambda>e. node_name (h (ed_node e))) (nodeExecutionStack s)"

definition add_empty ::
    "Workflow \<Rightarrow> string \<Rightarrow> string \<Rightarrow> nat \<Rightarrow> nat \<Rightarrow> run_state \<Rightarrow> run_state result" where
  "add_empty w nodeToAdd parentNodeName outputIndex runIndex s =
     rbind (case map_of (connectionsByDestinationNode w) nodeToAdd of
        None \<Rightarrow> Inr True
      | Some _ \<Rightarrow> rbind (first_input w nodeToAdd) (\<lambda>cs. incomingConnectionIsEmpty (rs_runData s) cs runIndex))
     (\<lambda>addEmptyItem.
       if \<not> addEmptyItem then Inr s
       else case getNode w nodeToAdd of
         None \<Rightarrow> Inl TypeError
       | Some r \<Rightarrow> Inr (enqueue_entry False \<lparr>ed_node = r, ed_data = [(Main, [Some [empty_item]])],
           ed_source = Some [(Main, [Some (source_of parentNodeName outputIndex runIndex)])], ed_runIndex = None, ed_metadata = None\<rparr> s))"

definition force_input ::
    "heap \<Rightarrow> Workflow \<Rightarrow> bool \<Rightarrow> string list \<Rightarrow> string \<Rightarrow> nat \<Rightarrow> items option \<Rightarrow> nat \<Rightarrow> IConnection \<Rightarrow>
     run_state \<Rightarrow> run_state result" where
  "force_input h w v1 checkOutputNodes parentNodeName outputIndex output runIndex inputData s =
     (let inputNode = conn_node inputData in
      if inputNode = parentNodeName then Inr s
      else rbind (if inputNode \<in> set checkOutputNodes
          then rbind (first_input w inputNode) (\<lambda>cs. incomingConnectionIsEmpty (rs_runData s) cs runIndex)
          else Inr True) (\<lambda>noData.
        if \<not> noData then Inr s
        else if inputNode \<in> set (stack_names h s) then Inr s
        else if map_of (rs_runData s) inputNode \<noteq> None then Inr s
        else if v1 then Inr s
        else
          let parentNodes = workflow_getParentNodes w inputNode (OfType Main) (-1);
              nodeToAdd = climb_parents inputNode checkOutputNodes (stack_names h s) (rs_runData s)
                (rev (parentNodes @ [inputNode])) (Some inputNode)
          in case nodeToAdd of
               None \<Rightarrow> Inr s
             | Some n \<Rightarrow>
                 if parentNodeName \<in> set (workflow_getParentNodes w n (OfType Main) (-1))
                 then (case output of
                    None \<Rightarrow> Inl TypeError
                  | Some its \<Rightarrow> if length its = 0 then Inr s
                      else add_empty w n parentNodeName outputIndex runIndex s)
                 else add_empty w n parentNodeName outputIndex runIndex s))"

definition force_inputs ::
    "heap \<Rightarrow> Workflow \<Rightarrow> bool \<Rightarrow> string \<Rightarrow> string \<Rightarrow> nat \<Rightarrow> items option \<Rightarrow> nat \<Rightarrow> run_state \<Rightarrow> run_state result" where
  "force_inputs h w v1 nodeName parentNodeName outputIndex output runIndex s =
     (case map_of (connectionsBySourceNode w) parentNodeName of
        None \<Rightarrow> Inl TypeError
      | Some obj \<Rightarrow>
          let checkOutputNodes = map conn_node (concat (map group_list (type_conns obj Main)))
          in rfold (force_input h w v1 checkOutputNodes parentNodeName outputIndex output runIndex)
               (concat (map group_list (node_inputs w nodeName))) s)"

section \<open>Adding a node\<close>

text \<open>
  A node with several inputs: find the waiting entry that lacks this input or make one, add the data,
  and queue the node once every input has data.
\<close>

definition choose_waiting :: "Workflow \<Rightarrow> IConnection \<Rightarrow> run_state \<Rightarrow> (nat \<times> bool \<times> run_state) result" where
  "choose_waiting w c s =
     (let name = conn_node c;
          nodeWasWaiting = map_of (waitingExecution s) name \<noteq> None;
          s0 = (if nodeWasWaiting then s
                else s\<lparr>waitingExecution := obj_put name [] (waitingExecution s),
                  waitingExecutionSource := obj_put name [] (waitingExecutionSource s)\<rparr>);
          obj = or_empty (map_of (waitingExecution s0) name)
      in rbind (first_missing (conn_index c) obj) (\<lambda>missing.
           case missing of
             Some i \<Rightarrow> Inr (i, nodeWasWaiting, s0)
           | None \<Rightarrow> Inr (length (vals obj), nodeWasWaiting,
               prepareWaitingToExecution name (length (node_inputs w name)) (length (vals obj)) s0)))"

definition output_data :: "items option list option \<Rightarrow> nat \<Rightarrow> items option" where
  "output_data nodeSuccessData outputIndex =
     (case nodeSuccessData of None \<Rightarrow> None | Some d \<Rightarrow> array_get d outputIndex)"

definition store_input ::
    "IConnection \<Rightarrow> nat \<Rightarrow> items option list option \<Rightarrow> nat \<Rightarrow> ISourceData \<Rightarrow> run_state \<Rightarrow> run_state result" where
  "store_input c i nodeSuccessData outputIndex src s =
     rbind (set_waiting_input (conn_node c) i (conn_index c) (output_data nodeSuccessData outputIndex)
       (waitingExecution s)) (\<lambda>we.
     rbind (set_waiting_input (conn_node c) i (conn_index c)
       (case nodeSuccessData of None \<Rightarrow> None | Some _ \<Rightarrow> Some src) (waitingExecutionSource s)) (\<lambda>ws.
       Inr (s\<lparr>waitingExecution := we, waitingExecutionSource := ws\<rparr>)))"

definition queue_waiting :: "Workflow \<Rightarrow> bool \<Rightarrow> string \<Rightarrow> nat \<Rightarrow> run_state \<Rightarrow> run_state result" where
  "queue_waiting w v1 nodeName i s =
     (case getNode w nodeName of
        None \<Rightarrow> Inl TypeError
      | Some r \<Rightarrow>
          let entry = or_empty (map_of (or_empty (map_of (waitingExecution s) nodeName)) i);
              src = map_of (or_empty (map_of (waitingExecutionSource s) nodeName)) i
          in Inr (drop_waiting nodeName i
               (enqueue_entry v1 \<lparr>ed_node = r, ed_data = entry, ed_source = src, ed_runIndex = None, ed_metadata = None\<rparr> s)))"

text \<open>The entry of a node that still waits is prepared again and gets its data and sources back.\<close>

definition keep_waiting :: "Workflow \<Rightarrow> IConnection \<Rightarrow> nat \<Rightarrow> items option \<Rightarrow> run_state \<Rightarrow> run_state result" where
  "keep_waiting w c i output s =
     (let name = conn_node c in
      rbind (waiting_main name i (waitingExecution s)) (\<lambda>xs.
      rbind (waiting_main name i (waitingExecutionSource s)) (\<lambda>sources.
        let s' = prepareWaitingToExecution name (length (node_inputs w name)) i s
        in Inr (s'\<lparr>waitingExecution := put_main name i (array_put (conn_index c) output xs) (waitingExecution s'),
             waitingExecutionSource := put_main name i sources (waitingExecutionSource s')\<rparr>))))"

definition addNodeToBeExecuted ::
    "heap \<Rightarrow> Workflow \<Rightarrow> bool \<Rightarrow> IConnection \<Rightarrow> nat \<Rightarrow> string \<Rightarrow> items option list option \<Rightarrow> nat \<Rightarrow>
     nat option \<Rightarrow> ITaskMetadata option \<Rightarrow> run_state \<Rightarrow> run_state result" where
  "addNodeToBeExecuted h w v1 c outputIndex parentNodeName nodeSuccessData runIndex newRunIndex metadata s =
     (let name = conn_node c; src = source_of parentNodeName outputIndex runIndex;
          output = output_data nodeSuccessData outputIndex in
      if length (node_inputs w name) > 1 then
        rbind (choose_waiting w c s) (\<lambda>(i, nodeWasWaiting, s1).
        rbind (store_input c i nodeSuccessData outputIndex src s1) (\<lambda>s2.
        rbind (waiting_main name i (waitingExecution s2)) (\<lambda>xs.
          if list_all (\<lambda>x. x \<noteq> None) xs then queue_waiting w v1 name i s2
          else rbind (if nodeWasWaiting then Inr s2
                 else force_inputs h w v1 name parentNodeName outputIndex output runIndex s2) (\<lambda>s3.
               keep_waiting w c i output s3))))
      else
        case getNode w name of
          None \<Rightarrow> Inr s
        | Some r \<Rightarrow> Inr (enqueue_entry v1 \<lparr>ed_node = r,
            ed_data = [(Main, array_put (conn_index c) output (replicate (Suc (conn_index c)) None))],
            ed_source = Some [(Main, [Some src])], ed_runIndex = newRunIndex, ed_metadata = metadata\<rparr> s))"

section \<open>Checking the data of an entry\<close>

text \<open>
  \<open>ensureInputData\<close>: the answer, and the state with the entry put back if data is missing. An input
  beyond the end of the data is \<open>undefined\<close> and not \<open>null\<close>.
\<close>

fun check_inputs ::
    "heap \<Rightarrow> Workflow \<Rightarrow> bool \<Rightarrow> string \<Rightarrow> ITaskDataConnections \<Rightarrow> nat list \<Rightarrow> bool result" where
  "check_inputs h w v1 name data [] = Inr True"
| "check_inputs h w v1 name data (i # is') =
     rbind (getHighestNode h w name (Some i)) (\<lambda>highestNodes.
       if length highestNodes = 0 then Inr True
       else case map_of data Main of
         None \<Rightarrow> Inr False
       | Some xs \<Rightarrow>
           if \<not> v1 \<and> (length xs < i \<or> (i < length xs \<and> xs ! i = None)) then Inr False
           else check_inputs h w v1 name data is')"

definition ensureInputData ::
    "heap \<Rightarrow> Workflow \<Rightarrow> bool \<Rightarrow> IExecuteData \<Rightarrow> run_state \<Rightarrow> (bool \<times> run_state) result" where
  "ensureInputData h w v1 e s =
     (let name = node_name (h (ed_node e)) in
      rbind (check_inputs h w v1 name (ed_data e) [0..<length (node_inputs w name)]) (\<lambda>ok.
        Inr (ok, if ok then s else s\<lparr>nodeExecutionStack := nodeExecutionStack s @ [e]\<rparr>)))"

end
