(* ===== verification/Run_Node.thy ===== *)
theory Run_Node
  imports Waiting_Nodes Partial_Execution
begin

text \<open>
  \<open>WorkflowExecute.runNode\<close> of \<open>packages/core/src/execution-engine/workflow-execute.ts\<close>: how one
  entry of the stack is run, and what the run loop reads of nodes, node types and settings. The code
  of a node is loaded at run time: \<open>re_call\<close> stands for the calls of its functions. A call yields
  data, a request of an agent or an error, and may put the execution to wait.
\<close>

section \<open>What a run reads\<close>

text \<open>The settings of a node object that only the run loop reads.\<close>

record node_settings =
  ns_position :: "int \<times> int"
  ns_retryOnFail :: bool
  ns_maxTries :: "int option"
  ns_alwaysOutputData :: bool
  ns_continueOnFail :: bool
  ns_onError :: "string option"
  ns_executeOnce :: bool
  ns_forceCustomOperation :: "(string \<times> string) option"

text \<open>
  A node type: which functions it has, and of its description whether it is declarative, its outputs
  and required inputs, evaluated if they are an expression, and its inputs, a list or an expression.
\<close>

datatype required_inputs = RequiredCount nat | RequiredList "nat list"

datatype node_inputs_spec = InputList nat | InputExpression string

record runtime_type =
  rt_execute :: bool
  rt_poll :: bool
  rt_trigger :: bool
  rt_webhook :: bool
  rt_supplyData :: bool
  rt_requestDefaults :: bool
  rt_customOperations :: "(string \<times> string list) list option"
  rt_outputs :: "node_output list"
  rt_required :: "required_inputs option"
  rt_inputs :: node_inputs_spec

record EngineRequest =
  er_actions :: "engine_action list"
  er_metadata :: json

record EngineResponse =
  actionResponses :: "(engine_action \<times> ITaskData) list"
  response_metadata :: json

datatype node_outcome = Output "items option list option" | Request EngineRequest | Throws js_error

datatype node_call = CallCustom | CallExecute | CallPoll | CallTrigger | CallDeclarative

text \<open>
  \<open>re_call\<close> gets the state, the entry, the items of the input it works on, the input data, the index of
  the run, the responses to a request and the number of the call among those of this entry. Looking up
  the data that an item stems from is \<open>$getPairedItem\<close> of the data proxy, the parameter
  \<open>re_pairedItem\<close>.
\<close>

record run_env =
  re_heap :: heap
  re_workflow :: Workflow
  re_v1 :: bool
  re_manual :: bool
  re_settings :: "noderef \<Rightarrow> node_settings"
  re_types :: "noderef \<Rightarrow> runtime_type option"
  re_runNodeFilter :: "string list option"
  re_destination :: "string option"
  re_call :: "node_call \<Rightarrow> run_state \<Rightarrow> IExecuteData \<Rightarrow> items \<Rightarrow> ITaskDataConnections \<Rightarrow> nat \<Rightarrow>
    EngineResponse option \<Rightarrow> nat \<Rightarrow> node_outcome \<times> bool"
  re_pairedItem :: "run_state \<Rightarrow> IExecuteData \<Rightarrow> ISourceData \<Rightarrow> IPairedItemData \<Rightarrow> INodeExecutionData option result"

definition entry_name :: "run_env \<Rightarrow> IExecuteData \<Rightarrow> string" where
  "entry_name env e = node_name (re_heap env (ed_node e))"

fun error_text :: "js_error \<Rightarrow> string" where
  "error_text AssertionError = ''AssertionError''"
| "error_text TypeError = ''TypeError''"
| "error_text (ApplicationError m) = m"
| "error_text (UserError m) = m"
| "error_text (UnexpectedError m) = m"
| "error_text (OperationalError m) = m"
| "error_text (NodeError m) = m"
| "error_text (JsError m) = m"

section \<open>Running a node\<close>

definition handleDisabledNode :: "ITaskDataConnections \<Rightarrow> node_outcome" where
  "handleDisabledNode inputData = (case map_of inputData Main of
     Some (Some its # _) \<Rightarrow> Output (Some [Some its])
   | _ \<Rightarrow> Output None)"

definition getCustomOperation :: "run_env \<Rightarrow> noderef \<Rightarrow> runtime_type \<Rightarrow> bool" where
  "getCustomOperation env r nt = (case rt_customOperations nt of
     None \<Rightarrow> False
   | Some ops \<Rightarrow>
       (case (case ns_forceCustomOperation (re_settings env r) of
            Some (resource, operation) \<Rightarrow> (Some (JStr resource), Some (JStr operation))
          | None \<Rightarrow> (map_of (parameters (re_heap env r)) ''resource'', map_of (parameters (re_heap env r)) ''operation'')) of
          (Some (JStr resource), Some (JStr operation)) \<Rightarrow>
            (case map_of ops resource of None \<Rightarrow> False | Some os \<Rightarrow> operation \<in> set os)
        | _ \<Rightarrow> False))"

text \<open>
  The items a node works on: those of the first input, in the order \<open>v1\<close> of the first input with
  items; \<open>None\<close> is \<open>null\<close>.
\<close>

definition prepareConnectionInputData ::
    "bool \<Rightarrow> runtime_type \<Rightarrow> bool \<Rightarrow> ITaskDataConnections \<Rightarrow> items option" where
  "prepareConnectionInputData v1 nt customOperation inputData =
     (if rt_execute nt \<or> customOperation \<or> (\<not> rt_poll nt \<and> \<not> rt_trigger nt \<and> \<not> rt_webhook nt)
      then (case map_of inputData Main of
          None \<Rightarrow> None
        | Some [] \<Rightarrow> None
        | Some (d # ds) \<Rightarrow>
            (case (if v1 then (case List.find (\<lambda>x. case x of None \<Rightarrow> False | Some its \<Rightarrow> length its \<noteq> 0) (d # ds) of
                 Some mainData \<Rightarrow> mainData | None \<Rightarrow> d) else d) of
               None \<Rightarrow> None
             | Some its \<Rightarrow> if length its = 0 then None else Some its))
      else Some [])"

definition rethrowLastNodeError :: "run_env \<Rightarrow> run_state \<Rightarrow> noderef \<Rightarrow> js_error option" where
  "rethrowLastNodeError env s r =
     (if rs_lastNodeExecuted s = Some (node_name (re_heap env r))
      then (case rs_resultError s of
          None \<Rightarrow> None
        | Some (NodeError m) \<Rightarrow> Some (NodeError m)
        | Some x \<Rightarrow> Some (JsError (error_text x)))
      else None)"

definition handleExecuteOnce :: "run_env \<Rightarrow> noderef \<Rightarrow> ITaskDataConnections \<Rightarrow> ITaskDataConnections" where
  "handleExecuteOnce env r inputData =
     (if ns_executeOnce (re_settings env r)
      then map (\<lambda>(t, inputs). (t, map (map_option (take 1)) inputs)) inputData else inputData)"

text \<open>The response of a trigger that is started by hand; an empty one is \<open>null\<close>.\<close>

fun trigger_response :: "node_outcome \<Rightarrow> node_outcome" where
  "trigger_response (Output (Some [])) = Output None"
| "trigger_response out = out"

definition runNode ::
    "run_env \<Rightarrow> run_state \<Rightarrow> IExecuteData \<Rightarrow> nat \<Rightarrow> EngineResponse option \<Rightarrow> nat \<Rightarrow> node_outcome \<times> bool" where
  "runNode env s e runIndex response k =
     (let r = ed_node e in
      if is_disabled (re_heap env r) then (handleDisabledNode (ed_data e), False)
      else case re_types env r of
        None \<Rightarrow> (Throws TypeError, False)
      | Some nt \<Rightarrow>
          let customOperation = getCustomOperation env r nt in
          (case prepareConnectionInputData (re_v1 env) nt customOperation (ed_data e) of
             None \<Rightarrow> (Output None, False)
           | Some connectionInputData \<Rightarrow>
               (case rethrowLastNodeError env s r of
                  Some x \<Rightarrow> (Throws x, False)
                | None \<Rightarrow>
                    let inputData = handleExecuteOnce env r (ed_data e);
                        call = (\<lambda>c. re_call env c s e connectionInputData inputData runIndex response k);
                        pass = (Output (map_of inputData Main), False)
                    in if rt_execute nt \<or> customOperation then call (if customOperation then CallCustom else CallExecute)
                       else if rt_poll nt then (if re_manual env then call CallPoll else pass)
                       else if rt_trigger nt then
                         (if re_manual env then apfst trigger_response (call CallTrigger) else pass)
                       else if rt_supplyData nt then
                         (Throws (ApplicationError (''The node \"'' @ node_type (re_heap env r) @
                            ''\" has a \"supplyData\" method but no \"execute\" method.'')), False)
                       else if rt_webhook nt \<and> \<not> rt_requestDefaults nt then pass
                       else call CallDeclarative)))"

text \<open>A call and the state with the wait it may have set.\<close>

definition call_node ::
    "run_env \<Rightarrow> IExecuteData \<Rightarrow> nat \<Rightarrow> EngineResponse option \<Rightarrow> nat \<Rightarrow> run_state \<Rightarrow> node_outcome \<times> run_state" where
  "call_node env e runIndex response k s =
     (case runNode env s e runIndex response k of
        (out, waits) \<Rightarrow> (out, s\<lparr>rs_waitTill := rs_waitTill s \<or> waits\<rparr>))"

end
