(* ===== verification/Run_Items.thy ===== *)
theory Run_Items
  imports Run_Node
begin

text \<open>
  What \<open>WorkflowExecute\<close> does with the items of a run: the origin of the items of an input and of an
  output, the empty item of a node that always has an output, the error output, and the errors that
  items report.
\<close>

section \<open>Where items stem from\<close>

definition resolveSourceOverwrite :: "INodeExecutionData \<Rightarrow> IExecuteData \<Rightarrow> ISourceData option" where
  "resolveSourceOverwrite item e = (case ed_metadata e of
     None \<Rightarrow> None
   | Some md \<Rightarrow>
       if \<not> md_preserveSourceOverwrite md then None
       else (case md_preservedSourceOverwrite md of
           Some src \<Rightarrow> Some src
         | None \<Rightarrow> (case item_paired item of Some (PairedItem p) \<Rightarrow> pi_source p | _ \<Rightarrow> None)))"

definition pair_input :: "IExecuteData \<Rightarrow> nat \<Rightarrow> nat \<Rightarrow> INodeExecutionData \<Rightarrow> INodeExecutionData" where
  "pair_input e inputIndex itemIndex item =
     item\<lparr>item_paired := Some (PairedItem \<lparr>pi_item = itemIndex,
       pi_input = (if inputIndex = 0 then None else Some inputIndex),
       pi_source = resolveSourceOverwrite item e\<rparr>)\<rparr>"

text \<open>The data of an entry that is about to run: each item is paired with its place.\<close>

definition pair_inputs :: "IExecuteData \<Rightarrow> IExecuteData" where
  "pair_inputs e = e\<lparr>ed_data := map (\<lambda>(t, inputs). (t,
     map (\<lambda>(inputIndex, input). map_option (\<lambda>its. map (\<lambda>(itemIndex, item). pair_input e inputIndex itemIndex item)
       (enumerate 0 its)) input) (enumerate 0 inputs))) (ed_data e)\<rparr>"

text \<open>
  The rule by which the items of an output that are not paired yet are paired, by their index in the
  output; without a rule the code leaves its loop, as no item can be paired.
\<close>

definition items_length :: "items option \<Rightarrow> nat option" where
  "items_length d = map_option length d"

definition pairing_rule ::
    "items option list \<Rightarrow> items option list \<Rightarrow> (nat \<Rightarrow> nat) option result" where
  "pairing_rule data main =
     (let input = (if length main = 1 then items_length (hd main) else None) in
      if input = Some 1 then
        (if length data = 1 \<and> hd data = None then Inl TypeError else Inr (Some (\<lambda>index. 0)))
      else if length data = 1 \<and> length main = 1 then
        (case hd data of
           None \<Rightarrow> Inl TypeError
         | Some output \<Rightarrow>
             if input = Some (length output) then Inr (Some (\<lambda>index. index))
             else if length output = 1 \<and> (case input of None \<Rightarrow> False | Some n \<Rightarrow> 1 < n) then Inr (Some (\<lambda>index. 0))
             else Inr None)
      else Inr None)"

definition pair_output :: "(nat \<Rightarrow> nat) \<Rightarrow> items \<Rightarrow> items" where
  "pair_output rule its = map (\<lambda>(index, item). case item_paired item of
     None \<Rightarrow> item\<lparr>item_paired := Some (PairedItem \<lparr>pi_item = rule index, pi_input = None, pi_source = None\<rparr>)\<rparr>
   | Some _ \<Rightarrow> item) (enumerate 0 its)"

definition assignPairedItems ::
    "items option list option \<Rightarrow> IExecuteData \<Rightarrow> items option list option result" where
  "assignPairedItems nodeSuccessData e =
     (case nodeSuccessData of
        None \<Rightarrow> Inr None
      | Some data \<Rightarrow>
          if length data = 0 then Inr (Some data)
          else (case map_of (ed_data e) Main of
              None \<Rightarrow> Inl TypeError
            | Some main \<Rightarrow> rbind (pairing_rule data main) (\<lambda>rule.
                Inr (Some (case rule of None \<Rightarrow> data | Some f \<Rightarrow> map (map_option (pair_output f)) data)))))"

section \<open>A node that always has an output\<close>

text \<open>\<open>data?.[0]?.[0]\<close>\<close>

definition first_item :: "items option list option \<Rightarrow> INodeExecutionData option" where
  "first_item d = (case d of Some (Some (item # _) # _) \<Rightarrow> Some item | _ \<Rightarrow> None)"

definition paired_with_all :: "items option list \<Rightarrow> IPairedItemData list" where
  "paired_with_all main = concat (map (\<lambda>(inputIndex, input). case input of
     None \<Rightarrow> []
   | Some its \<Rightarrow> map (\<lambda>itemIndex. \<lparr>pi_item = itemIndex, pi_input = Some inputIndex, pi_source = None\<rparr>) [0..<length its])
     (enumerate 0 main))"

definition always_output :: "items option list \<Rightarrow> items option list option \<Rightarrow> items option list" where
  "always_output main nodeSuccessData =
     array_put 0 (Some [(json_item [])\<lparr>item_paired := Some (PairedItems (paired_with_all main))\<rparr>])
       (case nodeSuccessData of None \<Rightarrow> [] | Some data \<Rightarrow> data)"

section \<open>The error output\<close>

fun json_truthy :: "json option \<Rightarrow> bool" where
  "json_truthy None = False"
| "json_truthy (Some JNull) = False"
| "json_truthy (Some (JBool b)) = b"
| "json_truthy (Some (JNum n)) = (n \<noteq> 0)"
| "json_truthy (Some (JStr s)) = (s \<noteq> [])"
| "json_truthy (Some (JArr xs)) = True"
| "json_truthy (Some (JObj obj)) = True"

text \<open>Whether an item reports an error, and so belongs to the error output.\<close>

definition error_item :: "INodeExecutionData \<Rightarrow> bool" where
  "error_item item \<longleftrightarrow> json_truthy (item_error item) \<or>
     (json_truthy (map_of (item_json item) ''error'') \<and>
       (length (keys (item_json item)) = 1 \<or>
        (json_truthy (map_of (item_json item) ''message'') \<and> length (keys (item_json item)) = 2)))"

definition first_pairing :: "INodeExecutionData \<Rightarrow> IPairedItemData option" where
  "first_pairing item = (case item_paired item of
     Some (PairedItem p) \<Rightarrow> Some p | Some (PairedItems (p # _)) \<Rightarrow> Some p | _ \<Rightarrow> None)"

definition spread :: "(string \<times> json) list \<Rightarrow> (string \<times> json) list \<Rightarrow> (string \<times> json) list" where
  "spread a b = fold (\<lambda>(k, v). obj_put k v) b a"

text \<open>An item of the error output gets the JSON of the item it stems from.\<close>

definition with_origin :: "run_env \<Rightarrow> run_state \<Rightarrow> IExecuteData \<Rightarrow> INodeExecutionData \<Rightarrow> INodeExecutionData result" where
  "with_origin env s e item =
     (case (ed_source e, first_pairing item) of
        (Some source, Some p) \<Rightarrow>
          (case map_of source Main of
             None \<Rightarrow> Inl TypeError
           | Some sources \<Rightarrow>
               (case array_get sources (case pi_input p of None \<Rightarrow> 0 | Some i \<Rightarrow> i) of
                  None \<Rightarrow> Inl TypeError
                | Some src \<Rightarrow> rbind (re_pairedItem env s e src p) (\<lambda>origin.
                    Inr (case origin of
                       None \<Rightarrow> item
                     | Some o' \<Rightarrow> item\<lparr>item_json := spread (item_json o') (item_json item)\<rparr>))))
      | _ \<Rightarrow> Inr item)"

text \<open>
  The items of an output, taken off its front one by one: those that stay, the error items, and the
  error that stopped the loop with the items left.
\<close>

fun split_errors ::
    "(INodeExecutionData \<Rightarrow> INodeExecutionData result) \<Rightarrow> items \<Rightarrow> items \<times> items \<times> (js_error \<times> items) option" where
  "split_errors f [] = ([], [], None)"
| "split_errors f (item # its) =
     (if error_item item
      then (case f item of
          Inl x \<Rightarrow> ([], [], Some (x, its))
        | Inr item' \<Rightarrow> (let (good, bad, stop) = split_errors f its in (good, item' # bad, stop)))
      else (let (good, bad, stop) = split_errors f its in (item # good, bad, stop)))"

fun split_outputs ::
    "(INodeExecutionData \<Rightarrow> INodeExecutionData result) \<Rightarrow> nat list \<Rightarrow> items option list \<Rightarrow> items \<Rightarrow>
     items option list \<times> items \<times> js_error option" where
  "split_outputs f [] data errorItems = (data, errorItems, None)"
| "split_outputs f (i # is') data errorItems =
     (let (good, bad, stop) = split_errors f (case array_get data i of None \<Rightarrow> [] | Some its \<Rightarrow> its)
      in case stop of
           Some (x, left) \<Rightarrow> (array_put i (Some left) data, errorItems, Some x)
         | None \<Rightarrow> split_outputs f is' (array_put i (Some good) data) (errorItems @ bad))"

definition getConnectionTypes :: "node_output list \<Rightarrow> NodeConnectionType list" where
  "getConnectionTypes outputs = map (\<lambda>c. case c of OutputName t \<Rightarrow> t | OutputConfig t \<Rightarrow> t) outputs"

definition getNodeOutputs :: "run_env \<Rightarrow> noderef \<Rightarrow> runtime_type \<Rightarrow> node_output list" where
  "getNodeOutputs env r nt =
     (if ns_onError (re_settings env r) = Some ''continueErrorOutput''
      then (if length (rt_outputs nt) = 1 then map OutputConfig (getConnectionTypes (rt_outputs nt)) else rt_outputs nt) @
        [OutputConfig Main]
      else rt_outputs nt)"

text \<open>The data, changed even if an error stopped the split.\<close>

definition handleNodeErrorOutput ::
    "run_env \<Rightarrow> run_state \<Rightarrow> IExecuteData \<Rightarrow> items option list \<Rightarrow> items option list \<times> js_error option" where
  "handleNodeErrorOutput env s e data =
     (case re_types env (ed_node e) of
        None \<Rightarrow> (data, Some TypeError)
      | Some nt \<Rightarrow>
          (let mainOutputs = length (filter (\<lambda>t. t = Main) (getConnectionTypes (getNodeOutputs env (ed_node e) nt)));
               (data', errorItems, stop) = split_outputs (with_origin env s e) [0..<mainOutputs - 1] data []
           in case stop of
                Some x \<Rightarrow> (data', Some x)
              | None \<Rightarrow> (array_put (mainOutputs - 1) (Some errorItems) data', None)))"

section \<open>Errors that items report\<close>

definition message_of :: "json \<Rightarrow> (string \<times> json) list result" where
  "message_of x = (case x of
     JNull \<Rightarrow> Inl TypeError
   | JObj obj \<Rightarrow> Inr (case map_of obj ''message'' of None \<Rightarrow> [] | Some m \<Rightarrow> [(''error'', m)])
   | _ \<Rightarrow> Inr [])"

text \<open>A message that is \<open>undefined\<close> leaves an object without the key.\<close>

definition merge_item :: "INodeExecutionData \<Rightarrow> INodeExecutionData result" where
  "merge_item item =
     (case (map_of (item_json item) ''$error'', map_of (item_json item) ''$json'', item_error item) of
        (Some x, Some _, _) \<Rightarrow> rbind (message_of x) (\<lambda>obj. Inr (item\<lparr>item_json := obj, item_error := Some x\<rparr>))
      | (_, _, Some x) \<Rightarrow> rbind (message_of x) (\<lambda>obj. Inr (item\<lparr>item_json := obj\<rparr>))
      | _ \<Rightarrow> Inr item)"

fun rmap :: "('a \<Rightarrow> 'b result) \<Rightarrow> 'a list \<Rightarrow> 'b list result" where
  "rmap f [] = Inr []"
| "rmap f (x # xs) = rbind (f x) (\<lambda>y. rbind (rmap f xs) (\<lambda>ys. Inr (y # ys)))"

definition merge_errors :: "items option list \<Rightarrow> items option list result" where
  "merge_errors data = rmap (\<lambda>d. case d of None \<Rightarrow> Inl TypeError | Some its \<Rightarrow> rbind (rmap merge_item its) (\<lambda>its'. Inr (Some its'))) data"

end
