(* ===== verification/Engine_Requests.thy ===== *)
theory Engine_Requests
  imports Run_Items
begin

text \<open>
  \<open>packages/core/src/execution-engine/requests-response.ts\<close> and \<open>handleEngineRequest\<close> of
  \<open>workflow-execute.ts\<close>: an agent that asks for tools is put on the stack again together with them,
  and the run data of the tools show their input at once.

  A list of runs that is empty counts as run 0 of its node, in the code as run -1.
\<close>

record node_to_execute =
  ne_connection :: IConnection
  ne_outputIndex :: nat
  ne_parentNode :: string
  ne_data :: "items option list option"
  ne_runIndex :: nat
  ne_nodeRunIndex :: nat
  ne_metadata :: ITaskMetadata

definition buildParentOutputData ::
    "(string \<times> json) list \<Rightarrow> nat \<Rightarrow> nat \<Rightarrow> string \<Rightarrow> items option list" where
  "buildParentOutputData obj parentRunIndex parentOutputIndex parentSourceNode =
     [Some [\<lparr>item_json = obj, item_error = None,
       item_paired = Some (PairedItem \<lparr>pi_item = parentRunIndex, pi_input = Some parentOutputIndex,
         pi_source = Some \<lparr>previousNode = parentSourceNode, previousNodeOutput = Some parentOutputIndex,
           previousNodeRun = Some parentRunIndex\<rparr>\<rparr>)\<rparr>]]"

definition initializeNodeRunData ::
    "string \<Rightarrow> ISourceData \<Rightarrow> items option list \<Rightarrow> IRunData \<Rightarrow> nat \<times> IRunData" where
  "initializeNodeRunData nodeName source displayOutputData runData =
     (let runs = or_empty (map_of runData nodeName)
      in (length runs, obj_put nodeName (runs @ [\<lparr>executionIndex = Some 0, task_source = [Some source],
           task_status = None, task_error = None, task_data = None,
           task_inputOverride = Some [(AiTool, displayOutputData)], task_metadata = None\<rparr>]) runData))"

text \<open>
  What the tools take over from the agent: the entry of its sources at the index of the run, with its
  output and node or the defaults.
\<close>

definition parent_source :: "IExecuteData \<Rightarrow> nat \<Rightarrow> ISourceData option" where
  "parent_source e runIndex = (case ed_source e of
     None \<Rightarrow> None
   | Some source \<Rightarrow> (case map_of source Main of None \<Rightarrow> None | Some sources \<Rightarrow> array_get sources runIndex))"

definition or_default :: "'a \<Rightarrow> 'a option \<Rightarrow> 'a" where
  "or_default d x = (case x of None \<Rightarrow> d | Some v \<Rightarrow> v)"

definition named_parent :: "engine_action \<Rightarrow> bool" where
  "named_parent a = (case ea_parentNodeName a of None \<Rightarrow> False | Some n \<Rightarrow> n \<noteq> [])"

definition agent_json :: "IExecuteData \<Rightarrow> nat \<Rightarrow> (string \<times> json) list" where
  "agent_json e itemIndex = (case map_of (ed_data e) Main of
     Some (Some its # _) \<Rightarrow> if itemIndex < length its then item_json (its ! itemIndex) else []
   | _ \<Rightarrow> [])"

text \<open>
  One tool; the state changes step by step, so the tools before a missing one keep their runs.
\<close>

definition prepare_action ::
    "run_env \<Rightarrow> IExecuteData \<Rightarrow> nat \<Rightarrow> engine_action \<Rightarrow> run_state \<Rightarrow>
     (node_to_execute \<times> sub_node_action \<times> run_state) result" where
  "prepare_action env e runIndex action s =
     (case getNode (re_workflow env) (ea_nodeName action) of
        None \<Rightarrow> Inl (UnexpectedError (''Workflow does not contain a node with the name of \"'' @
          ea_nodeName action @ ''\".''))
      | Some r \<Rightarrow>
          let src = parent_source e runIndex; current = entry_name env e;
              parentOutputIndex = (case src of None \<Rightarrow> 0 | Some d \<Rightarrow> or_default 0 (previousNodeOutput d));
              parentSourceNode = (case src of None \<Rightarrow> current | Some d \<Rightarrow> previousNode d);
              parentNode = or_default current (ea_parentNodeName action);
              parentRunIndex = (if named_parent action
                then (case map_of (rs_runData s) parentNode of None \<Rightarrow> 0 | Some runs \<Rightarrow> length runs - 1)
                else (case src of None \<Rightarrow> 0 | Some d \<Rightarrow> or_default 0 (previousNodeRun d)));
              run = (if named_parent action then parentRunIndex else runIndex);
              merged = obj_put ''toolCallId'' (JStr (ea_id action))
                (spread (agent_json e (or_default 0 (ea_itemIndex action))) (ea_input action));
              name = node_name (re_heap env r);
              (nodeRunIndex, runData) = initializeNodeRunData name
                \<lparr>previousNode = parentNode, previousNodeOutput = Some parentOutputIndex, previousNodeRun = Some run\<rparr>
                (buildParentOutputData (spread [] (ea_input action)) parentRunIndex parentOutputIndex parentSourceNode)
                (rs_runData s);
              preserved = (case (case ed_metadata e of None \<Rightarrow> None | Some md \<Rightarrow> md_preservedSourceOverwrite md) of
                 Some d \<Rightarrow> d
               | None \<Rightarrow> \<lparr>previousNode = parentSourceNode, previousNodeOutput = Some parentOutputIndex,
                   previousNodeRun = Some parentRunIndex\<rparr>)
          in Inr (\<lparr>ne_connection = mk_conn (ea_nodeName action) (ea_type action) 0, ne_outputIndex = 0,
                 ne_parentNode = parentNode,
                 ne_data = Some (buildParentOutputData merged parentRunIndex parentOutputIndex parentSourceNode),
                 ne_runIndex = run, ne_nodeRunIndex = nodeRunIndex,
                 ne_metadata = \<lparr>md_subNodeExecutionData = None, md_preserveSourceOverwrite = True,
                   md_preservedSourceOverwrite = Some preserved, md_nodeWasResumed = False\<rparr>\<rparr>,
               \<lparr>sa_nodeName = ea_nodeName action, sa_runIndex = nodeRunIndex, sa_action = action\<rparr>,
               s\<lparr>rs_runData := runData, rs_rewired := map_put r (ea_type action) (rs_rewired s)\<rparr>))"

fun prepareRequestedNodesForExecution ::
    "run_env \<Rightarrow> IExecuteData \<Rightarrow> nat \<Rightarrow> engine_action list \<Rightarrow> run_state \<Rightarrow>
     (js_error + (node_to_execute list \<times> sub_node_action list)) \<times> run_state" where
  "prepareRequestedNodesForExecution env e runIndex [] s = (Inr ([], []), s)"
| "prepareRequestedNodesForExecution env e runIndex (action # as') s =
     (case prepare_action env e runIndex action s of
        Inl x \<Rightarrow> (Inl x, s)
      | Inr (node, sub, s') \<Rightarrow>
          (case prepareRequestedNodesForExecution env e runIndex as' s' of
             (Inl x, s'') \<Rightarrow> (Inl x, s'')
           | (Inr (nodes, subs), s'') \<Rightarrow> (Inr (node # nodes, sub # subs), s'')))"

text \<open>The agent itself, if the node before it is known.\<close>

definition prepareRequestingNodeForResuming ::
    "run_env \<Rightarrow> IExecuteData \<Rightarrow> (IConnection \<times> string \<times> ITaskMetadata) option" where
  "prepareRequestingNodeForResuming env e =
     (case parent_source e 0 of
        None \<Rightarrow> None
      | Some src \<Rightarrow>
          if previousNode src = [] then None
          else Some (mk_conn (entry_name env e) AiTool 0, previousNode src,
            (case ed_metadata e of
               Some md \<Rightarrow>
                 if md_preservedSourceOverwrite md \<noteq> None \<and> md_preserveSourceOverwrite md
                 then \<lparr>md_subNodeExecutionData = None, md_preserveSourceOverwrite = True,
                   md_preservedSourceOverwrite = md_preservedSourceOverwrite md, md_nodeWasResumed = False\<rparr>
                 else \<lparr>md_subNodeExecutionData = None, md_preserveSourceOverwrite = False,
                   md_preservedSourceOverwrite = None, md_nodeWasResumed = False\<rparr>
             | None \<Rightarrow> \<lparr>md_subNodeExecutionData = None, md_preserveSourceOverwrite = False,
                 md_preservedSourceOverwrite = None, md_nodeWasResumed = False\<rparr>)))"

definition handleRequest ::
    "run_env \<Rightarrow> IExecuteData \<Rightarrow> EngineRequest \<Rightarrow> nat \<Rightarrow> run_state \<Rightarrow>
     (js_error + node_to_execute list) \<times> run_state" where
  "handleRequest env e request runIndex s =
     (case prepareRequestedNodesForExecution env e runIndex (er_actions request) s of
        (Inl x, s') \<Rightarrow> (Inl x, s')
      | (Inr (nodes, subs), s') \<Rightarrow>
          (case prepareRequestingNodeForResuming env e of
             None \<Rightarrow> (Inr [], s')
           | Some (c, parentNode, md) \<Rightarrow>
               (Inr (\<lparr>ne_connection = c, ne_outputIndex = 0, ne_parentNode = parentNode,
                    ne_data = map_of (ed_data e) Main, ne_runIndex = runIndex, ne_nodeRunIndex = runIndex,
                    ne_metadata = md\<lparr>md_nodeWasResumed := True,
                      md_subNodeExecutionData := Some \<lparr>sn_actions = subs, sn_metadata = er_metadata request\<rparr>\<rparr>\<rparr> # nodes), s')))"

text \<open>
  The nodes are handed to \<open>addNodeToBeExecuted\<close> in turn, which reads the output of data that is
  missing; its changes before an error are dropped.
\<close>

definition add_requested :: "run_env \<Rightarrow> node_to_execute \<Rightarrow> run_state \<Rightarrow> run_state result" where
  "add_requested env n s =
     (if ne_data n = None then Inl TypeError
      else addNodeToBeExecuted (re_heap env) (re_workflow env) (re_v1 env) (ne_connection n) (ne_outputIndex n)
        (ne_parentNode n) (ne_data n) (ne_runIndex n) (Some (ne_nodeRunIndex n)) (Some (ne_metadata n)) s)"

fun add_all_requested :: "run_env \<Rightarrow> node_to_execute list \<Rightarrow> run_state \<Rightarrow> js_error option \<times> run_state" where
  "add_all_requested env [] s = (None, s)"
| "add_all_requested env (n # ns) s =
     (case add_requested env n s of Inl x \<Rightarrow> (Some x, s) | Inr s' \<Rightarrow> add_all_requested env ns s')"

definition handleEngineRequest ::
    "run_env \<Rightarrow> IExecuteData \<Rightarrow> EngineRequest \<Rightarrow> nat \<Rightarrow> run_state \<Rightarrow> js_error option \<times> run_state" where
  "handleEngineRequest env e request runIndex s =
     (case handleRequest env e request runIndex s of
        (Inl x, s') \<Rightarrow> (Some x, s')
      | (Inr nodes, s') \<Rightarrow> add_all_requested env nodes s')"

end
