(* ===== verification/Run_Attempts.thy ===== *)
theory Run_Attempts
  imports Engine_Requests
begin

text \<open>
  The tries of the run loop to run one entry. A node that reports an error in its first item is called
  again at once while tries are left, and a call that throws ends the try: the call it throws in is not
  counted then.
\<close>

definition max_tries :: "node_settings \<Rightarrow> nat" where
  "max_tries ns = (if ns_retryOnFail ns
     then nat (min 5 (max 2 (case ns_maxTries ns of None \<Rightarrow> 3 | Some n \<Rightarrow> if n = 0 then 3 else n))) else 1)"

lemma max_tries_bounds: "1 \<le> max_tries ns" "max_tries ns \<le> 5"
  by (auto simp: max_tries_def split: option.splits)

fun node_failed :: "node_outcome \<Rightarrow> bool" where
  "node_failed (Output d) = (case first_item d of None \<Rightarrow> False | Some item \<Rightarrow> map_of (item_json item) ''error'' \<noteq> None)"
| "node_failed (Request q) = False"
| "node_failed (Throws x) = False"

text \<open>
  The calls after the first one: \<open>left\<close> tries come after this one, \<open>k\<close> calls were made. The result is
  the last outcome with the state, the tries that are left and the calls made.
\<close>

fun rerun_failed ::
    "(nat \<Rightarrow> run_state \<Rightarrow> node_outcome \<times> run_state) \<Rightarrow> nat \<Rightarrow> nat \<Rightarrow> node_outcome \<Rightarrow> run_state \<Rightarrow>
     node_outcome \<times> run_state \<times> nat \<times> nat" where
  "rerun_failed run 0 k out s = (out, s, 0, k)"
| "rerun_failed run (Suc left) k out s =
     (if \<not> node_failed out then (out, s, Suc left, k)
      else (case run k s of
          (Throws x, s') \<Rightarrow> (Throws x, s', Suc left, Suc k)
        | (out', s') \<Rightarrow> rerun_failed run left (Suc k) out' s'))"

text \<open>
  A try and what it leaves: the state, the data of the node, the error, whether the data are the pinned
  items themselves, whether the try ended in a request, the tries left, the calls and the responses.
\<close>

record attempt =
  at_state :: run_state
  at_data :: "items option list option"
  at_error :: "js_error option"
  at_pinned :: bool
  at_requested :: bool
  at_triesLeft :: nat
  at_calls :: nat
  at_response :: EngineResponse

text \<open>What follows the call: the data are split, paired and completed.\<close>

definition complete_output ::
    "run_env \<Rightarrow> IExecuteData \<Rightarrow> bool \<Rightarrow> items option list option \<Rightarrow> run_state \<Rightarrow>
     items option list option \<times> js_error option \<times> bool \<times> run_state" where
  "complete_output env e pinned data s =
     (let ns = re_settings env (ed_node e);
          (data1, stop) = (case data of
             Some d \<Rightarrow> if \<not> pinned \<and> ns_onError ns = Some ''continueErrorOutput''
               then apfst Some (handleNodeErrorOutput env s e d) else (data, None)
           | None \<Rightarrow> (data, None))
      in case stop of
           Some x \<Rightarrow> (data1, Some x, pinned, s)
         | None \<Rightarrow>
             (case assignPairedItems data1 e of
                Inl x \<Rightarrow> (data1, Some x, pinned, s)
              | Inr data2 \<Rightarrow>
                  let s' = (if data2 = None then s else s\<lparr>rs_lastNodeExecuted := Some (entry_name env e)\<rparr>) in
                  if first_item data2 = None \<and> ns_alwaysOutputData ns
                  then (case map_of (ed_data e) Main of
                      None \<Rightarrow> (data2, Some TypeError, pinned, s')
                    | Some main \<Rightarrow> (Some (always_output main data2), None, False, s'))
                  else (data2, None, pinned, s')))"

definition pinned_data :: "run_env \<Rightarrow> run_state \<Rightarrow> IExecuteData \<Rightarrow> items option" where
  "pinned_data env s e = (case rs_pinData s of
     None \<Rightarrow> None
   | Some pd \<Rightarrow> if is_disabled (re_heap env (ed_node e)) then None else map_of pd (entry_name env e))"

text \<open>The responses to the tools an agent asked for; each try adds them again.\<close>

definition add_responses :: "IExecuteData \<Rightarrow> run_state \<Rightarrow> EngineResponse \<Rightarrow> EngineResponse" where
  "add_responses e s response =
     (case (case ed_metadata e of None \<Rightarrow> None | Some md \<Rightarrow> md_subNodeExecutionData md) of
        None \<Rightarrow> response
      | Some sub \<Rightarrow> \<lparr>actionResponses = actionResponses response @ concat (map (\<lambda>a.
            case map_of (rs_runData s) (sa_nodeName a) of
              None \<Rightarrow> []
            | Some runs \<Rightarrow> if sa_runIndex a < length runs then [(sa_action a, runs ! sa_runIndex a)] else [])
            (sn_actions sub)), response_metadata = sn_metadata sub\<rparr>)"

text \<open>The catch block: the node is the last one that ran.\<close>

definition catch :: "run_env \<Rightarrow> IExecuteData \<Rightarrow> attempt \<Rightarrow> attempt" where
  "catch env e a = (if at_error a = None then a
     else a\<lparr>at_state := (at_state a)\<lparr>rs_lastNodeExecuted := Some (entry_name env e)\<rparr>\<rparr>)"

definition run_try :: "run_env \<Rightarrow> IExecuteData \<Rightarrow> nat \<Rightarrow> attempt \<Rightarrow> attempt" where
  "run_try env e runIndex a = catch env e
     (case pinned_data env (at_state a) e of
        Some its \<Rightarrow>
          (let (data, err, pinned, s) = complete_output env e True (Some [Some its]) (at_state a)
           in a\<lparr>at_state := s, at_data := data, at_error := err, at_pinned := pinned\<rparr>)
      | None \<Rightarrow>
          (let response = add_responses e (at_state a) (at_response a);
               (out1, s1) = call_node env e runIndex (Some response) (at_calls a) (at_state a);
               (out, s2, left, calls) = rerun_failed (\<lambda>k. call_node env e runIndex None k) (at_triesLeft a)
                 (Suc (at_calls a)) out1 s1;
               b = a\<lparr>at_triesLeft := left, at_calls := calls, at_response := response\<rparr>
           in case out of
                Throws x \<Rightarrow> b\<lparr>at_state := s2, at_error := Some x\<rparr>
              | Request q \<Rightarrow>
                  (let (err, s3) = handleEngineRequest env e q runIndex s2
                   in b\<lparr>at_state := s3, at_error := err, at_requested := (err = None)\<rparr>)
              | Output d \<Rightarrow>
                  (let (data, err, pinned, s3) = complete_output env e False d s2
                   in b\<lparr>at_state := s3, at_data := data, at_error := err, at_pinned := pinned\<rparr>)))"

text \<open>A call that throws after the first one is the only one that is not counted.\<close>

lemma rerun_failed_left:
  "rerun_failed run left k out s = (out', s', left', k') \<Longrightarrow> left' \<le> left \<and> k \<le> k' \<and>
    (k' + 2 * left' \<le> k + 2 * left \<or> ((\<exists>x. out' = Throws x) \<and> 0 < left' \<and> k' + 2 * left' \<le> k + 2 * left + 1))"
proof (induction run left k out s rule: rerun_failed.induct)
  case (2 run left k out s)
  obtain o1 s1 where r: "run k s = (o1, s1)" by fastforce
  show ?case using 2 r by (cases o1) (fastforce split: if_splits)+
qed auto

lemma run_try_left: "at_triesLeft (run_try env e ri a) \<le> at_triesLeft a"
  by (auto simp: run_try_def catch_def Let_def split: option.splits prod.splits node_outcome.splits dest: rerun_failed_left)

function run_tries :: "run_env \<Rightarrow> IExecuteData \<Rightarrow> nat \<Rightarrow> attempt \<Rightarrow> attempt" where
  "run_tries env e runIndex a =
     (let b = run_try env e runIndex (a\<lparr>at_error := None\<rparr>) in
      if at_error b = None \<or> at_triesLeft b = 0 then b
      else run_tries env e runIndex (b\<lparr>at_triesLeft := at_triesLeft b - 1\<rparr>))"
  by pat_completeness auto
termination
proof (relation "measure (\<lambda>(env, e, ri, a). at_triesLeft a)")
  fix env e ri a b
  assume "b = run_try env e ri (a\<lparr>at_error := None\<rparr>)" "\<not> (at_error b = None \<or> at_triesLeft b = 0)"
  moreover have "at_triesLeft b \<le> at_triesLeft a"
    using run_try_left [of env e ri "a\<lparr>at_error := None\<rparr>"] calculation(1) by simp
  ultimately show "((env, e, ri, b\<lparr>at_triesLeft := at_triesLeft b - 1\<rparr>), env, e, ri, a) \<in> measure (\<lambda>(env, e, ri, a). at_triesLeft a)"
    by auto
qed simp

declare run_tries.simps [simp del]

definition first_attempt :: "run_env \<Rightarrow> IExecuteData \<Rightarrow> run_state \<Rightarrow> attempt" where
  "first_attempt env e s = \<lparr>at_state = s, at_data = None, at_error = None, at_pinned = False, at_requested = False,
     at_triesLeft = max_tries (re_settings env (ed_node e)) - 1, at_calls = 0,
     at_response = \<lparr>actionResponses = [], response_metadata = JObj []\<rparr>\<rparr>"

section \<open>How often a node is called\<close>

lemma run_try_calls:
  "at_calls (run_try env e ri a) + 2 * at_triesLeft (run_try env e ri a) \<le> at_calls a + 2 * at_triesLeft a + 1 \<or>
    (at_error (run_try env e ri a) \<noteq> None \<and> 0 < at_triesLeft (run_try env e ri a) \<and>
     at_calls (run_try env e ri a) + 2 * at_triesLeft (run_try env e ri a) \<le> at_calls a + 2 * at_triesLeft a + 2)"
proof (cases "pinned_data env (at_state a) e")
  case None
  let ?resp = "add_responses e (at_state a) (at_response a)"
  obtain o1 s1 where c: "call_node env e ri (Some ?resp) (at_calls a) (at_state a) = (o1, s1)" by fastforce
  obtain out s2 l k where r: "rerun_failed (\<lambda>k. call_node env e ri None k) (at_triesLeft a) (Suc (at_calls a)) o1 s1 = (out, s2, l, k)"
    by (rule prod_cases4)
  have eq: "at_calls (run_try env e ri a) = k" "at_triesLeft (run_try env e ri a) = l"
    "(\<exists>x. out = Throws x) \<Longrightarrow> at_error (run_try env e ri a) \<noteq> None"
    using None c r by (auto simp: run_try_def catch_def Let_def split: prod.splits node_outcome.splits)
  show ?thesis using rerun_failed_left [OF r] eq by auto
next
  case (Some its)
  then show ?thesis by (auto simp: run_try_def catch_def Let_def split: prod.splits)
qed

lemma run_tries_calls:
  "at_calls (run_tries env e ri a) \<le> at_calls a + 2 * at_triesLeft a + 1"
proof (induction env e ri a rule: run_tries.induct)
  case (1 env e ri a)
  let ?b = "run_try env e ri (a\<lparr>at_error := None\<rparr>)"
  note b = run_try_calls [of env e ri "a\<lparr>at_error := None\<rparr>", simplified]
  show ?case
  proof (cases "at_error ?b = None \<or> at_triesLeft ?b = 0")
    case True
    then have "run_tries env e ri a = ?b" by (subst run_tries.simps) (simp only: Let_def if_True)
    then show ?thesis using b True by auto
  next
    case False
    have eq: "run_tries env e ri a = run_tries env e ri (?b\<lparr>at_triesLeft := at_triesLeft ?b - 1\<rparr>)"
      using False by (subst run_tries.simps) (simp only: Let_def if_False)
    have "at_calls (run_tries env e ri a) \<le> at_calls ?b + 2 * (at_triesLeft ?b - 1) + 1"
      unfolding eq using 1 [OF refl False] by simp
    then show ?thesis using b False by linarith
  qed
qed

text \<open>A node is called at most \<open>2 * max_tries - 1\<close> times.\<close>

lemma first_attempt_calls:
  "at_calls (run_tries env e ri (first_attempt env e s)) \<le> 2 * max_tries (re_settings env (ed_node e)) - 1"
  using run_tries_calls [of env e ri "first_attempt env e s"] max_tries_bounds(1) [of "re_settings env (ed_node e)"]
  by (simp add: first_attempt_def)

end
