(* ===== verification/Run_Loop.thy ===== *)
theory Run_Loop
  imports Run_Attempts
begin

text \<open>
  The loop of \<open>processRunExecutionData\<close> in \<open>packages/core/src/execution-engine/workflow-execute.ts\<close>
  over the execution stack. Hooks, cancellation, timeouts and the times of a run are left out. An error
  that leaves the loop is its result, without the state it was raised in.
\<close>

section \<open>Recording a run\<close>

text \<open>\<open>Object.assign\<close> of a run to the one at its index.\<close>

definition merge_task :: "ITaskData \<Rightarrow> ITaskData \<Rightarrow> ITaskData" where
  "merge_task new old = new\<lparr>
     task_error := (case task_error new of None \<Rightarrow> task_error old | Some e \<Rightarrow> Some e),
     task_data := (case task_data new of None \<Rightarrow> task_data old | Some d \<Rightarrow> Some d),
     task_inputOverride := (case task_inputOverride new of None \<Rightarrow> task_inputOverride old | Some d \<Rightarrow> Some d)\<rparr>"

definition record_task :: "string \<Rightarrow> nat \<Rightarrow> ITaskData \<Rightarrow> IRunData \<Rightarrow> IRunData" where
  "record_task name runIndex task runData =
     (let runs = or_empty (map_of runData name)
      in obj_put name (if runIndex < length runs then runs[runIndex := merge_task task (runs ! runIndex)]
           else runs @ [task]) runData)"

definition run_index :: "run_state \<Rightarrow> IExecuteData \<Rightarrow> string \<Rightarrow> nat" where
  "run_index s e name = (case ed_runIndex e of
     Some i \<Rightarrow> i
   | None \<Rightarrow> (case map_of (rs_runData s) name of None \<Rightarrow> 0 | Some runs \<Rightarrow> length runs))"

definition task_started :: "IExecuteData \<Rightarrow> nat \<Rightarrow> run_state \<Rightarrow> ITaskData" where
  "task_started e index s = \<lparr>executionIndex = Some index,
     task_source = (case ed_source e of None \<Rightarrow> [] | Some source \<Rightarrow> or_empty (map_of source Main)),
     task_status = Some (if rs_waitTill s then TaskWaiting else TaskSuccess), task_error = None, task_data = None,
     task_inputOverride = None, task_metadata = ed_metadata e\<rparr>"

text \<open>The connection type under which a node logs its output, and the input shown for a tool.\<close>

definition rewired :: "run_env \<Rightarrow> run_state \<Rightarrow> noderef \<Rightarrow> NodeConnectionType option" where
  "rewired env s r = (case map_of (rs_rewired s) r of Some t \<Rightarrow> Some t | None \<Rightarrow> rewireOutputLogTo (re_heap env r))"

definition input_override :: "run_state \<Rightarrow> string \<Rightarrow> nat \<Rightarrow> ITaskDataConnections option" where
  "input_override s name runIndex =
     (let runs = or_empty (map_of (rs_runData s) name)
      in if runIndex < length runs \<and> task_inputOverride (runs ! runIndex) \<noteq> None
         then task_inputOverride (runs ! runIndex) else Some [])"

section \<open>Handing the output on\<close>

definition takes_output :: "bool \<Rightarrow> items option list \<Rightarrow> nat \<Rightarrow> IConnection \<Rightarrow> bool" where
  "takes_output v1 data outputIndex c = (case array_get data outputIndex of
     None \<Rightarrow> False
   | Some its \<Rightarrow> length its \<noteq> 0 \<or> (conn_index c > 0 \<and> \<not> v1))"

definition child_conns :: "Workflow \<Rightarrow> string \<Rightarrow> (nat \<times> IConnection) list" where
  "child_conns w name = concat (map (\<lambda>(i, g). map (Pair i) (group_list g))
     (enumerate 0 (type_conns (node_conns (connectionsBySourceNode w) name) Main)))"

definition child_position :: "run_env \<Rightarrow> IConnection \<Rightarrow> int \<times> int" where
  "child_position env c = (case getNode (re_workflow env) (conn_node c) of
     None \<Rightarrow> (0, 0) | Some r \<Rightarrow> ns_position (re_settings env r))"

definition position_order :: "run_env \<Rightarrow> nat \<times> IConnection \<Rightarrow> nat \<times> IConnection \<Rightarrow> int" where
  "position_order env a b =
     (let (ax, ay) = child_position env (snd a); (bx, by) = child_position env (snd b)
      in if ay < by then 1 else if ay > by then -1 else if ax > bx then -1 else 0)"

definition hand_on ::
    "run_env \<Rightarrow> string \<Rightarrow> items option list \<Rightarrow> nat \<Rightarrow> nat \<times> IConnection \<Rightarrow> run_state \<Rightarrow> run_state result" where
  "hand_on env name data runIndex p s =
     addNodeToBeExecuted (re_heap env) (re_workflow env) (re_v1 env) (snd p) (fst p) name
       (Some data) runIndex None None s"

definition check_target :: "run_env \<Rightarrow> IConnection \<Rightarrow> unit result" where
  "check_target env c = (if getNode (re_workflow env) (conn_node c) = None
     then Inl (ApplicationError ''Destination node not found'') else Inr ())"

definition add_children ::
    "run_env \<Rightarrow> string \<Rightarrow> items option list \<Rightarrow> nat \<Rightarrow> run_state \<Rightarrow> run_state result" where
  "add_children env name data runIndex s =
     (let conns = child_conns (re_workflow env) name in
      if re_v1 env then
        rbind (rfold (\<lambda>(i, c) u. check_target env c) conns ()) (\<lambda>_.
          rfold (hand_on env name data runIndex)
            (js_sort (position_order env) (filter (\<lambda>(i, c). takes_output True data i c) conns)) s)
      else
        rfold (\<lambda>(i, c) s. rbind (check_target env c) (\<lambda>_.
          if takes_output False data i c then hand_on env name data runIndex (i, c) s else Inr s)) conns s)"

section \<open>Nodes that wait when the stack is empty\<close>

text \<open>\<open>sort()\<close> without a comparator sorts the run indexes as strings.\<close>

fun str_less :: "string \<Rightarrow> string \<Rightarrow> bool" where
  "str_less [] [] = False"
| "str_less [] (y # ys) = True"
| "str_less (x # xs) [] = False"
| "str_less (x # xs) (y # ys) = (of_char x < (of_char y :: nat) \<or> (x = y \<and> str_less xs ys))"

definition first_run_index :: "nat list \<Rightarrow> nat option" where
  "first_run_index is' =
     (case js_sort (\<lambda>a b. if str_less (show_nat a) (show_nat b) then -1 else 1) is' of [] \<Rightarrow> None | i # _ \<Rightarrow> Some i)"

definition inputs_length :: "node_inputs_spec \<Rightarrow> nat" where
  "inputs_length i = (case i of InputList n \<Rightarrow> n | InputExpression e \<Rightarrow> length e)"

definition all_required :: "runtime_type \<Rightarrow> required_inputs \<Rightarrow> bool" where
  "all_required sp req = (case req of
     RequiredCount n \<Rightarrow> n = inputs_length (rt_inputs sp)
   | RequiredList l \<Rightarrow> length l = inputs_length (rt_inputs sp))"

definition inputs_with_data :: "items option list \<Rightarrow> nat list" where
  "inputs_with_data xs = filter (\<lambda>i. xs ! i \<noteq> None) [0..<length xs]"

definition enough_inputs :: "required_inputs option \<Rightarrow> items option list \<Rightarrow> bool" where
  "enough_inputs req xs = (case req of
     None \<Rightarrow> True
   | Some (RequiredList l) \<Rightarrow> list_all (\<lambda>i. i \<in> set (inputs_with_data xs)) l
   | Some (RequiredCount n) \<Rightarrow> \<not> length (inputs_with_data xs) < n)"

definition task_data_main :: "items option list \<Rightarrow> items list" where
  "task_data_main xs = map (\<lambda>d. case d of None \<Rightarrow> [] | Some its \<Rightarrow> its) xs"

datatype 's release_outcome = Queued 's | Emptied 's | Kept

text \<open>One node of the list of waiting nodes.\<close>

definition release_node ::
    "run_env \<Rightarrow> string list \<Rightarrow> string \<Rightarrow> run_state \<Rightarrow> run_state release_outcome result" where
  "release_node env waitingNodes name s =
     (case getNode (re_workflow env) name of
        None \<Rightarrow> Inr Kept
      | Some r \<Rightarrow> (case re_types env r of
          None \<Rightarrow> Inl TypeError
        | Some sp \<Rightarrow>
            let req = (if re_v1 env then rt_required sp else None) in
            if (case req of None \<Rightarrow> False | Some q \<Rightarrow> all_required sp q) then Inr Kept
            else if list_ex (\<lambda>p. p \<in> set waitingNodes)
              (workflow_getParentNodes (re_workflow env) name (OfType Main) (-1)) then Inr Kept
            else let obj = or_empty (map_of (waitingExecution s) name) in
              (case first_run_index (keys obj) of
                 None \<Rightarrow> Inl TypeError
               | Some i \<Rightarrow>
                   rbind (waiting_main name i (waitingExecution s)) (\<lambda>xs.
                     if \<not> enough_inputs req xs then Inr Kept
                     else (case map_of (waitingExecutionSource s) name of
                       None \<Rightarrow> Inl TypeError
                     | Some src \<Rightarrow>
                         let main = task_data_main xs;
                             padded = main @ replicate (inputs_length (rt_inputs sp) - length main) [];
                             queued = s\<lparr>nodeExecutionStack := nodeExecutionStack s @
                               [\<lparr>ed_node = r, ed_data = [(Main, map Some padded)], ed_source = map_of src i, ed_runIndex = None, ed_metadata = None\<rparr>]\<rparr>
                         in if list_ex (\<lambda>d. length d \<noteq> 0) main
                            then Inr (Queued (drop_waiting name i queued))
                            else Inr (Emptied (drop_waiting name i s)))))))"

fun release_pass ::
    "run_env \<Rightarrow> string list \<Rightarrow> string list \<Rightarrow> run_state \<Rightarrow> run_state release_outcome result" where
  "release_pass env waitingNodes [] s = Inr Kept"
| "release_pass env waitingNodes (name # names) s =
     rbind (release_node env waitingNodes name s) (\<lambda>r.
       case r of Kept \<Rightarrow> release_pass env waitingNodes names s | _ \<Rightarrow> Inr r)"

text \<open>Every entry that is queued or emptied leaves the tables.\<close>

definition waiting_count :: "run_state \<Rightarrow> nat" where
  "waiting_count s = (\<Sum>e\<leftarrow>waitingExecution s. length (snd e))"

lemma count_map_put:
  "map_of m k = Some w \<Longrightarrow> length v < length w \<Longrightarrow>
    (\<Sum>e\<leftarrow>map_put k v m. length (snd e)) < (\<Sum>e\<leftarrow>m. length (snd e))" for m :: "('k \<times> 'b list) list"
  by (induction m) (auto split: if_splits)

lemma count_map_delete:
  "map_of m k = Some w \<Longrightarrow> w \<noteq> [] \<Longrightarrow>
    (\<Sum>e\<leftarrow>map_delete k m. length (snd e)) < (\<Sum>e\<leftarrow>m. length (snd e))" for m :: "('k \<times> 'b list) list"
proof (induction m)
  case (Cons p m)
  have le: "(\<Sum>e\<leftarrow>map_delete k m. length (snd e)) \<le> (\<Sum>e\<leftarrow>m. length (snd e))"
    by (induction m) (auto simp: map_delete_def)
  show ?case
  proof (cases "fst p = k")
    case True
    then have "snd p = w" using Cons.prems(1) by (cases p) simp
    then have "0 < length (snd p)" using Cons.prems(2) by simp
    moreover have "(\<Sum>e\<leftarrow>map_delete k (p # m). length (snd e)) = (\<Sum>e\<leftarrow>map_delete k m. length (snd e))"
      using True by (simp add: map_delete_def)
    moreover have "(\<Sum>e\<leftarrow>p # m. length (snd e)) = length (snd p) + (\<Sum>e\<leftarrow>m. length (snd e))" by simp
    ultimately show ?thesis using le by linarith
  next
    case False
    then have "map_of m k = Some w" using Cons.prems(1) by (cases p) simp
    then show ?thesis using Cons.IH Cons.prems(2) False by (simp add: map_delete_def)
  qed
qed simp

lemma count_drop:
  assumes "map_of (waitingExecution s) n = Some obj" "map_of obj i = Some e"
  shows "waiting_count (drop_waiting n i s) < waiting_count s"
proof -
  have "(i, e) \<in> set obj" using assms(2) by (rule map_of_SomeD)
  then have l: "length (map_delete i obj) < length obj" "obj \<noteq> []"
    by (auto simp: map_delete_def length_filter_less)
  have "n \<in> fst ` set (waitingExecution s)" using assms(1) by (force dest: map_of_SomeD)
  then show ?thesis
    using count_map_put [OF assms(1) l(1)] count_map_delete [OF assms(1) l(2)] assms(1)
    by (simp add: waiting_count_def drop_waiting_def or_empty_def obj_put_def Let_def)
qed

lemma release_node_count:
  assumes "release_node env ws n s = Inr r" "r \<noteq> Kept"
  shows "(case r of Queued s' \<Rightarrow> waiting_count s' < waiting_count s | Emptied s' \<Rightarrow> waiting_count s' < waiting_count s | Kept \<Rightarrow> True)"
proof -
  have dec: "waiting_count (drop_waiting n i t) < waiting_count s"
    if "waiting_main n i (waitingExecution s) = Inr xs" "waitingExecution t = waitingExecution s" for i xs t
    using that count_drop [of t n _ i] by (auto simp: waiting_main_def waiting_count_def split: option.splits)
  show ?thesis
    using assms
    by (auto simp: release_node_def Let_def result_simps all_conj_distrib split: option.splits if_splits intro!: dec)
qed

lemma release_pass_count:
  "release_pass env ws ns s = Inr r \<Longrightarrow> r \<noteq> Kept \<Longrightarrow>
    (case r of Queued s' \<Rightarrow> waiting_count s' < waiting_count s | Emptied s' \<Rightarrow> waiting_count s' < waiting_count s | Kept \<Rightarrow> True)"
proof (induction ns)
  case (Cons n ns)
  then obtain q where q: "release_node env ws n s = Inr q" by (auto simp: result_simps)
  show ?case
  proof (cases "q = Kept")
    case True
    then show ?thesis using Cons q by simp
  next
    case False
    then have "q = r" using Cons.prems(1) q by (cases q) auto
    then show ?thesis using release_node_count [OF q False] by simp
  qed
qed simp

function release_waiting :: "run_env \<Rightarrow> run_state \<Rightarrow> run_state result" where
  "release_waiting env s =
     rbind (release_pass env (keys (waitingExecution s)) (keys (waitingExecution s)) s) (\<lambda>r.
       case r of Kept \<Rightarrow> Inr s | Queued s' \<Rightarrow> Inr s' | Emptied s' \<Rightarrow> release_waiting env s')"
  by pat_completeness auto
termination
  by (relation "measure (\<lambda>(env, s). waiting_count s)") (auto dest: release_pass_count)

declare release_waiting.simps [simp del]

section \<open>The loop\<close>

definition continues_on_error :: "node_settings \<Rightarrow> bool" where
  "continues_on_error ns \<longleftrightarrow> ns_continueOnFail ns \<or>
     ns_onError ns \<in> {Some ''continueRegularOutput'', Some ''continueErrorOutput''}"

text \<open>
  The items of an output are objects of their own, the pinned items or, if a failed node passes its
  input on, the items of the entry; the errors that items report are merged into these objects.
\<close>

datatype items_origin = FreshItems | PinnedItems | InputItems

definition pass_input ::
    "IExecuteData \<Rightarrow> items option list option \<Rightarrow> items_origin \<Rightarrow> items option list option \<times> items_origin" where
  "pass_input e data origin = (case map_of (ed_data e) Main of
     Some (Some its # _) \<Rightarrow> (Some [Some its], InputItems) | _ \<Rightarrow> (data, origin))"

definition write_pinned :: "string \<Rightarrow> items option list \<Rightarrow> run_state \<Rightarrow> run_state" where
  "write_pinned name data s = (case (rs_pinData s, data) of
     (Some pd, Some its # _) \<Rightarrow> s\<lparr>rs_pinData := Some (obj_put name its pd)\<rparr> | _ \<Rightarrow> s)"

definition write_input :: "items option list \<Rightarrow> IExecuteData \<Rightarrow> IExecuteData" where
  "write_input data e = (case (map_of (ed_data e) Main, data) of
     (Some main, d # _) \<Rightarrow> e\<lparr>ed_data := map_put Main (array_put 0 d main) (ed_data e)\<rparr> | _ \<Rightarrow> e)"

datatype loop_step = Again run_state | Done run_state

text \<open>A run that succeeded, or failed in a node that lets the workflow continue.\<close>

definition with_output ::
    "run_env \<Rightarrow> IExecuteData \<Rightarrow> nat \<Rightarrow> items option list \<Rightarrow> run_state \<Rightarrow> ITaskData \<Rightarrow> ITaskData" where
  "with_output env e runIndex outputs s task =
     (case rewired env s (ed_node e) of
        None \<Rightarrow> task\<lparr>task_data := Some [(Main, outputs)]\<rparr>
      | Some ct \<Rightarrow> task\<lparr>task_data := Some [(ct, outputs)],
          task_inputOverride := input_override s (entry_name env e) runIndex\<rparr>)"

definition finish_run ::
    "run_env \<Rightarrow> IExecuteData \<Rightarrow> nat \<Rightarrow> ITaskData \<Rightarrow> items option list option \<Rightarrow> items_origin \<Rightarrow> run_state \<Rightarrow>
     loop_step result" where
  "finish_run env e runIndex task data origin s =
     (case data of
        None \<Rightarrow> Inl TypeError
      | Some d \<Rightarrow> rbind (merge_errors d) (\<lambda>outputs.
          let name = entry_name env e;
              s0 = (if origin = PinnedItems then write_pinned name outputs s else s);
              e0 = (if origin = InputItems then write_input outputs e else e);
              s1 = s0\<lparr>rs_runData := record_task name runIndex (with_output env e runIndex outputs s task) (rs_runData s)\<rparr>
          in if rs_waitTill s then Inr (Done (s1\<lparr>nodeExecutionStack := e0 # nodeExecutionStack s1\<rparr>))
             else if re_destination env = Some name then Inr (Again s1)
             else rbind (add_children env name outputs runIndex s1) (\<lambda>s2.
               if nodeExecutionStack s2 = [] \<and> waitingExecution s2 \<noteq> []
               then rbind (release_waiting env s2) (\<lambda>s3. Inr (Again s3))
               else Inr (Again s2))))"

definition fail_run ::
    "run_env \<Rightarrow> IExecuteData \<Rightarrow> nat \<Rightarrow> ITaskData \<Rightarrow> js_error \<Rightarrow> run_state \<Rightarrow> run_state" where
  "fail_run env e runIndex task x s =
     (let name = entry_name env e;
          t = (case rewired env s (ed_node e) of
             None \<Rightarrow> task
           | Some ct \<Rightarrow> task\<lparr>task_data := Some [(ct, [Some [json_item [(''error'', JStr (error_text x))]]])],
               task_inputOverride := input_override s name runIndex\<rparr>)
      in s\<lparr>rs_runData := record_task name runIndex t (rs_runData s),
           nodeExecutionStack := e # nodeExecutionStack s\<rparr>)"

definition run_entry :: "run_env \<Rightarrow> IExecuteData \<Rightarrow> nat \<Rightarrow> nat \<Rightarrow> run_state \<Rightarrow> loop_step result" where
  "run_entry env e runIndex index s =
     (let name = entry_name env e; a = run_tries env e runIndex (first_attempt env e s);
          origin = (if at_pinned a then PinnedItems else FreshItems);
          s0 = (at_state a)\<lparr>rs_error := at_error a\<rparr>;
          s1 = (if at_pinned a then write_pinned name (or_empty (at_data a)) s0 else s0);
          task = task_started e index s1
      in if at_requested a then Inr (Again s1)
         else case at_error a of
           None \<Rightarrow>
             if at_data a = None \<and> \<not> rs_waitTill s1 then Inr (Again s1)
             else finish_run env e runIndex task (at_data a) origin s1
         | Some x \<Rightarrow>
             (let t = task\<lparr>task_error := Some (error_text x), task_status := Some TaskError\<rparr> in
              if continues_on_error (re_settings env (ed_node e))
              then (let (data, origin') = pass_input e (at_data a) origin
                    in finish_run env e runIndex t data origin' s1)
              else Inr (Done (fail_run env e runIndex t x s1))))"

text \<open>
  One round: the entry is skipped if the filter leaves its node out, put back if data is missing, and
  run otherwise. \<open>lastTry\<close> is the node and run that was put back last.
\<close>

definition loop_once ::
    "run_env \<Rightarrow> (string \<times> nat) option \<Rightarrow> run_state \<Rightarrow> (loop_step \<times> (string \<times> nat) option) result" where
  "loop_once env lastTry s =
     (case nodeExecutionStack s of
        [] \<Rightarrow> Inr (Done s, lastTry)
      | entry # stack \<Rightarrow>
          let e = pair_inputs entry; name = entry_name env e; runIndex = run_index s e name;
              index = rs_executionIndex s;
              s0 = s\<lparr>nodeExecutionStack := stack, rs_executionIndex := Suc index, rs_error := None\<rparr>
          in if lastTry = Some (name, runIndex)
             then Inl (ApplicationError ''Stopped execution because it seems to be in an endless loop'')
             else if (case re_runNodeFilter env of None \<Rightarrow> False | Some f \<Rightarrow> name \<notin> set f) then Inr (Again s0, lastTry)
             else rbind (ensureInputData (re_heap env) (re_workflow env) (re_v1 env) e s0) (\<lambda>(hasInputData, s1).
               if \<not> hasInputData then Inr (Again s1, Some (name, runIndex))
               else rbind (run_entry env e runIndex index s1) (\<lambda>r. Inr (r, lastTry))))"

partial_function (option) run_loop ::
    "run_env \<Rightarrow> (string \<times> nat) option \<Rightarrow> run_state \<Rightarrow> run_state result option" where
  "run_loop env lastTry s =
     (case loop_once env lastTry s of
        Inl x \<Rightarrow> Some (Inl x)
      | Inr (Done s', t) \<Rightarrow> Some (Inr s')
      | Inr (Again s', t) \<Rightarrow> run_loop env t s')"

declare run_loop.simps [code]

end
