(* ===== verification/Waiting_Invariant.thy ===== *)
theory Waiting_Invariant
  imports Waiting_Nodes Workflow_Search
begin

text \<open>
  The waiting tables under \<open>addNodeToBeExecuted\<close> in the execution order \<open>v1\<close>: their shape is kept,
  and the data handed on is queued or waits.
\<close>

section \<open>The shape of the waiting tables\<close>

text \<open>
  Every waiting node has several inputs, and every entry has, in both tables, one place per input, of
  which one is free; data and sources are present for the same inputs.
\<close>

definition entry_ok :: "nat \<Rightarrow> items wait_entry \<Rightarrow> ISourceData wait_entry \<Rightarrow> bool" where
  "entry_ok k e f \<longleftrightarrow> (\<exists>xs ys. e = [(Main, xs)] \<and> f = [(Main, ys)] \<and> length xs = k \<and> length ys = k \<and>
     None \<in> set xs \<and> (\<forall>j < k. xs ! j = None \<longleftrightarrow> ys ! j = None))"

definition node_waits_ok :: "nat \<Rightarrow> items wait_node \<Rightarrow> ISourceData wait_node \<Rightarrow> bool" where
  "node_waits_ok k obj src \<longleftrightarrow> distinct (keys obj) \<and> distinct (keys src) \<and>
     (\<forall>i e. map_of obj i = Some e \<longrightarrow> (\<exists>f. map_of src i = Some f \<and> entry_ok k e f))"

definition waiting_ok :: "Workflow \<Rightarrow> run_state \<Rightarrow> bool" where
  "waiting_ok w s \<longleftrightarrow> distinct (keys (waitingExecution s)) \<and> distinct (keys (waitingExecutionSource s)) \<and>
     (\<forall>n obj. map_of (waitingExecution s) n = Some obj \<longrightarrow> obj \<noteq> [] \<and> 1 < length (node_inputs w n) \<and>
       (\<exists>src. map_of (waitingExecutionSource s) n = Some src \<and> node_waits_ok (length (node_inputs w n)) obj src))"

lemma waiting_okD:
  assumes "waiting_ok w s" "map_of (waitingExecution s) n = Some obj"
  shows "obj \<noteq> []" "1 < length (node_inputs w n)"
    "\<exists>src. map_of (waitingExecutionSource s) n = Some src \<and> node_waits_ok (length (node_inputs w n)) obj src"
  using assms by (auto simp: waiting_ok_def)

lemma waiting_ok_put:
  assumes "waiting_ok w s" "obj \<noteq> []" "1 < length (node_inputs w n)" "node_waits_ok (length (node_inputs w n)) obj src"
    and "waitingExecution s' = obj_put n obj (waitingExecution s)"
    and "waitingExecutionSource s' = obj_put n src (waitingExecutionSource s)"
  shows "waiting_ok w s'"
  using assms by (auto simp: waiting_ok_def jsobj.lookup_put jsobj.distinct_put split: if_splits)

lemma waiting_ok_delete:
  assumes "waiting_ok w s" "waitingExecution s' = map_delete n (waitingExecution s)"
    "waitingExecutionSource s' = map_delete n (waitingExecutionSource s)"
  shows "waiting_ok w s'"
  using assms by (auto simp: waiting_ok_def map_delete_of map_delete_distinct split: if_splits)

lemma waiting_ok_same:
  "waitingExecution s' = waitingExecution s \<Longrightarrow> waitingExecutionSource s' = waitingExecutionSource s \<Longrightarrow>
    waiting_ok w s' = waiting_ok w s"
  by (simp add: waiting_ok_def)

lemma idx_put_twice: "idx_put k v (idx_put k w m) = idx_put k v m"
proof -
  have "k \<notin> fst ` set m \<Longrightarrow> map_put k v (idx_insert k w m) = idx_insert k v m"
    by (induction m) auto
  then show ?thesis by (auto simp: idx_put_def map_put_twice map_put_keys idx_insert_keys)
qed

lemma map_delete_idx_put: "map_delete k (idx_put k v m) = map_delete k m"
proof -
  have "map_delete k (idx_insert k v m) = map_delete k m"
    by (induction m) (auto simp: map_delete_def)
  then show ?thesis by (simp add: idx_put_def map_delete_put)
qed

lemma node_waits_ok_put:
  assumes "node_waits_ok k obj src" "entry_ok k e f"
  shows "node_waits_ok k (idx_put i e obj) (idx_put i f src)"
  using assms by (auto simp: node_waits_ok_def idx.lookup_put idx.distinct_put)

lemma node_waits_ok_delete:
  "node_waits_ok k obj src \<Longrightarrow> node_waits_ok k (map_delete i obj) (map_delete i src)"
  by (auto simp: node_waits_ok_def map_delete_of map_delete_distinct)

section \<open>Adding data to a waiting node\<close>

lemma first_missing_spec:
  assumes "node_waits_ok k obj src" "input < k"
  shows "(\<exists>i e xs. first_missing input obj = Inr (Some i) \<and> map_of obj i = Some e \<and> e = [(Main, xs)] \<and>
      length xs = k \<and> xs ! input = None) \<or>
    (first_missing input obj = Inr None \<and>
      (\<forall>i e xs. map_of obj i = Some e \<longrightarrow> e = [(Main, xs)] \<longrightarrow> xs ! input \<noteq> None))"
proof -
  have ok: "\<exists>xs. e = [(Main, xs)] \<and> length xs = k" if "(i, e) \<in> set obj" for i e
  proof -
    have "map_of obj i = Some e" using assms(1) that by (simp add: node_waits_ok_def keys_def)
    then obtain f where "entry_ok k e f" using assms(1) unfolding node_waits_ok_def by blast
    then show ?thesis by (auto simp: entry_ok_def)
  qed
  have "distinct (keys obj)" using assms(1) by (simp add: node_waits_ok_def)
  then show ?thesis
    using ok
  proof (induction obj)
    case (Cons p obj)
    obtain i e where p: "p = (i, e)" by (cases p)
    obtain xs where xs: "e = [(Main, xs)]" "length xs = k" using Cons.prems(2) [of i e] p by auto
    have a: "array_get xs input = xs ! input" using xs assms(2) by (simp add: array_get_def)
    have d: "distinct (keys obj)" and i: "i \<notin> fst ` set obj" using Cons.prems(1) p by auto
    show ?case
    proof (cases "xs ! input")
      case None
      then show ?thesis using p xs a by auto
    next
      case (Some its)
      then have f: "first_missing input (p # obj) = first_missing input obj" using p xs a by simp
      have m: "map_of (p # obj) j = (if j = i then Some e else map_of obj j)" for j using p by simp
      have i': "j \<noteq> i" if "map_of obj j = Some e'" for j e' using i that by (force dest!: map_of_SomeD)
      have "(\<exists>i e xs. first_missing input obj = Inr (Some i) \<and> map_of obj i = Some e \<and> e = [(Main, xs)] \<and>
          length xs = k \<and> xs ! input = None) \<or>
        (first_missing input obj = Inr None \<and>
          (\<forall>i e xs. map_of obj i = Some e \<longrightarrow> e = [(Main, xs)] \<longrightarrow> xs ! input \<noteq> None))"
        by (rule Cons.IH [OF d]) (use Cons.prems(2) in auto)
      then show ?thesis
      proof (elim disjE exE conjE)
        fix j e' ys
        assume "first_missing input obj = Inr (Some j)" "map_of obj j = Some e'" "e' = [(Main, ys)]" "length ys = k"
          "ys ! input = None"
        then show ?thesis using i' [of j e'] f m by simp
      next
        assume n: "first_missing input obj = Inr None"
          "\<forall>i e xs. map_of obj i = Some e \<longrightarrow> e = [(Main, xs)] \<longrightarrow> xs ! input \<noteq> None"
        have "ys ! input \<noteq> None" if "map_of (p # obj) j = Some e'" "e' = [(Main, ys)]" for j e' ys
        proof (cases "j = i")
          case True
          then show ?thesis using that m [of j] Some xs(1) by simp
        next
          case False
          then have "map_of obj j = Some e'" using that(1) m [of j] by simp
          then show ?thesis using n(2) that(2) by blast
        qed
        then have "\<forall>j e' ys. map_of (p # obj) j = Some e' \<longrightarrow> e' = [(Main, ys)] \<longrightarrow> ys ! input \<noteq> None" by blast
        moreover have "first_missing input (p # obj) = Inr None" using n(1) f by simp
        ultimately show ?thesis by blast
      qed
    qed
  qed simp
qed

text \<open>The place an input is stored at: an entry that lacks it, or a fresh one.\<close>

definition place_for ::
    "nat \<Rightarrow> nat \<Rightarrow> items wait_node \<Rightarrow> ISourceData wait_node \<Rightarrow> nat \<Rightarrow> items option list \<Rightarrow> ISourceData option list \<Rightarrow> bool" where
  "place_for k input obj src i xs ys \<longleftrightarrow>
     (map_of obj i = Some [(Main, xs)] \<and> map_of src i = Some [(Main, ys)] \<or>
      i = length obj \<and> xs = replicate k None \<and> ys = replicate k None \<and>
        (\<forall>j e zs. map_of obj j = Some e \<longrightarrow> e = [(Main, zs)] \<longrightarrow> zs ! input \<noteq> None)) \<and>
     length xs = k \<and> length ys = k \<and> xs ! input = None \<and> (\<forall>j < k. xs ! j = None \<longleftrightarrow> ys ! j = None)"

lemma array_put_in: "i < length xs \<Longrightarrow> array_put i v xs = xs[i := v]"
  by (simp add: array_put_def)

lemma map_put_same: "map_of m k = Some v \<Longrightarrow> map_put k v m = m"
  by (induction m) (auto split: if_splits)

lemma put_same:
  "map_of m n = Some v \<Longrightarrow> obj_put n v m = m" "map_of m' i = Some v' \<Longrightarrow> idx_put i v' m' = m'"
  by (force simp: obj_put_def idx_put_def map_put_same dest: map_of_SomeD)+

definition old_waits :: "string \<Rightarrow> run_state \<Rightarrow> items wait_node" where
  "old_waits n s = or_empty (map_of (waitingExecution s) n)"

definition old_sources :: "string \<Rightarrow> run_state \<Rightarrow> ISourceData wait_node" where
  "old_sources n s = (if map_of (waitingExecution s) n = None then [] else or_empty (map_of (waitingExecutionSource s) n))"

definition stored :: "string \<Rightarrow> nat \<Rightarrow> items option list \<Rightarrow> ISourceData option list \<Rightarrow> run_state \<Rightarrow> run_state" where
  "stored n i xs ys s = s\<lparr>
     waitingExecution := obj_put n (idx_put i [(Main, xs)] (old_waits n s)) (waitingExecution s),
     waitingExecutionSource := obj_put n (idx_put i [(Main, ys)] (old_sources n s)) (waitingExecutionSource s)\<rparr>"

lemma stored_tables:
  "map_of (waitingExecution (stored n i xs ys s)) n = Some (idx_put i [(Main, xs)] (old_waits n s))"
  "map_of (waitingExecutionSource (stored n i xs ys s)) n = Some (idx_put i [(Main, ys)] (old_sources n s))"
  by (simp_all add: stored_def jsobj.lookup_put)

lemma stored_main [simp]:
  "waiting_main n i (waitingExecution (stored n i xs ys s)) = Inr xs"
  "waiting_main n i (waitingExecutionSource (stored n i xs ys s)) = Inr ys"
  by (simp_all add: waiting_main_def stored_tables idx.lookup_put)

lemma obj_single: "obj_put k v [(k, x)] = [(k, v)]"
  by (simp add: obj_put_def)

lemma put_main_stored:
  "put_main n i xs' (waitingExecution (stored n i xs ys s)) = waitingExecution (stored n i xs' ys s)"
  "put_main n i ys' (waitingExecutionSource (stored n i xs ys s)) = waitingExecutionSource (stored n i xs ys' s)"
proof -
  show "put_main n i xs' (waitingExecution (stored n i xs ys s)) = waitingExecution (stored n i xs' ys s)"
    by (simp add: put_main_def stored_tables idx.lookup_put or_empty_def obj_single)
      (simp add: stored_def idx_put_twice obj_put_twice)
  show "put_main n i ys' (waitingExecutionSource (stored n i xs ys s)) = waitingExecutionSource (stored n i xs ys' s)"
    by (simp add: put_main_def stored_tables idx.lookup_put or_empty_def obj_single)
      (simp add: stored_def idx_put_twice obj_put_twice)
qed

lemma stored_update:
  "(stored n i xs ys s)\<lparr>waitingExecution := waitingExecution (stored n i xs' ys s),
     waitingExecutionSource := waitingExecutionSource (stored n i xs ys' s)\<rparr> = stored n i xs' ys' s"
  by (simp add: stored_def)

lemma prepare_stored:
  "prepareWaitingToExecution n k i (stored n i xs ys s) = stored n i (replicate k None) (replicate k None) s"
  by (simp add: prepareWaitingToExecution_def stored_tables or_empty_def)
    (simp add: stored_def idx_put_twice obj_put_twice)

lemma old_waits_ok:
  assumes "waiting_ok w s"
  shows "node_waits_ok (length (node_inputs w n)) (old_waits n s) (old_sources n s)"
proof (cases "map_of (waitingExecution s) n")
  case None
  then show ?thesis by (simp add: old_waits_def old_sources_def or_empty_def node_waits_ok_def)
next
  case (Some obj)
  obtain src where "map_of (waitingExecutionSource s) n = Some src" "node_waits_ok (length (node_inputs w n)) obj src"
    using waiting_okD(3) [OF assms Some] by auto
  then show ?thesis using Some by (simp add: old_waits_def old_sources_def or_empty_def)
qed

lemma choose_waiting_spec:
  assumes ok: "waiting_ok w s" and c: "conn_node c = n" "conn_index c < k" "k = length (node_inputs w n)"
  shows "\<exists>i xs ys. choose_waiting w c s = Inr (i, map_of (waitingExecution s) n \<noteq> None, stored n i xs ys s) \<and>
    place_for k (conn_index c) (old_waits n s) (old_sources n s) i xs ys"
proof -
  let ?obj = "old_waits n s" and ?src = "old_sources n s"
  let ?s0 = "if map_of (waitingExecution s) n \<noteq> None then s
    else s\<lparr>waitingExecution := obj_put n [] (waitingExecution s),
      waitingExecutionSource := obj_put n [] (waitingExecutionSource s)\<rparr>"
  have nw: "node_waits_ok k ?obj ?src" using old_waits_ok [OF ok] c(3) by simp
  have t: "or_empty (map_of (waitingExecution ?s0) n) = ?obj" "or_empty (map_of (waitingExecutionSource ?s0) n) = ?src"
    by (auto simp: old_waits_def old_sources_def or_empty_def jsobj.lookup_put)
  have p: "obj_put n x (waitingExecution ?s0) = obj_put n x (waitingExecution s)"
    "obj_put n y (waitingExecutionSource ?s0) = obj_put n y (waitingExecutionSource s)" for x y
    by (simp_all add: obj_put_twice)
  have e: "choose_waiting w c s = rbind (first_missing (conn_index c) ?obj) (\<lambda>missing. case missing of
      Some i \<Rightarrow> Inr (i, map_of (waitingExecution s) n \<noteq> None, ?s0)
    | None \<Rightarrow> Inr (length ?obj, map_of (waitingExecution s) n \<noteq> None, prepareWaitingToExecution n k (length ?obj) ?s0))"
    unfolding choose_waiting_def Let_def c(1) c(3) [symmetric] t by (simp only: vals_def length_map)
  from first_missing_spec [OF nw c(2)] show ?thesis
  proof (elim disjE exE conjE)
    fix i e xs
    assume f: "first_missing (conn_index c) ?obj = Inr (Some i)" "map_of ?obj i = Some e" "e = [(Main, xs)]"
      "length xs = k" "xs ! conn_index c = None"
    obtain g where "map_of ?src i = Some g" "entry_ok k e g" using nw f(2) unfolding node_waits_ok_def by blast
    then obtain ys where ys: "map_of ?src i = Some [(Main, ys)]" "length ys = k" "\<forall>j < k. xs ! j = None \<longleftrightarrow> ys ! j = None"
      using f(3) by (auto simp: entry_ok_def)
    have was: "map_of (waitingExecution s) n \<noteq> None" using f(2) by (auto simp: old_waits_def or_empty_def split: option.splits)
    then obtain obj src where os: "map_of (waitingExecution s) n = Some obj" "map_of (waitingExecutionSource s) n = Some src"
      using waiting_okD(3) [OF ok] by blast
    then have "?obj = obj" "?src = src" by (simp_all add: old_waits_def old_sources_def or_empty_def)
    then have "stored n i xs ys s = s" using f(2,3) ys(1) os by (simp add: stored_def put_same)
    moreover have "choose_waiting w c s = Inr (i, map_of (waitingExecution s) n \<noteq> None, s)" using e f(1) was by simp
    moreover have "place_for k (conn_index c) ?obj ?src i xs ys" using f ys by (simp add: place_for_def)
    ultimately show ?thesis by metis
  next
    assume f: "first_missing (conn_index c) ?obj = Inr None"
      "\<forall>i e xs. map_of ?obj i = Some e \<longrightarrow> e = [(Main, xs)] \<longrightarrow> xs ! conn_index c \<noteq> None"
    have "prepareWaitingToExecution n k (length ?obj) ?s0 =
        stored n (length ?obj) (replicate k None) (replicate k None) s"
      unfolding prepareWaitingToExecution_def Let_def t p by (simp add: stored_def)
    moreover have "place_for k (conn_index c) ?obj ?src (length ?obj) (replicate k None) (replicate k None)"
      using f(2) c(2) by (simp add: place_for_def)
    ultimately show ?thesis using e f(1) by auto
  qed
qed

section \<open>Order v1 forces no inputs\<close>

text \<open>Outputs that are \<open>null\<close> do not get into the run data: the loop over the items of a run throws.\<close>

definition no_nulls :: "IRunData \<Rightarrow> bool" where
  "no_nulls runData \<longleftrightarrow> (\<forall>n runs run data xs. map_of runData n = Some runs \<longrightarrow> run \<in> set runs \<longrightarrow>
     task_data run = Some data \<longrightarrow> map_of data Main = Some xs \<longrightarrow> None \<notin> set xs)"

definition siblings_ok :: "Workflow \<Rightarrow> string \<Rightarrow> bool" where
  "siblings_ok w n \<longleftrightarrow> map_of (connectionsBySourceNode w) n \<noteq> None \<and>
     (\<forall>c \<in> set (main_conns (connectionsBySourceNode w) n). \<exists>cs. first_input w (conn_node c) = Inr cs)"

lemma incoming_total: "no_nulls rd \<Longrightarrow> \<exists>b. incomingConnectionIsEmpty rd cs ri = Inr b"
proof (induction cs)
  case (Cons c cs)
  have "xs ! conn_index c \<noteq> None" if "map_of rd (conn_node c) = Some runs" "\<not> length runs \<le> ri"
    "task_data (runs ! ri) = Some data" "map_of data Main = Some xs" "\<not> length xs \<le> conn_index c" for runs data xs
  proof -
    have "None \<notin> set xs" using Cons.prems that unfolding no_nulls_def by (metis not_le nth_mem)
    then show ?thesis using that(5) by (metis not_le nth_mem)
  qed
  then show ?case using Cons by (force split: option.splits list.splits)
qed auto

lemma rfold_same: "(\<And>x. x \<in> set xs \<Longrightarrow> f x s = Inr s) \<Longrightarrow> rfold f xs s = Inr s"
  by (induction xs) auto

lemma force_inputs_v1:
  assumes "no_nulls (rs_runData s)" "siblings_ok w parent"
  shows "force_inputs h w True n parent oi output ri s = Inr s"
proof -
  obtain obj where obj: "map_of (connectionsBySourceNode w) parent = Some obj" using assms(2) by (auto simp: siblings_ok_def)
  let ?check = "map conn_node (concat (map group_list (type_conns obj Main)))"
  have "?check = map conn_node (main_conns (connectionsBySourceNode w) parent)"
    using obj by (simp add: main_conns_def node_conns_def)
  then have first: "\<exists>cs. first_input w x = Inr cs" if "x \<in> set ?check" for x
    using assms(2) that by (auto simp: siblings_ok_def simp del: set_concat)
  have "force_input h w True ?check parent oi output ri d s = Inr s" for d
  proof (cases "conn_node d \<in> set ?check")
    case True
    obtain cs b where "first_input w (conn_node d) = Inr cs" "incomingConnectionIsEmpty (rs_runData s) cs ri = Inr b"
      using first [OF True] incoming_total [OF assms(1)] by blast
    then show ?thesis using True by (simp add: force_input_def Let_def del: set_map)
  next
    case False
    then show ?thesis by (simp add: force_input_def Let_def del: set_map)
  qed
  then show ?thesis using obj by (simp add: force_inputs_def rfold_same)
qed

section \<open>What adding does\<close>

text \<open>The result of storing an input: the node is queued, or its entry is in the tables.\<close>

definition added_input ::
    "noderef \<Rightarrow> string \<Rightarrow> nat \<Rightarrow> nat \<Rightarrow> items \<Rightarrow> ISourceData \<Rightarrow> items option list \<Rightarrow> ISourceData option list \<Rightarrow>
     run_state \<Rightarrow> run_state" where
  "added_input r n i input its src xs ys s =
     (let xs' = xs[input := Some its]; ys' = ys[input := Some src]; s' = stored n i xs' ys' s
      in if None \<in> set xs' then s'
         else drop_waiting n i (enqueue_entry True \<lparr>ed_node = r, ed_data = [(Main, xs')], ed_source = Some [(Main, ys')], ed_runIndex = None, ed_metadata = None\<rparr> s'))"

lemma add_several:
  assumes ok: "waiting_ok w s" and c: "conn_node c = n" "conn_index c < length (node_inputs w n)"
    and k: "1 < length (node_inputs w n)" and r: "getNode w n = Some r"
    and rd: "no_nulls (rs_runData s)" and sib: "siblings_ok w parent" and out: "array_get d oi = Some its"
  shows "\<exists>i xs ys. place_for (length (node_inputs w n)) (conn_index c) (old_waits n s) (old_sources n s) i xs ys \<and>
    addNodeToBeExecuted h w True c oi parent (Some d) ri nri md s =
      Inr (added_input r n i (conn_index c) its (source_of parent oi ri) xs ys s)"
proof -
  let ?k = "length (node_inputs w n)" and ?j = "conn_index c" and ?src = "source_of parent oi ri"
  obtain i xs ys where ch: "choose_waiting w c s = Inr (i, map_of (waitingExecution s) n \<noteq> None, stored n i xs ys s)"
    and pl: "place_for ?k ?j (old_waits n s) (old_sources n s) i xs ys"
    using choose_waiting_spec [OF ok c refl] by blast
  let ?xs = "xs[?j := Some its]" and ?ys = "ys[?j := Some ?src]"
  have l: "length xs = ?k" "length ys = ?k" using pl by (auto simp: place_for_def)
  have st: "store_input c i (Some d) oi ?src (stored n i xs ys s) = Inr (stored n i ?xs ?ys s)"
    using l c(2) unfolding store_input_def set_waiting_input_def c(1)
    by (simp add: output_data_def out array_put_in put_main_stored stored_update)
  have "rs_runData (stored n i ?xs ?ys s) = rs_runData s" by (simp add: stored_def)
  then have fi: "force_inputs h w True n parent oi (Some its) ri (stored n i ?xs ?ys s) = Inr (stored n i ?xs ?ys s)"
    using rd sib by (simp add: force_inputs_v1)
  have keep: "keep_waiting w c i (Some its) (stored n i ?xs ?ys s) = Inr (stored n i ?xs ?ys s)"
  proof -
    have "array_put ?j (Some its) ?xs = ?xs" using l c(2) by (simp add: array_put_in)
    then show ?thesis
      unfolding keep_waiting_def Let_def c(1) stored_main rbind_Inr prepare_stored
      by (simp add: put_main_stored stored_update)
  qed
  have q: "queue_waiting w True n i (stored n i ?xs ?ys s) = Inr (drop_waiting n i
      (enqueue_entry True \<lparr>ed_node = r, ed_data = [(Main, ?xs)], ed_source = Some [(Main, ?ys)], ed_runIndex = None, ed_metadata = None\<rparr> (stored n i ?xs ?ys s)))"
    using r by (simp add: queue_waiting_def stored_tables or_empty_def idx.lookup_put)
  have "list_all (\<lambda>x. x \<noteq> None) ?xs \<longleftrightarrow> None \<notin> set ?xs" unfolding list_all_iff by metis
  then have "addNodeToBeExecuted h w True c oi parent (Some d) ri nri md s = Inr (added_input r n i ?j its ?src xs ys s)"
    unfolding addNodeToBeExecuted_def Let_def c(1) using k ch
    by (simp add: output_data_def out st fi keep q added_input_def Let_def)
  then show ?thesis using pl by blast
qed

section \<open>The tables keep their shape\<close>

lemma dropped_tables:
  "waitingExecution (drop_waiting n i (enqueue_entry v1 e (stored n i xs ys s))) =
     (if map_delete i (old_waits n s) = [] then map_delete n (waitingExecution s)
      else obj_put n (map_delete i (old_waits n s)) (waitingExecution s))"
  "waitingExecutionSource (drop_waiting n i (enqueue_entry v1 e (stored n i xs ys s))) =
     (if map_delete i (old_waits n s) = [] then map_delete n (waitingExecutionSource s)
      else obj_put n (map_delete i (old_sources n s)) (waitingExecutionSource s))"
  "nodeExecutionStack (drop_waiting n i (enqueue_entry v1 e (stored n i xs ys s))) =
     (if v1 then e # nodeExecutionStack s else nodeExecutionStack s @ [e])"
proof -
  have t: "or_empty (map_of (waitingExecution (enqueue_entry v1 e (stored n i xs ys s))) n) = idx_put i [(Main, xs)] (old_waits n s)"
    "or_empty (map_of (waitingExecutionSource (enqueue_entry v1 e (stored n i xs ys s))) n) = idx_put i [(Main, ys)] (old_sources n s)"
    using stored_tables [of n i xs ys s] by (simp_all add: enqueue_entry_def or_empty_def)
  show "waitingExecution (drop_waiting n i (enqueue_entry v1 e (stored n i xs ys s))) =
      (if map_delete i (old_waits n s) = [] then map_delete n (waitingExecution s)
       else obj_put n (map_delete i (old_waits n s)) (waitingExecution s))"
    "waitingExecutionSource (drop_waiting n i (enqueue_entry v1 e (stored n i xs ys s))) =
      (if map_delete i (old_waits n s) = [] then map_delete n (waitingExecutionSource s)
       else obj_put n (map_delete i (old_sources n s)) (waitingExecutionSource s))"
    "nodeExecutionStack (drop_waiting n i (enqueue_entry v1 e (stored n i xs ys s))) =
      (if v1 then e # nodeExecutionStack s else nodeExecutionStack s @ [e])"
    unfolding drop_waiting_def t
    by (simp_all add: map_delete_idx_put keys_def Let_def) (simp_all add: enqueue_entry_def stored_def obj_put_twice map_delete_obj_put)
qed

lemma added_input_ok:
  assumes ok: "waiting_ok w s" and k: "1 < length (node_inputs w n)" and j: "j < length (node_inputs w n)"
    and pl: "place_for (length (node_inputs w n)) j (old_waits n s) (old_sources n s) i xs ys"
  shows "waiting_ok w (added_input r n i j its src xs ys s)"
proof -
  let ?xs = "xs[j := Some its]" and ?ys = "ys[j := Some src]" and ?k = "length (node_inputs w n)"
  have nw: "node_waits_ok ?k (old_waits n s) (old_sources n s)" by (rule old_waits_ok [OF ok])
  have pl': "length xs = ?k" "length ys = ?k" "\<forall>j < ?k. xs ! j = None \<longleftrightarrow> ys ! j = None"
    using pl by (simp_all add: place_for_def)
  show ?thesis
  proof (cases "None \<in> set ?xs")
    case True
    have "\<forall>m < ?k. ?xs ! m = None \<longleftrightarrow> ?ys ! m = None"
      using pl' by (metis nth_list_update_eq nth_list_update_neq option.distinct(1))
    then have "entry_ok ?k [(Main, ?xs)] [(Main, ?ys)]"
      using pl' True by (simp add: entry_ok_def)
    then have "node_waits_ok ?k (idx_put i [(Main, ?xs)] (old_waits n s)) (idx_put i [(Main, ?ys)] (old_sources n s))"
      by (rule node_waits_ok_put [OF nw])
    moreover have "idx_put i [(Main, ?xs)] (old_waits n s) \<noteq> []"
      using idx.keys_put [of i "[(Main, ?xs)]" "old_waits n s"] by auto
    ultimately have "waiting_ok w (stored n i ?xs ?ys s)"
      by (intro waiting_ok_put [OF ok _ k]) (auto simp: stored_def)
    then show ?thesis using True by (simp add: added_input_def)
  next
    case False
    let ?s = "drop_waiting n i (enqueue_entry True \<lparr>ed_node = r, ed_data = [(Main, ?xs)], ed_source = Some [(Main, ?ys)], ed_runIndex = None, ed_metadata = None\<rparr>
      (stored n i ?xs ?ys s))"
    have "waiting_ok w ?s"
    proof (cases "map_delete i (old_waits n s) = []")
      case True
      then show ?thesis by (intro waiting_ok_delete [OF ok]) (simp_all add: dropped_tables)
    next
      case del: False
      then show ?thesis
        by (intro waiting_ok_put [OF ok del k node_waits_ok_delete [OF nw]]) (simp_all add: dropped_tables)
    qed
    then show ?thesis using False by (simp add: added_input_def Let_def)
  qed
qed

section \<open>No data is lost\<close>

text \<open>What was handed on and is not processed yet: data by node and input.\<close>

definition inputs_of :: "string \<Rightarrow> items option list \<Rightarrow> (string \<times> nat \<times> items) multiset" where
  "inputs_of n xs = (\<Sum>j\<leftarrow>[0..<length xs]. case xs ! j of None \<Rightarrow> {#} | Some its \<Rightarrow> {#(n, j, its)#})"

definition main_inputs :: "string \<Rightarrow> items wait_entry \<Rightarrow> (string \<times> nat \<times> items) multiset" where
  "main_inputs n e = inputs_of n (or_empty (map_of e Main))"

definition node_inputs_waiting :: "string \<Rightarrow> items wait_node \<Rightarrow> (string \<times> nat \<times> items) multiset" where
  "node_inputs_waiting n obj = (\<Sum>e\<leftarrow>obj. main_inputs n (snd e))"

definition handed_on :: "heap \<Rightarrow> run_state \<Rightarrow> (string \<times> nat \<times> items) multiset" where
  "handed_on h s = (\<Sum>e\<leftarrow>nodeExecutionStack s. main_inputs (node_name (h (ed_node e))) (ed_data e)) +
     (\<Sum>e\<leftarrow>waitingExecution s. node_inputs_waiting (fst e) (snd e))"

lemma inputs_of_update:
  assumes "j < length xs" "xs ! j = None"
  shows "inputs_of n (xs[j := Some its]) = add_mset (n, j, its) (inputs_of n xs)"
proof -
  let ?g = "\<lambda>xs j. case xs ! j of None \<Rightarrow> {#} | Some its \<Rightarrow> {#(n, j, its)#}"
  have s: "inputs_of n zs = sum (?g zs) {0..<length zs}" for zs
    by (simp add: inputs_of_def interv_sum_list_conv_sum_set_nat)
  have r: "sum (?g zs) {0..<length zs} = ?g zs j + sum (?g zs) ({0..<length zs} - {j})" if "j < length zs" for zs
    using that by (intro sum.remove) auto
  have "sum (?g (xs[j := Some its])) ({0..<length xs} - {j}) = sum (?g xs) ({0..<length xs} - {j})"
    by (rule sum.cong) auto
  then show ?thesis using r [of xs] r [of "xs[j := Some its]"] assms by (simp add: s)
qed

lemma inputs_of_none: "inputs_of n (replicate k None) = {#}"
  by (simp add: inputs_of_def interv_sum_list_conv_sum_set_nat)

lemma main_inputs_single [simp]: "main_inputs n [(Main, xs)] = inputs_of n xs"
  by (simp add: main_inputs_def or_empty_def)

text \<open>
  The fresh place of an input is the number of entries; it is free if the entries are numbered
  without a gap.
\<close>

definition no_gap :: "items wait_node \<Rightarrow> bool" where
  "no_gap obj \<longleftrightarrow> length obj \<notin> fst ` set obj"

lemma stored_inputs:
  assumes pl: "place_for k j obj src i xs ys" and d: "distinct (keys obj)" and g: "no_gap obj"
  shows "node_inputs_waiting n (idx_put i [(Main, zs)] obj) + inputs_of n xs = node_inputs_waiting n obj + inputs_of n zs"
    "node_inputs_waiting n (map_delete i obj) + inputs_of n xs = node_inputs_waiting n obj"
proof -
  let ?g = "\<lambda>e. main_inputs n (snd e)"
  have old: "(case map_of obj i of None \<Rightarrow> 0 | Some x \<Rightarrow> ?g (i, x)) = inputs_of n xs"
  proof (cases "map_of obj i = Some [(Main, xs)]")
    case False
    then have "i = length obj" "xs = replicate k None" using pl by (auto simp: place_for_def)
    moreover from this have "map_of obj i = None" using g by (simp add: no_gap_def map_of_eq_None_iff)
    ultimately show ?thesis by (simp add: inputs_of_none)
  qed simp
  show "node_inputs_waiting n (idx_put i [(Main, zs)] obj) + inputs_of n xs = node_inputs_waiting n obj + inputs_of n zs"
    using idx.sum_put [OF d, of ?g i "[(Main, zs)]"] unfolding old node_inputs_waiting_def by simp
  show "node_inputs_waiting n (map_delete i obj) + inputs_of n xs = node_inputs_waiting n obj"
    using sum_delete [OF d, of ?g i] unfolding old node_inputs_waiting_def by simp
qed

lemma added_input_handed_on:
  assumes ok: "waiting_ok w s" and j: "j < length (node_inputs w n)"
    and pl: "place_for (length (node_inputs w n)) j (old_waits n s) (old_sources n s) i xs ys"
    and g: "no_gap (old_waits n s)" and r: "node_name (h r) = n"
  shows "handed_on h (added_input r n i j its src xs ys s) = add_mset (n, j, its) (handed_on h s)"
proof -
  let ?xs = "xs[j := Some its]" and ?ys = "ys[j := Some src]" and ?W = "waitingExecution s"
  let ?e = "\<lparr>ed_node = r, ed_data = [(Main, ?xs)], ed_source = Some [(Main, ?ys)], ed_runIndex = None, ed_metadata = None\<rparr>"
  let ?S = "\<Sum>e\<leftarrow>nodeExecutionStack s. main_inputs (node_name (h (ed_node e))) (ed_data e)"
  let ?g = "\<lambda>e. node_inputs_waiting (fst e) (snd e)"
  have d: "distinct (keys ?W)" "distinct (keys (old_waits n s))"
    using ok old_waits_ok [OF ok, of n] by (simp_all add: waiting_ok_def node_waits_ok_def)
  have xs: "inputs_of n ?xs = add_mset (n, j, its) (inputs_of n xs)"
    using pl j by (intro inputs_of_update) (simp_all add: place_for_def)
  have old: "(case map_of ?W n of None \<Rightarrow> 0 | Some x \<Rightarrow> ?g (n, x)) = node_inputs_waiting n (old_waits n s)"
    by (simp add: old_waits_def or_empty_def node_inputs_waiting_def split: option.splits)
  note st = stored_inputs [OF pl d(2) g, of n]
  note put = jsobj.sum_put [OF d(1), of ?g n, unfolded old]
  have before: "handed_on h s = ?S + (\<Sum>e\<leftarrow>?W. ?g e)" by (simp add: handed_on_def)
  show ?thesis
  proof (cases "None \<in> set ?xs")
    case True
    have "handed_on h (stored n i ?xs ?ys s) + (node_inputs_waiting n (old_waits n s) + inputs_of n xs)
        = ?S + ((\<Sum>e\<leftarrow>obj_put n (idx_put i [(Main, ?xs)] (old_waits n s)) ?W. ?g e)
          + node_inputs_waiting n (old_waits n s)) + inputs_of n xs"
      by (simp add: handed_on_def stored_def)
    also have "\<dots> = handed_on h s + (node_inputs_waiting n (old_waits n s) + inputs_of n ?xs)"
      unfolding put [of "idx_put i [(Main, ?xs)] (old_waits n s)"] using st(1) [of ?xs] by (simp add: before ac_simps)
    finally have "handed_on h (stored n i ?xs ?ys s) = add_mset (n, j, its) (handed_on h s)"
      unfolding xs by simp
    then show ?thesis using True by (simp add: added_input_def)
  next
    case False
    let ?s = "drop_waiting n i (enqueue_entry True ?e (stored n i ?xs ?ys s))"
    have W: "(\<Sum>e\<leftarrow>waitingExecution ?s. ?g e) + inputs_of n xs = (\<Sum>e\<leftarrow>?W. ?g e)"
    proof (cases "map_delete i (old_waits n s) = []")
      case True
      then have "inputs_of n xs = node_inputs_waiting n (old_waits n s)"
        using st(2) by (simp add: node_inputs_waiting_def)
      then show ?thesis
        using sum_delete [OF d(1), of ?g n] True unfolding old by (simp add: dropped_tables)
    next
      case False
      have "(\<Sum>e\<leftarrow>waitingExecution ?s. ?g e) + node_inputs_waiting n (old_waits n s) + inputs_of n xs
          = (\<Sum>e\<leftarrow>?W. ?g e) + (node_inputs_waiting n (map_delete i (old_waits n s)) + inputs_of n xs)"
        using put [of "map_delete i (old_waits n s)"] False by (simp add: dropped_tables ac_simps)
      then show ?thesis unfolding st(2) by simp
    qed
    have "nodeExecutionStack ?s = ?e # nodeExecutionStack s" by (simp add: dropped_tables)
    then have "handed_on h ?s = inputs_of n ?xs + ?S + (\<Sum>e\<leftarrow>waitingExecution ?s. ?g e)"
      using r by (simp add: handed_on_def)
    also have "\<dots> = add_mset (n, j, its) (?S + ((\<Sum>e\<leftarrow>waitingExecution ?s. ?g e) + inputs_of n xs))"
      unfolding xs by (simp add: ac_simps)
    finally have "handed_on h ?s = add_mset (n, j, its) (handed_on h s)" unfolding W before .
    then show ?thesis using False by (simp add: added_input_def Let_def)
  qed
qed

text \<open>A node with one input is queued at once.\<close>

definition single_entry ::
    "noderef \<Rightarrow> IConnection \<Rightarrow> items option \<Rightarrow> ISourceData \<Rightarrow> nat option \<Rightarrow> ITaskMetadata option \<Rightarrow> IExecuteData" where
  "single_entry r c output src nri md = \<lparr>ed_node = r,
     ed_data = [(Main, array_put (conn_index c) output (replicate (Suc (conn_index c)) None))],
     ed_source = Some [(Main, [Some src])], ed_runIndex = nri, ed_metadata = md\<rparr>"

lemma add_single:
  assumes "\<not> 1 < length (node_inputs w (conn_node c))" "getNode w (conn_node c) = Some r"
  shows "addNodeToBeExecuted h w v1 c oi parent d ri nri md s =
    Inr (enqueue_entry v1 (single_entry r c (output_data d oi) (source_of parent oi ri) nri md) s)"
  using assms by (simp add: addNodeToBeExecuted_def Let_def single_entry_def)

lemma single_entry_inputs:
  "main_inputs n (ed_data (single_entry r c (Some its) src nri md)) = {#(n, conn_index c, its)#}"
proof -
  have "inputs_of n ((replicate (Suc (conn_index c)) None)[conn_index c := Some its]) = {#(n, conn_index c, its)#}"
    by (subst inputs_of_update) (simp_all add: inputs_of_none del: replicate_Suc)
  then show ?thesis by (simp add: single_entry_def array_put_in del: replicate_Suc)
qed

lemma add_node_v1:
  assumes ok: "waiting_ok w s" and r: "getNode w (conn_node c) = Some r" "node_name (h r) = conn_node c"
    and j: "1 < length (node_inputs w (conn_node c)) \<Longrightarrow> conn_index c < length (node_inputs w (conn_node c))"
    and rd: "no_nulls (rs_runData s)" and sib: "siblings_ok w parent" and out: "array_get d oi = Some its"
  shows "\<exists>s'. addNodeToBeExecuted h w True c oi parent (Some d) ri nri md s = Inr s' \<and> waiting_ok w s' \<and>
    rs_runData s' = rs_runData s \<and>
    (no_gap (old_waits (conn_node c) s) \<longrightarrow> handed_on h s' = add_mset (conn_node c, conn_index c, its) (handed_on h s))"
proof (cases "1 < length (node_inputs w (conn_node c))")
  case True
  obtain i xs ys where p: "place_for (length (node_inputs w (conn_node c))) (conn_index c)
      (old_waits (conn_node c) s) (old_sources (conn_node c) s) i xs ys"
    and a: "addNodeToBeExecuted h w True c oi parent (Some d) ri nri md s =
      Inr (added_input r (conn_node c) i (conn_index c) its (source_of parent oi ri) xs ys s)"
    using add_several [OF ok refl j [OF True] True r(1) rd sib out] by blast
  let ?s = "added_input r (conn_node c) i (conn_index c) its (source_of parent oi ri) xs ys s"
  have "waiting_ok w ?s" by (rule added_input_ok [OF ok True j [OF True] p])
  moreover have "rs_runData ?s = rs_runData s"
    by (simp add: added_input_def Let_def stored_def drop_waiting_def enqueue_entry_def)
  moreover have "handed_on h ?s = add_mset (conn_node c, conn_index c, its) (handed_on h s)"
    if "no_gap (old_waits (conn_node c) s)"
    by (rule added_input_handed_on [where n = "conn_node c" and j = "conn_index c" and w = w and h = h and r = r, OF ok j [OF True] p that r(2)])
  ultimately show ?thesis using a by blast
next
  case False
  let ?e = "single_entry r c (Some its) (source_of parent oi ri) nri md"
  let ?s = "enqueue_entry True ?e s"
  have n: "ed_node ?e = r" by (simp add: single_entry_def)
  have "handed_on h ?s = main_inputs (conn_node c) (ed_data ?e) + handed_on h s"
    using r(2) n by (simp add: handed_on_def enqueue_entry_def ac_simps)
  then have "handed_on h ?s = add_mset (conn_node c, conn_index c, its) (handed_on h s)"
    unfolding single_entry_inputs by simp
  moreover have "waiting_ok w ?s" using ok by (simp add: waiting_ok_def enqueue_entry_def)
  ultimately show ?thesis using add_single [OF False r(1)] by (simp add: enqueue_entry_def output_data_def out)
qed

end
