(* ===== verification/Run_Loop_Termination.thy ===== *)
theory Run_Loop_Termination
  imports Run_Loop Waiting_Invariant
begin

text \<open>
  The run loop in the execution order \<open>v1\<close>: the waiting tables keep their shape, and on a workflow
  without cycles the loop ends whatever the nodes do. Every round takes a node off the stack and
  queues or lets wait only children of it, so the multiset of the nodes that are queued or wait
  decreases.
\<close>

section \<open>Connections of a workflow\<close>

text \<open>Main outputs lead to main inputs.\<close>

definition main_to_main :: "Workflow \<Rightarrow> bool" where
  "main_to_main w \<longleftrightarrow> list_all (\<lambda>(s, t, i, c). t = Main \<longrightarrow> conn_type c = Main) (edges_of (connectionsBySourceNode w))"

definition main_child :: "Workflow \<Rightarrow> (string \<times> string) set" where
  "main_child w = {(m, n). \<exists>i. \<exists>c \<in> set (group_at (connectionsBySourceNode w) n Main i). conn_node c = m}"

lemma child_conns_iff:
  "(i, c) \<in> set (child_conns w n) \<longleftrightarrow> c \<in> set (group_at (connectionsBySourceNode w) n Main i)"
  by (force simp: child_conns_def group_at_list in_set_enumerate_eq)

lemma main_conns_iff:
  "c \<in> set (main_conns (connectionsBySourceNode w) n) \<longleftrightarrow> (\<exists>i. c \<in> set (group_at (connectionsBySourceNode w) n Main i))"
proof -
  let ?xs = "type_conns (node_conns (connectionsBySourceNode w) n) Main"
  have "c \<in> set (main_conns (connectionsBySourceNode w) n) \<longleftrightarrow> (\<exists>g \<in> set ?xs. c \<in> set (group_list g))"
    by (simp add: main_conns_def)
  also have "\<dots> \<longleftrightarrow> (\<exists>i < length ?xs. c \<in> set (group_list (?xs ! i)))" by (metis in_set_conv_nth)
  also have "\<dots> \<longleftrightarrow> (\<exists>i. c \<in> set (group_at (connectionsBySourceNode w) n Main i))" by (auto simp: group_at_list)
  finally show ?thesis .
qed

lemma finite_main_child:
  assumes "wf_workflow h w"
  shows "finite (main_child w)"
proof (rule finite_subset)
  show "main_child w \<subseteq> (\<lambda>(s, t, i, c). (conn_node c, s)) ` set (edges_of (connectionsBySourceNode w))"
    using edges_of_iff [OF wf_workflowD(3) [OF assms]] by (force simp: main_child_def)
qed simp

lemma main_connection:
  assumes w: "wf_workflow h w" "main_to_main w" and c: "c \<in> set (group_at (connectionsBySourceNode w) n Main i)"
  shows "conn_index c < length (node_inputs w (conn_node c))" "\<exists>cs. first_input w (conn_node c) = Inr cs"
    "\<exists>r. getNode w (conn_node c) = Some r \<and> node_name (h r) = conn_node c"
proof -
  let ?D = "connectionsByDestinationNode w"
  have e: "(n, Main, i, c) \<in> set (edges_of (connectionsBySourceNode w))"
    using c edges_of_iff [OF wf_workflowD(3) [OF w(1)]] by blast
  then have t: "conn_type c = Main" using w(2) by (auto simp: main_to_main_def list_all_iff)
  have "mk_conn n Main i \<in> set (sources_of (conn_node c) Main (conn_index c) (edges_of (connectionsBySourceNode w)))"
    using e t by (force simp: sources_of_def)
  then have "mk_conn n Main i \<in> set (group_at ?D (conn_node c) Main (conn_index c))"
    using wf_workflowD(4) [OF w(1)] group_at_mapConnectionsByDestination by simp
  then show l: "conn_index c < length (node_inputs w (conn_node c))"
    by (auto simp: group_at_list node_inputs_def split: if_splits)
  then show "\<exists>cs. first_input w (conn_node c) = Inr cs"
    by (auto simp: first_input_def node_inputs_def type_conns_def node_conns_def split: option.splits)
  show "\<exists>r. getNode w (conn_node c) = Some r \<and> node_name (h r) = conn_node c"
    using wf_workflowD(6) [OF w(1) e] getNode_name [OF w(1)] by blast
qed

lemma siblings_ok_child:
  assumes "wf_workflow h w" "main_to_main w" "c \<in> set (group_at (connectionsBySourceNode w) n Main i)"
  shows "siblings_ok w n"
proof -
  have "node_conns (connectionsBySourceNode w) n \<noteq> []" using assms(3) by (auto simp: group_at_list type_conns_def)
  then have "map_of (connectionsBySourceNode w) n \<noteq> None" by (auto simp: node_conns_def split: option.splits)
  then show ?thesis using main_connection(2) [OF assms(1,2)] by (auto simp: siblings_ok_def main_conns_iff)
qed

section \<open>Nodes that are queued or wait\<close>

definition outstanding :: "heap \<Rightarrow> run_state \<Rightarrow> string multiset" where
  "outstanding h s = mset (stack_names h s) + (\<Sum>e\<leftarrow>waitingExecution s. replicate_mset (length (snd e)) (fst e))"

lemma length_idx_put: "length (idx_put i v m) = (if i \<in> fst ` set m then length m else Suc (length m))"
proof -
  have "i \<in> fst ` set m \<longrightarrow> length (map_put i v m) = length m" by (induction m) auto
  moreover have "length (idx_insert i v m) = Suc (length m)" by (induction m) auto
  ultimately show ?thesis by (simp add: idx_put_def)
qed

lemma replicate_cancel:
  assumes "A + replicate_mset k n = B + replicate_mset l n"
  shows "l < k \<Longrightarrow> A + {#n#} \<subseteq># B" "l \<le> Suc k \<Longrightarrow> A \<subseteq># B + {#n#}"
proof -
  have c: "count A x + (if x = n then k else 0) = count B x + (if x = n then l else 0)" for x
    using arg_cong [OF assms, of "\<lambda>M. count M x"] by simp
  show "A + {#n#} \<subseteq># B" if "l < k"
    unfolding subseteq_mset_def
  proof
    show "count (A + {#n#}) x \<le> count B x" for x using c [of x] that by (cases "x = n") auto
  qed
  show "A \<subseteq># B + {#n#}" if "l \<le> Suc k"
    unfolding subseteq_mset_def
  proof
    show "count A x \<le> count (B + {#n#}) x" for x using c [of x] that by (cases "x = n") auto
  qed
qed

lemma waits_put:
  fixes n :: string
  assumes "distinct (keys W)"
  shows "(\<Sum>e\<leftarrow>obj_put n obj W. replicate_mset (length (snd e)) (fst e)) + replicate_mset (length (or_empty (map_of W n))) n
    = (\<Sum>e\<leftarrow>W. replicate_mset (length (snd e)) (fst e)) + replicate_mset (length obj) n"
  using jsobj.sum_put [OF assms, of "\<lambda>e. replicate_mset (length (snd e)) (fst e)" n obj]
  by (simp add: or_empty_def split: option.splits)

lemma waits_delete:
  fixes n :: string
  assumes "distinct (keys W)"
  shows "(\<Sum>e\<leftarrow>map_delete n W. replicate_mset (length (snd e)) (fst e)) + replicate_mset (length (or_empty (map_of W n))) n
    = (\<Sum>e\<leftarrow>W. replicate_mset (length (snd e)) (fst e))"
  using sum_delete [OF assms, of "\<lambda>e. replicate_mset (length (snd e)) (fst e)" n]
  by (simp add: or_empty_def split: option.splits)

text \<open>Taking a waiting entry out.\<close>

lemma outstanding_drop:
  assumes d: "distinct (keys (waitingExecution s))" and i: "map_of (or_empty (map_of (waitingExecution s) n)) i \<noteq> None"
    and W: "waitingExecution s' = (if map_delete i (or_empty (map_of (waitingExecution s) n)) = []
      then map_delete n (waitingExecution s) else obj_put n (map_delete i (or_empty (map_of (waitingExecution s) n))) (waitingExecution s))"
  shows "(\<Sum>e\<leftarrow>waitingExecution s'. replicate_mset (length (snd e)) (fst e)) + {#n#} \<subseteq>#
    (\<Sum>e\<leftarrow>waitingExecution s. replicate_mset (length (snd e)) (fst e))"
proof -
  let ?obj = "or_empty (map_of (waitingExecution s) n)"
  let ?W = "\<lambda>s. \<Sum>e\<leftarrow>waitingExecution s. replicate_mset (length (snd e)) (fst e)"
  have "i \<in> fst ` set ?obj" using i by (simp add: map_of_eq_None_iff)
  then have l: "length (map_delete i ?obj) < length ?obj" by (auto simp: map_delete_def length_filter_less)
  have "?W s' + replicate_mset (length ?obj) n = ?W s + replicate_mset (length (map_delete i ?obj)) n"
  proof (cases "map_delete i ?obj = []")
    case True
    then show ?thesis using waits_delete [OF d, of n] W by simp
  next
    case False
    then show ?thesis using waits_put [OF d, of n "map_delete i ?obj"] W by simp
  qed
  then show ?thesis by (rule replicate_cancel(1)) (rule l)
qed

lemma outstanding_stored:
  assumes "distinct (keys (waitingExecution s))"
  shows "outstanding h (stored n i xs ys s) \<subseteq># outstanding h s + {#n#}"
proof -
  let ?o = "old_waits n s" and ?W = "\<lambda>s. \<Sum>e\<leftarrow>waitingExecution s. replicate_mset (length (snd e)) (fst e)"
  have "?W (stored n i xs ys s) + replicate_mset (length ?o) n = ?W s + replicate_mset (length (idx_put i [(Main, xs)] ?o)) n"
    using waits_put [OF assms, of n "idx_put i [(Main, xs)] ?o"] by (simp add: stored_def old_waits_def)
  then have "?W (stored n i xs ys s) \<subseteq># ?W s + {#n#}"
    by (rule replicate_cancel(2)) (simp add: length_idx_put)
  then show ?thesis by (simp add: outstanding_def stack_names_def) (simp add: stored_def)
qed

text \<open>Adding a child adds at most that child.\<close>

definition entries_main :: "run_state \<Rightarrow> bool" where
  "entries_main s \<longleftrightarrow> (\<forall>e \<in> set (nodeExecutionStack s). map_of (ed_data e) Main \<noteq> None)"

lemma outstanding_added:
  assumes ok: "waiting_ok w s" and r: "node_name (h r) = n"
  shows "outstanding h (added_input r n i j its src xs ys s) \<subseteq># outstanding h s + {#n#}"
proof -
  let ?xs = "xs[j := Some its]" and ?ys = "ys[j := Some src]"
  let ?W = "\<lambda>s. \<Sum>e\<leftarrow>waitingExecution s. replicate_mset (length (snd e)) (fst e)"
  have d: "distinct (keys (waitingExecution s))" using ok by (simp add: waiting_ok_def)
  show ?thesis
  proof (cases "None \<in> set ?xs")
    case True
    then show ?thesis using outstanding_stored [OF d] by (simp add: added_input_def)
  next
    case False
    let ?e = "\<lparr>ed_node = r, ed_data = [(Main, ?xs)], ed_source = Some [(Main, ?ys)], ed_runIndex = None, ed_metadata = None\<rparr>"
    let ?s = "drop_waiting n i (enqueue_entry True ?e (stored n i ?xs ?ys s))"
    have o: "old_waits n s = or_empty (map_of (waitingExecution s) n)" by (simp add: old_waits_def)
    have W: "waitingExecution ?s = (if map_delete i (or_empty (map_of (waitingExecution s) n)) = []
        then map_delete n (waitingExecution s)
        else obj_put n (map_delete i (or_empty (map_of (waitingExecution s) n))) (waitingExecution s))"
      unfolding dropped_tables o ..
    have "?W ?s \<subseteq># ?W s"
    proof (cases "map_of (or_empty (map_of (waitingExecution s) n)) i")
      case (Some e)
      then have "?W ?s + {#n#} \<subseteq># ?W s" by (intro outstanding_drop [OF d _ W]) simp
      then show ?thesis by (meson mset_subset_eq_add_left subset_mset.order_trans)
    next
      case None
      then have "map_delete i (or_empty (map_of (waitingExecution s) n)) = or_empty (map_of (waitingExecution s) n)"
        by (auto simp: map_delete_def filter_id_conv map_of_eq_None_iff image_iff)
      then have "?W ?s + replicate_mset (length (or_empty (map_of (waitingExecution s) n))) n =
          ?W s + replicate_mset (length (or_empty (map_of (waitingExecution s) n))) n"
        using waits_put [OF d, of n "or_empty (map_of (waitingExecution s) n)"] waits_delete [OF d, of n] W
        by (auto split: if_splits)
      then have "?W ?s = ?W s" by (rule add_right_imp_eq)
      then show ?thesis by simp
    qed
    moreover have "stack_names h ?s = n # stack_names h s" using r by (simp add: stack_names_def dropped_tables)
    ultimately have "outstanding h ?s \<subseteq># outstanding h s + {#n#}" by (simp add: outstanding_def)
    then show ?thesis using False by (simp add: added_input_def Let_def)
  qed
qed

lemma add_child:
  assumes w: "wf_workflow h w" "main_to_main w" and c: "c \<in> set (group_at (connectionsBySourceNode w) n Main i)"
    and ok: "waiting_ok w s" "no_nulls (rs_runData s)" "entries_main s" and out: "array_get d i = Some its"
  shows "\<exists>s'. addNodeToBeExecuted h w True c i n (Some d) ri nri md s = Inr s' \<and> waiting_ok w s' \<and>
    rs_runData s' = rs_runData s \<and> entries_main s' \<and> outstanding h s' \<subseteq># outstanding h s + {#conn_node c#}"
proof -
  note j = main_connection(1) [OF w c] and sib = siblings_ok_child [OF w c]
  obtain r where r: "getNode w (conn_node c) = Some r" "node_name (h r) = conn_node c"
    using main_connection(3) [OF w c] by blast
  show ?thesis
  proof (cases "1 < length (node_inputs w (conn_node c))")
    case True
    obtain k xs ys where p: "place_for (length (node_inputs w (conn_node c))) (conn_index c)
        (old_waits (conn_node c) s) (old_sources (conn_node c) s) k xs ys"
      and a: "addNodeToBeExecuted h w True c i n (Some d) ri nri md s =
        Inr (added_input r (conn_node c) k (conn_index c) its (source_of n i ri) xs ys s)"
      using add_several [OF ok(1) refl j True r(1) ok(2) sib out] by blast
    let ?s = "added_input r (conn_node c) k (conn_index c) its (source_of n i ri) xs ys s"
    have "entries_main ?s"
      using ok(3) by (auto simp: entries_main_def added_input_def Let_def dropped_tables) (auto simp: stored_def)
    moreover have "rs_runData ?s = rs_runData s"
      by (simp add: added_input_def Let_def stored_def drop_waiting_def enqueue_entry_def)
    ultimately show ?thesis
      using a added_input_ok [OF ok(1) True j p] outstanding_added [of w s h r "conn_node c", OF ok(1) r(2)] by blast
  next
    case False
    let ?e = "single_entry r c (Some its) (source_of n i ri) nri md"
    have "outstanding h (enqueue_entry True ?e s) = outstanding h s + {#conn_node c#}"
      using r(2) by (simp add: outstanding_def enqueue_entry_def stack_names_def single_entry_def)
    moreover have "entries_main (enqueue_entry True ?e s)"
      using ok(3) by (simp add: entries_main_def enqueue_entry_def single_entry_def)
    moreover have "waiting_ok w (enqueue_entry True ?e s)" using ok(1) by (simp add: waiting_ok_def enqueue_entry_def)
    ultimately show ?thesis using add_single [OF False r(1)] by (simp add: enqueue_entry_def output_data_def out)
  qed
qed

section \<open>The children of a run\<close>

definition loop_ok :: "run_env \<Rightarrow> run_state \<Rightarrow> bool" where
  "loop_ok env s \<longleftrightarrow> waiting_ok (re_workflow env) s \<and> no_nulls (rs_runData s) \<and> entries_main s"

lemma hand_on_all:
  assumes w: "wf_workflow (re_heap env) (re_workflow env)" "main_to_main (re_workflow env)" "re_v1 env"
    and ps: "\<And>i c. (i, c) \<in> set ps \<Longrightarrow> c \<in> set (group_at (connectionsBySourceNode (re_workflow env)) name Main i)"
      "\<And>i c. (i, c) \<in> set ps \<Longrightarrow> array_get data i \<noteq> None"
    and ok: "loop_ok env s"
  shows "\<exists>s'. rfold (hand_on env name data ri) ps s = Inr s' \<and> loop_ok env s' \<and> rs_runData s' = rs_runData s \<and>
    outstanding (re_heap env) s' \<subseteq># outstanding (re_heap env) s + mset (map (\<lambda>p. conn_node (snd p)) ps)"
  using ps ok
proof (induction ps arbitrary: s)
  case Nil
  then show ?case by simp
next
  case (Cons p ps)
  obtain i c where p: "p = (i, c)" by (cases p)
  then obtain its where its: "array_get data i = Some its" using Cons.prems(2) [of i c] by auto
  obtain s1 where s1: "hand_on env name data ri p s = Inr s1" "waiting_ok (re_workflow env) s1"
      "rs_runData s1 = rs_runData s" "entries_main s1"
      "outstanding (re_heap env) s1 \<subseteq># outstanding (re_heap env) s + {#conn_node c#}"
    using add_child [OF w(1,2) Cons.prems(1) [of i c] _ _ _ its, of s ri None None] Cons.prems(3) p w(3)
    by (auto simp: loop_ok_def hand_on_def)
  have "loop_ok env s1" using s1 Cons.prems(3) by (simp add: loop_ok_def)
  then obtain s2 where s2: "rfold (hand_on env name data ri) ps s1 = Inr s2" "loop_ok env s2"
      "rs_runData s2 = rs_runData s1"
      "outstanding (re_heap env) s2 \<subseteq># outstanding (re_heap env) s1 + mset (map (\<lambda>p. conn_node (snd p)) ps)"
    using Cons.IH [of s1] Cons.prems(1,2) by (meson list.set_intros(2))
  have "outstanding (re_heap env) s2 \<subseteq>#
      outstanding (re_heap env) s + {#conn_node c#} + mset (map (\<lambda>p. conn_node (snd p)) ps)"
    using s2(4) s1(5) by (meson subset_mset.add_right_mono subset_mset.order_trans)
  then show ?case using s1 s2 p by simp
qed

lemma add_children_ok:
  assumes w: "wf_workflow (re_heap env) (re_workflow env)" "main_to_main (re_workflow env)" "re_v1 env"
    and ok: "loop_ok env s"
  shows "\<exists>s' ms. add_children env name data ri s = Inr s' \<and> loop_ok env s' \<and> rs_runData s' = rs_runData s \<and>
    outstanding (re_heap env) s' \<subseteq># outstanding (re_heap env) s + ms \<and>
    (\<forall>m \<in># ms. (m, name) \<in> main_child (re_workflow env))"
proof -
  let ?conns = "child_conns (re_workflow env) name"
  let ?ps = "js_sort (position_order env) (filter (\<lambda>(i, c). takes_output True data i c) ?conns)"
  have ps: "(i, c) \<in> set ?ps \<longleftrightarrow> c \<in> set (group_at (connectionsBySourceNode (re_workflow env)) name Main i) \<and>
      takes_output True data i c" for i c
    by (simp add: child_conns_iff)
  have "check_target env c = Inr ()" if "(i, c) \<in> set ?conns" for i c
  proof -
    have "c \<in> set (group_at (connectionsBySourceNode (re_workflow env)) name Main i)" using that by (simp add: child_conns_iff)
    then obtain r where "getNode (re_workflow env) (conn_node c) = Some r" using main_connection(3) [OF w(1,2)] by blast
    then show ?thesis by (simp add: check_target_def)
  qed
  then have "rfold (\<lambda>(i, c) u. check_target env c) ?conns () = Inr ()"
    by (intro rfold_same) fastforce
  moreover have "array_get data i \<noteq> None" if "(i, c) \<in> set ?ps" for i c
    using ps that by (auto simp: takes_output_def split: option.splits)
  then obtain s' where s': "rfold (hand_on env name data ri) ?ps s = Inr s'" "loop_ok env s'"
      "rs_runData s' = rs_runData s"
      "outstanding (re_heap env) s' \<subseteq># outstanding (re_heap env) s + mset (map (\<lambda>p. conn_node (snd p)) ?ps)"
    using hand_on_all [OF w _ _ ok, of ?ps name data ri] ps by blast
  moreover have "\<forall>m \<in># mset (map (\<lambda>p. conn_node (snd p)) ?ps). (m, name) \<in> main_child (re_workflow env)"
    by (auto simp: main_child_def child_conns_iff)
  ultimately show ?thesis using w(3) unfolding add_children_def Let_def by (metis (no_types, lifting) rbind_Inr)
qed

section \<open>Releasing waiting nodes\<close>

lemma drop_waiting_ok:
  assumes ok: "waiting_ok w s" and n: "map_of (waitingExecution s) n = Some obj"
  shows "waiting_ok w (drop_waiting n i s)"
proof (cases "map_delete i obj = []")
  case True
  then show ?thesis
    using n by (intro waiting_ok_delete [OF ok]) (simp_all add: drop_waiting_def or_empty_def keys_def)
next
  case False
  obtain src where src: "map_of (waitingExecutionSource s) n = Some src" "node_waits_ok (length (node_inputs w n)) obj src"
    using waiting_okD(3) [OF ok n] by auto
  show ?thesis
    using n src(1) False
    by (intro waiting_ok_put [OF ok False waiting_okD(2) [OF ok n] node_waits_ok_delete [OF src(2)]])
      (simp_all add: drop_waiting_def or_empty_def keys_def)
qed

definition released_ok :: "run_env \<Rightarrow> run_state \<Rightarrow> run_state \<Rightarrow> bool" where
  "released_ok env s s' \<longleftrightarrow> loop_ok env s' \<and> outstanding (re_heap env) s' \<subseteq># outstanding (re_heap env) s"

lemma drop_released_ok:
  assumes w: "wf_workflow (re_heap env) (re_workflow env)" and ok: "loop_ok env s"
    and m: "waiting_main n i (waitingExecution s) = Inr xs"
    and t: "waitingExecution t = waitingExecution s" "waitingExecutionSource t = waitingExecutionSource s"
      "rs_runData t = rs_runData s"
      "nodeExecutionStack t = nodeExecutionStack s @ es"
    and es: "es = [] \<or> (\<exists>r d src. getNode (re_workflow env) n = Some r \<and>
      es = [\<lparr>ed_node = r, ed_data = [(Main, d)], ed_source = src, ed_runIndex = None, ed_metadata = None\<rparr>])"
  shows "released_ok env s (drop_waiting n i t)"
proof -
  let ?W = "\<lambda>s. \<Sum>e\<leftarrow>waitingExecution s. replicate_mset (length (snd e)) (fst e)"
  let ?s = "drop_waiting n i t"
  obtain obj e where obj: "map_of (waitingExecution s) n = Some obj" "map_of obj i = Some e"
    using m by (auto simp: waiting_main_def split: option.splits)
  have okt: "waiting_ok (re_workflow env) t" using ok t(1,2) by (simp add: loop_ok_def waiting_ok_same [of t s])
  have wt: "waiting_ok (re_workflow env) ?s" by (rule drop_waiting_ok [OF okt]) (simp add: t(1) obj(1))
  have st: "nodeExecutionStack ?s = nodeExecutionStack s @ es" "rs_runData ?s = rs_runData s"
    by (simp_all add: drop_waiting_def Let_def t)
  have "entries_main ?s" using ok es st(1) by (auto simp: entries_main_def loop_ok_def)
  then have lo: "loop_ok env ?s" using ok wt st(2) by (simp add: loop_ok_def)
  have "?W ?s + {#n#} \<subseteq># ?W s"
    using ok obj by (intro outstanding_drop [where i = i])
      (simp_all add: loop_ok_def waiting_ok_def drop_waiting_def Let_def t(1) or_empty_def keys_def)
  moreover have "mset (stack_names (re_heap env) ?s) \<subseteq># mset (stack_names (re_heap env) s) + {#n#}"
    using es getNode_name [OF w] by (auto simp: stack_names_def st(1))
  ultimately have "mset (stack_names (re_heap env) ?s) + (?W ?s + {#n#}) \<subseteq>#
      mset (stack_names (re_heap env) s) + {#n#} + ?W s"
    by (rule subset_mset.add_mono [rotated])
  then have "outstanding (re_heap env) ?s + {#n#} \<subseteq># outstanding (re_heap env) s + {#n#}"
    by (simp add: outstanding_def ac_simps)
  then show ?thesis using lo by (simp add: released_ok_def)
qed

lemma release_node_ok:
  assumes w: "wf_workflow (re_heap env) (re_workflow env)" and ok: "loop_ok env s"
    and r: "release_node env ws n s = Inr q"
  shows "(\<forall>s'. q = Queued s' \<longrightarrow> released_ok env s s') \<and> (\<forall>s'. q = Emptied s' \<longrightarrow> released_ok env s s')"
proof -
  show ?thesis
  proof (cases "q = Kept")
    case False
    obtain r sp where g: "getNode (re_workflow env) n = Some r" "re_types env r = Some sp"
      using r False by (auto simp: release_node_def Let_def split: option.splits)
    obtain i where i: "first_run_index (keys (or_empty (map_of (waitingExecution s) n))) = Some i"
      using r False g by (auto simp: release_node_def Let_def split: option.splits if_splits)
    obtain xs where xs: "waiting_main n i (waitingExecution s) = Inr xs"
      using r False g i by (auto simp: release_node_def Let_def result_simps split: option.splits if_splits)
    obtain src where src: "map_of (waitingExecutionSource s) n = Some src"
      using r False g i xs by (auto simp: release_node_def Let_def split: option.splits if_splits)
    let ?main = "task_data_main xs"
    let ?t = "s\<lparr>nodeExecutionStack := nodeExecutionStack s @ [\<lparr>ed_node = r,
      ed_data = [(Main, map Some (?main @ replicate (inputs_length (rt_inputs sp) - length ?main) []))],
      ed_source = map_of src i, ed_runIndex = None, ed_metadata = None\<rparr>]\<rparr>"
    have "q = (if list_ex (\<lambda>d. length d \<noteq> 0) ?main then Queued (drop_waiting n i ?t) else Emptied (drop_waiting n i s))"
      using r False g i xs src
      by (simp add: release_node_def Let_def split: if_splits option.splits del: map_append map_replicate)
    moreover have "released_ok env s (drop_waiting n i ?t)"
      by (rule drop_released_ok [OF w ok xs, where es = "[\<lparr>ed_node = r,
        ed_data = [(Main, map Some (?main @ replicate (inputs_length (rt_inputs sp) - length ?main) []))],
        ed_source = map_of src i, ed_runIndex = None, ed_metadata = None\<rparr>]"]) (use g in auto)
    moreover have "released_ok env s (drop_waiting n i s)"
      by (rule drop_released_ok [OF w ok xs, where es = "[]"]) auto
    ultimately show ?thesis by simp
  qed simp
qed

lemma release_pass_ok:
  assumes w: "wf_workflow (re_heap env) (re_workflow env)" and ok: "loop_ok env s"
  shows "release_pass env ws ns s = Inr q \<Longrightarrow>
    (\<forall>s'. q = Queued s' \<longrightarrow> released_ok env s s') \<and> (\<forall>s'. q = Emptied s' \<longrightarrow> released_ok env s s')"
proof (induction ns)
  case (Cons n ns)
  then obtain x where x: "release_node env ws n s = Inr x" by (auto simp: result_simps)
  show ?case using Cons x release_node_ok [OF w ok x] by (cases x) auto
qed simp

lemma release_waiting_ok:
  "wf_workflow (re_heap env) (re_workflow env) \<Longrightarrow> loop_ok env s \<Longrightarrow> release_waiting env s = Inr s' \<Longrightarrow>
    released_ok env s s'"
proof (induction env s rule: release_waiting.induct)
  case (1 env s)
  obtain q where q: "release_pass env (keys (waitingExecution s)) (keys (waitingExecution s)) s = Inr q"
    using 1(4) by (subst (asm) release_waiting.simps) (auto simp: result_simps)
  note step = 1(4) [unfolded release_waiting.simps [of env s] q rbind_Inr]
  note ok = release_pass_ok [OF 1(2,3) q]
  show ?case
  proof (cases q)
    case (Queued t)
    then show ?thesis using step ok by simp
  next
    case (Emptied t)
    then have t: "released_ok env s t" using ok by blast
    then have "released_ok env t s'" using 1(1) [OF q] 1(2) Emptied step by (simp add: released_ok_def)
    then show ?thesis using t by (auto simp: released_ok_def)
  next
    case Kept
    then show ?thesis using step 1(3) by (simp add: released_ok_def)
  qed
qed

section \<open>A round of the loop\<close>

lemma ensureInputData_v1:
  assumes "re_v1 env" "map_of (ed_data e) Main \<noteq> None" "ensureInputData h w (re_v1 env) e s = Inr (b, s')"
  shows "b \<and> s' = s"
proof -
  have c: "check_inputs h w True n (ed_data e) is' = Inr x \<Longrightarrow> x" for n is' x
  proof (induction is')
    case (Cons i is')
    then show ?case using assms(2) by (auto simp: result_simps split: option.splits if_splits)
  qed simp
  obtain x where x: "check_inputs h w True (node_name (h (ed_node e))) (ed_data e)
      [0..<length (node_inputs w (node_name (h (ed_node e))))] = Inr x"
    using assms(1,3) by (auto simp: ensureInputData_def Let_def result_simps)
  then have x by (rule c)
  then show ?thesis using assms(1,3) x by (simp add: ensureInputData_def Let_def)
qed

lemma rmap_all:
  "rmap f xs = Inr ys \<Longrightarrow> (\<And>x y. x \<in> set xs \<Longrightarrow> f x = Inr y \<Longrightarrow> P y) \<Longrightarrow> y \<in> set ys \<Longrightarrow> P y"
  by (induction xs arbitrary: ys) (fastforce simp: result_simps)+

lemma merge_errors_some: "merge_errors data = Inr outputs \<Longrightarrow> None \<notin> set outputs"
  unfolding merge_errors_def
  using rmap_all [where P = "\<lambda>y. y \<noteq> None" and y = None] by (fastforce simp: result_simps split: option.splits)

lemma with_output_data: "\<exists>ct. task_data (with_output env e ri outputs s task) = Some [(ct, outputs)]"
  by (auto simp: with_output_def split: option.splits)

lemma no_nulls_record:
  assumes "no_nulls rd" "None \<notin> set outputs" and t: "task_data t = Some [(ct, outputs)]"
  shows "no_nulls (record_task n i t rd)"
proof -
  have old: "None \<notin> set xs" if "map_of rd m = Some runs" "run \<in> set runs" "task_data run = Some data"
    "map_of data Main = Some xs" for m runs run data xs
    using assms(1) that unfolding no_nulls_def by blast
  have good: "None \<notin> set xs" if "task_data run = Some data" "map_of data Main = Some xs"
    and run: "run \<in> set (or_empty (map_of rd n)) \<or> task_data run = Some [(ct, outputs)]" for run data xs
  proof (cases "task_data run = Some [(ct, outputs)]")
    case True
    then show ?thesis using that(1,2) assms(2) by (auto split: if_splits)
  next
    case False
    then obtain runs where "map_of rd n = Some runs" "run \<in> set runs"
      using run by (cases "map_of rd n") (auto simp: or_empty_def)
    then show ?thesis using old that(1,2) by blast
  qed
  have "run \<in> set (or_empty (map_of rd n)) \<or> task_data run = Some [(ct, outputs)]"
    if "map_of (record_task n i t rd) n = Some runs" "run \<in> set runs" for runs run
  proof -
    have "run = t \<or> run \<in> set (or_empty (map_of rd n)) \<or> run = merge_task t (or_empty (map_of rd n) ! i)"
      using that by (auto simp: record_task_def Let_def jsobj.lookup_put split: if_splits
          dest: set_update_subset_insert [THEN subsetD])
    then show ?thesis using t by (auto simp: merge_task_def)
  qed
  moreover have "map_of (record_task n i t rd) m = map_of rd m" if "m \<noteq> n" for m
    using that by (simp add: record_task_def Let_def jsobj.lookup_put)
  ultimately show ?thesis
    using old good unfolding no_nulls_def by metis
qed

text \<open>States with the same tables, stack and run data.\<close>

definition same_work :: "run_state \<Rightarrow> run_state \<Rightarrow> bool" where
  "same_work s s' \<longleftrightarrow> waitingExecution s' = waitingExecution s \<and> waitingExecutionSource s' = waitingExecutionSource s \<and>
     rs_runData s' = rs_runData s \<and> nodeExecutionStack s' = nodeExecutionStack s"

lemma same_work_refl [simp]: "same_work s s"
  by (simp add: same_work_def)

lemma same_work_trans: "same_work s t \<Longrightarrow> same_work t u \<Longrightarrow> same_work s u"
  by (simp add: same_work_def)

lemma loop_ok_sub:
  assumes "loop_ok env s" "waitingExecution s' = waitingExecution s" "waitingExecutionSource s' = waitingExecutionSource s"
    "no_nulls (rs_runData s')" "nodeExecutionStack s' = nodeExecutionStack s"
  shows "loop_ok env s'" "outstanding h s' = outstanding h s"
  using assms by (simp_all add: loop_ok_def waiting_ok_same [of s' s] entries_main_def outstanding_def stack_names_def)

lemma same_work_ok:
  assumes "loop_ok env s" "same_work s s'"
  shows "loop_ok env s'" "outstanding h s' = outstanding h s"
  using loop_ok_sub [OF assms(1), of s'] assms by (simp_all add: same_work_def loop_ok_def)

lemma finish_run_ok:
  assumes w: "wf_workflow (re_heap env) (re_workflow env)" "main_to_main (re_workflow env)" "re_v1 env"
    and ok: "loop_ok env s" and f: "finish_run env e ri task data origin s = Inr (Again s')"
  shows "loop_ok env s' \<and> (\<exists>ms. outstanding (re_heap env) s' \<subseteq># outstanding (re_heap env) s + ms \<and>
    (\<forall>m \<in># ms. (m, entry_name env e) \<in> main_child (re_workflow env)))"
proof -
  let ?h = "re_heap env" and ?n = "entry_name env e"
  obtain d outputs where o: "data = Some d" "merge_errors d = Inr outputs" "\<not> rs_waitTill s"
    using f by (auto simp: finish_run_def Let_def result_simps split: option.splits if_splits)
  let ?t = "with_output env e ri outputs s task"
  let ?s0 = "if origin = PinnedItems then write_pinned ?n outputs s else s"
  let ?s1 = "?s0\<lparr>rs_runData := record_task ?n ri ?t (rs_runData s)\<rparr>"
  have "same_work s ?s0" by (auto simp: same_work_def write_pinned_def split: option.splits list.splits)
  moreover have "no_nulls (rs_runData ?s1)"
  proof -
    obtain ct where "task_data ?t = Some [(ct, outputs)]" using with_output_data by blast
    from no_nulls_record [OF _ merge_errors_some [OF o(2)] this] show ?thesis using ok by (simp add: loop_ok_def)
  qed
  ultimately have s1: "loop_ok env ?s1" "outstanding ?h ?s1 = outstanding ?h s"
    by (intro loop_ok_sub [OF ok]; simp add: same_work_def)+
  note step = f [unfolded finish_run_def o(1) option.case o(2) rbind_Inr Let_def, simplified o(3) if_False]
  show ?thesis
  proof (cases "re_destination env = Some ?n")
    case True
    then have "s' = ?s1" using step by simp
    then show ?thesis using s1 by (intro conjI exI [of _ "{#}"]) simp_all
  next
    case False
    obtain s2 ms where s2: "add_children env ?n outputs ri ?s1 = Inr s2" "loop_ok env s2"
      "outstanding ?h s2 \<subseteq># outstanding ?h ?s1 + ms" "\<forall>m \<in># ms. (m, ?n) \<in> main_child (re_workflow env)"
      using add_children_ok [OF w s1(1)] by blast
    have "s' = s2 \<or> release_waiting env s2 = Inr s'"
      using step False s2(1) by (auto simp: result_simps split: if_splits)
    then have "loop_ok env s' \<and> outstanding ?h s' \<subseteq># outstanding ?h s2"
      using release_waiting_ok [OF w(1) s2(2)] s2(2) by (auto simp: released_ok_def)
    then show ?thesis using s2 s1(2) by (metis subset_mset.order_trans)
  qed
qed

section \<open>Without requests the tries leave the work as it is\<close>

definition no_requests :: "run_env \<Rightarrow> bool" where
  "no_requests env \<longleftrightarrow> (\<forall>c s e its input ri response k q w. re_call env c s e its input ri response k \<noteq> (Request q, w))"

lemma trigger_response_request: "trigger_response out = Request q \<Longrightarrow> out = Request q"
  by (cases out rule: trigger_response.cases) auto

lemma call_node_same:
  assumes "call_node env e ri resp k s = (out, s')"
  shows "same_work s s'" "no_requests env \<Longrightarrow> out \<noteq> Request q"
proof -
  obtain w where r: "runNode env s e ri resp k = (out, w)" "s' = s\<lparr>rs_waitTill := rs_waitTill s \<or> w\<rparr>"
    using assms by (auto simp: call_node_def split: prod.splits)
  show "same_work s s'" using r(2) by (simp add: same_work_def)
  show "out \<noteq> Request q" if "no_requests env"
    using r(1) that
    by (auto simp: runNode_def handleDisabledNode_def Let_def no_requests_def apfst_def map_prod_def
        split: if_splits option.splits list.splits prod.splits dest!: trigger_response_request)
qed

lemma rerun_failed_same:
  assumes "\<And>k s out s'. run k s = (out, s') \<Longrightarrow> same_work s s' \<and> (\<forall>q. out \<noteq> Request q)"
  shows "rerun_failed run left k out s = (out', s', left', k') \<Longrightarrow> \<forall>q. out \<noteq> Request q \<Longrightarrow>
    same_work s s' \<and> (\<forall>q. out' \<noteq> Request q)"
proof (induction left arbitrary: k out s)
  case (Suc left)
  obtain o1 s1 where r: "run k s = (o1, s1)" by fastforce
  note g = assms [OF r]
  show ?case
  proof (cases "node_failed out")
    case True
    show ?thesis
    proof (cases o1)
      case (Throws x)
      then show ?thesis using Suc.prems True r g by auto
    next
      case (Output d)
      then have "rerun_failed run left (Suc k) o1 s1 = (out', s', left', k')" using Suc.prems True r by simp
      then show ?thesis using Suc.IH g same_work_trans by blast
    next
      case (Request q)
      then show ?thesis using g by simp
    qed
  next
    case False
    then show ?thesis using Suc.prems by auto
  qed
qed auto

lemma complete_output_same:
  assumes "complete_output env e p data s = (d', err, p', s')"
  shows "same_work s s'"
proof -
  have "s' = s \<or> s' = s\<lparr>rs_lastNodeExecuted := Some (entry_name env e)\<rparr>"
    using assms by (auto simp: complete_output_def Let_def split: prod.splits option.splits sum.splits if_splits)
  then show ?thesis by (auto simp: same_work_def)
qed

lemma run_try_same:
  assumes "no_requests env"
  shows "same_work (at_state a) (at_state (run_try env e ri a))"
    "at_requested (run_try env e ri a) = at_requested a"
proof -
  have catch_same: "same_work s (at_state (catch env e b)) = same_work s (at_state b)"
    "at_requested (catch env e b) = at_requested b" for s b
    by (auto simp: catch_def same_work_def)
  have "same_work (at_state a) (at_state (run_try env e ri a)) \<and> at_requested (run_try env e ri a) = at_requested a"
  proof (cases "pinned_data env (at_state a) e")
    case (Some its)
    obtain d err p s where c: "complete_output env e True (Some [Some its]) (at_state a) = (d, err, p, s)"
      by (rule prod_cases4)
    then show ?thesis using Some complete_output_same [OF c] by (simp add: run_try_def catch_same)
  next
    case None
    let ?resp = "add_responses e (at_state a) (at_response a)"
    obtain o1 s1 where c: "call_node env e ri (Some ?resp) (at_calls a) (at_state a) = (o1, s1)" by fastforce
    obtain out s2 l k where r: "rerun_failed (\<lambda>k. call_node env e ri None k) (at_triesLeft a) (Suc (at_calls a)) o1 s1 = (out, s2, l, k)"
      by (rule prod_cases4)
    note n = call_node_same [OF c]
    have "same_work s1 s2 \<and> (\<forall>q. out \<noteq> Request q)"
      by (rule rerun_failed_same [OF _ r]) (use call_node_same assms n(2) in blast)+
    then have s2: "same_work (at_state a) s2" "\<And>q. out \<noteq> Request q" using n(1) same_work_trans by blast+
    show ?thesis
    proof (cases out)
      case (Throws x)
      then show ?thesis using None c r s2 by (simp add: run_try_def catch_same Let_def)
    next
      case (Request q)
      then show ?thesis using s2(2) by simp
    next
      case (Output d)
      obtain d' err p s3 where f: "complete_output env e False d s2 = (d', err, p, s3)" by (rule prod_cases4)
      then have "same_work (at_state a) s3" using complete_output_same s2(1) same_work_trans by blast
      then show ?thesis using None c r f Output by (simp add: run_try_def catch_same Let_def)
    qed
  qed
  then show "same_work (at_state a) (at_state (run_try env e ri a))"
    "at_requested (run_try env e ri a) = at_requested a" by simp_all
qed

lemma run_tries_same:
  "no_requests env \<Longrightarrow>
    same_work (at_state a) (at_state (run_tries env e ri a)) \<and> at_requested (run_tries env e ri a) = at_requested a"
proof (induction env e ri a rule: run_tries.induct)
  case (1 env e ri a)
  let ?b = "run_try env e ri (a\<lparr>at_error := None\<rparr>)"
  have b: "same_work (at_state a) (at_state ?b)" "at_requested ?b = at_requested a"
    using run_try_same [OF 1(2), where a = "a\<lparr>at_error := None\<rparr>"] by simp_all
  show ?case
  proof (cases "at_error ?b = None \<or> at_triesLeft ?b = 0")
    case True
    then have "run_tries env e ri a = ?b" by (subst run_tries.simps) (simp only: Let_def if_True)
    then show ?thesis using b by simp
  next
    case False
    have eq: "run_tries env e ri a = run_tries env e ri (?b\<lparr>at_triesLeft := at_triesLeft ?b - 1\<rparr>)"
      using False by (subst run_tries.simps) (simp only: Let_def if_False)
    show ?thesis using 1(1) [OF refl False 1(2)] b same_work_trans unfolding eq by auto
  qed
qed

lemma run_entry_ok:
  assumes w: "wf_workflow (re_heap env) (re_workflow env)" "main_to_main (re_workflow env)" "re_v1 env"
    and nr: "no_requests env" and ok: "loop_ok env s" and f: "run_entry env e ri k s = Inr (Again s')"
  shows "loop_ok env s' \<and> (\<exists>ms. outstanding (re_heap env) s' \<subseteq># outstanding (re_heap env) s + ms \<and>
    (\<forall>m \<in># ms. (m, entry_name env e) \<in> main_child (re_workflow env)))"
proof -
  let ?a = "run_tries env e ri (first_attempt env e s)"
  let ?s0 = "(at_state ?a)\<lparr>rs_error := at_error ?a\<rparr>"
  define s1 where "s1 = (if at_pinned ?a then write_pinned (entry_name env e) (or_empty (at_data ?a)) ?s0 else ?s0)"
  have "same_work s ?s0" "\<not> at_requested ?a"
    using run_tries_same [OF nr, of "first_attempt env e s" e ri] by (simp_all add: first_attempt_def same_work_def)
  then have same: "same_work s s1"
    by (auto simp: s1_def same_work_def write_pinned_def split: option.splits list.splits)
  have "s' = s1 \<or> (\<exists>task data origin. finish_run env e ri task data origin s1 = Inr (Again s'))"
    using f \<open>\<not> at_requested ?a\<close> unfolding run_entry_def Let_def s1_def [symmetric]
    by (auto split: option.splits if_splits prod.splits)
  then show ?thesis
  proof (elim disjE exE)
    assume "s' = s1"
    then show ?thesis using same_work_ok [OF ok same] by (intro conjI exI [of _ "{#}"]) simp_all
  next
    fix task data origin
    assume "finish_run env e ri task data origin s1 = Inr (Again s')"
    from finish_run_ok [OF w same_work_ok(1) [OF ok same] this] show ?thesis
      using same_work_ok(2) [OF ok same] by simp
  qed
qed

section \<open>The loop ends\<close>

lemma mult_step:
  assumes "A \<subseteq># B + ms" "\<forall>m \<in># ms. (m, n) \<in> r"
  shows "(A, B + {#n#}) \<in> mult r"
proof -
  have "(B + ms, B + {#n#}) \<in> mult r"
    using one_step_implies_mult [of "{#n#}" ms r B] assms(2) by simp
  moreover have "A = B + ms \<or> (A, B + ms) \<in> mult r"
    using assms(1) subset_implies_mult [of A "B + ms" r] subset_mset.le_less by blast
  ultimately show ?thesis unfolding mult_def by (metis trancl_trans)
qed

lemma pair_inputs_node [simp]: "entry_name env (pair_inputs e) = entry_name env e" "ed_node (pair_inputs e) = ed_node e"
  by (simp_all add: entry_name_def pair_inputs_def)

lemma pair_inputs_main: "map_of (ed_data (pair_inputs e)) Main = None \<longleftrightarrow> map_of (ed_data e) Main = None"
  by (simp add: pair_inputs_def map_of_eq_None_iff image_image split_beta)

lemma loop_once_ok:
  assumes w: "wf_workflow (re_heap env) (re_workflow env)" "main_to_main (re_workflow env)" "re_v1 env"
    and nr: "no_requests env" and ok: "loop_ok env s" and once: "loop_once env t s = Inr (Again s', t')"
  shows "loop_ok env s' \<and> (outstanding (re_heap env) s', outstanding (re_heap env) s) \<in> mult (main_child (re_workflow env))"
proof -
  obtain e stack where st: "nodeExecutionStack s = e # stack" using once by (cases "nodeExecutionStack s") (auto simp: loop_once_def)
  let ?n = "entry_name env e" and ?h = "re_heap env" and ?e = "pair_inputs e"
  let ?s = "s\<lparr>nodeExecutionStack := stack, rs_executionIndex := Suc (rs_executionIndex s), rs_error := None\<rparr>"
  have s0: "loop_ok env ?s" using ok st by (auto simp: loop_ok_def entries_main_def waiting_ok_def)
  have out: "outstanding ?h s = outstanding ?h ?s + {#?n#}"
    by (simp add: outstanding_def stack_names_def st entry_name_def)
  have main: "map_of (ed_data ?e) Main \<noteq> None" using ok st pair_inputs_main by (simp add: loop_ok_def entries_main_def)
  have "s' = ?s \<or> (\<exists>ri k. run_entry env ?e ri k ?s = Inr (Again s'))"
  proof -
    have "b \<and> s1 = ?s" if "ensureInputData ?h (re_workflow env) (re_v1 env) ?e ?s = Inr (b, s1)" for b s1
      by (rule ensureInputData_v1 [OF w(3) main that])
    then show ?thesis
      using once unfolding loop_once_def st Let_def list.case
      by (auto simp: result_simps split: if_splits prod.splits)
  qed
  then have "loop_ok env s' \<and> (\<exists>ms. outstanding ?h s' \<subseteq># outstanding ?h ?s + ms \<and> (\<forall>m \<in># ms. (m, ?n) \<in> main_child (re_workflow env)))"
  proof (elim disjE exE)
    assume "s' = ?s"
    then show ?thesis using s0 by (intro conjI exI [of _ "{#}"]) simp_all
  next
    fix ri k
    assume "run_entry env ?e ri k ?s = Inr (Again s')"
    from run_entry_ok [OF w nr s0 this] show ?thesis by simp
  qed
  then show ?thesis using mult_step [of "outstanding ?h s'" "outstanding ?h ?s" _ ?n "main_child (re_workflow env)"] out by metis
qed

text \<open>
  The loop stops with an empty stack, or after a run that failed or put the execution to wait; the
  entry of that run is back on the stack.
\<close>

definition stopped :: "run_state \<Rightarrow> bool" where
  "stopped s \<longleftrightarrow> nodeExecutionStack s = [] \<or> rs_error s \<noteq> None \<or> rs_waitTill s"

lemma finish_run_done:
  assumes "finish_run env e ri task data origin s = Inr (Done s')"
  shows "rs_waitTill s'"
  using assms by (auto simp: finish_run_def Let_def result_simps write_pinned_def split: option.splits if_splits list.splits)

lemma run_entry_done:
  assumes "run_entry env e ri k s = Inr (Done s')"
  shows "stopped s'"
proof -
  let ?a = "run_tries env e ri (first_attempt env e s)"
  let ?s0 = "(at_state ?a)\<lparr>rs_error := at_error ?a\<rparr>"
  define s1 where "s1 = (if at_pinned ?a then write_pinned (entry_name env e) (or_empty (at_data ?a)) ?s0 else ?s0)"
  have err: "rs_error s1 = at_error ?a" by (auto simp: s1_def write_pinned_def split: option.splits list.splits)
  have "(\<exists>task data origin. finish_run env e ri task data origin s1 = Inr (Done s')) \<or>
      (at_error ?a \<noteq> None \<and> (\<exists>t x. s' = fail_run env e ri t x s1))"
    using assms unfolding run_entry_def Let_def s1_def [symmetric]
    by (auto split: option.splits if_splits prod.splits)
  then show ?thesis
  proof (elim disjE exE conjE)
    fix task data origin
    assume "finish_run env e ri task data origin s1 = Inr (Done s')"
    then show ?thesis using finish_run_done by (simp add: stopped_def)
  next
    fix t x
    assume "at_error ?a \<noteq> None" "s' = fail_run env e ri t x s1"
    then show ?thesis using err by (simp add: stopped_def fail_run_def Let_def)
  qed
qed

lemma loop_once_done:
  assumes once: "loop_once env t s = Inr (Done s', t')"
  shows "stopped s'"
proof (cases "nodeExecutionStack s")
  case Nil
  then show ?thesis using once by (auto simp: loop_once_def stopped_def)
next
  case (Cons e stack)
  then have "\<exists>ri k u. run_entry env (pair_inputs e) ri k u = Inr (Done s')"
    using once unfolding loop_once_def Cons Let_def list.case
    by (auto simp: result_simps split: if_splits prod.splits)
  then show ?thesis using run_entry_done by blast
qed

lemma run_loop_total:
  assumes w: "wf_workflow (re_heap env) (re_workflow env)" "main_to_main (re_workflow env)" "re_v1 env"
    and nr: "no_requests env" and acyclic: "acyclic (main_child (re_workflow env))" and "loop_ok env s"
  shows "\<exists>r. run_loop env t s = Some r \<and> (\<forall>s'. r = Inr s' \<longrightarrow> stopped s')"
proof -
  have wf: "wf (main_child (re_workflow env))" using finite_acyclic_wf finite_main_child [OF w(1)] acyclic by blast
  show ?thesis using assms(6)
  proof (induction "outstanding (re_heap env) s" arbitrary: s t rule: wf_induct_rule [OF wf_mult [OF wf]])
    case (1 s t)
    consider x where "loop_once env t s = Inl x" | s' t' where "loop_once env t s = Inr (Done s', t')"
      | s' t' where "loop_once env t s = Inr (Again s', t')"
      by (cases "loop_once env t s") (auto, metis loop_step.exhaust)
    then show ?case
    proof cases
      case 1
      then show ?thesis by (subst run_loop.simps) simp
    next
      case (2 s' t')
      then show ?thesis using loop_once_done [OF 2] by (subst run_loop.simps) simp
    next
      case (3 s' t')
      have "\<exists>r. run_loop env t' s' = Some r \<and> (\<forall>s'. r = Inr s' \<longrightarrow> stopped s')"
        using loop_once_ok [OF w nr 1(2) 3] 1(1) by blast
      then show ?thesis using 3 by (subst run_loop.simps) simp
    qed
  qed
qed

end
