(* ===== verification/Run_Execution.thy ===== *)
theory Run_Execution
  imports Run_Loop Workflow_Search
begin

text \<open>
  How an execution begins and ends in \<open>packages/core/src/execution-engine/workflow-execute.ts\<close>: the
  state \<open>run\<close> and \<open>runPartialWorkflow2\<close> start from, the checks before the loop, the resumption of an
  execution that waited, and the status at the end. The issues of the parameters of a node are a
  parameter, and so is the trigger data; hooks, static data and the metadata that nodes collect are
  left out.
\<close>

section \<open>The start of an execution\<close>

record run_options =
  ro_startNode :: "noderef option"
  ro_destinationNode :: "IDestinationNode option"
  ro_pinData :: "IPinData option"
  ro_triggerData :: "ITaskDataConnections option"
  ro_additionalRunFilterNodes :: "string list option"

definition run_filter :: "Workflow \<Rightarrow> IDestinationNode \<Rightarrow> string list option \<Rightarrow> string list" where
  "run_filter w dest additional = dedupe
     (workflow_getParentNodes w (dn_nodeName dest) (OfType Main) (-1) @
      workflow_getParentNodes w (dn_nodeName dest) AllNonMain (-1) @
      (case dn_mode dest of Inclusive \<Rightarrow> [dn_nodeName dest] | Exclusive \<Rightarrow> []) @ or_empty additional)"

definition fresh_state :: "IExecuteData list \<Rightarrow> IPinData option \<Rightarrow> nat \<Rightarrow> run_state" where
  "fresh_state stack pinData index = \<lparr>nodeExecutionStack = stack, waitingExecution = [], waitingExecutionSource = [],
     rs_runData = [], rs_pinData = pinData, rs_lastNodeExecuted = None, rs_resultError = None, rs_error = None,
     rs_executionIndex = index, rs_waitTill = False, rs_rewired = []\<rparr>"

text \<open>The environment of a run with its filter and destination, and its state.\<close>

definition run_workflow :: "run_env \<Rightarrow> node_types \<Rightarrow> run_options \<Rightarrow> nat \<Rightarrow> (run_env \<times> run_state) result" where
  "run_workflow env nodeTypes opts index =
     rbind (case ro_startNode opts of
        Some r \<Rightarrow> Inr (Some r)
      | None \<Rightarrow> getStartNode (re_heap env) nodeTypes (re_workflow env) (map_option dn_nodeName (ro_destinationNode opts)))
     (\<lambda>startNode. case startNode of
        None \<Rightarrow> Inl (ApplicationError ''No node to start the workflow from could be found'')
      | Some r \<Rightarrow> Inr
          (env\<lparr>re_runNodeFilter := (case ro_destinationNode opts of None \<Rightarrow> None
               | Some d \<Rightarrow> Some (run_filter (re_workflow env) d (ro_additionalRunFilterNodes opts))),
             re_destination := map_option dn_nodeName (ro_destinationNode opts)\<rparr>,
           fresh_state [\<lparr>ed_node = r,
             ed_data = (case ro_triggerData opts of None \<Rightarrow> [(Main, [Some [empty_item]])] | Some d \<Rightarrow> d),
             ed_source = None, ed_runIndex = None, ed_metadata = None\<rparr>] (ro_pinData opts) index))"

definition run_partial :: "run_env \<Rightarrow> partial_run \<Rightarrow> run_env \<times> run_state" where
  "run_partial env p =
     (env\<lparr>re_heap := pr_heap p, re_workflow := pr_workflow p, re_runNodeFilter := Some (pr_runNodeFilter p),
        re_destination := Some (dn_nodeName (pr_destinationNode p))\<rparr>,
      (fresh_state (nodeExecutionStack (pr_stacks p)) (Some (pr_pinData p)) (pr_currentNodeExecutionIndex p))
        \<lparr>waitingExecution := waitingExecution (pr_stacks p),
         waitingExecutionSource := waitingExecutionSource (pr_stacks p), rs_runData := pr_runData p\<rparr>)"

section \<open>Checks before the loop\<close>

definition nodes_to_check :: "Workflow \<Rightarrow> string option \<Rightarrow> IDestinationNode option \<Rightarrow> string list" where
  "nodes_to_check w startNode dest = (case dest of
     Some d \<Rightarrow> workflow_getParentNodes w (dn_nodeName d) (OfType Main) (-1) @
       (case dn_mode d of Inclusive \<Rightarrow> [dn_nodeName d] | Exclusive \<Rightarrow> [])
   | None \<Rightarrow> (case startNode of
       None \<Rightarrow> []
     | Some n \<Rightarrow> if n = [] then [] else workflow_getChildNodes w n (OfType Main) (-1) @ [n]))"

definition node_has_issues :: "run_env \<Rightarrow> (noderef \<Rightarrow> bool) \<Rightarrow> string \<Rightarrow> bool" where
  "node_has_issues env issues n = (case getNode (re_workflow env) n of
     None \<Rightarrow> False
   | Some r \<Rightarrow> \<not> is_disabled (re_heap env r) \<and> (re_types env r = None \<or> issues r))"

definition checkReadyForExecution ::
    "run_env \<Rightarrow> (noderef \<Rightarrow> bool) \<Rightarrow> string option \<Rightarrow> IDestinationNode option \<Rightarrow> string list" where
  "checkReadyForExecution env issues startNode dest =
     filter (node_has_issues env issues) (nodes_to_check (re_workflow env) startNode dest)"

definition checkForWorkflowIssues ::
    "run_env \<Rightarrow> (noderef \<Rightarrow> bool) \<Rightarrow> IDestinationNode option \<Rightarrow> run_state \<Rightarrow> unit result" where
  "checkForWorkflowIssues env issues dest s =
     (let startNode = (case nodeExecutionStack s of [] \<Rightarrow> None | e # _ \<Rightarrow> Some (entry_name env e)) in
      if checkReadyForExecution env issues startNode dest = [] then Inr ()
      else Inl (OperationalError ''The workflow has issues and cannot be executed for that reason. Please fix them first.''))"

section \<open>Resuming an execution that waited\<close>

text \<open>
  The node that put the execution to wait is disabled, so that it passes its input on, and its run is
  taken off the run data.
\<close>

definition disable_node :: "noderef \<Rightarrow> heap \<Rightarrow> heap" where
  "disable_node r h = h(r := (h r)\<lparr>disabled := Some True\<rparr>)"

definition handleWaitingState :: "run_env \<Rightarrow> run_state \<Rightarrow> (run_env \<times> run_state) result" where
  "handleWaitingState env s =
     (if \<not> rs_waitTill s then Inr (env, s)
      else case nodeExecutionStack s of
        [] \<Rightarrow> Inl TypeError
      | e # _ \<Rightarrow>
          (case rs_lastNodeExecuted s of
             None \<Rightarrow> Inl TypeError
           | Some n \<Rightarrow>
               (case map_of (rs_runData s) n of
                  None \<Rightarrow> Inl TypeError
                | Some runs \<Rightarrow> Inr (env\<lparr>re_heap := disable_node (ed_node e) (re_heap env)\<rparr>,
                    s\<lparr>rs_waitTill := False, rs_runData := obj_put n (butlast runs) (rs_runData s)\<rparr>))))"

section \<open>The end of an execution\<close>

datatype final_status = FinalSuccess | FinalError | FinalCanceled | FinalWaiting

record IRun =
  run_status :: final_status
  run_finished :: bool
  run_data :: run_state

definition processSuccessExecution :: "run_state \<Rightarrow> IRun" where
  "processSuccessExecution s =
     \<lparr>run_status = (case rs_error s of
        Some x \<Rightarrow> if contains ''canceled'' (error_text x) then FinalCanceled else FinalError
      | None \<Rightarrow> if rs_waitTill s then FinalWaiting else FinalSuccess),
      run_finished = (rs_error s = None \<and> \<not> rs_waitTill s),
      run_data = (case rs_error s of None \<Rightarrow> s | Some x \<Rightarrow> s\<lparr>rs_resultError := Some x\<rparr>)\<rparr>"

text \<open>\<open>None\<close> stands for a loop that does not end.\<close>

definition processRunExecutionData ::
    "run_env \<Rightarrow> (noderef \<Rightarrow> bool) \<Rightarrow> IDestinationNode option \<Rightarrow> run_state \<Rightarrow> IRun result option" where
  "processRunExecutionData env issues dest s =
     (case checkForWorkflowIssues env issues dest s of
        Inl x \<Rightarrow> Some (Inl x)
      | Inr _ \<Rightarrow>
          (case handleWaitingState env s of
             Inl x \<Rightarrow> Some (Inl x)
           | Inr (env', s') \<Rightarrow> map_option (map_sum (\<lambda>x. x) processSuccessExecution) (run_loop env' None s')))"

text \<open>A cancelled execution: runs under way are marked.\<close>

definition updateTaskStatusesToCancelled :: "IRunData \<Rightarrow> IRunData" where
  "updateTaskStatusesToCancelled runData = map (\<lambda>(n, runs). (n,
     map (\<lambda>t. if task_status t = Some TaskRunning then t\<lparr>task_status := Some TaskCanceled\<rparr> else t) runs)) runData"

end
