(* ===== verification/Run_Loop_Properties.thy ===== *)
theory Run_Loop_Properties
  imports Run_Loop_Termination Run_Execution
begin

text \<open>
  The properties of the run loop and of what it does with items, with a small workflow as witness: the
  trigger \<open>T\<close> feeds \<open>A\<close> and \<open>B\<close>, which feed the two inputs of \<open>M\<close>.
\<close>

section \<open>A workflow\<close>

definition diamond_names :: "string list" where
  "diamond_names = [''T'', ''A'', ''B'', ''M'']"

definition diamond_heap :: heap where
  "diamond_heap r = \<lparr>node_id = diamond_names ! r, node_name = diamond_names ! r, node_type = ''t'', typeVersion = 1,
     disabled = None, parameters = [], rewireOutputLogTo = None\<rparr>"

definition diamond :: Workflow where
  "diamond = newWorkflow diamond_heap [0, 1, 2, 3]
     [(''T'', [(Main, [Some [mk_conn ''A'' Main 0, mk_conn ''B'' Main 0]])]),
      (''A'', [(Main, [Some [mk_conn ''M'' Main 0]])]), (''B'', [(Main, [Some [mk_conn ''M'' Main 1]])])] None"

definition plain_settings :: "noderef \<Rightarrow> node_settings" where
  "plain_settings r = \<lparr>ns_position = (int r, int r), ns_retryOnFail = False, ns_maxTries = None,
     ns_alwaysOutputData = False, ns_continueOnFail = False, ns_onError = None, ns_executeOnce = False,
     ns_forceCustomOperation = None\<rparr>"

definition execute_type :: runtime_type where
  "execute_type = \<lparr>rt_execute = True, rt_poll = False, rt_trigger = False, rt_webhook = False, rt_supplyData = False,
     rt_requestDefaults = False, rt_customOperations = None, rt_outputs = [OutputName Main], rt_required = None,
     rt_inputs = InputList 1\<rparr>"

text \<open>Every node returns one item with its name.\<close>

definition name_item :: "string \<Rightarrow> INodeExecutionData" where
  "name_item n = json_item [(''name'', JStr n)]"

definition diamond_env :: run_env where
  "diamond_env = \<lparr>re_heap = diamond_heap, re_workflow = diamond, re_v1 = True, re_manual = True,
     re_settings = plain_settings, re_types = (\<lambda>r. Some execute_type), re_runNodeFilter = None, re_destination = None,
     re_call = (\<lambda>c s e its input ri response k. (Output (Some [Some [name_item (diamond_names ! ed_node e)]]), False)),
     re_pairedItem = (\<lambda>s e src p. Inr None)\<rparr>"

definition start_entry :: IExecuteData where
  "start_entry = \<lparr>ed_node = 0, ed_data = [(Main, [Some [empty_item]])], ed_source = None, ed_runIndex = None,
     ed_metadata = None\<rparr>"

definition diamond_start :: run_state where
  "diamond_start = fresh_state [start_entry] None 0"

lemma diamond_wf: "wf_workflow diamond_heap diamond" "main_to_main diamond"
  by code_simp+

lemma diamond_acyclic: "acyclic (main_child diamond)"
proof -
  let ?D = "connectionsBySourceNode diamond"
  have e: "set (map (\<lambda>(s, t, i, c). (conn_node c, s)) (edges_of ?D)) \<subseteq>
      {(''A'', ''T''), (''B'', ''T''), (''M'', ''A''), (''M'', ''B'')}"
    by code_simp
  have "main_child diamond \<subseteq> {(''A'', ''T''), (''B'', ''T''), (''M'', ''A''), (''M'', ''B'')}"
  proof
    fix p
    assume "p \<in> main_child diamond"
    then obtain i c where c: "c \<in> set (group_at ?D (snd p) Main i)" "conn_node c = fst p" by (auto simp: main_child_def)
    then have "(snd p, Main, i, c) \<in> set (edges_of ?D)"
      using edges_of_iff [OF wf_workflowD(3) [OF diamond_wf(1)]] by blast
    then have "p \<in> set (map (\<lambda>(s, t, i, c). (conn_node c, s)) (edges_of ?D))" using c(2) by (force simp: image_iff)
    then show "p \<in> {(''A'', ''T''), (''B'', ''T''), (''M'', ''A''), (''M'', ''B'')}" using e by blast
  qed
  also have "\<dots> \<subseteq> measure (\<lambda>n. if n = ''M'' then 0 else if n = ''T'' then 2 else 1 :: nat)" by simp
  finally show ?thesis using wf_acyclic wf_subset wf_measure by metis
qed

lemma diamond_loop_ok: "loop_ok diamond_env diamond_start"
  by (simp add: loop_ok_def diamond_start_def fresh_state_def waiting_ok_def no_nulls_def entries_main_def start_entry_def)

lemma diamond_no_requests: "no_requests diamond_env"
  by (simp add: no_requests_def diamond_env_def)

section \<open>The loop\<close>

text \<open>
  C1: In the execution order \<open>v1\<close> the run loop ends on every workflow without cycles, whatever the
  nodes return or throw, unless agents ask for tools; it ends with an error, or with an empty stack, a
  failed run or an execution that waits.
\<close>

theorem run_loop_terminates:
  assumes "wf_workflow (re_heap env) (re_workflow env)" "main_to_main (re_workflow env)" "re_v1 env"
    and "no_requests env" "acyclic (main_child (re_workflow env))" "loop_ok env s"
  shows "\<exists>r. run_loop env t s = Some r \<and> (\<forall>s'. r = Inr s' \<longrightarrow> stopped s')"
  using assms by (rule run_loop_total)

lemma run_loop_terminates_witness:
  "\<exists>r. run_loop diamond_env None diamond_start = Some r \<and> (\<forall>s'. r = Inr s' \<longrightarrow> stopped s')"
  by (rule run_loop_terminates)
    (simp_all add: diamond_env_def diamond_wf diamond_acyclic diamond_no_requests [unfolded diamond_env_def]
      diamond_loop_ok [unfolded diamond_env_def])

text \<open>The loop ends only like that, whatever the workflow.\<close>

lemma run_loop_stopped: "run_loop env t s = Some (Inr s') \<Longrightarrow> stopped s'"
proof -
  have "\<forall>s'. r = Inr s' \<longrightarrow> stopped s'" if h: "run_loop env t s = Some r" for r
  proof (rule run_loop.raw_induct [OF _ h, where P = "\<lambda>env t s r. \<forall>s'. r = Inr s' \<longrightarrow> stopped s'"])
    fix loop env t s r
    assume IH: "\<And>env t s r. loop env t s = Some r \<Longrightarrow> \<forall>s'. r = Inr s' \<longrightarrow> stopped s'"
      and body: "(case loop_once env t s of Inl x \<Rightarrow> Some (Inl x) | Inr (Done s', t) \<Rightarrow> Some (Inr s')
        | Inr (Again s', t) \<Rightarrow> loop env t s') = Some r"
    consider x where "loop_once env t s = Inl x" | s1 t1 where "loop_once env t s = Inr (Done s1, t1)"
      | s1 t1 where "loop_once env t s = Inr (Again s1, t1)"
      by (cases "loop_once env t s") (auto, metis loop_step.exhaust)
    then show "\<forall>s'. r = Inr s' \<longrightarrow> stopped s'"
    proof cases
      case (2 s1 t1)
      then show ?thesis using body loop_once_done [OF 2] by auto
    next
      case (3 s1 t1)
      then show ?thesis using body IH by simp
    qed (use body in auto)
  qed
  then show "run_loop env t s = Some (Inr s') \<Longrightarrow> stopped s'" by blast
qed

text \<open>
  C3: An execution that is reported as finished successfully has run everything that was queued: its
  stack is empty, the last run did not fail and no node put it to wait.
\<close>

theorem success_leaves_nothing:
  assumes "processRunExecutionData env issues dest s = Some (Inr r)" "run_status r = FinalSuccess"
  shows "nodeExecutionStack (run_data r) = [] \<and> rs_error (run_data r) = None \<and> \<not> rs_waitTill (run_data r) \<and>
    run_finished r"
proof -
  obtain env' s1 s' where "run_loop env' None s1 = Some (Inr s')" and r: "r = processSuccessExecution s'"
  proof -
    obtain env' s1 where h: "handleWaitingState env s = Inr (env', s1)"
      "map_option (map_sum (\<lambda>x. x) processSuccessExecution) (run_loop env' None s1) = Some (Inr r)"
      using assms(1) by (auto simp: processRunExecutionData_def split: sum.splits prod.splits)
    then obtain q where q: "run_loop env' None s1 = Some q" "map_sum (\<lambda>x. x) processSuccessExecution q = Inr r" by auto
    then show ?thesis by (cases q) (use that in auto)
  qed
  from run_loop_stopped [OF this(1)] have st: "stopped s'" .
  have "rs_error s' = None" "\<not> rs_waitTill s'"
    using assms(2) by (auto simp: r processSuccessExecution_def split: option.splits if_splits)
  then show ?thesis using st by (simp add: r processSuccessExecution_def stopped_def)
qed

definition last_start :: run_state where
  "last_start = fresh_state [start_entry\<lparr>ed_node := 3\<rparr>] None 0"

lemma success_leaves_nothing_witness:
  "nodeExecutionStack (run_data (projr (the (processRunExecutionData diamond_env (\<lambda>r. False) None last_start)))) = []"
proof -
  let ?x = "processRunExecutionData diamond_env (\<lambda>r. False) None last_start"
  have "(case ?x of Some (Inr r) \<Rightarrow> run_status r = FinalSuccess | _ \<Rightarrow> False)" by code_simp
  then obtain r where r: "?x = Some (Inr r)" "run_status r = FinalSuccess" by (auto split: option.splits sum.splits)
  from success_leaves_nothing [OF r] show ?thesis by (simp add: r(1))
qed

section \<open>Calls of a node\<close>

definition retry_env :: run_env where
  "retry_env = diamond_env\<lparr>
     re_settings := (\<lambda>r. (plain_settings r)\<lparr>ns_retryOnFail := True, ns_maxTries := Some 2\<rparr>),
     re_call := (\<lambda>c s e its input ri response k.
       (if k = 1 then Throws (NodeError ''failed'') else Output (Some [Some [json_item [(''error'', JStr ''failed'')]]]), False))\<rparr>"

lemma retry_calls:
  "max_tries (re_settings retry_env 0) = 2"
  "at_calls (run_tries retry_env start_entry 0 (first_attempt retry_env start_entry diamond_start)) = 3"
  by code_simp+

text \<open>
  C7: A node has between one and five tries, and running an entry calls it less than twice as often as
  it has tries, so at most once without retries. The bound is reached: with two tries, a node that
  reports an error, throws when it is called again and reports an error again is called three times.
\<close>

theorem node_calls_bounded:
  "1 \<le> max_tries (re_settings env (ed_node e)) \<and> max_tries (re_settings env (ed_node e)) \<le> 5 \<and>
   at_calls (run_tries env e runIndex (first_attempt env e s)) \<le> 2 * max_tries (re_settings env (ed_node e)) - 1 \<and>
   max_tries (re_settings retry_env 0) = 2 \<and>
   at_calls (run_tries retry_env start_entry 0 (first_attempt retry_env start_entry diamond_start)) = 3"
  using max_tries_bounds [of "re_settings env (ed_node e)"] first_attempt_calls [of env e runIndex s] retry_calls by simp

section \<open>Handing data on\<close>

text \<open>
  C2: In the execution order \<open>v1\<close>, handing an output to a node with one or several inputs neither loses
  nor repeats data, provided the waiting entries of the node are numbered without a gap, that is, their
  number is not the index of one: the items queued or waiting are those of before and the output, and the
  waiting tables keep their shape. With a gap, which the code can leave, data is lost (Theorem
  \<open>waiting_data_overwritten\<close>).
\<close>

theorem handing_on_keeps_data:
  assumes "wf_workflow h w" "main_to_main w" "c \<in> set (group_at (connectionsBySourceNode w) n Main i)"
    and "waiting_ok w s" "no_nulls (rs_runData s)" "no_gap (old_waits (conn_node c) s)" "array_get d i = Some its"
  shows "\<exists>s'. addNodeToBeExecuted h w True c i n (Some d) ri None None s = Inr s' \<and> waiting_ok w s' \<and>
    handed_on h s' = add_mset (conn_node c, conn_index c, its) (handed_on h s)"
proof -
  obtain r where r: "getNode w (conn_node c) = Some r" "node_name (h r) = conn_node c"
    using main_connection(3) [OF assms(1-3)] by blast
  show ?thesis
    using add_node_v1 [where h = h, OF assms(4) r main_connection(1) [OF assms(1-3)] assms(5)
        siblings_ok_child [OF assms(1-3)] assms(7)] assms(6) by blast
qed

lemma handing_on_keeps_data_witness:
  "\<exists>s'. addNodeToBeExecuted diamond_heap diamond True (mk_conn ''M'' Main 1) 0 ''B'' (Some [Some [empty_item]]) 0 None None
     (fresh_state [] None 0) = Inr s' \<and> handed_on diamond_heap s' = {#(''M'', 1, [empty_item])#}"
proof -
  have "mk_conn ''M'' Main 1 \<in> set (group_at (connectionsBySourceNode diamond) ''B'' Main 0)"
    "array_get [Some [empty_item]] 0 = Some [empty_item]" by code_simp+
  moreover have "waiting_ok diamond (fresh_state [] None 0)" "no_nulls (rs_runData (fresh_state [] None 0))"
    "no_gap (old_waits (conn_node (mk_conn ''M'' Main 1)) (fresh_state [] None 0))"
    "handed_on diamond_heap (fresh_state [] None 0) = {#}" "conn_node (mk_conn ''M'' Main 1) = ''M''"
    "conn_index (mk_conn ''M'' Main 1) = 1"
    by (simp_all add: fresh_state_def waiting_ok_def no_nulls_def no_gap_def old_waits_def or_empty_def handed_on_def mk_conn_def)
  ultimately show ?thesis
    using handing_on_keeps_data [OF diamond_wf, of "mk_conn ''M'' Main 1" "''B''" 0 "fresh_state [] None 0" "[Some [empty_item]]"
      "[empty_item]" 0] by auto
qed

text \<open>
  With a gap data is lost: when a node waits twice and its first entry is completed, the next data
  for the input that the second entry has takes the number of that entry and replaces it.
\<close>

definition hand_to_merge :: "nat \<Rightarrow> string \<Rightarrow> run_state \<Rightarrow> run_state result" where
  "hand_to_merge input tag s = addNodeToBeExecuted diamond_heap diamond True (mk_conn ''M'' Main input) 0
     (if input = 0 then ''A'' else ''B'') (Some [Some [name_item tag]]) 0 None None s"

theorem waiting_data_overwritten:
  "map_sum (\<lambda>x. x) (handed_on diamond_heap)
     (rbind (hand_to_merge 0 ''a1'' (fresh_state [] None 0)) (\<lambda>s.
      rbind (hand_to_merge 0 ''a2'' s) (\<lambda>s. rbind (hand_to_merge 1 ''b1'' s) (hand_to_merge 0 ''a3'')))) =
   Inr {#(''M'', 0, [name_item ''a1'']), (''M'', 1, [name_item ''b1'']), (''M'', 0, [name_item ''a3''])#}"
  by code_simp

text \<open>The children of a node with one input each are stacked from the top left.\<close>

definition before_position :: "run_env \<Rightarrow> nat \<times> IConnection \<Rightarrow> nat \<times> IConnection \<Rightarrow> bool" where
  "before_position env a b \<longleftrightarrow>
     (let (ax, ay) = child_position env (snd a); (bx, by) = child_position env (snd b) in ay < by \<or> ay = by \<and> ax \<le> bx)"

definition child_entry :: "run_env \<Rightarrow> string \<Rightarrow> items option list \<Rightarrow> nat \<Rightarrow> nat \<times> IConnection \<Rightarrow> IExecuteData" where
  "child_entry env name data ri p = single_entry (the (getNode (re_workflow env) (conn_node (snd p)))) (snd p)
     (array_get data (fst p)) (source_of name (fst p) ri) None None"

lemma hand_on_single:
  assumes "re_v1 env" "\<not> 1 < length (node_inputs (re_workflow env) (conn_node (snd p)))"
    and "getNode (re_workflow env) (conn_node (snd p)) \<noteq> None"
  shows "hand_on env name data ri p s =
    Inr (s\<lparr>nodeExecutionStack := child_entry env name data ri p # nodeExecutionStack s\<rparr>)"
  using add_single [OF assms(2), of _ "re_heap env" True] assms
  by (auto simp: hand_on_def child_entry_def enqueue_entry_def output_data_def)

lemma hand_on_singles:
  assumes "re_v1 env" "\<And>p. p \<in> set ps \<Longrightarrow> \<not> 1 < length (node_inputs (re_workflow env) (conn_node (snd p)))"
    and "\<And>p. p \<in> set ps \<Longrightarrow> getNode (re_workflow env) (conn_node (snd p)) \<noteq> None"
  shows "rfold (hand_on env name data ri) ps s =
    Inr (s\<lparr>nodeExecutionStack := rev (map (child_entry env name data ri) ps) @ nodeExecutionStack s\<rparr>)"
  using assms(2,3)
proof (induction ps arbitrary: s)
  case (Cons p ps)
  have "hand_on env name data ri p s =
      Inr (s\<lparr>nodeExecutionStack := child_entry env name data ri p # nodeExecutionStack s\<rparr>)"
    by (rule hand_on_single [OF assms(1)]) (use Cons.prems in auto)
  then show ?case using Cons by simp
qed simp

text \<open>
  C4: In the execution order \<open>v1\<close>, after a node whose children have one input each, the children that get
  data are on top of the stack, each connection once, ordered by their position from the top and then from
  the left. (In the older order they are queued in the order of the connections.)
\<close>

theorem children_top_left_first:
  assumes "wf_workflow (re_heap env) (re_workflow env)" "main_to_main (re_workflow env)" "re_v1 env"
    and single: "\<And>i c. (i, c) \<in> set (child_conns (re_workflow env) name) \<Longrightarrow>
      \<not> 1 < length (node_inputs (re_workflow env) (conn_node c))"
  shows "\<exists>ps. add_children env name data ri s =
      Inr (s\<lparr>nodeExecutionStack := map (child_entry env name data ri) ps @ nodeExecutionStack s\<rparr>) \<and>
    mset ps = mset (filter (\<lambda>(i, c). takes_output True data i c) (child_conns (re_workflow env) name)) \<and>
    sorted_wrt (before_position env) ps"
proof -
  let ?conns = "child_conns (re_workflow env) name"
  let ?fs = "filter (\<lambda>(i, c). takes_output True data i c) ?conns"
  let ?ps = "js_sort (position_order env) ?fs"
  have node: "getNode (re_workflow env) (conn_node c) \<noteq> None" if "(i, c) \<in> set ?conns" for i c
    using main_connection(3) [OF assms(1,2)] that by (fastforce simp: child_conns_iff)
  have "rfold (\<lambda>(i, c) u. check_target env c) ?conns () = Inr ()"
    by (rule rfold_same) (use node in \<open>auto simp: check_target_def\<close>)
  moreover have "rfold (hand_on env name data ri) ?ps s =
      Inr (s\<lparr>nodeExecutionStack := rev (map (child_entry env name data ri) ?ps) @ nodeExecutionStack s\<rparr>)"
    by (rule hand_on_singles [OF assms(3)]) (use single node in auto)
  ultimately have a: "add_children env name data ri s =
      Inr (s\<lparr>nodeExecutionStack := map (child_entry env name data ri) (rev ?ps) @ nodeExecutionStack s\<rparr>)"
    using assms(3) by (simp add: add_children_def rev_map)
  have "sorted_wrt (\<lambda>a b. before_position env b a) ?ps"
    by (rule js_sort_sorted)
      (auto simp: before_position_def position_order_def Let_def split: prod.splits if_splits)
  then have "sorted_wrt (before_position env) (rev ?ps)" by (simp add: sorted_wrt_rev)
  then show ?thesis using a by (intro exI [of _ "rev ?ps"]) simp
qed

lemma children_top_left_first_witness:
  "\<exists>ps. add_children diamond_env ''T'' [Some [empty_item]] 0 diamond_start =
      Inr (diamond_start\<lparr>nodeExecutionStack :=
        map (child_entry diamond_env ''T'' [Some [empty_item]] 0) ps @ nodeExecutionStack diamond_start\<rparr>) \<and>
    mset ps = {#(0, mk_conn ''A'' Main 0), (0, mk_conn ''B'' Main 0)#} \<and> sorted_wrt (before_position diamond_env) ps"
proof -
  have w: "re_workflow diamond_env = diamond" "re_heap diamond_env = diamond_heap" "re_v1 diamond_env"
    by (simp_all add: diamond_env_def)
  have c: "child_conns diamond ''T'' = [(0, mk_conn ''A'' Main 0), (0, mk_conn ''B'' Main 0)]"
    "length (node_inputs diamond ''A'') = 1" "length (node_inputs diamond ''B'') = 1"
    "takes_output True [Some [empty_item]] 0 (mk_conn ''A'' Main 0)"
    "takes_output True [Some [empty_item]] 0 (mk_conn ''B'' Main 0)" by code_simp+
  let ?data = "[Some [empty_item]]"
  have "\<exists>ps. add_children diamond_env ''T'' ?data 0 diamond_start =
      Inr (diamond_start\<lparr>nodeExecutionStack := map (child_entry diamond_env ''T'' ?data 0) ps @ nodeExecutionStack diamond_start\<rparr>) \<and>
    mset ps = mset (filter (\<lambda>(i, c). takes_output True ?data i c) (child_conns (re_workflow diamond_env) ''T'')) \<and>
    sorted_wrt (before_position diamond_env) ps"
  proof (rule children_top_left_first)
    show "\<not> 1 < length (node_inputs (re_workflow diamond_env) (conn_node x))"
      if "(i, x) \<in> set (child_conns (re_workflow diamond_env) ''T'')" for i x
      using that c by (auto simp: w mk_conn_def)
  qed (simp_all add: w diamond_wf)
  then show ?thesis using c(1,4,5) by (simp add: w)
qed

end
