(* ===== verification/Run_Items_Properties.thy ===== *)
theory Run_Items_Properties
  imports Run_Loop_Properties
begin

text \<open>
  Properties of what happens around a run: the error output, the requests of agents, the resumption of
  an execution that waited, and an error in the last node.
\<close>

section \<open>The error output\<close>

definition items_at :: "items option list \<Rightarrow> nat \<Rightarrow> items" where
  "items_at data i = (case array_get data i of None \<Rightarrow> [] | Some its \<Rightarrow> its)"

definition main_outputs :: "run_env \<Rightarrow> noderef \<Rightarrow> runtime_type \<Rightarrow> nat" where
  "main_outputs env r nt = length (filter (\<lambda>t. t = Main) (getConnectionTypes (getNodeOutputs env r nt)))"

lemma split_errors_all:
  "(\<And>item. item \<in> set its \<Longrightarrow> error_item item \<Longrightarrow> f item = Inr (g item)) \<Longrightarrow>
    split_errors f its = (filter (\<lambda>x. \<not> error_item x) its, map g (filter error_item its), None)"
  by (induction its) simp_all

lemma split_outputs_all:
  assumes "distinct is'" "\<And>i item. i \<in> set is' \<Longrightarrow> item \<in> set (items_at data i) \<Longrightarrow> error_item item \<Longrightarrow> f item = Inr (g item)"
  shows "\<exists>data'. split_outputs f is' data errs =
      (data', errs @ concat (map (\<lambda>i. map g (filter error_item (items_at data i))) is'), None) \<and>
    (\<forall>i. array_get data' i = (if i \<in> set is' then Some (filter (\<lambda>x. \<not> error_item x) (items_at data i)) else array_get data i))"
  using assms
proof (induction is' arbitrary: data errs)
  case (Cons i is')
  let ?good = "filter (\<lambda>x. \<not> error_item x) (items_at data i)"
  let ?data = "array_put i (Some ?good) data"
  have s: "split_errors f (items_at data i) = (?good, map g (filter error_item (items_at data i)), None)"
    by (rule split_errors_all) (rule Cons.prems(2), simp_all)
  have at: "array_get ?data j = (if i = j then Some ?good else array_get data j)" for j by (rule array_get_put)
  then have same: "items_at ?data j = items_at data j" if "j \<in> set is'" for j
    using that Cons.prems(1) by (auto simp: items_at_def)
  obtain data' where d: "split_outputs f is' ?data (errs @ map g (filter error_item (items_at data i))) =
      (data', (errs @ map g (filter error_item (items_at data i))) @
        concat (map (\<lambda>i. map g (filter error_item (items_at ?data i))) is'), None)"
    "\<forall>j. array_get data' j = (if j \<in> set is' then Some (filter (\<lambda>x. \<not> error_item x) (items_at ?data j)) else array_get ?data j)"
    using Cons.IH [of ?data] Cons.prems same by (metis (no_types, lifting) distinct.simps(2) list.set_intros(2))
  have "split_outputs f (i # is') data errs = split_outputs f is' ?data (errs @ map g (filter error_item (items_at data i)))"
    using s by (simp add: items_at_def)
  moreover have "map (\<lambda>i. map g (filter error_item (items_at ?data i))) is' = map (\<lambda>i. map g (filter error_item (items_at data i))) is'"
    using same by simp
  moreover have "array_get data' j = (if j \<in> set (i # is') then Some (filter (\<lambda>x. \<not> error_item x) (items_at data j)) else array_get data j)" for j
    using d(2) at same Cons.prems(1) by auto
  ultimately show ?case using d(1) by simp
qed simp

text \<open>
  C5: Splitting the error output neither loses nor repeats items: every other main output keeps its
  items without an error in their order, and the last output gets the error items of all of them, each
  with the JSON of the item it stems from.
\<close>

theorem error_output_splits:
  assumes "re_types env (ed_node e) = Some nt" "n = main_outputs env (ed_node e) nt"
    and "\<And>i item. i < n - 1 \<Longrightarrow> item \<in> set (items_at data i) \<Longrightarrow> error_item item \<Longrightarrow> with_origin env s e item = Inr (g item)"
  shows "\<exists>data'. handleNodeErrorOutput env s e data = (data', None) \<and>
    (\<forall>i < n - 1. array_get data' i = Some (filter (\<lambda>x. \<not> error_item x) (items_at data i))) \<and>
    array_get data' (n - 1) = Some (concat (map (\<lambda>i. map g (filter error_item (items_at data i))) [0..<n - 1]))"
proof -
  obtain data' where d: "split_outputs (with_origin env s e) [0..<n - 1] data [] =
      (data', concat (map (\<lambda>i. map g (filter error_item (items_at data i))) [0..<n - 1]), None)"
    "\<forall>i. array_get data' i = (if i \<in> set [0..<n - 1] then Some (filter (\<lambda>x. \<not> error_item x) (items_at data i)) else array_get data i)"
    using split_outputs_all [of "[0..<n - 1]" data "with_origin env s e" g "[]"] assms(3) by auto
  have "handleNodeErrorOutput env s e data = (array_put (n - 1)
      (Some (concat (map (\<lambda>i. map g (filter error_item (items_at data i))) [0..<n - 1]))) data', None)"
    using d(1) assms(1,2) by (simp add: handleNodeErrorOutput_def main_outputs_def Let_def)
  then show ?thesis using d(2) by (simp add: array_get_put)
qed

definition failing_item :: INodeExecutionData where
  "failing_item = json_item [(''error'', JStr ''failed'')]"

definition error_env :: run_env where
  "error_env = diamond_env\<lparr>re_settings := (\<lambda>r. (plain_settings r)\<lparr>ns_onError := Some ''continueErrorOutput''\<rparr>)\<rparr>"

lemma error_output_splits_witness:
  "\<exists>data'. handleNodeErrorOutput error_env diamond_start start_entry [Some [failing_item, empty_item]] = (data', None) \<and>
    array_get data' 0 = Some [empty_item] \<and> array_get data' 1 = Some [failing_item]"
proof -
  let ?data = "[Some [failing_item, empty_item]]"
  have t: "re_types error_env (ed_node start_entry) = Some execute_type" by code_simp
  have n: "2 = main_outputs error_env (ed_node start_entry) execute_type" by code_simp
  have o: "with_origin error_env diamond_start start_entry item = Inr item" for item
    by (simp add: with_origin_def start_entry_def)
  have i: "items_at ?data 0 = [failing_item, empty_item]" "error_item failing_item" "\<not> error_item empty_item"
    by code_simp+
  show ?thesis
    using error_output_splits [of error_env start_entry execute_type 2 ?data diamond_start "\<lambda>x. x", OF t n o] i
    by (simp add: upt_conv_Cons)
qed

section \<open>Requests of agents\<close>

definition runs_of :: "run_state \<Rightarrow> string \<Rightarrow> ITaskData list" where
  "runs_of s n = or_empty (map_of (rs_runData s) n)"

definition placeholder :: "run_state \<Rightarrow> node_to_execute \<Rightarrow> bool" where
  "placeholder s n \<longleftrightarrow> ne_nodeRunIndex n < length (runs_of s (conn_node (ne_connection n))) \<and>
     task_data (runs_of s (conn_node (ne_connection n)) ! ne_nodeRunIndex n) = None \<and>
     task_inputOverride (runs_of s (conn_node (ne_connection n)) ! ne_nodeRunIndex n) \<noteq> None"

definition runs_extend :: "run_state \<Rightarrow> run_state \<Rightarrow> bool" where
  "runs_extend s s' \<longleftrightarrow> (\<forall>n. \<exists>xs. runs_of s' n = runs_of s n @ xs)"

lemma runs_extend_trans: "runs_extend s t \<Longrightarrow> runs_extend t u \<Longrightarrow> runs_extend s u"
  unfolding runs_extend_def by (metis append.assoc)

lemma runs_extend_length: "runs_extend s s' \<Longrightarrow> length (runs_of s n) \<le> length (runs_of s' n)"
  unfolding runs_extend_def by (metis le_add1 length_append)

lemma placeholder_extend: "placeholder s n \<Longrightarrow> runs_extend s s' \<Longrightarrow> placeholder s' n"
  unfolding placeholder_def runs_extend_def by (metis nth_append trans_less_add1 length_append)

lemma prepare_action_spec:
  assumes w: "wf_workflow (re_heap env) (re_workflow env)" and p: "prepare_action env e ri a s = Inr (n, sub, s')"
  shows "conn_node (ne_connection n) = ea_nodeName a \<and> ne_nodeRunIndex n = length (runs_of s (ea_nodeName a)) \<and>
    sa_runIndex sub = ne_nodeRunIndex n \<and> sa_nodeName sub = ea_nodeName a \<and> runs_extend s s' \<and> placeholder s' n"
proof -
  obtain r where r: "getNode (re_workflow env) (ea_nodeName a) = Some r"
    using p by (auto simp: prepare_action_def split: option.splits)
  have "node_name (re_heap env r) = ea_nodeName a" by (rule getNode_name [OF w r])
  then show ?thesis
    using p r
    by (auto simp: prepare_action_def initializeNodeRunData_def Let_def runs_of_def runs_extend_def placeholder_def
        jsobj.lookup_put or_empty_def mk_conn_def)
qed

lemma prepare_requested_spec:
  assumes w: "wf_workflow (re_heap env) (re_workflow env)"
  shows "prepareRequestedNodesForExecution env e ri as' s = (Inr (nodes, subs), s') \<Longrightarrow>
    map (\<lambda>n. conn_node (ne_connection n)) nodes = map ea_nodeName as' \<and>
    map (\<lambda>b. (sa_nodeName b, sa_runIndex b)) subs = map (\<lambda>n. (conn_node (ne_connection n), ne_nodeRunIndex n)) nodes \<and>
    runs_extend s s' \<and> (\<forall>n \<in> set nodes. placeholder s' n) \<and>
    (\<forall>n \<in> set nodes. length (runs_of s (conn_node (ne_connection n))) \<le> ne_nodeRunIndex n) \<and>
    distinct (map (\<lambda>n. (conn_node (ne_connection n), ne_nodeRunIndex n)) nodes)"
proof (induction as' arbitrary: s nodes subs)
  case Nil
  then show ?case by (simp add: runs_extend_def)
next
  case (Cons a as')
  obtain n sub s1 where p: "prepare_action env e ri a s = Inr (n, sub, s1)"
    using Cons.prems by (cases "prepare_action env e ri a s") auto
  obtain ns bs where q: "prepareRequestedNodesForExecution env e ri as' s1 = (Inr (ns, bs), s')"
    and eq: "nodes = n # ns" "subs = sub # bs"
    using Cons.prems p by (auto split: prod.splits sum.splits)
  note 1 = prepare_action_spec [OF w p] and 2 = Cons.IH [OF q]
  have "(conn_node (ne_connection n), ne_nodeRunIndex n) \<noteq> (conn_node (ne_connection m), ne_nodeRunIndex m)" if "m \<in> set ns" for m
  proof
    assume "(conn_node (ne_connection n), ne_nodeRunIndex n) = (conn_node (ne_connection m), ne_nodeRunIndex m)"
    moreover have "length (runs_of s1 (conn_node (ne_connection m))) \<le> ne_nodeRunIndex m" using 2 that by blast
    moreover have "ne_nodeRunIndex n < length (runs_of s1 (conn_node (ne_connection n)))" using 1 unfolding placeholder_def by blast
    ultimately show False by simp
  qed
  then have "distinct (map (\<lambda>n. (conn_node (ne_connection n), ne_nodeRunIndex n)) nodes)" using 2 eq(1) by auto
  moreover have "length (runs_of s (conn_node (ne_connection m))) \<le> ne_nodeRunIndex m" if "m \<in> set nodes" for m
  proof (cases "m = n")
    case True
    then show ?thesis using 1 by simp
  next
    case False
    then have "length (runs_of s1 (conn_node (ne_connection m))) \<le> ne_nodeRunIndex m" using 2 that eq(1) by simp
    moreover have "length (runs_of s (conn_node (ne_connection m))) \<le> length (runs_of s1 (conn_node (ne_connection m)))"
      using 1 runs_extend_length by blast
    ultimately show ?thesis by simp
  qed
  moreover have "\<forall>m \<in> set nodes. placeholder s' m" using 1 2 eq(1) placeholder_extend by auto
  moreover have "runs_extend s s'" using 1 2 runs_extend_trans by blast
  ultimately show ?case using 1 2 eq by simp
qed

text \<open>
  When an agent asks for tools that exist, each tool is queued with a run index of its own, at which
  its run data hold a run with the input shown for it and no data yet; earlier runs stay, and the agent
  is told the same indexes.
\<close>

theorem requested_tools_reserved:
  assumes "wf_workflow (re_heap env) (re_workflow env)"
    and "prepareRequestedNodesForExecution env e runIndex actions s = (Inr (nodes, subs), s')"
  shows "map (\<lambda>n. conn_node (ne_connection n)) nodes = map ea_nodeName actions \<and>
    map (\<lambda>b. (sa_nodeName b, sa_runIndex b)) subs = map (\<lambda>n. (conn_node (ne_connection n), ne_nodeRunIndex n)) nodes \<and>
    distinct (map (\<lambda>n. (conn_node (ne_connection n), ne_nodeRunIndex n)) nodes) \<and>
    (\<forall>n \<in> set nodes. placeholder s' n) \<and> runs_extend s s'"
  using prepare_requested_spec [OF assms] by simp

definition tool_action :: "string \<Rightarrow> engine_action" where
  "tool_action i = \<lparr>ea_nodeName = ''B'', ea_input = [], ea_type = AiTool, ea_id = i, ea_parentNodeName = None, ea_itemIndex = None\<rparr>"

lemma requested_tools_reserved_witness:
  "\<exists>nodes subs s'. prepareRequestedNodesForExecution diamond_env start_entry 0 [tool_action ''1'', tool_action ''2''] diamond_start =
      (Inr (nodes, subs), s') \<and> distinct (map (\<lambda>n. (conn_node (ne_connection n), ne_nodeRunIndex n)) nodes) \<and> length nodes = 2"
proof -
  let ?x = "prepareRequestedNodesForExecution diamond_env start_entry 0 [tool_action ''1'', tool_action ''2''] diamond_start"
  have "isl (fst ?x) = False" by code_simp
  then obtain q where q: "fst ?x = Inr q" by (cases "fst ?x") (auto simp del: prepareRequestedNodesForExecution.simps)
  obtain nodes subs where "q = (nodes, subs)" by (cases q)
  then have x: "?x = (Inr (nodes, subs), snd ?x)" using q by (metis prod.collapse)
  have "wf_workflow (re_heap diamond_env) (re_workflow diamond_env)" using diamond_wf by (simp add: diamond_env_def)
  from requested_tools_reserved [OF this x]
  have d: "map (\<lambda>n. conn_node (ne_connection n)) nodes = map ea_nodeName [tool_action ''1'', tool_action ''2'']"
    "distinct (map (\<lambda>n. (conn_node (ne_connection n), ne_nodeRunIndex n)) nodes)" by blast+
  from arg_cong [OF d(1), of length] have "length nodes = 2" by simp
  then show ?thesis using x d(2) by blast
qed

section \<open>Resuming an execution that waited\<close>

text \<open>
  C6: A run that put the execution to wait leaves no trace when the execution is resumed: its run data
  are those from before the run, the execution does not wait any more, and the node, first on the
  stack, passes its input on instead of being called again.
\<close>

theorem waiting_run_resumes:
  assumes "finish_run env e runIndex task data origin s = Inr (Done s')"
    and "rs_lastNodeExecuted s = Some (entry_name env e)" "runIndex = length (or_empty (map_of (rs_runData s) (entry_name env e)))"
  shows "\<exists>env2 s2 e2 stack. handleWaitingState env s' = Inr (env2, s2) \<and> \<not> rs_waitTill s2 \<and>
    rs_runData s2 = obj_put (entry_name env e) (or_empty (map_of (rs_runData s) (entry_name env e))) (rs_runData s) \<and>
    nodeExecutionStack s2 = e2 # stack \<and> stack = nodeExecutionStack s \<and> ed_node e2 = ed_node e \<and>
    (\<forall>ri response k. runNode env2 s2 e2 ri response k = (handleDisabledNode (ed_data e2), False))"
proof -
  let ?n = "entry_name env e" and ?rd = "rs_runData s"
  obtain outputs e2 where w: "rs_waitTill s'" "nodeExecutionStack s' = e2 # nodeExecutionStack s" "ed_node e2 = ed_node e"
      "rs_runData s' = record_task ?n runIndex (with_output env e runIndex outputs s task) ?rd" "rs_lastNodeExecuted s' = rs_lastNodeExecuted s"
    using assms(1)
    by (auto simp: finish_run_def Let_def result_simps write_pinned_def write_input_def split: option.splits if_splits list.splits)
  let ?t = "with_output env e runIndex outputs s task"
  have rd: "rs_runData s' = obj_put ?n (or_empty (map_of ?rd ?n) @ [?t]) ?rd"
    using w(4) assms(3) by (simp add: record_task_def Let_def)
  let ?env = "env\<lparr>re_heap := disable_node (ed_node e2) (re_heap env)\<rparr>"
  let ?s = "s'\<lparr>rs_waitTill := False, rs_runData := obj_put ?n (or_empty (map_of ?rd ?n)) ?rd\<rparr>"
  have "handleWaitingState env s' = Inr (?env, ?s)"
    using w(1,2,5) assms(2) rd by (simp add: handleWaitingState_def jsobj.lookup_put obj_put_twice)
  moreover have "runNode ?env ?s e2 ri response k = (handleDisabledNode (ed_data e2), False)" for ri response k
    by (simp add: runNode_def disable_node_def is_disabled_def)
  ultimately show ?thesis using w(2,3) by (intro exI [of _ ?env] exI [of _ ?s] exI [of _ e2] exI) simp
qed

definition waiting_start :: run_state where
  "waiting_start = diamond_start\<lparr>nodeExecutionStack := [], rs_waitTill := True, rs_lastNodeExecuted := Some ''T''\<rparr>"

lemma waiting_run_resumes_witness:
  "\<exists>s' env2 s2. finish_run diamond_env start_entry 0 (task_started start_entry 0 waiting_start) (Some [Some [empty_item]]) FreshItems
      waiting_start = Inr (Done s') \<and> handleWaitingState diamond_env s' = Inr (env2, s2) \<and> rs_runData s2 = [(''T'', [])]"
proof -
  let ?x = "finish_run diamond_env start_entry 0 (task_started start_entry 0 waiting_start) (Some [Some [empty_item]]) FreshItems waiting_start"
  have "(case ?x of Inr (Done s') \<Rightarrow> True | _ \<Rightarrow> False)" by code_simp
  then obtain s' where x: "?x = Inr (Done s')" by (auto split: sum.splits loop_step.splits)
  have l: "rs_lastNodeExecuted waiting_start = Some (entry_name diamond_env start_entry)"
    "0 = length (or_empty (map_of (rs_runData waiting_start) (entry_name diamond_env start_entry)))"
    "obj_put (entry_name diamond_env start_entry) (or_empty (map_of (rs_runData waiting_start) (entry_name diamond_env start_entry)))
      (rs_runData waiting_start) = [(''T'', [])]" by code_simp+
  show ?thesis using waiting_run_resumes [OF x l(1,2)] x l(3) by metis
qed

section \<open>An error in the last node\<close>

definition continue_env :: run_env where
  "continue_env = diamond_env\<lparr>
     re_settings := (\<lambda>r. (plain_settings r)\<lparr>ns_onError := Some ''continueRegularOutput''\<rparr>),
     re_call := (\<lambda>c s e its input ri response k. (Throws (NodeError ''failed''), False))\<rparr>"

text \<open>
  A node that is set to continue on an error makes the execution fail if it is the last one to run:
  its input is passed on and the stack is empty, but the error is still the one of the execution.
\<close>

theorem continued_error_fails_execution:
  "continues_on_error (re_settings continue_env 3) \<and>
   map_option (map_sum (\<lambda>x. x) (\<lambda>r. (run_status r, run_finished r, nodeExecutionStack (run_data r),
     map task_status (runs_of (run_data r) ''M''))))
     (processRunExecutionData continue_env (\<lambda>r. False) None last_start) =
   Some (Inr (FinalError, False, [], [Some TaskError]))"
  by code_simp

end
