(* ===== verification/Task_Broker.thy ===== *)
theory Task_Broker
  imports N8n_Prelude
begin

text \<open>
  \<open>TaskBroker\<close> of \<open>packages/cli/src/task-runners/task-broker/task-broker.service.ts\<close>: it matches the
  offers of task runners with the requests of the workflows that have code to run, and passes the
  messages of the tasks on.

  Request objects are shared, so a request is its position in a table of all requests made. The
  asynchronous \<open>acceptOffer\<close> is a table of the calls under way, by task identifier, each with the
  promise it awaits; settling the promise and continuing are steps of their own. Messages are the
  effects an operation returns. Contents that are only passed on are numbers. A timer is a flag of
  its object, and its firing an operation. \<open>nanoid n\<close> is the identifier that the \<open>n\<close>-th call of the
  library function draws. Logging is left out.
\<close>

section \<open>Data\<close>

type_synonym payload = nat

record TaskRunner =
  tr_id :: string
  tr_name :: "string option"
  tr_taskTypes :: "string list"

record Task =
  tk_id :: string
  tk_runnerId :: string
  tk_requesterId :: string
  tk_taskType :: string
  tk_timeout :: bool

record TaskOffer =
  of_offerId :: string
  of_runnerId :: string
  of_taskType :: string
  of_validFor :: int
  of_validUntil :: int

record TaskRequest =
  tq_requestId :: string
  tq_requesterId :: string
  tq_taskType :: string
  tq_timeout :: bool
  tq_acceptInProgress :: bool

text \<open>What a promise is rejected with; \<open>RequesterTimedOut\<close> is the string of the second timer.\<close>

datatype reject_reason =
    TaskRejectError string
  | TaskDeferredError
  | TaskRunnerAcceptTimeoutError
  | RequesterTimedOut

datatype 'a js_promise = Unsettled | Resolved 'a | Rejected reject_reason

text \<open>Where a call of \<open>acceptOffer\<close> waits.\<close>

datatype accept_stage =
    AwaitRunner "unit js_promise"
  | AwaitRequester "payload js_promise"
  | HaveRunner TaskRunner payload

record acceptance =
  aq_offer :: TaskOffer
  aq_request :: nat
  aq_stage :: accept_stage

text \<open>The messages the service sends (the socket server adds two of its own) and receives.\<close>

datatype task_failure = Failure js_error | ExecutionTimeout | Reported payload

datatype broker_to_runner =
    RunnerRegistered
  | TaskOfferAccept string string
  | TaskCancel string string
  | TaskSettings string payload
  | RpcResponse string string payload payload
  | TaskDataResponse string string payload
  | NodeTypes string string payload

datatype broker_to_requester =
    TaskReady string string
  | TaskDone string payload
  | TaskFailed string task_failure
  | RequestExpired string string
  | TaskDataRequest string string payload
  | NodeTypesRequest string string payload
  | Rpc string string string payload

datatype runner_to_broker =
    RunnerInfo
  | TaskAccepted string
  | TaskRejected string string
  | TaskDeferred string
  | RunnerTaskDone string payload
  | RunnerTaskError string payload
  | RunnerTaskOffer string string int
  | RunnerDataRequest string string payload
  | RunnerNodeTypesRequest string string payload
  | RunnerRpc string string string payload

datatype requester_to_broker =
    RequesterSettings string payload
  | RequesterCancel string string
  | RequesterDataResponse string string payload
  | RequesterNodeTypes string string payload
  | RequesterRpcResponse string string payload payload
  | RequesterTaskRequest string string

datatype broker_effect =
    ToRunner string broker_to_runner
  | ToRequester string broker_to_requester
  | RunnerTimedOut
  | Thrown js_error
  | ThrownReason reject_reason

text \<open>
  The maps of callbacks are keyed by task identifier, and the callbacks are those of the promise of
  the call with that identifier, so the keys are kept. \<open>tb_closing\<close> holds the tasks whose last
  message was handed over and that will be deleted when the call continues.
\<close>

record task_broker =
  tb_knownRunners :: "(string \<times> TaskRunner) list"
  tb_requesters :: "string list"
  tb_tasks :: "(string \<times> Task) list"
  tb_isDraining :: bool
  tb_runnerAcceptRejects :: "string list"
  tb_requesterAcceptRejects :: "string list"
  tb_pendingTaskOffers :: "TaskOffer list"
  tb_pendingTaskRequests :: "nat list"
  tb_requests :: "TaskRequest list"
  tb_accepting :: "(string \<times> acceptance) list"
  tb_closing :: "string list"
  tb_drawn :: nat

type_synonym broker_result = "task_broker \<times> broker_effect list"

definition then_broker :: "broker_result \<Rightarrow> (task_broker \<Rightarrow> broker_result) \<Rightarrow> broker_result" where
  "then_broker r f = (case r of (b, fx) \<Rightarrow> case f b of (b', fx') \<Rightarrow> (b', fx @ fx'))"

definition newTaskBroker :: "int \<Rightarrow> task_broker result" where
  "newTaskBroker taskTimeout =
     (if taskTimeout \<le> 0 then Inl (UserError ''Task timeout must be greater than 0'')
      else Inr \<lparr>tb_knownRunners = [], tb_requesters = [], tb_tasks = [], tb_isDraining = False,
        tb_runnerAcceptRejects = [], tb_requesterAcceptRejects = [], tb_pendingTaskOffers = [],
        tb_pendingTaskRequests = [], tb_requests = [], tb_accepting = [], tb_closing = [], tb_drawn = 0\<rparr>)"

section \<open>Arrays\<close>

text \<open>\<open>splice(i, 1)\<close>, and the loops that go through an array from its end and splice.\<close>

definition splice_at :: "nat \<Rightarrow> 'a list \<Rightarrow> 'a list" where
  "splice_at i xs = take i xs @ drop (Suc i) xs"

fun splice_down :: "('a \<Rightarrow> bool) \<Rightarrow> nat \<Rightarrow> 'a list \<Rightarrow> 'a list" where
  "splice_down P 0 xs = xs"
| "splice_down P (Suc i) xs = splice_down P i (if P (xs ! i) then splice_at i xs else xs)"

fun findIndex :: "('a \<Rightarrow> bool) \<Rightarrow> 'a list \<Rightarrow> nat option" where
  "findIndex P [] = None"
| "findIndex P (x # xs) = (if P x then Some 0 else map_option Suc (findIndex P xs))"

section \<open>Messages and requests that expire\<close>

definition messageRunner :: "string \<Rightarrow> broker_to_runner \<Rightarrow> task_broker \<Rightarrow> broker_effect list" where
  "messageRunner runnerId message b =
     (if map_of (tb_knownRunners b) runnerId = None then [] else [ToRunner runnerId message])"

definition messageRequester :: "string \<Rightarrow> broker_to_requester \<Rightarrow> task_broker \<Rightarrow> broker_effect list" where
  "messageRequester requesterId message b =
     (if requesterId \<in> set (tb_requesters b) then [ToRequester requesterId message] else [])"

definition put_request :: "nat \<Rightarrow> TaskRequest \<Rightarrow> task_broker \<Rightarrow> task_broker" where
  "put_request r request b = b\<lparr>tb_requests := (tb_requests b)[r := request]\<rparr>"

definition handleRequestTimeout :: "string \<Rightarrow> task_broker \<Rightarrow> broker_result" where
  "handleRequestTimeout requestId b =
     (case findIndex (\<lambda>r. tq_requestId (tb_requests b ! r) = requestId) (tb_pendingTaskRequests b) of
        None \<Rightarrow> (b, [])
      | Some i \<Rightarrow>
          let r = tb_pendingTaskRequests b ! i;
              request = tb_requests b ! r
          in (put_request r (request\<lparr>tq_timeout := False\<rparr>)
                (b\<lparr>tb_pendingTaskRequests := splice_at i (tb_pendingTaskRequests b)\<rparr>),
              messageRequester (tq_requesterId request)
                (RequestExpired (tq_requestId request) ''timeout'') b))"

text \<open>The timer of \<open>createRequestTimeout\<close> fires, if it is set.\<close>

definition request_timer :: "nat \<Rightarrow> task_broker \<Rightarrow> broker_result" where
  "request_timer r b =
     (if r < length (tb_requests b) \<and> tq_timeout (tb_requests b ! r)
      then handleRequestTimeout (tq_requestId (tb_requests b ! r))
             (put_request r ((tb_requests b ! r)\<lparr>tq_timeout := False\<rparr>) b)
      else (b, []))"

definition offer_expired :: "int \<Rightarrow> TaskOffer \<Rightarrow> bool" where
  "offer_expired now offer \<longleftrightarrow> of_validFor offer \<noteq> -1 \<and> of_validUntil offer < now"

definition expireTasks :: "int \<Rightarrow> task_broker \<Rightarrow> task_broker" where
  "expireTasks now b = b\<lparr>tb_pendingTaskOffers :=
     splice_down (offer_expired now) (length (tb_pendingTaskOffers b)) (tb_pendingTaskOffers b)\<rparr>"

section \<open>Answers to promises\<close>

text \<open>A promise that is settled stays as it is.\<close>

fun settle :: "'a js_promise \<Rightarrow> 'a js_promise \<Rightarrow> 'a js_promise" where
  "settle p Unsettled = p"
| "settle p q = q"

fun settle_runner_stage :: "unit js_promise \<Rightarrow> accept_stage \<Rightarrow> accept_stage" where
  "settle_runner_stage p (AwaitRunner q) = AwaitRunner (settle p q)"
| "settle_runner_stage p st = st"

fun settle_requester_stage :: "payload js_promise \<Rightarrow> accept_stage \<Rightarrow> accept_stage" where
  "settle_requester_stage p (AwaitRequester q) = AwaitRequester (settle p q)"
| "settle_requester_stage p st = st"

definition change_stage :: "(accept_stage \<Rightarrow> accept_stage) \<Rightarrow> string \<Rightarrow> task_broker \<Rightarrow> task_broker" where
  "change_stage f taskId b =
     (case map_of (tb_accepting b) taskId of
        None \<Rightarrow> b
      | Some a \<Rightarrow> b\<lparr>tb_accepting := map_put taskId (a\<lparr>aq_stage := f (aq_stage a)\<rparr>) (tb_accepting b)\<rparr>)"

definition answer_runner :: "string \<Rightarrow> unit js_promise \<Rightarrow> task_broker \<Rightarrow> task_broker" where
  "answer_runner taskId p b =
     (if taskId \<in> set (tb_runnerAcceptRejects b)
      then change_stage (settle_runner_stage p) taskId
             (b\<lparr>tb_runnerAcceptRejects := set_delete taskId (tb_runnerAcceptRejects b)\<rparr>)
      else b)"

definition handleRunnerAccept :: "string \<Rightarrow> task_broker \<Rightarrow> task_broker" where
  "handleRunnerAccept taskId = answer_runner taskId (Resolved ())"

definition handleRunnerReject :: "string \<Rightarrow> string \<Rightarrow> task_broker \<Rightarrow> task_broker" where
  "handleRunnerReject taskId reason = answer_runner taskId (Rejected (TaskRejectError reason))"

definition handleRunnerDeferred :: "string \<Rightarrow> task_broker \<Rightarrow> task_broker" where
  "handleRunnerDeferred taskId = answer_runner taskId (Rejected TaskDeferredError)"

definition answer_requester :: "string \<Rightarrow> payload js_promise \<Rightarrow> task_broker \<Rightarrow> task_broker" where
  "answer_requester taskId p b =
     (if taskId \<in> set (tb_requesterAcceptRejects b)
      then change_stage (settle_requester_stage p) taskId
             (b\<lparr>tb_requesterAcceptRejects := set_delete taskId (tb_requesterAcceptRejects b)\<rparr>)
      else b)"

definition handleRequesterAccept :: "string \<Rightarrow> payload \<Rightarrow> task_broker \<Rightarrow> task_broker" where
  "handleRequesterAccept taskId settings = answer_requester taskId (Resolved settings)"

definition handleRequesterReject :: "string \<Rightarrow> string \<Rightarrow> task_broker \<Rightarrow> task_broker" where
  "handleRequesterReject taskId reason = answer_requester taskId (Rejected (TaskRejectError reason))"

text \<open>The two timers of \<open>acceptOffer\<close>, which are never cleared; the callbacks stay in the maps.\<close>

definition runner_accept_timer :: "string \<Rightarrow> task_broker \<Rightarrow> task_broker" where
  "runner_accept_timer = change_stage (settle_runner_stage (Rejected TaskRunnerAcceptTimeoutError))"

definition requester_accept_timer :: "string \<Rightarrow> task_broker \<Rightarrow> task_broker" where
  "requester_accept_timer = change_stage (settle_requester_stage (Rejected RequesterTimedOut))"

section \<open>Tasks\<close>

definition cancelTask :: "string \<Rightarrow> string \<Rightarrow> task_broker \<Rightarrow> broker_result" where
  "cancelTask taskId reason b =
     (case map_of (tb_tasks b) taskId of
        None \<Rightarrow> (b, [])
      | Some task \<Rightarrow> (b\<lparr>tb_tasks := map_delete taskId (tb_tasks b)\<rparr>,
          messageRunner (tk_runnerId task) (TaskCancel taskId reason) b))"

definition failTask :: "string \<Rightarrow> task_failure \<Rightarrow> task_broker \<Rightarrow> broker_result" where
  "failTask taskId error b =
     (case map_of (tb_tasks b) taskId of
        None \<Rightarrow> (b, [])
      | Some task \<Rightarrow> (b\<lparr>tb_tasks := map_delete taskId (tb_tasks b)\<rparr>,
          messageRequester (tk_requesterId task) (TaskFailed taskId error) b))"

definition getRunnerOrFailTask :: "string \<Rightarrow> task_broker \<Rightarrow> TaskRunner result \<times> broker_result" where
  "getRunnerOrFailTask taskId b =
     (case map_of (tb_tasks b) taskId of
        None \<Rightarrow> (Inl (UnexpectedError ''Cannot find runner, failed to find task''), b, [])
      | Some task \<Rightarrow>
          (case map_of (tb_knownRunners b) (tk_runnerId task) of
             None \<Rightarrow>
               (let error = UnexpectedError ''Cannot find runner, failed to find runner''
                in (Inl error, failTask taskId (Failure error) b))
           | Some runner \<Rightarrow> (Inr runner, b, [])))"

text \<open>The answers of a requester to its task's runner: \<open>handleRequesterRpcResponse\<close> and its siblings.\<close>

definition pass_to_runner :: "string \<Rightarrow> broker_to_runner \<Rightarrow> task_broker \<Rightarrow> broker_result" where
  "pass_to_runner taskId message b =
     (if map_of (tb_tasks b) taskId = None then (b, [])
      else case getRunnerOrFailTask taskId b of
        (Inl e, b', fx) \<Rightarrow> (b', fx @ [Thrown e])
      | (Inr runner, b', fx) \<Rightarrow> (b', fx @ messageRunner (tr_id runner) message b'))"

definition handleRequesterRpcResponse :: "string \<Rightarrow> string \<Rightarrow> payload \<Rightarrow> payload \<Rightarrow> task_broker \<Rightarrow> broker_result" where
  "handleRequesterRpcResponse taskId callId status data = pass_to_runner taskId (RpcResponse taskId callId status data)"

definition handleRequesterDataResponse :: "string \<Rightarrow> string \<Rightarrow> payload \<Rightarrow> task_broker \<Rightarrow> broker_result" where
  "handleRequesterDataResponse taskId requestId data = pass_to_runner taskId (TaskDataResponse taskId requestId data)"

definition handleRequesterNodeTypesResponse :: "string \<Rightarrow> string \<Rightarrow> payload \<Rightarrow> task_broker \<Rightarrow> broker_result" where
  "handleRequesterNodeTypesResponse taskId requestId nodeTypes = pass_to_runner taskId (NodeTypes taskId requestId nodeTypes)"

text \<open>The questions of a runner to its task's requester.\<close>

definition pass_to_requester :: "string \<Rightarrow> broker_to_requester \<Rightarrow> task_broker \<Rightarrow> broker_result" where
  "pass_to_requester taskId message b =
     (case map_of (tb_tasks b) taskId of
        None \<Rightarrow> (b, [])
      | Some task \<Rightarrow> (b, messageRequester (tk_requesterId task) message b))"

definition handleRpcRequest :: "string \<Rightarrow> string \<Rightarrow> string \<Rightarrow> payload \<Rightarrow> task_broker \<Rightarrow> broker_result" where
  "handleRpcRequest taskId callId rpc params = pass_to_requester taskId (Rpc taskId callId rpc params)"

definition handleDataRequest :: "string \<Rightarrow> string \<Rightarrow> payload \<Rightarrow> task_broker \<Rightarrow> broker_result" where
  "handleDataRequest taskId requestId params = pass_to_requester taskId (TaskDataRequest taskId requestId params)"

definition handleNodeTypesRequest :: "string \<Rightarrow> string \<Rightarrow> payload \<Rightarrow> task_broker \<Rightarrow> broker_result" where
  "handleNodeTypesRequest taskId requestId params = pass_to_requester taskId (NodeTypesRequest taskId requestId params)"

text \<open>\<open>handleResponse\<close> looks the requester up among the runners.\<close>

definition handleResponse :: "string \<Rightarrow> string \<Rightarrow> payload \<Rightarrow> task_broker \<Rightarrow> broker_result" where
  "handleResponse taskId requestId data b =
     (case map_of (tb_tasks b) taskId of
        None \<Rightarrow> (b, [])
      | Some task \<Rightarrow> (b, messageRunner (tk_requesterId task) (TaskDataResponse taskId requestId data) b))"

text \<open>
  The end of a task: the timer is cleared and the message handed over; when that is done, the task
  is deleted.
\<close>

definition end_task :: "string \<Rightarrow> (string \<Rightarrow> broker_to_requester) \<Rightarrow> task_broker \<Rightarrow> broker_result" where
  "end_task taskId message b =
     (case map_of (tb_tasks b) taskId of
        None \<Rightarrow> (b, [])
      | Some task \<Rightarrow>
          (b\<lparr>tb_tasks := map_put taskId (task\<lparr>tk_timeout := False\<rparr>) (tb_tasks b),
             tb_closing := tb_closing b @ [tk_id task]\<rparr>,
           messageRequester (tk_requesterId task) (message (tk_id task)) b))"

definition taskDoneHandler :: "string \<Rightarrow> payload \<Rightarrow> task_broker \<Rightarrow> broker_result" where
  "taskDoneHandler taskId data = end_task taskId (\<lambda>i. TaskDone i data)"

definition taskErrorHandler :: "string \<Rightarrow> task_failure \<Rightarrow> task_broker \<Rightarrow> broker_result" where
  "taskErrorHandler taskId error = end_task taskId (\<lambda>i. TaskFailed i error)"

definition close_task :: "string \<Rightarrow> task_broker \<Rightarrow> task_broker" where
  "close_task taskId b =
     (if taskId \<in> set (tb_closing b)
      then b\<lparr>tb_tasks := map_delete taskId (tb_tasks b), tb_closing := remove1 taskId (tb_closing b)\<rparr>
      else b)"

text \<open>The timer of a task fires, if it is set. The message of the other mode is sent at once.\<close>

definition handleTaskTimeout :: "string \<Rightarrow> string \<Rightarrow> task_broker \<Rightarrow> broker_result" where
  "handleTaskTimeout mode taskId b =
     (case map_of (tb_tasks b) taskId of
        None \<Rightarrow> (b, [])
      | Some task \<Rightarrow>
          then_broker
            (b, if mode = ''internal'' then [RunnerTimedOut]
                else if mode = ''external''
                then messageRunner (tk_runnerId task) (TaskCancel taskId ''Task execution timed out'') b
                else [])
            (taskErrorHandler taskId ExecutionTimeout))"

definition task_timer :: "string \<Rightarrow> string \<Rightarrow> task_broker \<Rightarrow> broker_result" where
  "task_timer mode taskId b =
     (case map_of (tb_tasks b) taskId of
        None \<Rightarrow> (b, [])
      | Some task \<Rightarrow> if tk_timeout task then handleTaskTimeout mode taskId b else (b, []))"

section \<open>Accepting an offer\<close>

text \<open>\<open>acceptOffer\<close> up to its first \<open>await\<close>.\<close>

definition acceptOffer :: "(nat \<Rightarrow> string) \<Rightarrow> TaskOffer \<Rightarrow> nat \<Rightarrow> task_broker \<Rightarrow> broker_result" where
  "acceptOffer nanoid offer request b =
     (let taskId = nanoid (tb_drawn b)
      in (b\<lparr>tb_drawn := Suc (tb_drawn b),
            tb_runnerAcceptRejects := set_add taskId (tb_runnerAcceptRejects b),
            tb_accepting := map_put taskId
              \<lparr>aq_offer = offer, aq_request = request, aq_stage = AwaitRunner Unsettled\<rparr> (tb_accepting b)\<rparr>,
          messageRunner (of_runnerId offer) (TaskOfferAccept (of_offerId offer) taskId) b))"

definition accept_ended :: "string \<Rightarrow> task_broker \<Rightarrow> task_broker" where
  "accept_ended taskId b = b\<lparr>tb_accepting := map_delete taskId (tb_accepting b)\<rparr>"

text \<open>The first \<open>catch\<close>. A deferred request is put at the end of the pending ones, where it still is.\<close>

definition not_accepted :: "nat \<Rightarrow> reject_reason \<Rightarrow> task_broker \<Rightarrow> broker_result" where
  "not_accepted r reason b =
     (let request = (tb_requests b ! r)\<lparr>tq_acceptInProgress := False\<rparr>
      in case reason of
           TaskRejectError _ \<Rightarrow> (put_request r request b, [])
         | TaskDeferredError \<Rightarrow>
             (put_request r (request\<lparr>tq_timeout := True\<rparr>)
                (b\<lparr>tb_pendingTaskRequests := tb_pendingTaskRequests b @ [r]\<rparr>), [])
         | TaskRunnerAcceptTimeoutError \<Rightarrow> (put_request r request b, [])
         | RequesterTimedOut \<Rightarrow> (put_request r request b, [ThrownReason reason]))"

text \<open>From the acceptance of the runner to the \<open>await\<close> of the settings.\<close>

definition runner_accepted :: "string \<Rightarrow> acceptance \<Rightarrow> task_broker \<Rightarrow> broker_result" where
  "runner_accepted taskId a b =
     (let r = aq_request a;
          request = (tb_requests b ! r)\<lparr>tq_timeout := False\<rparr>;
          b1 = put_request r request b;
          b2 = b1\<lparr>tb_tasks := map_put taskId
            \<lparr>tk_id = taskId, tk_runnerId = of_runnerId (aq_offer a), tk_requesterId = tq_requesterId request,
             tk_taskType = of_taskType (aq_offer a), tk_timeout = False\<rparr> (tb_tasks b1)\<rparr>
      in case findIndex (\<lambda>r'. tq_requestId (tb_requests b2 ! r') = tq_requestId request)
                (tb_pendingTaskRequests b2) of
           None \<Rightarrow> (accept_ended taskId b2, [])
         | Some i \<Rightarrow>
             (b2\<lparr>tb_pendingTaskRequests := splice_at i (tb_pendingTaskRequests b2),
                tb_requesterAcceptRejects := set_add taskId (tb_requesterAcceptRejects b2),
                tb_accepting := map_put taskId (a\<lparr>aq_stage := AwaitRequester Unsettled\<rparr>) (tb_accepting b2)\<rparr>,
              messageRequester (tq_requesterId request) (TaskReady (tq_requestId request) taskId) b2))"

text \<open>\<open>sendTaskSettings\<close> up to the \<open>await\<close> of the runner, with the second \<open>catch\<close>, and from there.\<close>

definition sendTaskSettings :: "string \<Rightarrow> acceptance \<Rightarrow> payload \<Rightarrow> task_broker \<Rightarrow> broker_result" where
  "sendTaskSettings taskId a settings b =
     (if map_of (tb_tasks b) taskId = None then (accept_ended taskId b, [])
      else case getRunnerOrFailTask taskId b of
        (Inl e, r) \<Rightarrow>
          then_broker (then_broker r (cancelTask taskId ''Unknown reason''))
            (\<lambda>b'. (accept_ended taskId b', [Thrown e]))
      | (Inr runner, b', fx) \<Rightarrow>
          (b'\<lparr>tb_accepting := map_put taskId (a\<lparr>aq_stage := HaveRunner runner settings\<rparr>) (tb_accepting b')\<rparr>, fx))"

definition settings_sent :: "string \<Rightarrow> TaskRunner \<Rightarrow> payload \<Rightarrow> task_broker \<Rightarrow> broker_result" where
  "settings_sent taskId runner settings b =
     (case map_of (tb_tasks b) taskId of
        None \<Rightarrow> (accept_ended taskId b, [])
      | Some task \<Rightarrow>
          (accept_ended taskId (b\<lparr>tb_tasks := map_put taskId (task\<lparr>tk_timeout := True\<rparr>) (tb_tasks b)\<rparr>),
           messageRunner (tr_id runner) (TaskSettings taskId settings) b))"

definition not_ready :: "string \<Rightarrow> reject_reason \<Rightarrow> task_broker \<Rightarrow> broker_result" where
  "not_ready taskId reason b =
     (case reason of
        TaskRejectError why \<Rightarrow>
          then_broker (cancelTask taskId why b) (\<lambda>b'. (accept_ended taskId b', []))
      | _ \<Rightarrow>
          then_broker (cancelTask taskId ''Unknown reason'' b) (\<lambda>b'. (accept_ended taskId b', [ThrownReason reason])))"

text \<open>A call of \<open>acceptOffer\<close> goes on when what it awaits is settled.\<close>

definition continue_accept :: "string \<Rightarrow> task_broker \<Rightarrow> broker_result" where
  "continue_accept taskId b =
     (case map_of (tb_accepting b) taskId of
        None \<Rightarrow> (b, [])
      | Some a \<Rightarrow>
          (case aq_stage a of
             AwaitRunner Unsettled \<Rightarrow> (b, [])
           | AwaitRunner (Rejected reason) \<Rightarrow> not_accepted (aq_request a) reason (accept_ended taskId b)
           | AwaitRunner (Resolved _) \<Rightarrow> runner_accepted taskId a b
           | AwaitRequester Unsettled \<Rightarrow> (b, [])
           | AwaitRequester (Rejected reason) \<Rightarrow> not_ready taskId reason b
           | AwaitRequester (Resolved settings) \<Rightarrow> sendTaskSettings taskId a settings b
           | HaveRunner runner settings \<Rightarrow> settings_sent taskId runner settings b))"

section \<open>Matching offers and requests\<close>

fun settle_loop :: "(nat \<Rightarrow> string) \<Rightarrow> nat list \<Rightarrow> task_broker \<Rightarrow> broker_result" where
  "settle_loop nanoid [] b = (b, [])"
| "settle_loop nanoid (r # rs) b =
     (let request = tb_requests b ! r
      in if tq_acceptInProgress request then settle_loop nanoid rs b
         else case findIndex (\<lambda>o'. of_taskType o' = tq_taskType request) (tb_pendingTaskOffers b) of
                None \<Rightarrow> settle_loop nanoid rs b
              | Some i \<Rightarrow>
                  (let offer = tb_pendingTaskOffers b ! i;
                       b' = put_request r (request\<lparr>tq_acceptInProgress := True\<rparr>)
                         (b\<lparr>tb_pendingTaskOffers := splice_at i (tb_pendingTaskOffers b)\<rparr>)
                   in then_broker (acceptOffer nanoid offer r b') (settle_loop nanoid rs)))"

definition settleTasks :: "(nat \<Rightarrow> string) \<Rightarrow> int \<Rightarrow> task_broker \<Rightarrow> broker_result" where
  "settleTasks nanoid now b =
     (let b' = expireTasks now b in settle_loop nanoid (tb_pendingTaskRequests b') b')"

text \<open>The request object is made, with its timer, before \<open>taskRequested\<close> gets it.\<close>

definition taskRequested :: "(nat \<Rightarrow> string) \<Rightarrow> int \<Rightarrow> TaskRequest \<Rightarrow> task_broker \<Rightarrow> broker_result" where
  "taskRequested nanoid now request b =
     (let r = length (tb_requests b)
      in if tb_isDraining b
         then (b\<lparr>tb_requests := tb_requests b @ [request\<lparr>tq_timeout := False\<rparr>]\<rparr>,
               messageRequester (tq_requesterId request) (RequestExpired (tq_requestId request) ''draining'') b)
         else settleTasks nanoid now
           (b\<lparr>tb_requests := tb_requests b @ [request],
              tb_pendingTaskRequests := tb_pendingTaskRequests b @ [r]\<rparr>))"

definition taskOffered :: "(nat \<Rightarrow> string) \<Rightarrow> int \<Rightarrow> TaskOffer \<Rightarrow> task_broker \<Rightarrow> broker_result" where
  "taskOffered nanoid now offer b =
     settleTasks nanoid now (b\<lparr>tb_pendingTaskOffers := tb_pendingTaskOffers b @ [offer]\<rparr>)"

section \<open>Runners and requesters\<close>

definition registerRunner :: "TaskRunner \<Rightarrow> task_broker \<Rightarrow> broker_result" where
  "registerRunner runner b =
     (let b' = b\<lparr>tb_knownRunners := map_put (tr_id runner) runner (tb_knownRunners b)\<rparr>
      in (b', messageRunner (tr_id runner) RunnerRegistered b'))"

definition fail_task_of :: "string \<Rightarrow> string \<Rightarrow> Task \<Rightarrow> task_broker \<Rightarrow> broker_result" where
  "fail_task_of runnerId message task b =
     (if tk_runnerId task = runnerId
      then then_broker (failTask (tk_id task) (Failure (JsError message)) b)
        (\<lambda>b'. (handleRunnerReject (tk_id task)
           (''The Task Runner ('' @ runnerId @ '') has disconnected: '' @ message) b', []))
      else (b, []))"

fun fail_tasks_of :: "string \<Rightarrow> string \<Rightarrow> Task list \<Rightarrow> task_broker \<Rightarrow> broker_result" where
  "fail_tasks_of runnerId message [] b = (b, [])"
| "fail_tasks_of runnerId message (task # tasks) b =
     then_broker (fail_task_of runnerId message task b) (fail_tasks_of runnerId message tasks)"

text \<open>The loop deletes only the task it is at, so it goes through the tasks there are at its start.\<close>

definition deregisterRunner :: "string \<Rightarrow> string \<Rightarrow> task_broker \<Rightarrow> broker_result" where
  "deregisterRunner runnerId message b =
     (let b' = b\<lparr>tb_knownRunners := map_delete runnerId (tb_knownRunners b),
            tb_pendingTaskOffers := splice_down (\<lambda>offer. of_runnerId offer = runnerId)
              (length (tb_pendingTaskOffers b)) (tb_pendingTaskOffers b)\<rparr>
      in fail_tasks_of runnerId message (vals (tb_tasks b')) b')"

definition registerRequester :: "string \<Rightarrow> task_broker \<Rightarrow> task_broker" where
  "registerRequester requesterId b = b\<lparr>tb_requesters := set_add requesterId (tb_requesters b)\<rparr>"

definition deregisterRequester :: "string \<Rightarrow> task_broker \<Rightarrow> task_broker" where
  "deregisterRequester requesterId b = b\<lparr>tb_requesters := set_delete requesterId (tb_requesters b)\<rparr>"

definition startDraining :: "task_broker \<Rightarrow> task_broker" where
  "startDraining b = b\<lparr>tb_isDraining := True\<rparr>"

definition stopDraining :: "task_broker \<Rightarrow> task_broker" where
  "stopDraining b = b\<lparr>tb_isDraining := False\<rparr>"

definition hasActiveTasks :: "task_broker \<Rightarrow> bool" where
  "hasActiveTasks b \<longleftrightarrow> length (tb_tasks b) > 0"

section \<open>Messages\<close>

text \<open>The clock is read when the offer is made, and again when offers that expired are dropped.\<close>

definition onRunnerMessage ::
    "(nat \<Rightarrow> string) \<Rightarrow> int \<Rightarrow> int \<Rightarrow> string \<Rightarrow> runner_to_broker \<Rightarrow> task_broker \<Rightarrow> broker_result" where
  "onRunnerMessage nanoid now later runnerId message b =
     (if map_of (tb_knownRunners b) runnerId = None then (b, [])
      else case message of
        TaskAccepted taskId \<Rightarrow> (handleRunnerAccept taskId b, [])
      | TaskRejected taskId reason \<Rightarrow> (handleRunnerReject taskId reason b, [])
      | TaskDeferred taskId \<Rightarrow> (handleRunnerDeferred taskId b, [])
      | RunnerTaskOffer offerId taskType validFor \<Rightarrow>
          taskOffered nanoid later
            \<lparr>of_offerId = offerId, of_runnerId = runnerId, of_taskType = taskType, of_validFor = validFor,
             of_validUntil = (if validFor = -1 then 0 else now + validFor * 1000000)\<rparr> b
      | RunnerTaskDone taskId data \<Rightarrow> taskDoneHandler taskId data b
      | RunnerTaskError taskId error \<Rightarrow> taskErrorHandler taskId (Reported error) b
      | RunnerDataRequest taskId requestId params \<Rightarrow> handleDataRequest taskId requestId params b
      | RunnerNodeTypesRequest taskId requestId params \<Rightarrow> handleNodeTypesRequest taskId requestId params b
      | RunnerRpc taskId callId rpc params \<Rightarrow> handleRpcRequest taskId callId rpc params b
      | RunnerInfo \<Rightarrow> (b, []))"

definition onRequesterMessage ::
    "(nat \<Rightarrow> string) \<Rightarrow> int \<Rightarrow> string \<Rightarrow> requester_to_broker \<Rightarrow> task_broker \<Rightarrow> broker_result" where
  "onRequesterMessage nanoid now requesterId message b =
     (case message of
        RequesterSettings taskId settings \<Rightarrow> (handleRequesterAccept taskId settings b, [])
      | RequesterCancel taskId reason \<Rightarrow> cancelTask taskId reason b
      | RequesterTaskRequest requestId taskType \<Rightarrow>
          taskRequested nanoid now
            \<lparr>tq_requestId = requestId, tq_requesterId = requesterId, tq_taskType = taskType,
             tq_timeout = True, tq_acceptInProgress = False\<rparr> b
      | RequesterDataResponse taskId requestId data \<Rightarrow> handleRequesterDataResponse taskId requestId data b
      | RequesterNodeTypes taskId requestId nodeTypes \<Rightarrow>
          handleRequesterNodeTypesResponse taskId requestId nodeTypes b
      | RequesterRpcResponse taskId callId status data \<Rightarrow>
          handleRequesterRpcResponse taskId callId status data b)"

end
