(* ===== verification/Broker_Invariant.thy ===== *)
theory Broker_Invariant
  imports Task_Broker
begin

text \<open>
  The runs of the task broker as sequences of events, and the invariant of the states they reach:
  what a call of \<open>acceptOffer\<close> holds of its request, and which callbacks are still registered.
\<close>

section \<open>Arrays\<close>

lemma splice_at_append: "splice_at (length xs) (xs @ y # ys) = xs @ ys"
  by (simp add: splice_at_def)

lemma splice_down_step:
  "splice_down P (length xs) (xs @ ys) = filter (\<lambda>x. \<not> P x) xs @ ys"
proof (induction xs arbitrary: ys rule: rev_induct)
  case (snoc x xs)
  show ?case using snoc [of ys] snoc [of "x # ys"] splice_at_append [of xs x ys] by simp
qed simp

lemma splice_down_filter [simp]: "splice_down P (length xs) xs = filter (\<lambda>x. \<not> P x) xs"
  using splice_down_step [of P xs "[]"] by simp

lemma findIndex_None: "findIndex P xs = None \<longleftrightarrow> (\<forall>x \<in> set xs. \<not> P x)"
  by (induction xs) auto

lemma findIndex_split:
  "findIndex P xs = Some i \<Longrightarrow> \<exists>ys zs. xs = ys @ xs ! i # zs \<and> length ys = i \<and> P (xs ! i) \<and> (\<forall>y \<in> set ys. \<not> P y)"
proof (induction xs arbitrary: i)
  case (Cons x xs)
  show ?case
  proof (cases "P x")
    case True
    then show ?thesis using Cons.prems by auto
  next
    case False
    then obtain j where j: "findIndex P xs = Some j" "i = Suc j" using Cons.prems by auto
    obtain ys zs where "xs = ys @ xs ! j # zs" "length ys = j" "P (xs ! j)" "\<forall>y \<in> set ys. \<not> P y"
      using Cons.IH [OF j(1)] by blast
    then show ?thesis using j(2) False
      by (intro exI [of _ "x # ys"] exI [of _ zs]) simp
  qed
qed simp

lemma set_splice_at: "set (splice_at i xs) \<subseteq> set xs"
  unfolding splice_at_def by (auto dest: in_set_takeD in_set_dropD)

lemma map_put_in: "e \<in> set (map_put k v m) \<Longrightarrow> e = (k, v) \<or> e \<in> set m"
  by (induction m) (auto split: if_splits)

section \<open>Runs\<close>

datatype broker_event =
    RegisterRunner TaskRunner
  | DeregisterRunner string string
  | RegisterRequester string
  | DeregisterRequester string
  | FromRunner int int string runner_to_broker
  | FromRequester int string requester_to_broker
  | Response string string payload
  | RequesterReject string string
  | RequestTimer nat
  | RunnerAcceptTimer string
  | RequesterAcceptTimer string
  | TaskTimer string
  | ContinueAccept string
  | CloseTask string
  | StartDraining
  | StopDraining

fun broker_step :: "(nat \<Rightarrow> string) \<Rightarrow> string \<Rightarrow> broker_event \<Rightarrow> task_broker \<Rightarrow> broker_result" where
  "broker_step nanoid mode (RegisterRunner runner) b = registerRunner runner b"
| "broker_step nanoid mode (DeregisterRunner runnerId message) b = deregisterRunner runnerId message b"
| "broker_step nanoid mode (RegisterRequester requesterId) b = (registerRequester requesterId b, [])"
| "broker_step nanoid mode (DeregisterRequester requesterId) b = (deregisterRequester requesterId b, [])"
| "broker_step nanoid mode (FromRunner now later runnerId message) b = onRunnerMessage nanoid now later runnerId message b"
| "broker_step nanoid mode (FromRequester now requesterId message) b = onRequesterMessage nanoid now requesterId message b"
| "broker_step nanoid mode (Response taskId requestId data) b = handleResponse taskId requestId data b"
| "broker_step nanoid mode (RequesterReject taskId reason) b = (handleRequesterReject taskId reason b, [])"
| "broker_step nanoid mode (RequestTimer r) b = request_timer r b"
| "broker_step nanoid mode (RunnerAcceptTimer taskId) b = (runner_accept_timer taskId b, [])"
| "broker_step nanoid mode (RequesterAcceptTimer taskId) b = (requester_accept_timer taskId b, [])"
| "broker_step nanoid mode (TaskTimer taskId) b = task_timer mode taskId b"
| "broker_step nanoid mode (ContinueAccept taskId) b = continue_accept taskId b"
| "broker_step nanoid mode (CloseTask taskId) b = (close_task taskId b, [])"
| "broker_step nanoid mode StartDraining b = (startDraining b, [])"
| "broker_step nanoid mode StopDraining b = (stopDraining b, [])"

inductive broker_later :: "(nat \<Rightarrow> string) \<Rightarrow> string \<Rightarrow> task_broker \<Rightarrow> task_broker \<Rightarrow> bool"
  for nanoid :: "nat \<Rightarrow> string" and mode :: string and b :: task_broker where
  later_refl: "broker_later nanoid mode b b"
| later_step: "broker_later nanoid mode b b' \<Longrightarrow> broker_later nanoid mode b (fst (broker_step nanoid mode e b'))"

definition run_events :: "(nat \<Rightarrow> string) \<Rightarrow> string \<Rightarrow> broker_event list \<Rightarrow> task_broker \<Rightarrow> task_broker" where
  "run_events nanoid mode es b = fold (\<lambda>e b'. fst (broker_step nanoid mode e b')) es b"

definition broker_reachable :: "(nat \<Rightarrow> string) \<Rightarrow> string \<Rightarrow> task_broker \<Rightarrow> bool" where
  "broker_reachable nanoid mode b \<longleftrightarrow>
     (\<exists>t b0. newTaskBroker t = Inr b0 \<and> broker_later nanoid mode b0 b)"

lemma later_trans:
  assumes "broker_later nanoid mode b b'" "broker_later nanoid mode b' b''"
  shows "broker_later nanoid mode b b''"
  using assms(2,1) by (induction rule: broker_later.induct) (auto intro: later_step)

lemma run_events_later: "broker_later nanoid mode b (run_events nanoid mode es b)"
proof (induction es arbitrary: b)
  case Nil
  show ?case by (simp add: run_events_def later_refl)
next
  case (Cons e es)
  show ?case
    using later_trans [OF later_step [OF later_refl [of nanoid mode b], of e] Cons [of "fst (broker_step nanoid mode e b)"]]
    by (simp add: run_events_def)
qed

section \<open>The invariant\<close>

text \<open>
  Every call of \<open>acceptOffer\<close> is for a request of its own, which is marked as in progress.
\<close>

definition calls_ok :: "task_broker \<Rightarrow> bool" where
  "calls_ok b \<longleftrightarrow> distinct (keys (tb_accepting b)) \<and> distinct (map (aq_request \<circ> snd) (tb_accepting b)) \<and>
     (\<forall>(i, a) \<in> set (tb_accepting b). aq_request a < length (tb_requests b) \<and>
        tq_acceptInProgress (tb_requests b ! aq_request a)) \<and>
     (\<forall>r \<in> set (tb_pendingTaskRequests b). r < length (tb_requests b))"

text \<open>
  The callbacks for the runner's answer are gone once it accepted, so no task has any.
\<close>

fun answerable :: "accept_stage \<Rightarrow> bool" where
  "answerable (AwaitRunner Unsettled) = True"
| "answerable (AwaitRunner (Rejected reason)) = True"
| "answerable st = False"

definition callbacks_ok :: "(nat \<Rightarrow> string) \<Rightarrow> task_broker \<Rightarrow> bool" where
  "callbacks_ok nanoid b \<longleftrightarrow>
     set (keys (tb_accepting b)) \<union> set (tb_runnerAcceptRejects b) \<union> set (keys (tb_tasks b))
       \<subseteq> nanoid ` {..<tb_drawn b} \<and>
     set (keys (tb_tasks b)) \<inter> set (tb_runnerAcceptRejects b) = {} \<and>
     (\<forall>(i, a) \<in> set (tb_accepting b). i \<in> set (tb_runnerAcceptRejects b) \<longrightarrow> answerable (aq_stage a)) \<and>
     (\<forall>(i, t) \<in> set (tb_tasks b). tk_id t = i) \<and> distinct (keys (tb_tasks b))"

definition broker_ok :: "(nat \<Rightarrow> string) \<Rightarrow> task_broker \<Rightarrow> bool" where
  "broker_ok nanoid b \<longleftrightarrow> calls_ok b \<and> callbacks_ok nanoid b"

lemma new_broker_ok: "newTaskBroker t = Inr b \<Longrightarrow> broker_ok nanoid b"
  by (auto simp: newTaskBroker_def broker_ok_def calls_ok_def callbacks_ok_def split: if_splits)

section \<open>Operations on tasks only\<close>

definition same_calls :: "task_broker \<Rightarrow> task_broker \<Rightarrow> bool" where
  "same_calls b b' \<longleftrightarrow> tb_accepting b' = tb_accepting b \<and> tb_runnerAcceptRejects b' = tb_runnerAcceptRejects b \<and>
     tb_requests b' = tb_requests b \<and> tb_pendingTaskRequests b' = tb_pendingTaskRequests b \<and>
     tb_drawn b' = tb_drawn b \<and>
     (\<forall>(i, t') \<in> set (tb_tasks b'). \<exists>t. (i, t) \<in> set (tb_tasks b) \<and> tk_id t' = tk_id t) \<and>
     (distinct (keys (tb_tasks b)) \<longrightarrow> distinct (keys (tb_tasks b')))"

lemma same_calls_refl [simp]: "same_calls b b"
  by (auto simp: same_calls_def)

lemma same_calls_trans [trans]:
  assumes "same_calls b b'" "same_calls b' b''"
  shows "same_calls b b''"
proof -
  have "\<exists>t. (i, t) \<in> set (tb_tasks b) \<and> tk_id t'' = tk_id t" if "(i, t'') \<in> set (tb_tasks b'')" for i t''
  proof -
    obtain t' where t': "(i, t') \<in> set (tb_tasks b')" "tk_id t'' = tk_id t'"
      using assms(2) \<open>(i, t'') \<in> _\<close> unfolding same_calls_def by blast
    obtain t where "(i, t) \<in> set (tb_tasks b)" "tk_id t' = tk_id t"
      using assms(1) t'(1) unfolding same_calls_def by blast
    then show ?thesis using t'(2) by auto
  qed
  then show ?thesis using assms unfolding same_calls_def by simp blast
qed

lemma same_calls_keys: "same_calls b b' \<Longrightarrow> set (keys (tb_tasks b')) \<subseteq> set (keys (tb_tasks b))"
  unfolding same_calls_def keys_def by force

lemma same_calls_ok:
  assumes "same_calls b b'" "broker_ok nanoid b"
  shows "broker_ok nanoid b'"
proof -
  have "tk_id t' = i" if "(i, t') \<in> set (tb_tasks b')" for i t'
  proof -
    obtain t where "(i, t) \<in> set (tb_tasks b)" "tk_id t' = tk_id t"
      using assms(1) \<open>(i, t') \<in> _\<close> unfolding same_calls_def by blast
    then show ?thesis using assms(2) unfolding broker_ok_def callbacks_ok_def by auto
  qed
  then have named: "\<forall>(i, t) \<in> set (tb_tasks b'). tk_id t = i" by auto
  have sub: "set (keys (tb_tasks b')) \<subseteq> set (keys (tb_tasks b))" by (rule same_calls_keys [OF assms(1)])
  have same: "tb_accepting b' = tb_accepting b" "tb_runnerAcceptRejects b' = tb_runnerAcceptRejects b"
    "tb_requests b' = tb_requests b" "tb_pendingTaskRequests b' = tb_pendingTaskRequests b"
    "tb_drawn b' = tb_drawn b" and distinct: "distinct (keys (tb_tasks b)) \<Longrightarrow> distinct (keys (tb_tasks b'))"
    using assms(1) unfolding same_calls_def by blast+
  have "calls_ok b'" using assms(2) unfolding broker_ok_def calls_ok_def same by blast
  moreover have "callbacks_ok nanoid b'"
    using assms(2) named distinct sub unfolding broker_ok_def callbacks_ok_def same by blast
  ultimately show ?thesis unfolding broker_ok_def ..
qed

lemma fst_then_broker [simp]: "fst (then_broker r f) = fst (f (fst r))"
  by (simp add: then_broker_def split: prod.split)

lemma snd_then_broker [simp]: "snd (then_broker r f) = snd r @ snd (f (fst r))"
  by (simp add: then_broker_def split: prod.split)

lemma distinct_map_put_same:
  assumes "map_of m k = Some w" "g (k, v) = g (k, w)"
  shows "map g (map_put k v m) = map g m"
  using assms by (induction m) auto

lemma keys_map_put_same: "map_of m k = Some w \<Longrightarrow> keys (map_put k v m) = keys m"
  unfolding keys_def by (rule distinct_map_put_same) simp_all

lemma drop_task_same_calls [simp]: "same_calls b (b\<lparr>tb_tasks := map_delete i (tb_tasks b)\<rparr>)"
  by (auto simp: same_calls_def map_delete_set map_delete_distinct)

lemma put_task_same_calls:
  assumes "map_of (tb_tasks b) i = Some t" "tk_id t' = tk_id t"
  shows "same_calls b (b\<lparr>tb_tasks := map_put i t' (tb_tasks b)\<rparr>)"
  using assms by (auto simp: same_calls_def keys_map_put_same dest!: map_put_in dest: map_of_SomeD)

lemma cancelTask_same_calls [simp]: "same_calls b (fst (cancelTask i reason b))"
  by (simp add: cancelTask_def split: option.split)

lemma failTask_same_calls [simp]: "same_calls b (fst (failTask i e b))"
  by (simp add: failTask_def split: option.split)

lemma getRunnerOrFailTask_same_calls [simp]: "same_calls b (fst (snd (getRunnerOrFailTask i b)))"
  by (simp add: getRunnerOrFailTask_def Let_def split: option.split)

lemma pass_to_runner_same_calls [simp]: "same_calls b (fst (pass_to_runner i message b))"
  using getRunnerOrFailTask_same_calls [of b i]
  by (cases "getRunnerOrFailTask i b") (auto simp: pass_to_runner_def split: sum.split)

lemma pass_to_requester_same_calls [simp]: "fst (pass_to_requester i message b) = b"
  by (simp add: pass_to_requester_def split: option.split)

lemma end_task_same_calls [simp]: "same_calls b (fst (end_task i message b))"
proof (cases "map_of (tb_tasks b) i")
  case (Some t)
  have "same_calls b (b\<lparr>tb_tasks := map_put i (t\<lparr>tk_timeout := False\<rparr>) (tb_tasks b)\<rparr>)"
    by (rule put_task_same_calls [OF Some]) simp
  then show ?thesis using Some by (simp add: end_task_def same_calls_def)
qed (simp add: end_task_def)

lemma close_task_same_calls [simp]: "same_calls b (close_task i b)"
  by (cases "i \<in> set (tb_closing b)") (use drop_task_same_calls [of b i] in \<open>simp_all add: close_task_def same_calls_def\<close>)

lemma task_timer_same_calls [simp]: "same_calls b (fst (task_timer mode i b))"
  by (simp add: task_timer_def handleTaskTimeout_def taskErrorHandler_def split: option.split)

lemmas handler_defs = handleRequesterRpcResponse_def handleRequesterDataResponse_def
  handleRequesterNodeTypesResponse_def handleRpcRequest_def handleDataRequest_def handleNodeTypesRequest_def
  taskDoneHandler_def taskErrorHandler_def handleResponse_def registerRunner_def registerRequester_def
  deregisterRequester_def startDraining_def stopDraining_def

section \<open>Steps of the calls of acceptOffer\<close>

lemma map_put_fresh: "k \<notin> set (keys m) \<Longrightarrow> map_put k v m = m @ [(k, v)]"
  by (induction m) (auto simp: keys_def)

text \<open>Only the flag of a request matters here, which no new table of requests takes back.\<close>

lemma calls_ok_requests:
  assumes "calls_ok b" "tb_accepting b' = tb_accepting b" "length (tb_requests b) \<le> length (tb_requests b')"
    and "\<And>i a. (i, a) \<in> set (tb_accepting b) \<Longrightarrow> tq_acceptInProgress (tb_requests b ! aq_request a) \<Longrightarrow>
      aq_request a < length (tb_requests b) \<Longrightarrow> tq_acceptInProgress (tb_requests b' ! aq_request a)"
    and "\<And>r. r \<in> set (tb_pendingTaskRequests b') \<Longrightarrow> r \<in> set (tb_pendingTaskRequests b) \<or> r < length (tb_requests b')"
  shows "calls_ok b'"
proof -
  have "aq_request a < length (tb_requests b') \<and> tq_acceptInProgress (tb_requests b' ! aq_request a)"
    if "(i, a) \<in> set (tb_accepting b)" for i a
  proof -
    have "aq_request a < length (tb_requests b)" "tq_acceptInProgress (tb_requests b ! aq_request a)"
      using assms(1) \<open>(i, a) \<in> _\<close> unfolding calls_ok_def by auto
    then show ?thesis using assms(3,4) \<open>(i, a) \<in> _\<close> by simp
  qed
  moreover have "r < length (tb_requests b')" if "r \<in> set (tb_pendingTaskRequests b')" for r
  proof (cases "r \<in> set (tb_pendingTaskRequests b)")
    case True
    then have "r < length (tb_requests b)" using assms(1) unfolding calls_ok_def by blast
    then show ?thesis using assms(3) by simp
  qed (use assms(5) [OF \<open>r \<in> _\<close>] in simp)
  ultimately show ?thesis using assms(1,2) unfolding calls_ok_def by auto
qed

lemma callbacks_ok_cong:
  assumes "callbacks_ok nanoid b" "tb_accepting b' = tb_accepting b" "tb_tasks b' = tb_tasks b"
    and "tb_runnerAcceptRejects b' = tb_runnerAcceptRejects b" "tb_drawn b' = tb_drawn b"
  shows "callbacks_ok nanoid b'"
  using assms(1) unfolding callbacks_ok_def assms(2-) .

lemma put_request_simps [simp]:
  "tb_accepting (put_request r q b) = tb_accepting b" "tb_tasks (put_request r q b) = tb_tasks b"
  "tb_runnerAcceptRejects (put_request r q b) = tb_runnerAcceptRejects b" "tb_drawn (put_request r q b) = tb_drawn b"
  "tb_pendingTaskRequests (put_request r q b) = tb_pendingTaskRequests b"
  "tb_pendingTaskOffers (put_request r q b) = tb_pendingTaskOffers b"
  "tb_knownRunners (put_request r q b) = tb_knownRunners b"
  "tb_requesters (put_request r q b) = tb_requesters b"
  "tb_requests (put_request r q b) = (tb_requests b)[r := q]"
  by (simp_all add: put_request_def)

text \<open>A request that keeps its flag, or has none, may be changed.\<close>

lemma put_request_ok:
  assumes "broker_ok nanoid b" "tq_acceptInProgress (tb_requests b ! r) \<longrightarrow> tq_acceptInProgress q"
  shows "broker_ok nanoid (put_request r q b)"
proof -
  have "calls_ok (put_request r q b)"
  proof (rule calls_ok_requests [where b = b])
    show "calls_ok b" using assms(1) by (simp add: broker_ok_def)
    show "tq_acceptInProgress (tb_requests (put_request r q b) ! aq_request a)"
      if "tq_acceptInProgress (tb_requests b ! aq_request a)" "aq_request a < length (tb_requests b)" for a
      using that assms(2) by (cases "r = aq_request a") simp_all
  qed simp_all
  moreover have "callbacks_ok nanoid (put_request r q b)"
    by (rule callbacks_ok_cong [where b = b]) (use assms(1) in \<open>simp_all add: broker_ok_def\<close>)
  ultimately show ?thesis unfolding broker_ok_def ..
qed

lemma pending_known: "broker_ok nanoid b \<Longrightarrow> r \<in> set (tb_pendingTaskRequests b) \<Longrightarrow> r < length (tb_requests b)"
  unfolding broker_ok_def calls_ok_def by blast

lemma pending_subset_ok:
  assumes "broker_ok nanoid b" "set ps \<subseteq> set (tb_pendingTaskRequests b)"
  shows "broker_ok nanoid (b\<lparr>tb_pendingTaskRequests := ps\<rparr>)"
  using assms unfolding broker_ok_def calls_ok_def callbacks_ok_def by auto

lemma handleRequestTimeout_ok: "broker_ok nanoid b \<Longrightarrow> broker_ok nanoid (fst (handleRequestTimeout i b))"
  unfolding handleRequestTimeout_def Let_def
  by (simp split: option.split) (intro allI impI put_request_ok pending_subset_ok set_splice_at; simp)

lemma request_timer_ok: "broker_ok nanoid b \<Longrightarrow> broker_ok nanoid (fst (request_timer r b))"
  by (simp add: request_timer_def handleRequestTimeout_ok put_request_ok)

text \<open>A new call.\<close>

lemma acceptOffer_ok:
  assumes "broker_ok nanoid b" "inj nanoid" "r < length (tb_requests b)" "\<not> tq_acceptInProgress (tb_requests b ! r)"
    and "tq_acceptInProgress q"
  shows "broker_ok nanoid (fst (acceptOffer nanoid offer r (put_request r q (b\<lparr>tb_pendingTaskOffers := os\<rparr>))))"
proof -
  let ?i = "nanoid (tb_drawn b)"
  have calls: "calls_ok b" and backs: "callbacks_ok nanoid b" using assms(1) by (simp_all add: broker_ok_def)
  have "?i \<notin> nanoid ` {..<tb_drawn b}" using assms(2) by (auto dest: injD)
  then have fresh: "?i \<notin> set (keys (tb_accepting b))" "?i \<notin> set (keys (tb_tasks b))"
    using backs unfolding callbacks_ok_def by blast+
  have free: "r \<noteq> aq_request a" if "(i, a) \<in> set (tb_accepting b)" for i a
    using calls \<open>(i, a) \<in> _\<close> assms(4) unfolding calls_ok_def by auto
  let ?b = "fst (acceptOffer nanoid offer r (put_request r q (b\<lparr>tb_pendingTaskOffers := os\<rparr>)))"
  have acc: "tb_accepting ?b = tb_accepting b @ [(?i, \<lparr>aq_offer = offer, aq_request = r, aq_stage = AwaitRunner Unsettled\<rparr>)]"
    using fresh(1) by (simp add: acceptOffer_def Let_def map_put_fresh)
  have eqs: "tb_requests ?b = (tb_requests b)[r := q]" "tb_pendingTaskRequests ?b = tb_pendingTaskRequests b"
    "tb_drawn ?b = Suc (tb_drawn b)" "tb_tasks ?b = tb_tasks b"
    "tb_runnerAcceptRejects ?b = set_add ?i (tb_runnerAcceptRejects b)"
    by (simp_all add: acceptOffer_def Let_def)
  have calls': "calls_ok ?b"
  proof -
    have "\<forall>e \<in> set (tb_accepting b). aq_request (snd e) \<noteq> r" using free by force
    then show ?thesis
      using calls fresh(1) assms(3,5) unfolding calls_ok_def acc eqs
      by (auto simp: keys_def nth_list_update)
  qed
  have "callbacks_ok nanoid ?b"
  proof -
    have "(?i, a) \<notin> set (tb_accepting b)" for a using fresh(1) by (force simp: keys_def)
    then show ?thesis using backs fresh unfolding callbacks_ok_def acc eqs
      by (auto simp: keys_def lessThan_Suc)
  qed
  with calls' show ?thesis unfolding broker_ok_def ..
qed

lemma acceptOffer_requests [simp]: "tb_requests (fst (acceptOffer nanoid offer r b)) = tb_requests b"
  by (simp add: acceptOffer_def Let_def)

lemma settle_loop_ok:
  assumes "broker_ok nanoid b" "inj nanoid" "\<forall>r \<in> set rs. r < length (tb_requests b)"
  shows "broker_ok nanoid (fst (settle_loop nanoid rs b))"
  using assms
proof (induction rs arbitrary: b)
  case (Cons r rs)
  let ?q = "tb_requests b ! r"
  show ?case
  proof (cases "tq_acceptInProgress ?q \<or> findIndex (\<lambda>o'. of_taskType o' = tq_taskType ?q) (tb_pendingTaskOffers b) = None")
    case True
    then show ?thesis using Cons by (auto simp: Let_def)
  next
    case False
    then obtain i where i: "findIndex (\<lambda>o'. of_taskType o' = tq_taskType ?q) (tb_pendingTaskOffers b) = Some i"
      and free: "\<not> tq_acceptInProgress ?q" by auto
    let ?b = "fst (acceptOffer nanoid (tb_pendingTaskOffers b ! i) r
      (put_request r (?q\<lparr>tq_acceptInProgress := True\<rparr>)
        (b\<lparr>tb_pendingTaskOffers := splice_at i (tb_pendingTaskOffers b)\<rparr>)))"
    have "broker_ok nanoid ?b" using Cons.prems free by (intro acceptOffer_ok) auto
    moreover have "\<forall>r \<in> set rs. r < length (tb_requests ?b)" using Cons.prems(3) by simp
    ultimately show ?thesis using Cons.IH [OF _ Cons.prems(2)] i free by (simp add: Let_def)
  qed
qed simp

lemma expireTasks_ok [simp]: "broker_ok nanoid (expireTasks now b) \<longleftrightarrow> broker_ok nanoid b"
  by (simp add: expireTasks_def broker_ok_def calls_ok_def callbacks_ok_def)

lemma expireTasks_simps [simp]:
  "tb_requests (expireTasks now b) = tb_requests b" "tb_accepting (expireTasks now b) = tb_accepting b"
  "tb_pendingTaskRequests (expireTasks now b) = tb_pendingTaskRequests b"
  "tb_pendingTaskOffers (expireTasks now b) = filter (\<lambda>x. \<not> offer_expired now x) (tb_pendingTaskOffers b)"
  by (simp_all add: expireTasks_def)

lemma settleTasks_ok:
  assumes "broker_ok nanoid b" "inj nanoid"
  shows "broker_ok nanoid (fst (settleTasks nanoid now b))"
  using assms pending_known [OF assms(1)] unfolding settleTasks_def Let_def
  by (intro settle_loop_ok) simp_all

lemma taskOffered_ok:
  assumes "broker_ok nanoid b" "inj nanoid"
  shows "broker_ok nanoid (fst (taskOffered nanoid now offer b))"
  unfolding taskOffered_def
  by (rule settleTasks_ok) (use assms in \<open>simp_all add: broker_ok_def calls_ok_def callbacks_ok_def\<close>)

lemma new_request_ok:
  assumes "broker_ok nanoid b" "set ps \<subseteq> insert (length (tb_requests b)) (set (tb_pendingTaskRequests b))"
  shows "broker_ok nanoid (b\<lparr>tb_requests := tb_requests b @ [q], tb_pendingTaskRequests := ps\<rparr>)"
proof -
  let ?b = "b\<lparr>tb_requests := tb_requests b @ [q], tb_pendingTaskRequests := ps\<rparr>"
  have "calls_ok ?b"
  proof (rule calls_ok_requests [where b = b])
    show "calls_ok b" using assms(1) by (simp add: broker_ok_def)
    show "r \<in> set (tb_pendingTaskRequests b) \<or> r < length (tb_requests ?b)"
      if "r \<in> set (tb_pendingTaskRequests ?b)" for r
      using that assms(2) by auto
  qed (simp_all add: nth_append)
  moreover have "callbacks_ok nanoid ?b"
    by (rule callbacks_ok_cong [where b = b]) (use assms(1) in \<open>simp_all add: broker_ok_def\<close>)
  ultimately show ?thesis unfolding broker_ok_def ..
qed

lemma taskRequested_ok:
  assumes "broker_ok nanoid b" "inj nanoid"
  shows "broker_ok nanoid (fst (taskRequested nanoid now request b))"
  using new_request_ok [OF assms(1), of "tb_pendingTaskRequests b" "request\<lparr>tq_timeout := False\<rparr>"]
    settleTasks_ok [OF new_request_ok [OF assms(1), of "tb_pendingTaskRequests b @ [length (tb_requests b)]" request] assms(2), of now]
  by (auto simp: taskRequested_def Let_def)

text \<open>Answers, timers and the end of a call.\<close>

text \<open>A call moves on to another stage while callbacks may be taken away.\<close>

lemma new_stage_ok:
  assumes "broker_ok nanoid b" "map_of (tb_accepting b) i = Some a"
    and "tb_accepting b' = map_put i (a\<lparr>aq_stage := st\<rparr>) (tb_accepting b)"
    and "tb_requests b' = tb_requests b" "tb_pendingTaskRequests b' = tb_pendingTaskRequests b"
    and "tb_drawn b' = tb_drawn b" "tb_tasks b' = tb_tasks b"
    and "set (tb_runnerAcceptRejects b') \<subseteq> set (tb_runnerAcceptRejects b)"
    and "answerable st \<or> i \<notin> set (tb_runnerAcceptRejects b')"
  shows "broker_ok nanoid b'"
proof -
  have calls: "calls_ok b" and backs: "callbacks_ok nanoid b" using assms(1) by (simp_all add: broker_ok_def)
  have keys: "keys (tb_accepting b') = keys (tb_accepting b)"
    using assms(2,3) by (simp add: keys_map_put_same)
  have reqs: "map (aq_request \<circ> snd) (tb_accepting b') = map (aq_request \<circ> snd) (tb_accepting b)"
    unfolding assms(3) by (rule distinct_map_put_same [OF assms(2)]) simp
  have entry: "(i, a) \<in> set (tb_accepting b)" using assms(2) by (rule map_of_SomeD)
  have entries: "e = (i, a\<lparr>aq_stage := st\<rparr>) \<or> e \<in> set (tb_accepting b) \<and> fst e \<noteq> i"
    if "e \<in> set (tb_accepting b')" for e
    using jsmap.entries_put [of "tb_accepting b" i "a\<lparr>aq_stage := st\<rparr>"] \<open>e \<in> _\<close> calls
    unfolding calls_ok_def assms(3) by blast
  have "\<forall>(i, a) \<in> set (tb_accepting b'). aq_request a < length (tb_requests b') \<and>
      tq_acceptInProgress (tb_requests b' ! aq_request a)"
    using entries entry calls unfolding calls_ok_def assms(4) by fastforce
  then have "calls_ok b'"
    using calls unfolding calls_ok_def keys reqs assms(4,5) by blast
  moreover have "answerable (aq_stage c)"
    if "(j, c) \<in> set (tb_accepting b')" "j \<in> set (tb_runnerAcceptRejects b')" for j c
  proof (cases "(j, c) = (i, a\<lparr>aq_stage := st\<rparr>)")
    case True
    then show ?thesis using that(2) assms(9) by simp
  next
    case False
    then have "(j, c) \<in> set (tb_accepting b)" using entries [OF that(1)] by blast
    then show ?thesis using backs that(2) assms(8) unfolding callbacks_ok_def by blast
  qed
  then have "callbacks_ok nanoid b'"
    using backs assms(8) unfolding callbacks_ok_def keys assms(6,7) by blast
  ultimately show ?thesis unfolding broker_ok_def ..
qed

lemma fewer_callbacks_ok:
  assumes "broker_ok nanoid b"
  shows "broker_ok nanoid (b\<lparr>tb_runnerAcceptRejects := set_delete i (tb_runnerAcceptRejects b)\<rparr>)"
proof -
  let ?b = "b\<lparr>tb_runnerAcceptRejects := set_delete i (tb_runnerAcceptRejects b)\<rparr>"
  have "calls_ok ?b" using assms unfolding broker_ok_def calls_ok_def by simp
  moreover have "callbacks_ok nanoid ?b" using assms unfolding broker_ok_def callbacks_ok_def by auto
  ultimately show ?thesis unfolding broker_ok_def ..
qed

lemma answerable_settle [simp]:
  "answerable (settle_runner_stage (Rejected reason) st) = answerable st"
  by (induction st rule: answerable.induct) simp_all

lemma answerable_requester [simp]: "answerable (settle_requester_stage p st) = answerable st"
  by (cases st) simp_all

lemma change_stage_ok:
  assumes "broker_ok nanoid b" "\<And>st. answerable st \<Longrightarrow> i \<in> set (tb_runnerAcceptRejects b) \<Longrightarrow> answerable (f st)"
  shows "broker_ok nanoid (change_stage f i b)"
proof (cases "map_of (tb_accepting b) i")
  case (Some a)
  have "answerable (aq_stage a) \<or> i \<notin> set (tb_runnerAcceptRejects b)"
    using assms(1) map_of_SomeD [OF Some] unfolding broker_ok_def callbacks_ok_def by auto
  then have "answerable (f (aq_stage a)) \<or> i \<notin> set (tb_runnerAcceptRejects b)" using assms(2) by blast
  then show ?thesis
    using Some by (intro new_stage_ok [OF assms(1) Some]) (simp_all add: change_stage_def)
qed (use assms(1) in \<open>simp add: change_stage_def\<close>)

lemma answer_runner_ok: "broker_ok nanoid b \<Longrightarrow> broker_ok nanoid (answer_runner i p b)"
  by (auto simp: answer_runner_def intro!: change_stage_ok fewer_callbacks_ok)

lemma requester_callbacks_ok [simp]:
  "broker_ok nanoid (b\<lparr>tb_requesterAcceptRejects := cs\<rparr>) \<longleftrightarrow> broker_ok nanoid b"
  by (simp add: broker_ok_def calls_ok_def callbacks_ok_def)

lemma answer_requester_ok: "broker_ok nanoid b \<Longrightarrow> broker_ok nanoid (answer_requester i p b)"
  by (simp add: answer_requester_def change_stage_ok)

lemma accept_ended_ok:
  assumes "broker_ok nanoid b"
  shows "broker_ok nanoid (accept_ended i b)"
proof -
  have "calls_ok (accept_ended i b)"
    using assms unfolding broker_ok_def calls_ok_def accept_ended_def
    by (auto simp: map_delete_set map_delete_distinct) (simp add: map_delete_def distinct_map_filter)
  moreover have "callbacks_ok nanoid (accept_ended i b)"
    using assms unfolding broker_ok_def callbacks_ok_def accept_ended_def
    by (auto simp: keys_def map_delete_set)
  ultimately show ?thesis unfolding broker_ok_def ..
qed

section \<open>All steps\<close>

lemma not_accepted_ok:
  assumes "broker_ok nanoid b" "\<forall>e \<in> set (tb_accepting b). aq_request (snd e) \<noteq> r"
    "r < length (tb_requests b)"
  shows "broker_ok nanoid (fst (not_accepted r reason b))"
proof -
  have put: "broker_ok nanoid (put_request r q (b\<lparr>tb_pendingTaskRequests := ps\<rparr>))"
    if "set ps \<subseteq> insert r (set (tb_pendingTaskRequests b))" for q ps
  proof -
    let ?b = "put_request r q (b\<lparr>tb_pendingTaskRequests := ps\<rparr>)"
    have "calls_ok ?b"
    proof (rule calls_ok_requests [where b = b])
      show "calls_ok b" using assms(1) by (simp add: broker_ok_def)
      show "tq_acceptInProgress (tb_requests ?b ! aq_request a)"
        if "(i, a) \<in> set (tb_accepting b)" "tq_acceptInProgress (tb_requests b ! aq_request a)" for i a
        using that assms(2) by force
      show "r' \<in> set (tb_pendingTaskRequests b) \<or> r' < length (tb_requests ?b)"
        if "r' \<in> set (tb_pendingTaskRequests ?b)" for r'
        using that \<open>set ps \<subseteq> _\<close> assms(3) by auto
    qed simp_all
    moreover have "callbacks_ok nanoid ?b"
      by (rule callbacks_ok_cong [where b = b]) (use assms(1) in \<open>simp_all add: broker_ok_def\<close>)
    ultimately show ?thesis unfolding broker_ok_def ..
  qed
  have "b\<lparr>tb_pendingTaskRequests := tb_pendingTaskRequests b\<rparr> = b" by simp
  then show ?thesis
    using put [of "tb_pendingTaskRequests b", OF subset_insertI] put [of "tb_pendingTaskRequests b @ [r]"]
    by (simp add: not_accepted_def Let_def split: reject_reason.split)
qed

lemma new_task_ok:
  assumes "broker_ok nanoid b" "i \<in> set (keys (tb_accepting b))" "i \<notin> set (tb_runnerAcceptRejects b)" "tk_id t = i"
  shows "broker_ok nanoid (b\<lparr>tb_tasks := map_put i t (tb_tasks b)\<rparr>)"
proof -
  let ?b = "b\<lparr>tb_tasks := map_put i t (tb_tasks b)\<rparr>"
  have backs: "callbacks_ok nanoid b" using assms(1) by (simp add: broker_ok_def)
  have "\<forall>(j, t') \<in> set (tb_tasks b). tk_id t' = j" using backs unfolding callbacks_ok_def by blast
  then have "\<forall>(j, t') \<in> set (map_put i t (tb_tasks b)). tk_id t' = j"
    using assms(4) by (auto dest!: map_put_in)
  moreover have "distinct (keys (map_put i t (tb_tasks b)))"
    by (rule map_put_distinct) (use backs in \<open>simp add: callbacks_ok_def\<close>)
  moreover have "i \<in> nanoid ` {..<tb_drawn b}" using backs assms(2) unfolding callbacks_ok_def by blast
  ultimately have "callbacks_ok nanoid ?b"
    using backs assms(3) by (simp add: callbacks_ok_def map_put_keys)
  moreover have "calls_ok ?b" using assms(1) unfolding broker_ok_def calls_ok_def by simp
  ultimately show ?thesis unfolding broker_ok_def by blast
qed

lemma runner_accepted_ok:
  assumes "broker_ok nanoid b" "map_of (tb_accepting b) i = Some a" "aq_stage a = AwaitRunner (Resolved u)"
  shows "broker_ok nanoid (fst (runner_accepted i a b))"
proof -
  have entry: "(i, a) \<in> set (tb_accepting b)" using assms(2) by (rule map_of_SomeD)
  then have "answerable (aq_stage a) \<or> i \<notin> set (tb_runnerAcceptRejects b)"
    using assms(1) unfolding broker_ok_def callbacks_ok_def by auto
  then have free: "i \<notin> set (tb_runnerAcceptRejects b)" using assms(3) by simp
  let ?q = "(tb_requests b ! aq_request a)\<lparr>tq_timeout := False\<rparr>"
  let ?t = "\<lparr>tk_id = i, tk_runnerId = of_runnerId (aq_offer a), tk_requesterId = tq_requesterId ?q,
    tk_taskType = of_taskType (aq_offer a), tk_timeout = False\<rparr>"
  let ?b1 = "put_request (aq_request a) ?q b"
  let ?b2 = "?b1\<lparr>tb_tasks := map_put i ?t (tb_tasks ?b1)\<rparr>"
  have "broker_ok nanoid ?b1" by (rule put_request_ok [OF assms(1)]) simp
  then have ok2: "broker_ok nanoid ?b2"
    using entry free by (intro new_task_ok) (auto simp: keys_def intro: rev_image_eqI)
  show ?thesis
  proof (cases "findIndex (\<lambda>r'. tq_requestId (tb_requests ?b2 ! r') = tq_requestId ?q) (tb_pendingTaskRequests ?b2)")
    case None
    then show ?thesis using accept_ended_ok [OF ok2] by (simp add: runner_accepted_def Let_def)
  next
    case (Some k)
    let ?b3 = "?b2\<lparr>tb_pendingTaskRequests := splice_at k (tb_pendingTaskRequests ?b2)\<rparr>"
    have "broker_ok nanoid ?b3" by (rule pending_subset_ok [OF ok2 set_splice_at])
    then have "broker_ok nanoid (fst (runner_accepted i a b))"
      by (rule new_stage_ok [where i = i and a = a and st = "AwaitRequester Unsettled"])
        (use assms(2) free Some in \<open>simp_all add: runner_accepted_def Let_def\<close>)
    then show ?thesis .
  qed
qed

lemma same_requests_ended_ok:
  "broker_ok nanoid b \<Longrightarrow> same_calls b b' \<Longrightarrow> broker_ok nanoid (accept_ended i b')"
  by (rule accept_ended_ok, rule same_calls_ok)

lemma sendTaskSettings_ok:
  assumes "broker_ok nanoid b" "map_of (tb_accepting b) i = Some a" "aq_stage a = AwaitRequester (Resolved settings)"
  shows "broker_ok nanoid (fst (sendTaskSettings i a settings b))"
proof (cases "map_of (tb_tasks b) i")
  case None
  then show ?thesis using accept_ended_ok [OF assms(1)] by (simp add: sendTaskSettings_def)
next
  case (Some t)
  obtain res b' fx where r: "getRunnerOrFailTask i b = (res, b', fx)" by (cases "getRunnerOrFailTask i b")
  then have same: "same_calls b b'" using getRunnerOrFailTask_same_calls [of b i] by simp
  have ok: "broker_ok nanoid b'" by (rule same_calls_ok [OF same assms(1)])
  show ?thesis
  proof (cases res)
    case (Inl e)
    then show ?thesis
      using Some r same_requests_ended_ok [OF ok cancelTask_same_calls] by (simp add: sendTaskSettings_def)
  next
    case (Inr runner)
    have acc: "map_of (tb_accepting b') i = Some a" using assms(2) same by (simp add: same_calls_def)
    then have "i \<notin> set (tb_runnerAcceptRejects b')"
      using ok assms(3) map_of_SomeD [OF acc] unfolding broker_ok_def callbacks_ok_def by auto
    then have "broker_ok nanoid (b'\<lparr>tb_accepting := map_put i (a\<lparr>aq_stage := HaveRunner runner settings\<rparr>) (tb_accepting b')\<rparr>)"
      by (intro new_stage_ok [OF ok acc]) simp_all
    then show ?thesis using Some r Inr by (simp add: sendTaskSettings_def)
  qed
qed

lemma settings_sent_ok: "broker_ok nanoid b \<Longrightarrow> broker_ok nanoid (fst (settings_sent i runner settings b))"
  by (auto simp: settings_sent_def accept_ended_ok split: option.split
    intro!: same_requests_ended_ok put_task_same_calls)

lemma not_ready_ok: "broker_ok nanoid b \<Longrightarrow> broker_ok nanoid (fst (not_ready i reason b))"
  by (simp add: not_ready_def same_requests_ended_ok split: reject_reason.split)

text \<open>When a call ends, its request is free of calls.\<close>

lemma ended_request_free:
  assumes "broker_ok nanoid b" "map_of (tb_accepting b) i = Some a"
  shows "\<forall>e \<in> set (tb_accepting (accept_ended i b)). aq_request (snd e) \<noteq> aq_request a"
    and "aq_request a < length (tb_requests b)"
proof -
  have entry: "(i, a) \<in> set (tb_accepting b)" using assms(2) by (rule map_of_SomeD)
  have dist: "distinct (map (aq_request \<circ> snd) (tb_accepting b))"
    using assms(1) unfolding broker_ok_def calls_ok_def by blast
  have "e = (i, a)" if "e \<in> set (tb_accepting b)" "aq_request (snd e) = aq_request a" for e
    using dist entry that unfolding distinct_map by (auto dest: inj_onD [where x = e and y = "(i, a)"])
  then show "\<forall>e \<in> set (tb_accepting (accept_ended i b)). aq_request (snd e) \<noteq> aq_request a"
    by (auto simp: accept_ended_def map_delete_set)
  show "aq_request a < length (tb_requests b)"
    using entry assms(1) unfolding broker_ok_def calls_ok_def by blast
qed

lemma continue_accept_ok:
  assumes "broker_ok nanoid b"
  shows "broker_ok nanoid (fst (continue_accept i b))"
proof (cases "map_of (tb_accepting b) i")
  case (Some a)
  have "broker_ok nanoid (fst (not_accepted (aq_request a) reason (accept_ended i b)))" for reason
    using ended_request_free [OF assms Some] accept_ended_ok [OF assms]
    by (intro not_accepted_ok) (simp_all add: accept_ended_def)
  then show ?thesis
    using Some assms runner_accepted_ok [OF assms Some] sendTaskSettings_ok [OF assms Some]
    by (auto simp: continue_accept_def settings_sent_ok not_ready_ok split: accept_stage.split js_promise.split)
qed (use assms in \<open>simp add: continue_accept_def\<close>)

text \<open>A runner that leaves: no task has a callback, so nothing is rejected.\<close>

lemma failTask_keys: "set (keys (tb_tasks (fst (failTask i e b)))) \<subseteq> set (keys (tb_tasks b))"
  by (rule same_calls_keys) simp

lemma fail_task_of_same_calls:
  assumes "broker_ok nanoid b" "tk_id task \<notin> set (tb_runnerAcceptRejects b)"
  shows "same_calls b (fst (fail_task_of runnerId message task b))"
proof -
  have "same_calls b (fst (failTask (tk_id task) (Failure (JsError message)) b))" by simp
  then have "tk_id task \<notin> set (tb_runnerAcceptRejects (fst (failTask (tk_id task) (Failure (JsError message)) b)))"
    using assms(2) by (simp add: same_calls_def)
  then show ?thesis by (simp add: fail_task_of_def handleRunnerReject_def answer_runner_def)
qed

lemma fail_tasks_of_same_calls:
  assumes "broker_ok nanoid b" "\<forall>task \<in> set tasks. tk_id task \<notin> set (tb_runnerAcceptRejects b)"
  shows "same_calls b (fst (fail_tasks_of runnerId message tasks b))"
  using assms
proof (induction tasks arbitrary: b)
  case (Cons task tasks)
  let ?b = "fst (fail_task_of runnerId message task b)"
  have same: "same_calls b ?b" using Cons.prems by (intro fail_task_of_same_calls) auto
  have "broker_ok nanoid ?b" by (rule same_calls_ok [OF same Cons.prems(1)])
  then have "same_calls ?b (fst (fail_tasks_of runnerId message tasks ?b))"
    using Cons.prems(2) same by (intro Cons.IH) (auto simp: same_calls_def)
  with same show ?case by (simp add: same_calls_trans)
qed simp

lemma task_without_callback:
  assumes "broker_ok nanoid b" "task \<in> set (vals (tb_tasks b))"
  shows "tk_id task \<notin> set (tb_runnerAcceptRejects b)"
proof -
  obtain i where i: "(i, task) \<in> set (tb_tasks b)" using assms(2) by (auto simp: vals_def)
  have named: "\<forall>(i, t) \<in> set (tb_tasks b). tk_id t = i"
    and apart: "set (keys (tb_tasks b)) \<inter> set (tb_runnerAcceptRejects b) = {}"
    using assms(1) unfolding broker_ok_def callbacks_ok_def by blast+
  have "tk_id task = i" using named i by blast
  moreover have "i \<in> set (keys (tb_tasks b))" using i by (force simp: keys_def)
  ultimately show ?thesis using apart by blast
qed

definition forget_runner :: "string \<Rightarrow> task_broker \<Rightarrow> task_broker" where
  "forget_runner runnerId b = b\<lparr>tb_knownRunners := map_delete runnerId (tb_knownRunners b),
     tb_pendingTaskOffers := filter (\<lambda>offer. of_runnerId offer \<noteq> runnerId) (tb_pendingTaskOffers b)\<rparr>"

lemma deregisterRunner_eq:
  "deregisterRunner runnerId message b =
     fail_tasks_of runnerId message (vals (tb_tasks b)) (forget_runner runnerId b)"
  by (simp add: deregisterRunner_def forget_runner_def)

lemma forget_runner_same_calls [simp]: "same_calls b (forget_runner runnerId b)"
  by (auto simp: same_calls_def forget_runner_def)

lemma deregisterRunner_same_calls:
  assumes "broker_ok nanoid b"
  shows "same_calls b (fst (deregisterRunner runnerId message b))"
proof -
  let ?b = "forget_runner runnerId b"
  have ok: "broker_ok nanoid ?b" by (rule same_calls_ok [OF _ assms]) simp
  have "same_calls ?b (fst (fail_tasks_of runnerId message (vals (tb_tasks b)) ?b))"
    by (rule fail_tasks_of_same_calls [OF ok])
      (use task_without_callback [OF assms] in \<open>simp add: forget_runner_def\<close>)
  then show ?thesis
    using same_calls_trans [OF forget_runner_same_calls] by (simp add: deregisterRunner_eq)
qed

lemma passing_on_ok:
  assumes "broker_ok nanoid b"
  shows "broker_ok nanoid (fst (registerRunner runner b))" "broker_ok nanoid (registerRequester r b)"
    "broker_ok nanoid (deregisterRequester r b)" "broker_ok nanoid (startDraining b)"
    "broker_ok nanoid (stopDraining b)" "broker_ok nanoid (fst (handleResponse i q data b))"
  using assms by (simp_all add: handler_defs Let_def broker_ok_def calls_ok_def callbacks_ok_def split: option.split)

lemma onRunnerMessage_ok:
  assumes "broker_ok nanoid b" "inj nanoid"
  shows "broker_ok nanoid (fst (onRunnerMessage nanoid now later runnerId message b))"
proof -
  have "broker_ok nanoid (fst (end_task i m b))" for i m by (rule same_calls_ok [OF end_task_same_calls assms(1)])
  then show ?thesis
    using assms taskOffered_ok [OF assms] answer_runner_ok [OF assms(1)]
    by (simp add: onRunnerMessage_def handler_defs handleRunnerAccept_def handleRunnerReject_def
      handleRunnerDeferred_def split: runner_to_broker.split)
qed

lemma onRequesterMessage_ok:
  assumes "broker_ok nanoid b" "inj nanoid"
  shows "broker_ok nanoid (fst (onRequesterMessage nanoid now requesterId message b))"
proof -
  have "broker_ok nanoid (fst (pass_to_runner i m b))" "broker_ok nanoid (fst (cancelTask i reason b))" for i m reason
    using same_calls_ok [OF pass_to_runner_same_calls assms(1)] same_calls_ok [OF cancelTask_same_calls assms(1)]
    by blast+
  then show ?thesis
    using assms taskRequested_ok [OF assms] answer_requester_ok [OF assms(1)]
    by (simp add: onRequesterMessage_def handler_defs handleRequesterAccept_def split: requester_to_broker.split)
qed

lemma broker_step_ok:
  assumes "broker_ok nanoid b" "inj nanoid"
  shows "broker_ok nanoid (fst (broker_step nanoid mode e b))"
proof -
  have timers: "broker_ok nanoid (runner_accept_timer i b)" "broker_ok nanoid (requester_accept_timer i b)" for i
    using assms(1) by (simp_all add: runner_accept_timer_def requester_accept_timer_def change_stage_ok)
  have tasks: "broker_ok nanoid (fst (task_timer mode i b))" "broker_ok nanoid (close_task i b)"
    "broker_ok nanoid (fst (deregisterRunner runnerId message b))" for i runnerId message
    using same_calls_ok [OF task_timer_same_calls assms(1)] same_calls_ok [OF close_task_same_calls assms(1)]
      same_calls_ok [OF deregisterRunner_same_calls [OF assms(1)] assms(1)] by blast+
  show ?thesis
    by (cases e) (simp_all add: timers tasks passing_on_ok [OF assms(1)] onRunnerMessage_ok [OF assms]
      onRequesterMessage_ok [OF assms] request_timer_ok [OF assms(1)] continue_accept_ok [OF assms(1)]
      handleRequesterReject_def answer_requester_ok [OF assms(1)])
qed

theorem reachable_broker_ok:
  assumes "broker_reachable nanoid mode b" "inj nanoid"
  shows "broker_ok nanoid b"
proof -
  obtain t b0 where start: "newTaskBroker t = Inr b0" and "broker_later nanoid mode b0 b"
    using assms(1) unfolding broker_reachable_def by blast
  from this(2) show ?thesis
  proof (induction rule: broker_later.induct)
    case later_refl
    show ?case by (rule new_broker_ok [OF start])
  next
    case (later_step b' e)
    show ?case by (rule broker_step_ok [OF later_step.IH assms(2)])
  qed
qed

section \<open>Requests a runner has accepted\<close>

fun with_runner :: "accept_stage \<Rightarrow> bool" where
  "with_runner (AwaitRunner p) = True"
| "with_runner st = False"

definition taken :: "nat \<Rightarrow> task_broker \<Rightarrow> bool" where
  "taken r b \<longleftrightarrow> r < length (tb_requests b) \<and> tq_acceptInProgress (tb_requests b ! r) \<and>
     (\<forall>(i, a) \<in> set (tb_accepting b). aq_request a = r \<longrightarrow> \<not> with_runner (aq_stage a))"

lemma taken_cong:
  assumes "taken r b" "tb_accepting b' = tb_accepting b" "tb_requests b' = tb_requests b"
  shows "taken r b'"
  using assms(1) unfolding taken_def assms(2,3) .

lemma taken_same_calls: "same_calls b b' \<Longrightarrow> taken r b \<Longrightarrow> taken r b'"
  by (erule taken_cong) (simp_all add: same_calls_def)

lemma taken_put_request:
  "taken r b \<Longrightarrow> (r' = r \<Longrightarrow> tq_acceptInProgress q) \<Longrightarrow> taken r (put_request r' q b)"
  by (cases "r' = r") (auto simp: taken_def)

lemma taken_timeout: "taken r b \<Longrightarrow> taken r (put_request r' ((tb_requests b ! r')\<lparr>tq_timeout := on\<rparr>) b)"
  by (rule taken_put_request) (simp_all add: taken_def)

lemma taken_new_request:
  "taken r b \<Longrightarrow> tb_accepting b' = tb_accepting b \<Longrightarrow> tb_requests b' = tb_requests b @ [q] \<Longrightarrow> taken r b'"
  by (auto simp: taken_def nth_append)

lemma taken_stage:
  assumes "taken r b" "map_of (tb_accepting b) i = Some a" "with_runner st \<longrightarrow> with_runner (aq_stage a)"
    and "tb_requests b' = tb_requests b" "tb_accepting b' = map_put i (a\<lparr>aq_stage := st\<rparr>) (tb_accepting b)"
  shows "taken r b'"
proof -
  have moved: "aq_request a = r \<longrightarrow> \<not> with_runner st"
    using assms(1-3) map_of_SomeD [OF assms(2)] unfolding taken_def by auto
  have "\<not> with_runner (aq_stage c)" if "(j, c) \<in> set (tb_accepting b')" "aq_request c = r" for j c
    using map_put_in [OF that(1) [unfolded assms(5)]]
  proof
    assume "(j, c) = (i, a\<lparr>aq_stage := st\<rparr>)"
    then show ?thesis using that(2) moved by simp
  next
    assume "(j, c) \<in> set (tb_accepting b)"
    then show ?thesis using that(2) assms(1) unfolding taken_def by blast
  qed
  then show ?thesis using assms(1) unfolding taken_def assms(4) by blast
qed

lemma with_runner_settle [simp]:
  "with_runner (settle_runner_stage p st) = with_runner st" "with_runner (settle_requester_stage p' st) = with_runner st"
  by (cases st; simp)+

lemma taken_change_stage:
  assumes "taken r b" "\<And>st. with_runner (f st) = with_runner st"
  shows "taken r (change_stage f i b)"
proof (cases "map_of (tb_accepting b) i")
  case (Some a)
  then show ?thesis
    using assms(2) by (intro taken_stage [OF assms(1) Some, where st = "f (aq_stage a)"]) (simp_all add: change_stage_def)
qed (use assms(1) in \<open>simp add: change_stage_def\<close>)

lemma taken_ended: "taken r b \<Longrightarrow> taken r (accept_ended i b)"
  by (auto simp: taken_def accept_ended_def map_delete_set)

lemma taken_acceptOffer:
  assumes "taken r b" "r' \<noteq> r"
  shows "taken r (fst (acceptOffer nanoid offer r' b))"
  using assms by (auto simp: taken_def acceptOffer_def Let_def dest!: map_put_in)

lemma taken_settle_loop:
  assumes "taken r b"
  shows "taken r (fst (settle_loop nanoid rs b))"
  using assms
proof (induction rs arbitrary: b)
  case (Cons r' rs)
  let ?q = "tb_requests b ! r'"
  show ?case
  proof (cases "tq_acceptInProgress ?q \<or> findIndex (\<lambda>o'. of_taskType o' = tq_taskType ?q) (tb_pendingTaskOffers b) = None")
    case True
    then show ?thesis using Cons by (auto simp: Let_def)
  next
    case False
    then obtain i where i: "findIndex (\<lambda>o'. of_taskType o' = tq_taskType ?q) (tb_pendingTaskOffers b) = Some i"
      and free: "\<not> tq_acceptInProgress ?q" by auto
    have "r' \<noteq> r" using free Cons.prems by (auto simp: taken_def)
    moreover have "taken r (b\<lparr>tb_pendingTaskOffers := splice_at i (tb_pendingTaskOffers b)\<rparr>)"
      by (rule taken_cong [OF Cons.prems]) simp_all
    ultimately show ?thesis
      using i free Cons.IH by (simp add: Let_def taken_acceptOffer taken_put_request)
  qed
qed simp

lemma taken_settleTasks: "taken r b \<Longrightarrow> taken r (fst (settleTasks nanoid now b))"
  unfolding settleTasks_def Let_def by (rule taken_settle_loop, erule taken_cong) simp_all

lemma taken_handleRequestTimeout:
  assumes "taken r b"
  shows "taken r (fst (handleRequestTimeout i b))"
proof (cases "findIndex (\<lambda>r. tq_requestId (tb_requests b ! r) = i) (tb_pendingTaskRequests b)")
  case (Some k)
  have "taken r (b\<lparr>tb_pendingTaskRequests := splice_at k (tb_pendingTaskRequests b)\<rparr>)"
    by (rule taken_cong [OF assms]) simp_all
  from taken_timeout [OF this] show ?thesis
    using Some by (simp add: handleRequestTimeout_def Let_def)
qed (use assms in \<open>simp add: handleRequestTimeout_def\<close>)

lemma taken_request_timer: "taken r b \<Longrightarrow> taken r (fst (request_timer r' b))"
  by (simp add: request_timer_def taken_handleRequestTimeout taken_timeout)

lemma taken_answers:
  assumes "taken r b"
  shows "taken r (answer_runner i p b)" "taken r (answer_requester i p' b)"
    "taken r (runner_accept_timer i b)" "taken r (requester_accept_timer i b)"
proof -
  have "taken r (b\<lparr>tb_runnerAcceptRejects := cs\<rparr>)" "taken r (b\<lparr>tb_requesterAcceptRejects := cs\<rparr>)" for cs
    by (rule taken_cong [OF assms]; simp)+
  then show "taken r (answer_runner i p b)" "taken r (answer_requester i p' b)"
    "taken r (runner_accept_timer i b)" "taken r (requester_accept_timer i b)"
    using assms by (simp_all add: answer_runner_def answer_requester_def runner_accept_timer_def
      requester_accept_timer_def taken_change_stage)
qed

lemma taken_taskRequested: "taken r b \<Longrightarrow> taken r (fst (taskRequested nanoid now q b))"
  unfolding taskRequested_def Let_def
  by (cases "tb_isDraining b") (simp_all add: taken_settleTasks taken_new_request)

lemma taken_taskOffered: "taken r b \<Longrightarrow> taken r (fst (taskOffered nanoid now offer b))"
  unfolding taskOffered_def by (rule taken_settleTasks, erule taken_cong) simp_all

lemma taken_not_accepted:
  assumes "taken r b" "r' \<noteq> r"
  shows "taken r (fst (not_accepted r' reason b))"
proof -
  have "taken r (b\<lparr>tb_pendingTaskRequests := ps\<rparr>)" for ps by (rule taken_cong [OF assms(1)]) simp_all
  then show ?thesis
    using assms by (simp add: not_accepted_def Let_def taken_put_request split: reject_reason.split)
qed

lemma taken_runner_accepted:
  assumes "taken r b" "map_of (tb_accepting b) i = Some a" "with_runner (aq_stage a)"
  shows "taken r (fst (runner_accepted i a b))"
proof -
  let ?q = "(tb_requests b ! aq_request a)\<lparr>tq_timeout := False\<rparr>"
  let ?b1 = "put_request (aq_request a) ?q b"
  have "aq_request a \<noteq> r"
    using assms map_of_SomeD [OF assms(2)] unfolding taken_def by auto
  then have taken1: "taken r ?b1" using assms(1) by (intro taken_put_request) simp_all
  have with_tasks: "taken r (?b1\<lparr>tb_tasks := ts\<rparr>)" for ts by (rule taken_cong [OF taken1]) simp_all
  have "taken r (?b1\<lparr>tb_tasks := ts, tb_pendingTaskRequests := ps, tb_requesterAcceptRejects := cs,
      tb_accepting := map_put i (a\<lparr>aq_stage := AwaitRequester Unsettled\<rparr>) (tb_accepting ?b1)\<rparr>)" for ts ps cs
    by (rule taken_stage [OF taken1, where i = i and a = a and st = "AwaitRequester Unsettled"])
      (use assms(2) in simp_all)
  then show ?thesis
    using taken_ended [OF with_tasks] by (simp add: runner_accepted_def Let_def split: option.split)
qed

lemma taken_sendTaskSettings:
  assumes "taken r b" "map_of (tb_accepting b) i = Some a"
  shows "taken r (fst (sendTaskSettings i a settings b))"
proof -
  obtain res b' fx where g: "getRunnerOrFailTask i b = (res, b', fx)" by (cases "getRunnerOrFailTask i b")
  then have same: "same_calls b b'" using getRunnerOrFailTask_same_calls [of b i] by simp
  then have t: "taken r b'" and acc: "map_of (tb_accepting b') i = Some a"
    using taken_same_calls [OF same assms(1)] assms(2) by (simp_all add: same_calls_def)
  have "taken r (b'\<lparr>tb_accepting := map_put i (a\<lparr>aq_stage := HaveRunner runner settings\<rparr>) (tb_accepting b')\<rparr>)" for runner
    by (rule taken_stage [OF t acc, where st = "HaveRunner runner settings"]) simp_all
  then show ?thesis
    using g taken_ended [OF assms(1)] taken_ended [OF taken_same_calls [OF cancelTask_same_calls t]]
    by (simp add: sendTaskSettings_def split: sum.split)
qed

lemma taken_continue_accept:
  assumes "taken r b"
  shows "taken r (fst (continue_accept i b))"
proof (cases "map_of (tb_accepting b) i")
  case (Some a)
  have rejected: "taken r (fst (not_accepted (aq_request a) reason (accept_ended i b)))"
    if "with_runner (aq_stage a)" for reason
    using map_of_SomeD [OF Some] that assms by (intro taken_not_accepted taken_ended) (auto simp: taken_def)
  have sent: "taken r (fst (settings_sent i runner settings b))" for runner settings
  proof (cases "map_of (tb_tasks b) i")
    case (Some t)
    have "taken r (b\<lparr>tb_tasks := ts\<rparr>)" for ts by (rule taken_cong [OF assms]) simp_all
    then show ?thesis using Some by (simp add: settings_sent_def taken_ended)
  qed (use assms in \<open>simp add: settings_sent_def taken_ended\<close>)
  have unready: "taken r (fst (not_ready i reason b))" for reason
    using taken_same_calls [OF cancelTask_same_calls assms] by (simp add: not_ready_def taken_ended split: reject_reason.split)
  show ?thesis
    using Some assms rejected sent unready taken_runner_accepted [OF assms Some] taken_sendTaskSettings [OF assms Some]
    by (simp add: continue_accept_def split: accept_stage.split js_promise.split)
qed (use assms in \<open>simp add: continue_accept_def\<close>)

lemma taken_fail_tasks: "taken r b \<Longrightarrow> taken r (fst (fail_tasks_of runnerId message tasks b))"
proof (induction tasks arbitrary: b)
  case (Cons task tasks)
  have "taken r (fst (fail_task_of runnerId message task b))"
    using taken_same_calls [OF failTask_same_calls Cons.prems] Cons.prems
    by (simp add: fail_task_of_def handleRunnerReject_def taken_answers)
  then show ?case by (simp add: Cons.IH)
qed simp

lemma taken_onRunnerMessage: "taken r b \<Longrightarrow> taken r (fst (onRunnerMessage nanoid now later runnerId message b))"
  using taken_same_calls [OF end_task_same_calls, of r b]
  by (simp add: onRunnerMessage_def handler_defs handleRunnerAccept_def handleRunnerReject_def
    handleRunnerDeferred_def taken_answers taken_taskOffered split: runner_to_broker.split)

lemma taken_onRequesterMessage: "taken r b \<Longrightarrow> taken r (fst (onRequesterMessage nanoid now requesterId message b))"
  using taken_same_calls [OF pass_to_runner_same_calls, of r b] taken_same_calls [OF cancelTask_same_calls, of r b]
  by (simp add: onRequesterMessage_def handler_defs handleRequesterAccept_def taken_answers
    taken_taskRequested split: requester_to_broker.split)

lemma taken_passing_on:
  assumes "taken r b"
  shows "taken r (fst (registerRunner runner b))" "taken r (registerRequester i b)"
    "taken r (deregisterRequester i b)" "taken r (startDraining b)" "taken r (stopDraining b)"
    "taken r (fst (handleResponse i q data b))"
  using assms by (simp_all add: handler_defs Let_def taken_def split: option.split)

lemma taken_step:
  assumes "taken r b"
  shows "taken r (fst (broker_step nanoid mode e b))"
proof -
  have "taken r (fst (deregisterRunner runnerId message b))" for runnerId message
    unfolding deregisterRunner_eq
    by (rule taken_fail_tasks, rule taken_same_calls [OF forget_runner_same_calls assms])
  moreover have "taken r (fst (task_timer mode i b))" "taken r (close_task i b)" for i
    using taken_same_calls [OF task_timer_same_calls assms] taken_same_calls [OF close_task_same_calls assms] by blast+
  ultimately show ?thesis
    by (cases e) (simp_all add: taken_answers [OF assms] taken_passing_on [OF assms] taken_onRunnerMessage [OF assms]
      taken_onRequesterMessage [OF assms] taken_request_timer [OF assms] taken_continue_accept [OF assms]
      handleRequesterReject_def)
qed

lemma taken_later:
  assumes "broker_later nanoid mode b b'" "taken r b"
  shows "taken r b'"
  using assms(1)
proof (induction rule: broker_later.induct)
  case later_refl
  show ?case by (rule assms(2))
next
  case (later_step b' e)
  show ?case by (rule taken_step [OF later_step.IH])
qed

text \<open>A request is taken as soon as the call that a runner accepted goes on.\<close>

lemma accepted_taken:
  assumes "broker_ok nanoid b" "map_of (tb_accepting b) i = Some a" "aq_stage a = AwaitRunner (Resolved u)"
  shows "taken (aq_request a) (fst (continue_accept i b))"
proof -
  let ?r = "aq_request a" and ?b = "fst (continue_accept i b)"
  let ?q = "(tb_requests b ! ?r)\<lparr>tq_timeout := False\<rparr>"
  have calls: "calls_ok b" and entry: "(i, a) \<in> set (tb_accepting b)"
    using assms(1) map_of_SomeD [OF assms(2)] by (simp_all add: broker_ok_def)
  have known: "?r < length (tb_requests b)" "tq_acceptInProgress (tb_requests b ! ?r)"
    using calls entry unfolding calls_ok_def by auto
  have requests: "tb_requests ?b = (tb_requests b)[?r := ?q]"
    using assms(2,3) by (simp add: continue_accept_def runner_accepted_def Let_def accept_ended_def split: option.split)
  have ended: "\<forall>e \<in> set (map_delete i (tb_accepting b)). aq_request (snd e) \<noteq> ?r"
    using ended_request_free(1) [OF assms(1,2)] by (simp add: accept_ended_def)
  have "tb_accepting ?b = map_delete i (tb_accepting b)
      \<or> tb_accepting ?b = map_put i (a\<lparr>aq_stage := AwaitRequester Unsettled\<rparr>) (tb_accepting b)"
    using assms(2,3) by (simp add: continue_accept_def runner_accepted_def Let_def accept_ended_def split: option.split)
  then have "\<not> with_runner (aq_stage c)" if "(j, c) \<in> set (tb_accepting ?b)" "aq_request c = ?r" for j c
  proof
    assume "tb_accepting ?b = map_delete i (tb_accepting b)"
    then show ?thesis using that ended by auto
  next
    assume put: "tb_accepting ?b = map_put i (a\<lparr>aq_stage := AwaitRequester Unsettled\<rparr>) (tb_accepting b)"
    have "set (tb_accepting ?b) = insert (i, a\<lparr>aq_stage := AwaitRequester Unsettled\<rparr>) {e \<in> set (tb_accepting b). fst e \<noteq> i}"
      unfolding put by (rule jsmap.entries_put) (use calls in \<open>simp add: calls_ok_def\<close>)
    then show ?thesis using that ended by (auto simp: map_delete_set)
  qed
  then show ?thesis using known by (auto simp: taken_def requests)
qed

end
