(* ===== verification/Broker_Properties.thy ===== *)
theory Broker_Properties
  imports Broker_Invariant
begin

text \<open>
  The properties of the task broker: how requests and offers are matched, that a request is accepted
  once, what the departure of a runner does, and what happens to an acceptance that comes too late.
\<close>

section \<open>Matching\<close>

definition open_for :: "task_broker \<Rightarrow> string \<Rightarrow> nat \<Rightarrow> bool" where
  "open_for b T r \<longleftrightarrow> \<not> tq_acceptInProgress (tb_requests b ! r) \<and> tq_taskType (tb_requests b ! r) = T"

abbreviation offers_of :: "string \<Rightarrow> TaskOffer list \<Rightarrow> TaskOffer list" where
  "offers_of T os \<equiv> filter (\<lambda>offer. of_taskType offer = T) os"

definition matched :: "string \<Rightarrow> (string \<times> acceptance) list \<Rightarrow> (nat \<times> TaskOffer) list" where
  "matched T calls = map (\<lambda>(i, a). (aq_request a, aq_offer a)) (filter (\<lambda>(i, a). of_taskType (aq_offer a) = T) calls)"

definition accept_messages :: "task_broker \<Rightarrow> (string \<times> acceptance) list \<Rightarrow> broker_effect list" where
  "accept_messages b calls = concat (map (\<lambda>(i, a).
     messageRunner (of_runnerId (aq_offer a)) (TaskOfferAccept (of_offerId (aq_offer a)) i) b) calls)"

lemma set_of_list_Cons: "set_of_list (x # xs) = x # set_of_list (filter (\<lambda>y. y \<noteq> x) xs)"
proof -
  have "fold set_add xs (x # s) = x # fold set_add (filter (\<lambda>y. y \<noteq> x) xs) s" for s
    by (induction xs arbitrary: s) (auto simp: set_add_def)
  from this [of "[]"] show ?thesis by (simp add: set_of_list_def set_add_def)
qed

lemma accept_messages_cong:
  "tb_knownRunners b' = tb_knownRunners b \<Longrightarrow> accept_messages b' calls = accept_messages b calls"
  by (simp add: accept_messages_def messageRunner_def)

lemma settle_loop_pairs:
  assumes "broker_ok nanoid b" "inj nanoid" "\<forall>r \<in> set rs. r < length (tb_requests b)"
  shows "\<exists>calls. tb_accepting (fst (settle_loop nanoid rs b)) = tb_accepting b @ calls \<and>
      snd (settle_loop nanoid rs b) = accept_messages b calls \<and>
      (\<forall>T. matched T calls = zip (set_of_list (filter (open_for b T) rs)) (offers_of T (tb_pendingTaskOffers b)) \<and>
        offers_of T (tb_pendingTaskOffers (fst (settle_loop nanoid rs b))) =
          drop (length (set_of_list (filter (open_for b T) rs))) (offers_of T (tb_pendingTaskOffers b)))"
  using assms
proof (induction rs arbitrary: b)
  case Nil
  show ?case by (rule exI [of _ "[]"]) (simp add: matched_def accept_messages_def set_of_list_def)
next
  case (Cons r rs)
  let ?q = "tb_requests b ! r" and ?os = "tb_pendingTaskOffers b"
  let ?find = "findIndex (\<lambda>o'. of_taskType o' = tq_taskType ?q) ?os"
  have rest: "\<forall>r \<in> set rs. r < length (tb_requests b)" using Cons.prems(3) by simp
  consider (busy) "tq_acceptInProgress ?q" | (none) "\<not> tq_acceptInProgress ?q" "?find = None"
    | (found) i where "\<not> tq_acceptInProgress ?q" "?find = Some i" by (cases ?find) auto
  then show ?case
  proof cases
    case busy
    then have "\<not> open_for b T r" for T by (simp add: open_for_def)
    then show ?thesis using Cons.IH [OF Cons.prems(1,2) rest] busy by (simp add: Let_def)
  next
    case none
    obtain calls where calls: "tb_accepting (fst (settle_loop nanoid rs b)) = tb_accepting b @ calls"
        "snd (settle_loop nanoid rs b) = accept_messages b calls"
      and pairs: "\<And>T. matched T calls = zip (set_of_list (filter (open_for b T) rs)) (offers_of T ?os)"
        "\<And>T. offers_of T (tb_pendingTaskOffers (fst (settle_loop nanoid rs b))) =
          drop (length (set_of_list (filter (open_for b T) rs))) (offers_of T ?os)"
      using Cons.IH [OF Cons.prems(1,2) rest] by blast
    have empty: "offers_of (tq_taskType ?q) ?os = []" using none(2) by (simp add: findIndex_None filter_empty_conv)
    have "zip (set_of_list (filter (open_for b T) (r # rs))) (offers_of T ?os) =
        zip (set_of_list (filter (open_for b T) rs)) (offers_of T ?os) \<and>
      drop (length (set_of_list (filter (open_for b T) (r # rs)))) (offers_of T ?os) =
        drop (length (set_of_list (filter (open_for b T) rs))) (offers_of T ?os)" for T
      using empty by (cases "T = tq_taskType ?q") (simp_all add: open_for_def)
    then show ?thesis using none calls pairs by (intro exI [of _ calls]) (simp add: Let_def)
  next
    case found
    obtain ys zs where os: "?os = ys @ ?os ! i # zs" and len: "length ys = i"
      and kind: "of_taskType (?os ! i) = tq_taskType ?q" and ys: "\<forall>y \<in> set ys. of_taskType y \<noteq> tq_taskType ?q"
      using findIndex_split [OF found(2)] by blast
    let ?offer = "?os ! i" and ?i = "nanoid (tb_drawn b)"
    let ?b = "fst (acceptOffer nanoid ?offer r (put_request r (?q\<lparr>tq_acceptInProgress := True\<rparr>)
      (b\<lparr>tb_pendingTaskOffers := splice_at i ?os\<rparr>)))"
    let ?call = "(?i, \<lparr>aq_offer = ?offer, aq_request = r, aq_stage = AwaitRunner Unsettled\<rparr>)"
    have ok: "broker_ok nanoid ?b" using Cons.prems found(1) by (intro acceptOffer_ok) auto
    have "?i \<notin> nanoid ` {..<tb_drawn b}" using Cons.prems(2) by (auto dest: injD)
    then have fresh: "?i \<notin> set (keys (tb_accepting b))"
      using Cons.prems(1) unfolding broker_ok_def callbacks_ok_def by blast
    have splice: "splice_at i ?os = ys @ zs" using os len splice_at_append [of ys ?offer zs] by simp
    have b: "tb_accepting ?b = tb_accepting b @ [?call]" "tb_pendingTaskOffers ?b = ys @ zs"
      "tb_knownRunners ?b = tb_knownRunners b" "tb_requests ?b = (tb_requests b)[r := ?q\<lparr>tq_acceptInProgress := True\<rparr>]"
      using fresh by (simp_all add: acceptOffer_def Let_def map_put_fresh splice)
    obtain calls where calls: "tb_accepting (fst (settle_loop nanoid rs ?b)) = tb_accepting ?b @ calls"
        "snd (settle_loop nanoid rs ?b) = accept_messages ?b calls"
      and pairs: "\<And>T. matched T calls = zip (set_of_list (filter (open_for ?b T) rs)) (offers_of T (tb_pendingTaskOffers ?b))"
        "\<And>T. offers_of T (tb_pendingTaskOffers (fst (settle_loop nanoid rs ?b))) =
          drop (length (set_of_list (filter (open_for ?b T) rs))) (offers_of T (tb_pendingTaskOffers ?b))"
      using Cons.IH [OF ok Cons.prems(2)] rest b(4) by auto
    have loop: "fst (settle_loop nanoid (r # rs) b) = fst (settle_loop nanoid rs ?b)"
      "snd (settle_loop nanoid (r # rs) b) = accept_messages b [?call] @ snd (settle_loop nanoid rs ?b)"
      using found by (simp_all add: Let_def then_broker_def acceptOffer_def accept_messages_def
        messageRunner_def split: prod.split)
    have "r < length (tb_requests b)" using Cons.prems(3) by simp
    then have opened: "filter (open_for ?b T) rs = filter (\<lambda>y. y \<noteq> r) (filter (open_for b T) rs)" for T
      unfolding filter_filter by (intro filter_cong) (auto simp: open_for_def b(4) nth_list_update)
    have "matched T (?call # calls) = zip (set_of_list (filter (open_for b T) (r # rs))) (offers_of T ?os) \<and>
      offers_of T (tb_pendingTaskOffers (fst (settle_loop nanoid rs ?b))) =
        drop (length (set_of_list (filter (open_for b T) (r # rs)))) (offers_of T ?os)" for T
    proof (cases "T = tq_taskType ?q")
      case True
      then have "open_for b T r" using found(1) by (simp add: open_for_def)
      moreover have "offers_of T ys = []" using ys True by (simp add: filter_empty_conv)
      then have "offers_of T ?os = ?offer # offers_of T zs" "offers_of T (ys @ zs) = offers_of T zs"
        using arg_cong [OF os, of "offers_of T"] kind True by simp_all
      ultimately show ?thesis
        using pairs [of T] kind True unfolding opened b(2) by (simp add: matched_def set_of_list_Cons)
    next
      case False
      then have "\<not> open_for b T r" by (simp add: open_for_def)
      moreover from this have "filter (\<lambda>y. y \<noteq> r) (filter (open_for b T) rs) = filter (open_for b T) rs"
        unfolding filter_filter by (intro filter_cong) auto
      moreover have "offers_of T ?os = offers_of T (ys @ zs)" using False kind by (subst os, simp)
      ultimately show ?thesis
        using pairs [of T] kind False unfolding opened b(2) by (simp add: matched_def)
    qed
    then show ?thesis
      unfolding loop using calls b(1,3) accept_messages_cong [OF b(3)]
      by (intro exI [of _ "?call # calls"]) (simp add: accept_messages_def)
  qed
qed

section \<open>A runner that leaves\<close>

lemma fail_tasks_exact:
  assumes "tb_tasks b = ps @ ts" "distinct (keys (ps @ ts))"
    and "\<forall>(i, t) \<in> set ts. tk_id t = i \<and> i \<notin> set (tb_runnerAcceptRejects b)"
  shows "tb_tasks (fst (fail_tasks_of runnerId message (vals ts) b)) = ps @ filter (\<lambda>(i, t). tk_runnerId t \<noteq> runnerId) ts \<and>
    snd (fail_tasks_of runnerId message (vals ts) b) = concat (map (\<lambda>t.
      messageRequester (tk_requesterId t) (TaskFailed (tk_id t) (Failure (JsError message))) b)
      (filter (\<lambda>t. tk_runnerId t = runnerId) (vals ts)))"
  using assms
proof (induction ts arbitrary: b ps)
  case (Cons e ts)
  obtain i t where e: "e = (i, t)" by (cases e)
  show ?case
  proof (cases "tk_runnerId t = runnerId")
    case True
    let ?b = "b\<lparr>tb_tasks := ps @ ts\<rparr>"
    have found: "map_of (tb_tasks b) i = Some t"
      by (rule map_of_is_SomeI) (use Cons.prems(1,2) e in \<open>simp_all add: keys_def\<close>)
    have "map_delete i (ps @ (i, t) # ts) = ps @ ts"
    proof -
      have "\<forall>x \<in> set (ps @ ts). fst x \<noteq> i" using Cons.prems(2) e by (auto simp: keys_def)
      then show ?thesis by (simp add: map_delete_def filter_id_conv)
    qed
    then have fail: "failTask i error b =
        (?b, messageRequester (tk_requesterId t) (TaskFailed i error) b)" for error
      using found Cons.prems(1) e by (simp add: failTask_def)
    have id: "tk_id t = i" and free: "i \<notin> set (tb_runnerAcceptRejects b)" using Cons.prems(3) e by auto
    have head: "fail_task_of runnerId message t b =
        (?b, messageRequester (tk_requesterId t) (TaskFailed i (Failure (JsError message))) b)"
      using True free by (simp add: fail_task_of_def id fail then_broker_def handleRunnerReject_def answer_runner_def)
    have "tb_tasks (fst (fail_tasks_of runnerId message (vals ts) ?b)) = ps @ filter (\<lambda>(i, t). tk_runnerId t \<noteq> runnerId) ts \<and>
      snd (fail_tasks_of runnerId message (vals ts) ?b) = concat (map (\<lambda>t.
        messageRequester (tk_requesterId t) (TaskFailed (tk_id t) (Failure (JsError message))) ?b)
        (filter (\<lambda>t. tk_runnerId t = runnerId) (vals ts)))"
      by (rule Cons.IH) (use Cons.prems e in \<open>auto simp: keys_def\<close>)
    then show ?thesis
      using True by (simp add: e id head messageRequester_def)
  next
    case False
    have "tb_tasks (fst (fail_tasks_of runnerId message (vals ts) b)) = (ps @ [e]) @ filter (\<lambda>(i, t). tk_runnerId t \<noteq> runnerId) ts \<and>
      snd (fail_tasks_of runnerId message (vals ts) b) = concat (map (\<lambda>t.
        messageRequester (tk_requesterId t) (TaskFailed (tk_id t) (Failure (JsError message))) b)
        (filter (\<lambda>t. tk_runnerId t = runnerId) (vals ts)))"
      by (rule Cons.IH) (use Cons.prems e in auto)
    then show ?thesis
      using False by (simp add: e fail_task_of_def)
  qed
qed simp

lemma deregisterRunner_exact:
  assumes ok: "broker_ok nanoid b"
  shows "tb_tasks (fst (deregisterRunner runnerId message b)) = filter (\<lambda>(i, t). tk_runnerId t \<noteq> runnerId) (tb_tasks b)"
    "snd (deregisterRunner runnerId message b) = concat (map (\<lambda>t.
      messageRequester (tk_requesterId t) (TaskFailed (tk_id t) (Failure (JsError message))) b)
      (filter (\<lambda>t. tk_runnerId t = runnerId) (vals (tb_tasks b))))"
proof -
  let ?b = "forget_runner runnerId b"
  have named: "\<forall>(i, t) \<in> set (tb_tasks b). tk_id t = i" and dist: "distinct (keys ([] @ tb_tasks b))"
    using ok by (simp_all add: broker_ok_def callbacks_ok_def)
  have "tk_id t = i \<and> i \<notin> set (tb_runnerAcceptRejects ?b)" if "(i, t) \<in> set (tb_tasks b)" for i t
  proof -
    have "t \<in> set (vals (tb_tasks b))" using that by (force simp: vals_def)
    from task_without_callback [OF ok this] show ?thesis using named that by (auto simp: forget_runner_def)
  qed
  then have "\<forall>(i, t) \<in> set (tb_tasks b). tk_id t = i \<and> i \<notin> set (tb_runnerAcceptRejects ?b)" by blast
  moreover have "tb_tasks ?b = [] @ tb_tasks b" by (simp add: forget_runner_def)
  moreover note dist
  ultimately have exact: "tb_tasks (fst (fail_tasks_of runnerId message (vals (tb_tasks b)) ?b)) =
      filter (\<lambda>(i, t). tk_runnerId t \<noteq> runnerId) (tb_tasks b) \<and>
    snd (fail_tasks_of runnerId message (vals (tb_tasks b)) ?b) = concat (map (\<lambda>t.
      messageRequester (tk_requesterId t) (TaskFailed (tk_id t) (Failure (JsError message))) ?b)
      (filter (\<lambda>t. tk_runnerId t = runnerId) (vals (tb_tasks b))))"
    using fail_tasks_exact [of ?b "[]" "tb_tasks b" runnerId message] by simp
  have send: "messageRequester r m ?b = messageRequester r m b" for r m
    by (simp add: forget_runner_def messageRequester_def)
  from exact show
    "tb_tasks (fst (deregisterRunner runnerId message b)) = filter (\<lambda>(i, t). tk_runnerId t \<noteq> runnerId) (tb_tasks b)"
    "snd (deregisterRunner runnerId message b) = concat (map (\<lambda>t.
      messageRequester (tk_requesterId t) (TaskFailed (tk_id t) (Failure (JsError message))) b)
      (filter (\<lambda>t. tk_runnerId t = runnerId) (vals (tb_tasks b))))"
    unfolding deregisterRunner_eq send by blast+
qed

section \<open>Properties\<close>

text \<open>Identifiers and a run for the examples: the first one is refused by the runner that was asked.\<close>

definition letters :: "nat \<Rightarrow> string" where
  "letters n = replicate (Suc n) CHR ''a''"

lemma inj_letters: "inj letters"
  by (rule injI) (auto simp: letters_def dest: arg_cong [where f = length])

definition sample_runner :: TaskRunner where
  "sample_runner = \<lparr>tr_id = ''r'', tr_name = None, tr_taskTypes = [''js'']\<rparr>"

definition sample_start :: task_broker where
  "sample_start = (case newTaskBroker 300 of Inr b \<Rightarrow> b)"

definition asked :: "broker_event list" where
  "asked = [RegisterRunner sample_runner, RegisterRequester ''q'',
     FromRequester 0 ''q'' (RequesterTaskRequest ''x'' ''js''),
     FromRunner 0 0 ''r'' (RunnerTaskOffer ''o1'' ''js'' (-1))]"

definition refused :: task_broker where
  "refused = run_events letters ''internal''
     (asked @ [FromRunner 0 0 ''r'' (RunnerTaskOffer ''o2'' ''js'' (-1)),
       FromRunner 0 0 ''r'' (TaskRejected ''a'' ''busy''), ContinueAccept ''a'']) sample_start"

definition agreed :: task_broker where
  "agreed = run_events letters ''internal'' (asked @ [FromRunner 0 0 ''r'' (TaskAccepted ''a'')]) sample_start"

definition offered_again :: task_broker where
  "offered_again = run_events letters ''internal'' [FromRunner 0 0 ''r'' (RunnerTaskOffer ''o2'' ''js'' (-1))]
     (fst (continue_accept ''a'' agreed))"

definition agreed_late :: task_broker where
  "agreed_late = run_events letters ''internal'' (asked @ [RequestTimer 0, FromRunner 0 0 ''r'' (TaskAccepted ''a'')])
     sample_start"

lemma sample_reachable: "broker_reachable letters ''internal'' (run_events letters ''internal'' es sample_start)"
proof -
  have "newTaskBroker 300 = Inr sample_start" by (simp add: sample_start_def newTaskBroker_def)
  then show ?thesis unfolding broker_reachable_def using run_events_later by blast
qed

text \<open>
  C27: settling pairs, for every type of task, the open requests in the order they were made with the
  offers that have not expired in the order they came, each once, tells the runners, and leaves the
  offers that are too many. A request that is listed twice counts once, at its first place.
\<close>
theorem settle_pairs_in_order:
  assumes "broker_reachable nanoid mode b" "inj nanoid"
  shows "\<exists>calls. tb_accepting (fst (settleTasks nanoid now b)) = tb_accepting b @ calls \<and>
    snd (settleTasks nanoid now b) = accept_messages b calls \<and>
    (\<forall>T. matched T calls = zip (set_of_list (filter (open_for b T) (tb_pendingTaskRequests b)))
          (filter (\<lambda>offer. \<not> offer_expired now offer \<and> of_taskType offer = T) (tb_pendingTaskOffers b)) \<and>
      offers_of T (tb_pendingTaskOffers (fst (settleTasks nanoid now b))) =
        drop (length (set_of_list (filter (open_for b T) (tb_pendingTaskRequests b))))
          (filter (\<lambda>offer. \<not> offer_expired now offer \<and> of_taskType offer = T) (tb_pendingTaskOffers b)))"
proof -
  let ?b = "expireTasks now b"
  have ok: "broker_ok nanoid b" by (rule reachable_broker_ok [OF assms])
  have opened: "open_for ?b T = open_for b T" for T by (rule ext) (simp add: open_for_def)
  have messages: "accept_messages ?b calls = accept_messages b calls" for calls
    by (rule accept_messages_cong) (simp add: expireTasks_def)
  have offers: "offers_of T (tb_pendingTaskOffers ?b) =
      filter (\<lambda>offer. \<not> offer_expired now offer \<and> of_taskType offer = T) (tb_pendingTaskOffers b)" for T
    by (simp add: conj_commute)
  have ok': "broker_ok nanoid ?b" using ok by (simp only: expireTasks_ok)
  have known: "\<forall>r \<in> set (tb_pendingTaskRequests b). r < length (tb_requests ?b)"
    unfolding expireTasks_simps by (rule ballI, rule pending_known [OF ok])
  from settle_loop_pairs [OF ok' assms(2) known, unfolded opened messages offers expireTasks_simps(2)]
  show ?thesis unfolding settleTasks_def Let_def expireTasks_simps(3) .
qed

theorem settle_pairs_in_order_witness:
  "matched ''js'' (tb_accepting (fst (settleTasks letters 0 refused))) =
     [(0, \<lparr>of_offerId = ''o2'', of_runnerId = ''r'', of_taskType = ''js'', of_validFor = -1, of_validUntil = 0\<rparr>)]"
proof -
  have open0: "tb_accepting refused = []" "filter (open_for refused ''js'') (tb_pendingTaskRequests refused) = [0]"
    "filter (\<lambda>offer. \<not> offer_expired 0 offer \<and> of_taskType offer = ''js'') (tb_pendingTaskOffers refused) =
      [\<lparr>of_offerId = ''o2'', of_runnerId = ''r'', of_taskType = ''js'', of_validFor = -1, of_validUntil = 0\<rparr>]"
    by code_simp+
  have "broker_reachable letters ''internal'' refused" unfolding refused_def by (rule sample_reachable)
  from settle_pairs_in_order [OF this inj_letters, of 0] obtain calls where
    "tb_accepting (fst (settleTasks letters 0 refused)) = tb_accepting refused @ calls"
    "matched ''js'' calls = zip (set_of_list (filter (open_for refused ''js'') (tb_pendingTaskRequests refused)))
       (filter (\<lambda>offer. \<not> offer_expired 0 offer \<and> of_taskType offer = ''js'') (tb_pendingTaskOffers refused))"
    by blast
  then show ?thesis unfolding open0 by (simp add: set_of_list_Cons)
qed

text \<open>
  C28: no two calls for the same request are under way, and once a runner has accepted a request and
  the call goes on, the request is never offered to a runner again.
\<close>
theorem request_accepted_once:
  assumes "broker_reachable nanoid mode b" "inj nanoid"
    and "map_of (tb_accepting b) i = Some a" "aq_stage a = AwaitRunner (Resolved ())"
    and "broker_later nanoid mode (fst (continue_accept i b)) b'"
  shows "distinct (map (aq_request \<circ> snd) (tb_accepting b)) \<and>
    (\<forall>(j, c) \<in> set (tb_accepting b'). aq_request c = aq_request a \<longrightarrow> (\<forall>p. aq_stage c \<noteq> AwaitRunner p))"
proof -
  have ok: "broker_ok nanoid b" by (rule reachable_broker_ok [OF assms(1,2)])
  have "taken (aq_request a) b'"
    by (rule taken_later [OF assms(5) accepted_taken [OF ok assms(3,4)]])
  then have away: "\<forall>(j, c) \<in> set (tb_accepting b'). aq_request c = aq_request a \<longrightarrow> \<not> with_runner (aq_stage c)"
    unfolding taken_def by blast
  have "\<not> with_runner st \<Longrightarrow> st \<noteq> AwaitRunner p" for st p by auto
  with away have "\<forall>(j, c) \<in> set (tb_accepting b'). aq_request c = aq_request a \<longrightarrow> (\<forall>p. aq_stage c \<noteq> AwaitRunner p)"
    by blast
  moreover have "distinct (map (aq_request \<circ> snd) (tb_accepting b))"
    using ok unfolding broker_ok_def calls_ok_def by blast
  ultimately show ?thesis by blast
qed

theorem request_accepted_once_witness:
  "distinct (map (aq_request \<circ> snd) (tb_accepting agreed)) \<and>
    {c \<in> snd ` set (tb_accepting offered_again). aq_request c = 0} \<inter> {c. \<exists>p. aq_stage c = AwaitRunner p} = {}"
proof -
  let ?a = "\<lparr>aq_offer = \<lparr>of_offerId = ''o1'', of_runnerId = ''r'', of_taskType = ''js'', of_validFor = -1,
    of_validUntil = 0\<rparr>, aq_request = 0, aq_stage = AwaitRunner (Resolved ())\<rparr>"
  have call: "map_of (tb_accepting agreed) ''a'' = Some ?a" by code_simp
  have "broker_reachable letters ''internal'' agreed" unfolding agreed_def by (rule sample_reachable)
  from request_accepted_once [OF this inj_letters call _ run_events_later]
  have once: "distinct (map (aq_request \<circ> snd) (tb_accepting agreed)) \<and>
    (\<forall>(j, c) \<in> set (tb_accepting offered_again). aq_request c = 0 \<longrightarrow> (\<forall>p. aq_stage c \<noteq> AwaitRunner p))"
    unfolding offered_again_def by simp
  then show ?thesis by auto
qed

text \<open>
  C29: when a runner leaves, exactly its tasks are failed, each to its requester in the order of the
  tasks, and its offers are dropped; but calls that wait for the runner to accept are not rejected:
  the loop looks for them among the tasks, where a call is only when the runner has accepted.
\<close>
theorem leaving_runner_fails_tasks:
  assumes "broker_reachable nanoid mode b" "inj nanoid"
  shows "tb_tasks (fst (deregisterRunner runnerId message b)) = filter (\<lambda>(i, t). tk_runnerId t \<noteq> runnerId) (tb_tasks b) \<and>
    snd (deregisterRunner runnerId message b) = concat (map (\<lambda>t.
      messageRequester (tk_requesterId t) (TaskFailed (tk_id t) (Failure (JsError message))) b)
      (filter (\<lambda>t. tk_runnerId t = runnerId) (vals (tb_tasks b)))) \<and>
    tb_accepting (fst (deregisterRunner runnerId message b)) = tb_accepting b \<and>
    tb_runnerAcceptRejects (fst (deregisterRunner runnerId message b)) = tb_runnerAcceptRejects b"
proof -
  have ok: "broker_ok nanoid b" by (rule reachable_broker_ok [OF assms])
  show ?thesis
    using deregisterRunner_exact [OF ok] deregisterRunner_same_calls [OF ok] by (simp add: same_calls_def)
qed

theorem leaving_runner_fails_tasks_witness:
  "tb_tasks (fst (deregisterRunner ''r'' ''gone'' agreed)) = [] \<and>
    tb_accepting (fst (deregisterRunner ''r'' ''gone'' agreed)) = tb_accepting agreed"
proof -
  have "tb_tasks agreed = []" by code_simp
  moreover have "broker_reachable letters ''internal'' agreed" unfolding agreed_def by (rule sample_reachable)
  ultimately show ?thesis
    using leaving_runner_fails_tasks [OF _ inj_letters, of "''internal''" agreed "''r''" "''gone''"] by simp
qed

text \<open>
  C30: when a runner accepts after its request was dropped, the task is registered all the same, but
  nobody is told: no message is sent, no timer runs, the call ends and no answer of the requester can
  reach it, so the broker counts a task that nobody works on.
\<close>
theorem late_acceptance_orphans_task:
  assumes "map_of (tb_accepting b) i = Some a" "aq_stage a = AwaitRunner (Resolved ())"
    and "\<forall>r \<in> set (tb_pendingTaskRequests b). tq_requestId (tb_requests b ! r) \<noteq> tq_requestId (tb_requests b ! aq_request a)"
    and "aq_request a < length (tb_requests b)" "i \<notin> set (tb_requesterAcceptRejects b)"
  shows "snd (continue_accept i b) = [] \<and> hasActiveTasks (fst (continue_accept i b)) \<and>
    map_option tk_timeout (map_of (tb_tasks (fst (continue_accept i b))) i) = Some False \<and>
    map_of (tb_accepting (fst (continue_accept i b))) i = None \<and>
    handleRequesterAccept i settings (fst (continue_accept i b)) = fst (continue_accept i b)"
proof -
  let ?q = "(tb_requests b ! aq_request a)\<lparr>tq_timeout := False\<rparr>"
  let ?b1 = "put_request (aq_request a) ?q b"
  have "tq_requestId ((tb_requests b)[aq_request a := ?q] ! r) = tq_requestId (tb_requests b ! r)" for r
    using assms(4) by (cases "r = aq_request a") simp_all
  then have "findIndex (\<lambda>r. tq_requestId ((tb_requests b)[aq_request a := ?q] ! r) = tq_requestId (tb_requests b ! aq_request a))
      (tb_pendingTaskRequests b) = None"
    using assms(3) by (simp add: findIndex_None)
  then have step: "continue_accept i b = (accept_ended i (?b1\<lparr>tb_tasks := map_put i
      \<lparr>tk_id = i, tk_runnerId = of_runnerId (aq_offer a), tk_requesterId = tq_requesterId (tb_requests b ! aq_request a),
       tk_taskType = of_taskType (aq_offer a), tk_timeout = False\<rparr> (tb_tasks b)\<rparr>), [])"
    using assms(1,2) by (simp add: continue_accept_def runner_accepted_def Let_def)
  have "map_put i t (tb_tasks b) \<noteq> []" for t by (cases "tb_tasks b") (auto split: if_splits)
  then show ?thesis
    using assms(5) unfolding step
    by (simp add: accept_ended_def hasActiveTasks_def js_simps handleRequesterAccept_def answer_requester_def put_request_def)
qed

theorem late_acceptance_orphans_task_witness:
  "broker_reachable letters ''internal'' agreed_late \<and> snd (continue_accept ''a'' agreed_late) = [] \<and>
    hasActiveTasks (fst (continue_accept ''a'' agreed_late))"
proof -
  let ?a = "\<lparr>aq_offer = \<lparr>of_offerId = ''o1'', of_runnerId = ''r'', of_taskType = ''js'', of_validFor = -1,
    of_validUntil = 0\<rparr>, aq_request = 0, aq_stage = AwaitRunner (Resolved ())\<rparr>"
  have facts: "map_of (tb_accepting agreed_late) ''a'' = Some ?a" "tb_pendingTaskRequests agreed_late = []"
    "length (tb_requests agreed_late) = 1" "tb_requesterAcceptRejects agreed_late = []" by code_simp+
  have "broker_reachable letters ''internal'' agreed_late" unfolding agreed_late_def by (rule sample_reachable)
  then show ?thesis using late_acceptance_orphans_task [OF facts(1)] facts by simp
qed

text \<open>
  A deferred request is put at the end of the pending requests, where it already is. When it is
  accepted later, one of the two entries stays, marked as in progress, and no timer runs for it.
\<close>

definition deferred :: task_broker where
  "deferred = run_events letters ''internal'' (asked @ [FromRunner 0 0 ''r'' (TaskDeferred ''a''), ContinueAccept ''a'',
     FromRunner 0 0 ''r'' (RunnerTaskOffer ''o2'' ''js'' (-1)), FromRunner 0 0 ''r'' (TaskAccepted ''aa''),
     ContinueAccept ''aa'', FromRequester 0 ''q'' (RequesterSettings ''aa'' 7), ContinueAccept ''aa'', ContinueAccept ''aa'',
     FromRunner 0 0 ''r'' (RunnerTaskDone ''aa'' 8), CloseTask ''aa'']) sample_start"

lemma deferred_request_stays:
  "tb_pendingTaskRequests deferred = [0] \<and> taken 0 deferred \<and> \<not> tq_timeout (tb_requests deferred ! 0) \<and>
    tb_accepting deferred = [] \<and> tb_tasks deferred = []"
proof -
  have facts: "tb_pendingTaskRequests deferred = [0]" "tb_accepting deferred = []" "tb_tasks deferred = []"
    "tb_requests deferred = [\<lparr>tq_requestId = ''x'', tq_requesterId = ''q'', tq_taskType = ''js'', tq_timeout = False,
      tq_acceptInProgress = True\<rparr>]" by code_simp+
  show ?thesis unfolding taken_def facts by simp
qed

end
