(* ===== verification/Field_Types.thy ===== *)
theory Field_Types
  imports N8n_Prelude Complex_Main
begin

text \<open>
  \<open>packages/workflow/src/type-validation.ts\<close>: dynamically typed values, and their validation and
  conversion to the types of fields. An object carries an identity, by which \<open>===\<close> compares it. What
  the language runtime and libraries read off and print as text is a parameter, the record
  \<open>js_runtime\<close>; a component that can throw is \<open>None\<close> then.
\<close>

section \<open>Values\<close>

datatype js_number = JsNaN | JsInfinity bool | JsFinite rat

text \<open>A \<open>DateTime\<close> of luxon and a \<open>Date\<close> hold their time in milliseconds, or none when invalid.\<close>

datatype js_value =
    JsUndefined
  | JsNull
  | JsBool bool
  | JsNumber js_number
  | JsString string
  | JsArray nat "js_value list"
  | JsObject nat "(string \<times> js_value) list"
  | JsDateTime nat "int option"
  | JsDate nat "int option"

text \<open>
  \<open>js_numeral\<close> is \<open>Number\<close> on strings, \<open>js_display\<close> is \<open>String\<close> on numbers, arrays, objects and
  dates, \<open>parse_js_object\<close> is the parser of JavaScript objects that \<open>jsonParse\<close> tries after
  \<open>JSON.parse\<close>, \<open>fromJSDate\<close> to \<open>fromMillis\<close> are the constructors of luxon in the default zone, which return
  a \<open>DateTime\<close> that may be invalid, \<open>date_parse\<close> is \<open>Date.parse\<close>, \<open>new_regexp\<close> makes
  a regular expression of a pattern and flags and tests a string, \<open>url_protocol\<close> is the protocol of a
  \<open>URL\<close> object.
\<close>

type_synonym luxon_date = "nat \<times> int option"

record js_runtime =
  js_numeral :: "string \<Rightarrow> js_number"
  js_display :: "js_value \<Rightarrow> string"
  json_stringify :: "js_value \<Rightarrow> string option"
  json_parse :: "string \<Rightarrow> js_value option"
  parse_js_object :: "string \<Rightarrow> js_value option"
  fromJSDate :: "js_value \<Rightarrow> luxon_date"
  fromISO :: "string \<Rightarrow> luxon_date"
  fromHTTP :: "string \<Rightarrow> luxon_date"
  fromRFC2822 :: "string \<Rightarrow> luxon_date"
  fromSQL :: "string \<Rightarrow> luxon_date"
  fromMillis :: "js_number \<Rightarrow> luxon_date"
  date_parse :: "string \<Rightarrow> js_number"
  locale_lower :: "string \<Rightarrow> string"
  new_regexp :: "string \<Rightarrow> string \<Rightarrow> (string \<Rightarrow> bool) option"
  url_protocol :: "string \<Rightarrow> string option"

fun js_typeof :: "js_value \<Rightarrow> string" where
  "js_typeof JsUndefined = ''undefined''"
| "js_typeof (JsBool b) = ''boolean''"
| "js_typeof (JsNumber n) = ''number''"
| "js_typeof (JsString s) = ''string''"
| "js_typeof v = ''object''"

fun is_js_array :: "js_value \<Rightarrow> bool" where
  "is_js_array (JsArray r vs) = True"
| "is_js_array v = False"

fun is_js_string :: "js_value \<Rightarrow> bool" where
  "is_js_string (JsString s) = True"
| "is_js_string v = False"

fun js_truthy :: "js_value \<Rightarrow> bool" where
  "js_truthy JsUndefined = False"
| "js_truthy JsNull = False"
| "js_truthy (JsBool b) = b"
| "js_truthy (JsNumber n) = (n \<noteq> JsNaN \<and> n \<noteq> JsFinite 0)"
| "js_truthy (JsString s) = (s \<noteq> [])"
| "js_truthy v = True"

fun js_nullish :: "js_value \<Rightarrow> bool" where
  "js_nullish JsUndefined = True"
| "js_nullish JsNull = True"
| "js_nullish v = False"

text \<open>\<open>String(value)\<close> and \<open>Number(value)\<close>.\<close>

fun js_string :: "js_runtime \<Rightarrow> js_value \<Rightarrow> string" where
  "js_string rt JsUndefined = ''undefined''"
| "js_string rt JsNull = ''null''"
| "js_string rt (JsBool b) = (if b then ''true'' else ''false'')"
| "js_string rt (JsString s) = s"
| "js_string rt v = js_display rt v"

definition time_number :: "int option \<Rightarrow> js_number" where
  "time_number t = (case t of None \<Rightarrow> JsNaN | Some ms \<Rightarrow> JsFinite (of_int ms))"

fun js_to_number :: "js_runtime \<Rightarrow> js_value \<Rightarrow> js_number" where
  "js_to_number rt JsUndefined = JsNaN"
| "js_to_number rt JsNull = JsFinite 0"
| "js_to_number rt (JsBool b) = JsFinite (if b then 1 else 0)"
| "js_to_number rt (JsNumber n) = n"
| "js_to_number rt (JsString s) = js_numeral rt s"
| "js_to_number rt (JsArray r vs) = js_numeral rt (js_display rt (JsArray r vs))"
| "js_to_number rt (JsObject r fs) = js_numeral rt (js_display rt (JsObject r fs))"
| "js_to_number rt (JsDateTime r t) = time_number t"
| "js_to_number rt (JsDate r t) = time_number t"

text \<open>The strings of this model have characters below 256.\<close>

definition js_space :: "char \<Rightarrow> bool" where
  "js_space c \<longleftrightarrow> (of_char c :: nat) \<in> {9, 10, 11, 12, 13, 32, 160}"

definition js_trim :: "string \<Rightarrow> string" where
  "js_trim s = rev (dropWhile js_space (rev (dropWhile js_space s)))"

definition lower_char :: "char \<Rightarrow> char" where
  "lower_char c = (let n = (of_char c :: nat) in
     if 65 \<le> n \<and> n \<le> 90 \<or> 192 \<le> n \<and> n \<le> 222 \<and> n \<noteq> 215 then char_of (n + 32) else c)"

definition toLowerCase :: "string \<Rightarrow> string" where
  "toLowerCase = map lower_char"

definition starts_with :: "string \<Rightarrow> string \<Rightarrow> bool" where
  "starts_with p s \<longleftrightarrow> take (length p) s = p"

fun contains_text :: "string \<Rightarrow> string \<Rightarrow> bool" where
  "contains_text p [] = (p = [])"
| "contains_text p (c # cs) = (starts_with p (c # cs) \<or> contains_text p cs)"

section \<open>Regular expressions\<close>

text \<open>The ways to match a prefix of a string: the list of the rests.\<close>

type_synonym matcher = "string \<Rightarrow> string list"

definition one_of :: "(char \<Rightarrow> bool) \<Rightarrow> matcher" where
  "one_of P s = (case s of [] \<Rightarrow> [] | c # cs \<Rightarrow> if P c then [cs] else [])"

definition then_match :: "matcher \<Rightarrow> matcher \<Rightarrow> matcher" where
  "then_match m m' s = concat (map m' (m s))"

definition optional :: "matcher \<Rightarrow> matcher" where
  "optional m s = m s @ [s]"

fun many :: "(char \<Rightarrow> bool) \<Rightarrow> matcher" where
  "many P [] = [[]]"
| "many P (c # cs) = (if P c then many P cs else []) @ [c # cs]"

definition full_match :: "matcher \<Rightarrow> string \<Rightarrow> bool" where
  "full_match m s \<longleftrightarrow> [] \<in> set (m s)"

fun in_sequence :: "matcher list \<Rightarrow> matcher" where
  "in_sequence [] s = [s]"
| "in_sequence (m # ms) s = then_match m (in_sequence ms) s"

definition letter :: "char \<Rightarrow> bool" where
  "letter c \<longleftrightarrow> (let n = (of_char c :: nat) in 65 \<le> n \<and> n \<le> 90 \<or> 97 \<le> n \<and> n \<le> 122)"

abbreviation digit :: matcher where
  "digit \<equiv> one_of is_digit"

abbreviation this_char :: "char \<Rightarrow> matcher" where
  "this_char c \<equiv> one_of (\<lambda>d. d = c)"

definition alphanumeric_pattern :: matcher where
  "alphanumeric_pattern = in_sequence [one_of (\<lambda>c. letter c \<or> c = CHR ''_''),
     many (\<lambda>c. letter c \<or> is_digit c \<or> c = CHR ''_'')]"

definition time_pattern :: matcher where
  "time_pattern = in_sequence [digit, digit, this_char CHR '':'', digit, digit,
     optional (in_sequence [this_char CHR '':'', digit, digit]),
     optional (in_sequence [one_of (\<lambda>c. c = CHR ''-'' \<or> c = CHR ''+''), digit, digit, digit, digit]),
     optional (in_sequence [one_of (\<lambda>c. c = CHR ''-'' \<or> c = CHR ''+''), digit, optional digit,
       optional (in_sequence [this_char CHR '':'', digit, digit])])]"

definition jwt_char :: "char \<Rightarrow> bool" where
  "jwt_char c \<longleftrightarrow> letter c \<or> is_digit c \<or> c = CHR ''-'' \<or> c = CHR ''_''"

definition jwt_pattern :: matcher where
  "jwt_pattern = in_sequence [one_of jwt_char, many jwt_char, this_char CHR ''.'', one_of jwt_char, many jwt_char,
     this_char CHR ''.'', many (\<lambda>c. jwt_char c \<or> c \<in> set ''.+/='')]"

section \<open>Parsers\<close>

definition tryToParseNumber :: "js_runtime \<Rightarrow> js_value \<Rightarrow> js_number result" where
  "tryToParseNumber rt v =
     (let isValidNumber = (js_to_number rt v \<noteq> JsNaN)
      in if \<not> isValidNumber then Inl (ApplicationError ''Failed to parse value to number'')
         else Inr (js_to_number rt v))"

definition tryToParseString :: "js_runtime \<Rightarrow> js_value \<Rightarrow> string result" where
  "tryToParseString rt v =
     (if js_typeof v = ''object''
      then case json_stringify rt v of None \<Rightarrow> Inl TypeError | Some s \<Rightarrow> Inr s
      else if js_typeof v = ''undefined'' then Inr []
      else Inr (js_string rt v))"

definition tryToParseAlphanumericString :: "js_runtime \<Rightarrow> js_value \<Rightarrow> string result" where
  "tryToParseAlphanumericString rt v =
     rbind (tryToParseString rt v) (\<lambda>parsed.
       if \<not> full_match alphanumeric_pattern parsed
       then Inl (ApplicationError ''Value is not a valid alphanumeric string'') else Inr parsed)"

definition tryToParseBoolean :: "js_runtime \<Rightarrow> js_value \<Rightarrow> bool result" where
  "tryToParseBoolean rt v =
     (let failed = Inl (ApplicationError ''Failed to parse value as boolean'');
          as_number = (let num = js_to_number rt v
            in if num = JsFinite 0 then Inr False else if num = JsFinite 1 then Inr True else failed)
      in case v of
           JsBool b \<Rightarrow> Inr b
         | JsString s \<Rightarrow>
             if toLowerCase s \<in> {''true'', ''false''} then Inr (toLowerCase s = ''true'')
             else if js_trim s = [] then failed else as_number
         | _ \<Rightarrow> as_number)"

definition isValid :: "luxon_date \<Rightarrow> bool" where
  "isValid d \<longleftrightarrow> snd d \<noteq> None"

definition luxon_value :: "luxon_date \<Rightarrow> js_value" where
  "luxon_value d = JsDateTime (fst d) (snd d)"

definition tryToParseDateTime :: "js_runtime \<Rightarrow> js_value \<Rightarrow> js_value result" where
  "tryToParseDateTime rt v =
     (let dateString = js_trim (js_string rt v);
          isoDate = fromISO rt dateString;
          httpDate = fromHTTP rt dateString;
          rfc2822Date = fromRFC2822 rt dateString;
          sqlDate = fromSQL rt dateString;
          parsedDateTime = fromMillis rt (date_parse rt dateString);
          from_text =
            (if isValid isoDate then Inr (luxon_value isoDate)
             else if isValid httpDate then Inr (luxon_value httpDate)
             else if isValid rfc2822Date then Inr (luxon_value rfc2822Date)
             else if isValid sqlDate then Inr (luxon_value sqlDate)
             else if isValid parsedDateTime then Inr (luxon_value parsedDateTime)
             else Inl (ApplicationError ''Value is not a valid date''))
      in case v of
           JsDateTime r (Some t) \<Rightarrow> Inr v
         | JsDate r t \<Rightarrow> if isValid (fromJSDate rt v) then Inr (luxon_value (fromJSDate rt v)) else from_text
         | _ \<Rightarrow> from_text)"

definition tryToParseTime :: "js_runtime \<Rightarrow> js_value \<Rightarrow> string result" where
  "tryToParseTime rt v =
     (if \<not> full_match time_pattern (js_string rt v) then Inl (ApplicationError ''Value is not a valid time'')
      else Inr (js_string rt v))"

definition double_quotes :: "string \<Rightarrow> string" where
  "double_quotes = map (\<lambda>c. if c = CHR 0x27 then CHR 0x22 else c)"

definition tryToParseArray :: "js_runtime \<Rightarrow> js_value \<Rightarrow> js_value result" where
  "tryToParseArray rt v =
     (if is_js_array v then Inr v
      else let parsed = (case json_parse rt (js_string rt v) of
                 Some p \<Rightarrow> Some p
               | None \<Rightarrow> json_parse rt (double_quotes (js_string rt v)))
        in case parsed of
             None \<Rightarrow> Inl (ApplicationError ''Value is not a valid array'')
           | Some p \<Rightarrow> if is_js_array p then Inr p else Inl (ApplicationError ''Value is not a valid array''))"

text \<open>\<open>jsonParse\<close> with \<open>acceptJSObject\<close>.\<close>

definition jsonParse_object :: "js_runtime \<Rightarrow> string \<Rightarrow> js_value option" where
  "jsonParse_object rt s = (case json_parse rt s of Some v \<Rightarrow> Some v | None \<Rightarrow> parse_js_object rt s)"

definition tryToParseObject :: "js_runtime \<Rightarrow> js_value \<Rightarrow> js_value result" where
  "tryToParseObject rt v =
     (if js_truthy v \<and> js_typeof v = ''object'' \<and> \<not> is_js_array v then Inr v
      else case jsonParse_object rt (js_string rt v) of
             None \<Rightarrow> Inl (ApplicationError ''Value is not a valid object'')
           | Some p \<Rightarrow>
               if js_typeof p \<noteq> ''object'' \<or> is_js_array p
               then Inl (ApplicationError ''Value is not a valid object'') else Inr p)"

fun isBinaryValue :: "js_value \<Rightarrow> bool" where
  "isBinaryValue (JsObject r fs) =
     (''mimeType'' \<in> fst ` set fs \<and> (''data'' \<in> fst ` set fs \<or> ''id'' \<in> fst ` set fs))"
| "isBinaryValue v = False"

definition tryToParseBinary :: "js_value \<Rightarrow> js_value result" where
  "tryToParseBinary v =
     (if \<not> js_truthy v \<or> js_typeof v \<noteq> ''object'' \<or> is_js_array v \<or> \<not> isBinaryValue v
      then Inl (ApplicationError ''Value is not a valid binary data object'') else Inr v)"

text \<open>Quotes around a text in a message.\<close>

definition quoted :: "string \<Rightarrow> string" where
  "quoted s = [CHR 0x27] @ s @ [CHR 0x27]"

definition double_quoted :: "string \<Rightarrow> string" where
  "double_quoted s = [CHR 0x22] @ s @ [CHR 0x22]"

section \<open>Form fields\<close>

definition ALLOWED_FORM_FIELDS_KEYS :: "string list" where
  "ALLOWED_FORM_FIELDS_KEYS = [''fieldLabel'', ''fieldType'', ''placeholder'', ''defaultValue'', ''fieldOptions'',
     ''multiselect'', ''multipleFiles'', ''acceptFileTypes'', ''formatDate'', ''requiredField'', ''fieldValue'',
     ''elementName'', ''html'', ''fieldName'', ''limitSelection'', ''numberOfSelections'', ''minSelections'',
     ''maxSelections'']"

definition ALLOWED_FIELD_TYPES :: "string list" where
  "ALLOWED_FIELD_TYPES = [''date'', ''dropdown'', ''email'', ''file'', ''number'', ''password'', ''text'', ''textarea'',
     ''checkbox'', ''radio'', ''html'', ''hiddenField'']"

definition replace_char :: "char \<Rightarrow> string \<Rightarrow> string \<Rightarrow> string" where
  "replace_char c r s = concat (map (\<lambda>d. if d = c then r else [d]) s)"

definition escape_tags :: "string \<Rightarrow> string" where
  "escape_tags s = replace_char CHR 0x3E ''&gt;'' (replace_char CHR 0x3C ''&lt;'' s)"

definition form_option :: "nat \<Rightarrow> nat \<times> js_value \<Rightarrow> unit result" where
  "form_option index entry =
     (case entry of (optionIndex, v) \<Rightarrow>
        let failed = Inl (ApplicationError (''Field dropdown in field '' @ show_nat index @ '' has an invalid option ''
              @ show_nat optionIndex))
        in case v of
             JsUndefined \<Rightarrow> Inl TypeError
           | JsNull \<Rightarrow> Inl TypeError
           | JsObject r fs \<Rightarrow>
               if length fs \<noteq> 1 \<or> \<not> (case map_of fs ''option'' of None \<Rightarrow> False | Some w \<Rightarrow> is_js_string w)
               then failed else Inr ()
           | _ \<Rightarrow> failed)"

text \<open>The checks of \<open>fieldOptions\<close>; an array is wrapped into an object, which gets its number.\<close>

definition form_options :: "nat \<Rightarrow> js_value \<Rightarrow> js_value result" where
  "form_options index v =
     (let wrapped = (case v of JsArray r vs \<Rightarrow> JsObject r [(''values'', v)] | _ \<Rightarrow> v);
          failed = Inl (ApplicationError (''Field dropdown in field '' @ show_nat index @
            '' does has no '' @ quoted ''values'' @ '' property that contain an array of options''));
          values = (case wrapped of JsObject r fs \<Rightarrow> (case map_of fs ''values'' of None \<Rightarrow> JsUndefined | Some w \<Rightarrow> w)
            | _ \<Rightarrow> JsUndefined)
      in if js_typeof wrapped \<noteq> ''object'' then failed
         else if wrapped = JsNull then Inl TypeError
         else if \<not> js_truthy values then failed
         else case values of
                JsArray r vs \<Rightarrow> rbind (rfold (\<lambda>e u. form_option index e) (enumerate 0 vs) ()) (\<lambda>u. Inr wrapped)
              | _ \<Rightarrow> Inl TypeError)"

text \<open>A value is made a string unless it is simple, and strings lose their tags, except for \<open>html\<close>.\<close>

definition form_value :: "js_runtime \<Rightarrow> string \<Rightarrow> js_value \<Rightarrow> js_value" where
  "form_value rt key v =
     (if key \<noteq> ''fieldOptions'' \<and> js_typeof v \<notin> {''string'', ''number'', ''boolean''}
      then JsString (js_string rt v)
      else case v of JsString s \<Rightarrow> if key \<noteq> ''html'' then JsString (escape_tags s) else v | _ \<Rightarrow> v)"

definition form_field_key ::
    "js_runtime \<Rightarrow> nat \<Rightarrow> string \<Rightarrow> (string \<times> js_value) list \<Rightarrow> (string \<times> js_value) list result" where
  "form_field_key rt index key fs =
     (if key \<notin> set ALLOWED_FORM_FIELDS_KEYS
      then Inl (ApplicationError (''Key '' @ quoted key @ '' in field '' @ show_nat index @ '' is not valid for form fields''))
      else
        let v' = form_value rt key (case map_of fs key of None \<Rightarrow> JsUndefined | Some w \<Rightarrow> w)
        in if key = ''fieldType'' \<and> \<not> (case v' of JsString s \<Rightarrow> s \<in> set ALLOWED_FIELD_TYPES | _ \<Rightarrow> False)
           then Inl (ApplicationError (''Field type '' @ quoted (js_string rt v') @ '' in field '' @ show_nat index @
             '' is not valid for form fields''))
           else if key = ''fieldOptions''
           then rbind (form_options index v') (\<lambda>w. Inr (obj_put key w fs))
           else Inr (obj_put key v' fs))"

text \<open>The keys of strings and arrays are indexes, none of which is allowed.\<close>

definition form_field :: "js_runtime \<Rightarrow> nat \<times> js_value \<Rightarrow> js_value list \<Rightarrow> js_value list result" where
  "form_field rt entry formFields =
     (case entry of (index, v) \<Rightarrow>
        case v of
          JsUndefined \<Rightarrow> Inl TypeError
        | JsNull \<Rightarrow> Inl TypeError
        | JsObject r fs \<Rightarrow>
            rbind (rfold (form_field_key rt index) (map fst fs) fs) (\<lambda>fs'. Inr (formFields @ [JsObject r fs']))
        | JsString s \<Rightarrow> if s = [] then Inr (formFields @ [v]) else rbind (form_field_key rt index ''0'' []) (\<lambda>x. Inr formFields)
        | JsArray r vs \<Rightarrow> if vs = [] then Inr (formFields @ [v]) else rbind (form_field_key rt index ''0'' []) (\<lambda>x. Inr formFields)
        | _ \<Rightarrow> Inr (formFields @ [v]))"

definition tryToParseJsonToFormFields :: "js_runtime \<Rightarrow> js_value \<Rightarrow> js_value list result" where
  "tryToParseJsonToFormFields rt v =
     (let parsed = (case jsonParse_object rt (js_string rt v) of
            Some (JsArray r vs) \<Rightarrow> rfold (form_field rt) (enumerate 0 vs) []
          | _ \<Rightarrow> Inl TypeError)
      in case parsed of
           Inr formFields \<Rightarrow> Inr formFields
         | Inl (ApplicationError m) \<Rightarrow> Inl (ApplicationError m)
         | Inl e \<Rightarrow> Inl (ApplicationError ''Value is not valid JSON''))"

definition tryToParseUrl :: "js_runtime \<Rightarrow> js_value \<Rightarrow> string result" where
  "tryToParseUrl rt v =
     (let v' = (case v of JsString s \<Rightarrow> if \<not> contains_text ''://'' s then JsString (''https://'' @ s) else v | _ \<Rightarrow> v);
          failed = Inl (ApplicationError (''The value '' @ double_quoted (js_string rt v') @ '' is not a valid url.''))
      in case url_protocol rt (js_string rt v') of
           None \<Rightarrow> failed
         | Some protocol \<Rightarrow>
             if protocol \<notin> {''http:'', ''https:'', ''ftp:'', ''file:''} then failed else Inr (js_string rt v'))"

definition tryToParseJwt :: "js_runtime \<Rightarrow> js_value \<Rightarrow> string result" where
  "tryToParseJwt rt v =
     (let error = Inl (ApplicationError (''The value '' @ double_quoted (js_string rt v) @ '' is not a valid JWT token.''))
      in if \<not> js_truthy v then error
         else if \<not> full_match jwt_pattern (js_string rt v) then error
         else Inr (js_string rt v))"

section \<open>Validation\<close>

text \<open>The value is \<open>undefined\<close> where \<open>newValue\<close> is left out.\<close>

datatype validation = Valid js_value | Invalid string

definition getValueDescription :: "js_runtime \<Rightarrow> js_value \<Rightarrow> string" where
  "getValueDescription rt v =
     (if js_typeof v = ''object''
      then if v = JsNull then quoted ''null'' else if is_js_array v then ''array'' else ''object''
      else quoted (js_string rt v))"

text \<open>\<open>===\<close>, and \<open>includes\<close>, which differs on \<open>NaN\<close>.\<close>

fun js_identical :: "js_value \<Rightarrow> js_value \<Rightarrow> bool" where
  "js_identical (JsNumber m) (JsNumber n) = (m = n \<and> m \<noteq> JsNaN)"
| "js_identical (JsArray r vs) w = (case w of JsArray r' ws \<Rightarrow> r = r' | _ \<Rightarrow> False)"
| "js_identical (JsObject r fs) w = (case w of JsObject r' gs \<Rightarrow> r = r' | _ \<Rightarrow> False)"
| "js_identical (JsDateTime r t) w = (case w of JsDateTime r' t' \<Rightarrow> r = r' | _ \<Rightarrow> False)"
| "js_identical (JsDate r t) w = (case w of JsDate r' t' \<Rightarrow> r = r' | _ \<Rightarrow> False)"
| "js_identical v w = (v = w)"

definition js_includes :: "js_value list \<Rightarrow> js_value \<Rightarrow> bool" where
  "js_includes vs v \<longleftrightarrow> (\<exists>w \<in> set vs. js_identical w v \<or> w = JsNumber JsNaN \<and> v = JsNumber JsNaN)"

fun join_texts :: "string list \<Rightarrow> string" where
  "join_texts [] = []"
| "join_texts [s] = s"
| "join_texts (s # ss) = s @ '', '' @ join_texts ss"

definition validity :: "('a \<Rightarrow> js_value) \<Rightarrow> string \<Rightarrow> 'a result \<Rightarrow> validation" where
  "validity f message r = (case r of Inl e \<Rightarrow> Invalid message | Inr x \<Rightarrow> Valid (f x))"

definition validateFieldType ::
    "js_runtime \<Rightarrow> string \<Rightarrow> js_value \<Rightarrow> string \<Rightarrow> bool \<Rightarrow> js_value list \<Rightarrow> bool \<Rightarrow> validation" where
  "validateFieldType rt fieldName v type strict valueOptions parseStrings =
     (if js_nullish v then Valid JsUndefined
      else
        let message = quoted fieldName @ '' expects a '' @ type @ '' but we got '' @ getValueDescription rt v;
            kind = toLowerCase type
        in if kind = ''string'' then
             if \<not> parseStrings then Valid v
             else if strict \<and> \<not> is_js_string v then Invalid message
             else validity JsString message (tryToParseString rt v)
           else if kind = ''string-alphanumeric'' then
             validity JsString
               ''Value is not a valid alphanumeric string, only letters, numbers and underscore allowed''
               (tryToParseAlphanumericString rt v)
           else if kind = ''number'' then
             if strict \<and> js_typeof v \<noteq> ''number'' then Invalid message
             else validity JsNumber message (tryToParseNumber rt v)
           else if kind = ''boolean'' then
             if strict \<and> js_typeof v \<noteq> ''boolean'' then Invalid message
             else validity JsBool message (tryToParseBoolean rt v)
           else if kind = ''datetime'' then
             validity id (message @ '' <br/><br/> Consider using <a href='' @
               double_quoted ''https://moment.github.io/luxon/api-docs/index.html#datetimefromformat'' @ '' target='' @
               double_quoted ''_blank'' @ ''><code>DateTime.fromFormat</code></a> to work with custom date formats.'')
               (tryToParseDateTime rt v)
           else if kind = ''time'' then
             validity JsString (quoted fieldName @ '' expects time (hh:mm:(:ss)) but we got '' @
               getValueDescription rt v @ ''.'') (tryToParseTime rt v)
           else if kind = ''binary'' then
             validity id (message @ ''. Make sure the value is a valid binary data object with '' @ quoted ''mimeType'' @ '' and '' @
               quoted ''data'' @ '' or '' @ quoted ''id'' @ '' property.'')
               (tryToParseBinary v)
           else if kind = ''object'' then
             if strict \<and> js_typeof v \<noteq> ''object'' then Invalid message
             else validity id message (tryToParseObject rt v)
           else if kind = ''array'' then
             if strict \<and> \<not> is_js_array v then Invalid message
             else validity id message (tryToParseArray rt v)
           else if kind = ''options'' then
             if \<not> (\<exists>w \<in> set valueOptions. js_identical w v)
             then Invalid (quoted fieldName @ '' expects one of the following values: ['' @
               join_texts (map (js_string rt) valueOptions) @ ''] but we got '' @ getValueDescription rt v)
             else Valid v
           else if kind = ''url'' then validity JsString message (tryToParseUrl rt v)
           else if kind = ''jwt'' then
             validity JsString ''Value is not a valid JWT token'' (tryToParseJwt rt v)
           else if kind = ''form-fields'' then
             (case tryToParseJsonToFormFields rt v of
                Inr formFields \<Rightarrow> Valid (JsArray 0 formFields)
              | Inl (ApplicationError m) \<Rightarrow> Invalid m
              | Inl e \<Rightarrow> Invalid [])
           else Valid v)"

end
