(* ===== verification/Filter_Conditions.thy ===== *)
theory Filter_Conditions
  imports Field_Types
begin

text \<open>
  \<open>packages/workflow/src/node-parameters/filter-parameter.ts\<close>: the conditions of the If, Switch and
  Filter nodes. A filter error has a message and a description. Warnings of unknown operators are
  left out.
\<close>

section \<open>Data\<close>

record FilterOperatorValue =
  fop_type :: string
  fop_operation :: string
  fop_rightType :: "string option"
  fop_singleValue :: bool

record FilterConditionValue =
  fc_id :: string
  fc_leftValue :: js_value
  fc_operator :: FilterOperatorValue
  fc_rightValue :: js_value

record FilterOptionsValue =
  fo_caseSensitive :: bool
  fo_leftValue :: string
  fo_typeValidation :: string
  fo_version :: "nat option"

datatype FilterTypeCombinator = FilterAnd | FilterOr

record FilterValue =
  fv_options :: FilterOptionsValue
  fv_conditions :: "FilterConditionValue list"
  fv_combinator :: FilterTypeCombinator

record FilterConditionMetadata =
  fm_index :: "nat option"
  fm_unresolvedExpressions :: bool
  fm_itemIndex :: "nat option"
  fm_inline :: bool

datatype filter_error = FilterError string string | FilterTypeError | RegExpSyntaxError

definition or_zero :: "nat option \<Rightarrow> nat" where
  "or_zero n = (case n of None \<Rightarrow> 0 | Some i \<Rightarrow> i)"

section \<open>The values of a condition\<close>

definition parseSingleFilterValue :: "js_runtime \<Rightarrow> js_value \<Rightarrow> string \<Rightarrow> bool \<Rightarrow> nat \<Rightarrow> validation" where
  "parseSingleFilterValue rt v type strict version =
     (if type = ''any'' \<or> js_nullish v then Valid v
      else if type = ''boolean'' \<and> \<not> strict then
        (case (if version \<ge> 2 then validateFieldType rt ''filter'' v type False [] False else Invalid []) of
           Valid w \<Rightarrow> Valid w
         | Invalid m \<Rightarrow> Valid (JsBool (js_truthy v)))
      else if type = ''number'' \<and> v = JsNumber JsNaN then Valid v
      else if type = ''number'' \<and> version \<ge> 3 \<and>
        (case v of JsString s \<Rightarrow> js_trim s = [] | JsArray r vs \<Rightarrow> vs = [] | _ \<Rightarrow> False) then Valid JsNull
      else validateFieldType rt ''filter'' v type strict [] True)"

definition withIndefiniteArticle :: "string \<Rightarrow> string" where
  "withIndefiniteArticle noun =
     (let article = (if (case noun of [] \<Rightarrow> True | c # cs \<Rightarrow> c \<in> set ''aeiou'') then ''an'' else ''a'')
      in article @ '' '' @ noun)"

definition message_suffix :: "FilterConditionMetadata \<Rightarrow> string" where
  "message_suffix m =
     (if fm_inline m then ''[item '' @ show_nat (or_zero (fm_itemIndex m)) @ '']''
      else ''[condition '' @ show_nat (or_zero (fm_index m)) @ '', item '' @ show_nat (or_zero (fm_itemIndex m)) @ '']'')"

definition composeInvalidTypeMessage ::
    "js_runtime \<Rightarrow> bool \<Rightarrow> string \<Rightarrow> string \<Rightarrow> string \<Rightarrow> string \<Rightarrow> string" where
  "composeInvalidTypeMessage rt strict suffix type fromType value =
     (let fromType = locale_lower rt fromType
      in if strict
         then ''Wrong type: '' @ quoted value @ '' is '' @ withIndefiniteArticle fromType @ '' but was expecting '' @
           withIndefiniteArticle type @ '' '' @ suffix
         else ''Conversion error: the '' @ fromType @ '' '' @ quoted value @ '' can'' @ [CHR 0x27] @
           ''t be converted to '' @ withIndefiniteArticle type @ '' '' @ suffix)"

definition getTypeDescription :: "bool \<Rightarrow> string" where
  "getTypeDescription isStrict =
     (if isStrict
      then ''Try changing the type of comparison. Alternatively you can enable '' @ quoted ''Convert types where required'' @ ''.''
      else ''Try changing the type of the comparison.'')"

definition composeInvalidTypeDescription :: "bool \<Rightarrow> string \<Rightarrow> string \<Rightarrow> string" where
  "composeInvalidTypeDescription strict type valuePosition =
     (let expectedType = withIndefiniteArticle type;
          convertionFunction = (if type = ''string'' then ''.toString()'' else if type = ''number'' then ''.toNumber()''
            else if type = ''boolean'' then ''.toBoolean()'' else []);
          newline = [CHR 0x0A]
      in if strict \<and> convertionFunction \<noteq> []
         then newline @ ''<p>Try either:</p>'' @ newline @ ''<ol>'' @ newline @
           ''  <li>Enabling '' @ quoted ''Convert types where required'' @ ''</li>'' @ newline @
           ''  <li>Converting the '' @ valuePosition @ '' field to '' @ expectedType @
           '' by adding <code>'' @ convertionFunction @ ''</code></li>'' @ newline @ ''</ol>'' @ newline @
           [CHR 0x09, CHR 0x09, CHR 0x09]
         else getTypeDescription strict)"

definition unresolved :: "FilterConditionMetadata \<Rightarrow> js_value \<Rightarrow> bool" where
  "unresolved m v \<longleftrightarrow> fm_unresolvedExpressions m \<and> (case v of JsString s \<Rightarrow> starts_with ''='' s | _ \<Rightarrow> False)"

fun is_valid :: "validation \<Rightarrow> bool" where
  "is_valid (Valid v) = True"
| "is_valid (Invalid m) = False"

fun new_value :: "validation \<Rightarrow> js_value" where
  "new_value (Valid v) = v"
| "new_value (Invalid m) = JsUndefined"

text \<open>
  The outer sum is an exception, which the function never throws; the inner one is the \<open>Result\<close> it
  returns.
\<close>

definition parseFilterConditionValues ::
    "js_runtime \<Rightarrow> FilterConditionValue \<Rightarrow> FilterOptionsValue \<Rightarrow> FilterConditionMetadata \<Rightarrow>
      filter_error + (filter_error + js_value \<times> js_value)" where
  "parseFilterConditionValues rt condition options m =
     (let strict = (fo_typeValidation options = ''strict'');
          version = (case fo_version options of None \<Rightarrow> 1 | Some n \<Rightarrow> n);
          operator = fc_operator condition;
          type = fop_type operator;
          rightType = (case fop_rightType operator of None \<Rightarrow> type | Some t \<Rightarrow> t);
          left = fc_leftValue condition;
          right = fc_rightValue condition;
          parsedLeft = parseSingleFilterValue rt left type strict version;
          parsedRight = parseSingleFilterValue rt right rightType strict version;
          leftValid = (is_valid parsedLeft \<or> unresolved m left);
          rightValid = (is_valid parsedRight \<or> fop_singleValue operator \<or> unresolved m right);
          suffix = message_suffix m
      in Inr (
        if \<not> leftValid \<and> \<not> rightValid \<and> js_typeof left = js_typeof right
        then Inl (FilterError (''Comparison type expects '' @ withIndefiniteArticle type @ '' but both fields are '' @
          withIndefiniteArticle (js_typeof left)) (getTypeDescription strict))
        else if \<not> leftValid
        then Inl (FilterError (composeInvalidTypeMessage rt strict suffix type (js_typeof left) (js_string rt left))
          (composeInvalidTypeDescription strict type ''first''))
        else if \<not> rightValid
        then Inl (FilterError (composeInvalidTypeMessage rt strict suffix rightType (js_typeof right) (js_string rt right))
          (composeInvalidTypeDescription strict rightType ''second''))
        else Inr (new_value parsedLeft, new_value parsedRight)))"

section \<open>Operations\<close>

text \<open>
  A pattern between slashes with flags, \<open>^/(.*?)/([gimusy]*)$\<close>: the first slash after which only flags
  follow, with no line end before it. \<open>seen\<close> is the pattern read so far.
\<close>

definition line_end :: "char \<Rightarrow> bool" where
  "line_end c \<longleftrightarrow> c = CHR 0x0A \<or> c = CHR 0x0D"

fun delimited :: "string \<Rightarrow> string \<Rightarrow> (string \<times> string) option" where
  "delimited seen [] = None"
| "delimited seen (c # cs) =
     (if c = CHR ''/'' \<and> list_all (\<lambda>d. d \<in> set ''gimusy'') cs then Some (seen, cs)
      else if line_end c then None
      else delimited (seen @ [c]) cs)"

definition parseRegexPattern :: "js_runtime \<Rightarrow> js_value \<Rightarrow> filter_error + (string \<Rightarrow> bool)" where
  "parseRegexPattern rt pattern =
     (case (if js_truthy pattern then pattern else JsString []) of
        JsString s \<Rightarrow>
          (case (case s of c # cs \<Rightarrow> if c = CHR ''/'' then delimited [] cs else None | [] \<Rightarrow> None) of
             None \<Rightarrow> (case new_regexp rt s [] of None \<Rightarrow> Inl RegExpSyntaxError | Some test \<Rightarrow> Inr test)
           | Some (p, flags) \<Rightarrow>
               (case new_regexp rt p flags of None \<Rightarrow> Inl RegExpSyntaxError | Some test \<Rightarrow> Inr test))
      | _ \<Rightarrow> Inl FilterTypeError)"

definition arrayContainsValue :: "js_runtime \<Rightarrow> js_value list \<Rightarrow> js_value \<Rightarrow> bool \<Rightarrow> bool" where
  "arrayContainsValue rt array v ignoreCase =
     (case v of
        JsString s \<Rightarrow>
          if ignoreCase
          then list_ex (\<lambda>item. case item of JsString t \<Rightarrow> locale_lower rt t = locale_lower rt s | _ \<Rightarrow> False) array
          else js_includes array v
      | _ \<Rightarrow> js_includes array v)"

fun number_less :: "js_number \<Rightarrow> js_number \<Rightarrow> bool" where
  "number_less (JsFinite a) (JsFinite b) = (a < b)"
| "number_less (JsFinite a) (JsInfinity positive) = positive"
| "number_less (JsInfinity positive) (JsFinite b) = (\<not> positive)"
| "number_less (JsInfinity p) (JsInfinity q) = (\<not> p \<and> q)"
| "number_less m n = False"

definition number_le :: "js_number \<Rightarrow> js_number \<Rightarrow> bool" where
  "number_le m n \<longleftrightarrow> number_less m n \<or> m = n \<and> m \<noteq> JsNaN"

definition or_empty :: "js_value \<Rightarrow> js_value" where
  "or_empty v = (if js_nullish v then JsString [] else v)"

fun js_text :: "js_value \<Rightarrow> string" where
  "js_text (JsString s) = s"
| "js_text v = []"

text \<open>
  The operations of each type: \<open>None\<close> where the operation is not one of its own, so that the
  \<open>switch\<close> falls through to the next type. The left value of a string comparison is a string or missing.
\<close>

definition string_operation ::
    "js_runtime \<Rightarrow> string \<Rightarrow> js_value \<Rightarrow> js_value \<Rightarrow> (filter_error + bool) option" where
  "string_operation rt oper leftValue rightValue =
     (let left = js_text (or_empty leftValue);
          right = or_empty rightValue;
          argument = js_string rt right
      in if oper = ''empty'' then Some (Inr (left = []))
         else if oper = ''notEmpty'' then Some (Inr (left \<noteq> []))
         else if oper = ''equals'' then Some (Inr (js_identical (JsString left) right))
         else if oper = ''notEquals'' then Some (Inr (\<not> js_identical (JsString left) right))
         else if oper = ''contains'' then Some (Inr (contains_text argument left))
         else if oper = ''notContains'' then Some (Inr (\<not> contains_text argument left))
         else if oper = ''startsWith'' then Some (Inr (starts_with argument left))
         else if oper = ''notStartsWith'' then Some (Inr (\<not> starts_with argument left))
         else if oper = ''endsWith'' then Some (Inr (starts_with (rev argument) (rev left)))
         else if oper = ''notEndsWith'' then Some (Inr (\<not> starts_with (rev argument) (rev left)))
         else if oper = ''regex'' then Some (case parseRegexPattern rt right of Inl e \<Rightarrow> Inl e | Inr test \<Rightarrow> Inr (test left))
         else if oper = ''notRegex'' then Some (case parseRegexPattern rt right of Inl e \<Rightarrow> Inl e | Inr test \<Rightarrow> Inr (\<not> test left))
         else None)"

definition number_operation ::
    "js_runtime \<Rightarrow> bool \<Rightarrow> string \<Rightarrow> js_value \<Rightarrow> js_value \<Rightarrow> (filter_error + bool) option" where
  "number_operation rt exist oper left right =
     (let m = js_to_number rt left; n = js_to_number rt right
      in if oper = ''empty'' then Some (Inr (\<not> exist))
         else if oper = ''notEmpty'' then Some (Inr exist)
         else if oper = ''equals'' then Some (Inr (js_identical left right))
         else if oper = ''notEquals'' then Some (Inr (\<not> js_identical left right))
         else if oper = ''gt'' then Some (Inr (number_less n m))
         else if oper = ''lt'' then Some (Inr (number_less m n))
         else if oper = ''gte'' then Some (Inr (number_le n m))
         else if oper = ''lte'' then Some (Inr (number_le m n))
         else None)"

fun toMillis :: "js_value \<Rightarrow> js_number option" where
  "toMillis (JsDateTime r t) = Some (time_number t)"
| "toMillis v = None"

definition compare_millis :: "(js_number \<Rightarrow> js_number \<Rightarrow> bool) \<Rightarrow> js_value \<Rightarrow> js_value \<Rightarrow> filter_error + bool" where
  "compare_millis f left right =
     (case (toMillis left, toMillis right) of
        (Some m, Some n) \<Rightarrow> Inr (f m n)
      | _ \<Rightarrow> Inl FilterTypeError)"

definition number_same :: "js_number \<Rightarrow> js_number \<Rightarrow> bool" where
  "number_same m n \<longleftrightarrow> m = n \<and> m \<noteq> JsNaN"

definition dateTime_operation ::
    "bool \<Rightarrow> string \<Rightarrow> js_value \<Rightarrow> js_value \<Rightarrow> (filter_error + bool) option" where
  "dateTime_operation exist oper left right =
     (if oper = ''empty'' then Some (Inr (\<not> exist))
      else if oper = ''notEmpty'' then Some (Inr exist)
      else if \<not> js_truthy left \<or> \<not> js_truthy right then Some (Inr False)
      else if oper = ''equals'' then Some (compare_millis number_same left right)
      else if oper = ''notEquals'' then Some (compare_millis (\<lambda>m n. \<not> number_same m n) left right)
      else if oper = ''after'' then Some (compare_millis (\<lambda>m n. number_less n m) left right)
      else if oper = ''before'' then Some (compare_millis number_less left right)
      else if oper = ''afterOrEquals'' then Some (compare_millis (\<lambda>m n. number_le n m) left right)
      else if oper = ''beforeOrEquals'' then Some (compare_millis number_le left right)
      else None)"

definition boolean_operation ::
    "bool \<Rightarrow> string \<Rightarrow> js_value \<Rightarrow> js_value \<Rightarrow> (filter_error + bool) option" where
  "boolean_operation exist oper left right =
     (if oper = ''empty'' then Some (Inr (\<not> exist))
      else if oper = ''notEmpty'' then Some (Inr exist)
      else if oper = ''true'' then Some (Inr (js_truthy left))
      else if oper = ''false'' then Some (Inr (\<not> js_truthy left))
      else if oper = ''equals'' then Some (Inr (js_identical left right))
      else if oper = ''notEquals'' then Some (Inr (\<not> js_identical left right))
      else None)"

text \<open>Values that are no arrays have no method \<open>includes\<close> here, and \<open>undefined\<close> as their length.\<close>

definition array_operation ::
    "js_runtime \<Rightarrow> bool \<Rightarrow> string \<Rightarrow> js_value \<Rightarrow> js_value \<Rightarrow> (filter_error + bool) option" where
  "array_operation rt ignoreCase oper leftValue right =
     (let left = (if js_nullish leftValue then JsArray 0 [] else leftValue);
          len = (case left of JsArray r vs \<Rightarrow> JsNumber (JsFinite (of_nat (length vs))) | _ \<Rightarrow> JsUndefined);
          m = js_to_number rt len; n = js_to_number rt right;
          contains = (case left of JsArray r vs \<Rightarrow> Inr (arrayContainsValue rt vs right ignoreCase) | _ \<Rightarrow> Inl FilterTypeError)
      in if oper = ''contains'' then Some contains
         else if oper = ''notContains'' then Some (case contains of Inl e \<Rightarrow> Inl e | Inr b \<Rightarrow> Inr (\<not> b))
         else if oper = ''lengthEquals'' then Some (Inr (js_identical len right))
         else if oper = ''lengthNotEquals'' then Some (Inr (\<not> js_identical len right))
         else if oper = ''lengthGt'' then Some (Inr (number_less n m))
         else if oper = ''lengthLt'' then Some (Inr (number_less m n))
         else if oper = ''lengthGte'' then Some (Inr (number_le n m))
         else if oper = ''lengthLte'' then Some (Inr (number_le m n))
         else if oper = ''empty'' then Some (Inr (js_identical len (JsNumber (JsFinite 0))))
         else if oper = ''notEmpty'' then Some (Inr (\<not> js_identical len (JsNumber (JsFinite 0))))
         else None)"

text \<open>Whether \<open>Object.keys\<close> finds any; a \<open>DateTime\<close> of luxon has fields, a \<open>Date\<close> has none.\<close>

fun has_keys :: "js_value \<Rightarrow> bool" where
  "has_keys (JsObject r fs) = (fs \<noteq> [])"
| "has_keys (JsArray r vs) = (vs \<noteq> [])"
| "has_keys (JsString s) = (s \<noteq> [])"
| "has_keys (JsDateTime r t) = True"
| "has_keys v = False"

definition object_operation :: "string \<Rightarrow> js_value \<Rightarrow> (filter_error + bool) option" where
  "object_operation oper left =
     (if oper = ''empty'' then Some (Inr (\<not> js_truthy left \<or> \<not> has_keys left))
      else if oper = ''notEmpty'' then Some (Inr (js_truthy left \<and> has_keys left))
      else None)"

definition fall_through :: "'a option \<Rightarrow> 'a option \<Rightarrow> 'a option" where
  "fall_through x y = (case x of None \<Rightarrow> y | Some z \<Rightarrow> Some z)"

text \<open>The left operand of the comparison of strings, and the right one, in lower case if case is ignored.\<close>

definition lowered :: "js_runtime \<Rightarrow> bool \<Rightarrow> js_value \<Rightarrow> js_value" where
  "lowered rt lower v = (case v of JsString s \<Rightarrow> if lower then JsString (locale_lower rt s) else v | _ \<Rightarrow> v)"

definition filter_operation ::
    "js_runtime \<Rightarrow> bool \<Rightarrow> bool \<Rightarrow> string \<Rightarrow> string \<Rightarrow> js_value \<Rightarrow> js_value \<Rightarrow> (filter_error + bool) option" where
  "filter_operation rt ignoreCase exist type oper left right =
     (let on_object = object_operation oper left;
          on_array = fall_through (array_operation rt ignoreCase oper left right) on_object;
          on_boolean = fall_through (boolean_operation exist oper left right) on_array;
          on_dateTime = fall_through (dateTime_operation exist oper left right) on_boolean
      in if type = ''string''
         then string_operation rt oper (lowered rt ignoreCase left)
           (lowered rt (ignoreCase \<and> oper \<notin> {''regex'', ''notRegex''}) right)
         else if type = ''number'' then fall_through (number_operation rt exist oper left right) on_dateTime
         else if type = ''dateTime'' then on_dateTime
         else if type = ''boolean'' then on_boolean
         else if type = ''array'' then on_array
         else if type = ''object'' then on_object
         else None)"

text \<open>
  Where the code returns a left value itself, it stands for its truth, which is all that the callers
  look at.
\<close>

definition value_exists :: "js_value \<Rightarrow> bool" where
  "value_exists v \<longleftrightarrow> \<not> js_nullish v \<and> v \<noteq> JsNumber JsNaN"

definition executeFilterCondition ::
    "js_runtime \<Rightarrow> FilterConditionValue \<Rightarrow> FilterOptionsValue \<Rightarrow> FilterConditionMetadata \<Rightarrow> filter_error + bool" where
  "executeFilterCondition rt condition options m =
     (let ignoreCase = (\<not> fo_caseSensitive options);
          operator = fc_operator condition
      in case parseFilterConditionValues rt condition options m of
           Inl e \<Rightarrow> Inl e
         | Inr (Inl e) \<Rightarrow> Inl e
         | Inr (Inr (left, right)) \<Rightarrow>
             (let exist = value_exists left
              in if fop_operation operator = ''exists'' then Inr exist
                 else if fop_operation operator = ''notExists'' then Inr (\<not> exist)
                 else case filter_operation rt ignoreCase exist (fop_type operator) (fop_operation operator) left right of
                        None \<Rightarrow> Inr False
                      | Some r \<Rightarrow> r))"

section \<open>Filters\<close>

fun every_passes :: "('a \<Rightarrow> 'e + bool) \<Rightarrow> 'a list \<Rightarrow> 'e + bool" where
  "every_passes f [] = Inr True"
| "every_passes f (x # xs) = (case f x of Inl e \<Rightarrow> Inl e | Inr b \<Rightarrow> if b then every_passes f xs else Inr False)"

fun some_passes :: "('a \<Rightarrow> 'e + bool) \<Rightarrow> 'a list \<Rightarrow> 'e + bool" where
  "some_passes f [] = Inr False"
| "some_passes f (x # xs) = (case f x of Inl e \<Rightarrow> Inl e | Inr b \<Rightarrow> if b then Inr True else some_passes f xs)"

definition executeFilter :: "js_runtime \<Rightarrow> FilterValue \<Rightarrow> nat option \<Rightarrow> filter_error + bool" where
  "executeFilter rt value itemIndex =
     (let conditionPass = (\<lambda>(index, condition). executeFilterCondition rt condition (fv_options value)
            \<lparr>fm_index = Some index, fm_unresolvedExpressions = False, fm_itemIndex = itemIndex, fm_inline = False\<rparr>);
          conditions = enumerate 0 (fv_conditions value)
      in case fv_combinator value of
           FilterAnd \<Rightarrow> every_passes conditionPass conditions
         | FilterOr \<Rightarrow> some_passes conditionPass conditions)"

text \<open>The issues found, by key; adding to a key that is not there is a type error.\<close>

fun collect_issues ::
    "js_runtime \<Rightarrow> string \<Rightarrow> FilterOptionsValue \<Rightarrow> (nat \<times> FilterConditionValue) list \<Rightarrow>
      (string \<times> string list) list \<Rightarrow> (string \<times> string list) list result" where
  "collect_issues rt name options [] issues = Inr issues"
| "collect_issues rt name options ((index, condition) # rest) issues =
     (let key = name @ ''.'' @ show_nat index
      in case parseFilterConditionValues rt condition options
           \<lparr>fm_index = Some index, fm_unresolvedExpressions = True, fm_itemIndex = None, fm_inline = True\<rparr> of
           Inl (FilterError message description) \<Rightarrow>
             (case map_of issues key of
                None \<Rightarrow> Inl TypeError
              | Some messages \<Rightarrow> collect_issues rt name options rest (obj_put key (messages @ [message]) issues))
         | _ \<Rightarrow> collect_issues rt name options rest issues)"

definition validateFilterParameter ::
    "js_runtime \<Rightarrow> string \<Rightarrow> FilterValue \<Rightarrow> (string \<times> string list) list result" where
  "validateFilterParameter rt name value =
     collect_issues rt name (fv_options value) (enumerate 0 (fv_conditions value)) []"

end
