(* ===== verification/Filter_Properties.thy ===== *)
theory Filter_Properties
  imports Filter_Conditions
begin

text \<open>
  Properties of filters and of the validation of fields: opposite operations, conditions on values of
  the right type, the stability of converted values, the shape of form fields, and two checks that do
  not do what they are for.
\<close>

lemmas parse_defs = tryToParseNumber_def tryToParseString_def tryToParseBoolean_def tryToParseDateTime_def
  tryToParseArray_def tryToParseObject_def

section \<open>Opposite operations\<close>

definition opposites :: "string \<Rightarrow> (string \<times> string) list" where
  "opposites type =
     (if type = ''string'' then [(''equals'', ''notEquals''), (''contains'', ''notContains''), (''startsWith'', ''notStartsWith''),
        (''endsWith'', ''notEndsWith''), (''regex'', ''notRegex''), (''empty'', ''notEmpty'')]
      else if type = ''number'' then [(''equals'', ''notEquals''), (''empty'', ''notEmpty'')]
      else if type = ''dateTime'' then [(''empty'', ''notEmpty'')]
      else if type = ''boolean'' then [(''true'', ''false''), (''equals'', ''notEquals''), (''empty'', ''notEmpty'')]
      else if type = ''array'' then [(''contains'', ''notContains''), (''lengthEquals'', ''lengthNotEquals''), (''empty'', ''notEmpty'')]
      else if type = ''object'' then [(''empty'', ''notEmpty'')]
      else [])"

text \<open>Opposite only where the two values can be compared: no \<open>NaN\<close>, and no date that is missing.\<close>

definition ordered_opposites :: "string \<Rightarrow> (string \<times> string) list" where
  "ordered_opposites type =
     (if type = ''number'' then [(''gt'', ''lte''), (''lt'', ''gte'')]
      else if type = ''dateTime'' then [(''equals'', ''notEquals''), (''after'', ''beforeOrEquals''), (''before'', ''afterOrEquals'')]
      else if type = ''array'' then [(''lengthGt'', ''lengthLte''), (''lengthLt'', ''lengthGte'')]
      else [])"

definition comparable :: "js_runtime \<Rightarrow> string \<Rightarrow> js_value \<Rightarrow> js_value \<Rightarrow> bool" where
  "comparable rt type left right \<longleftrightarrow>
     (if type = ''number'' then js_to_number rt left \<noteq> JsNaN \<and> js_to_number rt right \<noteq> JsNaN
      else if type = ''dateTime'' then js_truthy left \<and> js_truthy right \<and> toMillis left \<noteq> Some JsNaN \<and> toMillis right \<noteq> Some JsNaN
      else (js_nullish left \<or> is_js_array left) \<and> js_to_number rt right \<noteq> JsNaN)"

definition in_pairs :: "(string \<times> string) list \<Rightarrow> string \<Rightarrow> string \<Rightarrow> bool" where
  "in_pairs ps p q \<longleftrightarrow> (p, q) \<in> set ps \<or> (q, p) \<in> set ps"

text \<open>The other operation of a pair, in either direction.\<close>

definition opposite_condition :: "js_runtime \<Rightarrow> FilterOptionsValue \<Rightarrow> FilterConditionValue \<Rightarrow> FilterConditionValue \<Rightarrow> bool" where
  "opposite_condition rt options c d \<longleftrightarrow> (\<exists>oper'. d = c\<lparr>fc_operator := (fc_operator c)\<lparr>fop_operation := oper'\<rparr>\<rparr> \<and>
     (let oper = fop_operation (fc_operator c); type = fop_type (fc_operator c)
      in in_pairs [(''exists'', ''notExists'')] oper oper' \<or> in_pairs (opposites type) oper oper' \<or>
         in_pairs (ordered_opposites type) oper oper' \<and>
           (\<forall>m left right. parseFilterConditionValues rt c options m = Inr (Inr (left, right)) \<longrightarrow> comparable rt type left right)))"

definition negate_result :: "'e + bool \<Rightarrow> 'e + bool" where
  "negate_result r = (case r of Inl e \<Rightarrow> Inl e | Inr b \<Rightarrow> Inr (\<not> b))"

lemma negate_result_simps [simp]:
  "negate_result (Inl e) = Inl e" "negate_result (Inr b) = Inr (\<not> b)"
  by (simp_all add: negate_result_def)

lemma parse_ignores_operation:
  "parseFilterConditionValues rt (c\<lparr>fc_operator := (fc_operator c)\<lparr>fop_operation := oper\<rparr>\<rparr>) options m =
     parseFilterConditionValues rt c options m"
proof -
  let ?d = "c\<lparr>fc_operator := (fc_operator c)\<lparr>fop_operation := oper\<rparr>\<rparr>"
  have same: "fop_type (fc_operator ?d) = fop_type (fc_operator c)" "fc_leftValue ?d = fc_leftValue c"
    "fop_rightType (fc_operator ?d) = fop_rightType (fc_operator c)" "fc_rightValue ?d = fc_rightValue c"
    "fop_singleValue (fc_operator ?d) = fop_singleValue (fc_operator c)" by simp_all
  show ?thesis unfolding parseFilterConditionValues_def Let_def same ..
qed

definition opposite_results :: "(filter_error + bool) option \<Rightarrow> (filter_error + bool) option \<Rightarrow> bool" where
  "opposite_results x y \<longleftrightarrow> (\<exists>r. x = Some r \<and> y = Some (negate_result r))"

lemma opposite_results_Some [simp]: "opposite_results (Some r) (Some r') \<longleftrightarrow> r' = negate_result r"
  by (auto simp: opposite_results_def)

lemma negate_negate [simp]: "negate_result (negate_result r) = r"
  by (cases r) simp_all

lemma opposite_results_sym: "opposite_results x y \<Longrightarrow> opposite_results y x"
  by (auto simp: opposite_results_def)

lemma opposite_fall_through: "opposite_results x y \<Longrightarrow> opposite_results (fall_through x u) (fall_through y v)"
  by (auto simp: opposite_results_def fall_through_def)

lemma pair_results: "list_all (\<lambda>(p, q). opposite_results (f p) (f q)) ps \<Longrightarrow> (p, q) \<in> set ps \<Longrightarrow> opposite_results (f p) (f q)"
  by (auto simp: list_all_iff)

definition all_opposite :: "string \<Rightarrow> (string \<Rightarrow> (filter_error + bool) option) \<Rightarrow> bool" where
  "all_opposite type f \<longleftrightarrow> list_all (\<lambda>(p, q). opposite_results (f p) (f q)) (opposites type)"

lemma all_oppositeD: "all_opposite type f \<Longrightarrow> (p, q) \<in> set (opposites type) \<Longrightarrow> opposite_results (f p) (f q)"
  unfolding all_opposite_def by (rule pair_results)

lemma negated_test:
  "(case x of Inl e \<Rightarrow> Inl e | Inr f \<Rightarrow> Inr (\<not> f l)) = negate_result (case x of Inl e \<Rightarrow> Inl e | Inr f \<Rightarrow> Inr (f l))"
  by (cases x) simp_all

lemma negated_case: "(case x of Inl e \<Rightarrow> Inl e | Inr b \<Rightarrow> Inr (\<not> b)) = negate_result x"
  by (simp add: negate_result_def)

lemma string_opposites:
  "all_opposite ''string'' (\<lambda>oper. string_operation rt oper (lowered rt lower left)
    (lowered rt (lower \<and> oper \<notin> {''regex'', ''notRegex''}) right))"
  by (simp add: all_opposite_def opposites_def string_operation_def Let_def negated_test)

lemma number_opposites: "all_opposite ''number'' (\<lambda>oper. number_operation rt exist oper left right)"
  by (simp add: all_opposite_def opposites_def number_operation_def Let_def)

lemma dateTime_opposites: "all_opposite ''dateTime'' (\<lambda>oper. dateTime_operation exist oper left right)"
  by (simp add: all_opposite_def opposites_def dateTime_operation_def)

lemma boolean_opposites: "all_opposite ''boolean'' (\<lambda>oper. boolean_operation exist oper left right)"
  by (simp add: all_opposite_def opposites_def boolean_operation_def)

lemma array_opposites: "all_opposite ''array'' (\<lambda>oper. array_operation rt ignoreCase oper left right)"
  by (simp add: all_opposite_def opposites_def array_operation_def Let_def negated_case)

lemma object_opposites: "all_opposite ''object'' (\<lambda>oper. object_operation oper left)"
  by (simp add: all_opposite_def opposites_def object_operation_def)

lemma operations_opposite:
  assumes "(oper, oper') \<in> set (opposites type)"
  shows "opposite_results (filter_operation rt ignoreCase exist type oper left right)
    (filter_operation rt ignoreCase exist type oper' left right)"
proof -
  consider "type = ''string''" | "type = ''number''" | "type = ''dateTime''" | "type = ''boolean''"
    | "type = ''array''" | "type = ''object''"
  proof (rule ccontr)
    assume "\<not> thesis"
    then have "opposites type = []" using that unfolding opposites_def by presburger
    then show False using assms by simp
  qed
  then show ?thesis
  proof cases
    case 1
    then show ?thesis using all_oppositeD [OF string_opposites] assms by (simp add: filter_operation_def)
  next
    case 2
    then show ?thesis using all_oppositeD [OF number_opposites] assms
      by (simp add: filter_operation_def Let_def opposite_fall_through)
  next
    case 3
    then show ?thesis using all_oppositeD [OF dateTime_opposites] assms
      by (simp add: filter_operation_def Let_def opposite_fall_through)
  next
    case 4
    then show ?thesis using all_oppositeD [OF boolean_opposites] assms
      by (simp add: filter_operation_def Let_def opposite_fall_through)
  next
    case 5
    then show ?thesis using all_oppositeD [OF array_opposites] assms
      by (simp add: filter_operation_def Let_def opposite_fall_through)
  next
    case 6
    then show ?thesis using all_oppositeD [OF object_opposites] assms by (simp add: filter_operation_def Let_def)
  qed
qed

lemma le_not_less: "m \<noteq> JsNaN \<Longrightarrow> n \<noteq> JsNaN \<Longrightarrow> number_le m n \<longleftrightarrow> \<not> number_less n m"
  by (cases m; cases n) (auto simp: number_le_def)

lemma millis_negated:
  assumes "toMillis left \<noteq> Some JsNaN" "toMillis right \<noteq> Some JsNaN"
    and "\<And>m n. m \<noteq> JsNaN \<Longrightarrow> n \<noteq> JsNaN \<Longrightarrow> g m n \<longleftrightarrow> \<not> f m n"
  shows "compare_millis g left right = negate_result (compare_millis f left right)"
  using assms by (auto simp: compare_millis_def split: option.splits)

lemma number_ordered:
  assumes "js_to_number rt left \<noteq> JsNaN" "js_to_number rt right \<noteq> JsNaN"
  shows "list_all (\<lambda>(p, q). opposite_results (number_operation rt exist p left right) (number_operation rt exist q left right))
    (ordered_opposites ''number'')"
  using assms by (simp add: ordered_opposites_def number_operation_def Let_def le_not_less)

lemma dateTime_ordered:
  assumes "js_truthy left" "js_truthy right" "toMillis left \<noteq> Some JsNaN" "toMillis right \<noteq> Some JsNaN"
  shows "list_all (\<lambda>(p, q). opposite_results (dateTime_operation exist p left right) (dateTime_operation exist q left right))
    (ordered_opposites ''dateTime'')"
  using assms(1,2) millis_negated [OF assms(3,4), of "\<lambda>m n. \<not> number_same m n" number_same]
    millis_negated [OF assms(3,4), of number_le "\<lambda>m n. number_less n m"]
    millis_negated [OF assms(3,4), of "\<lambda>m n. number_le n m" number_less]
  by (simp add: ordered_opposites_def dateTime_operation_def le_not_less)

lemma array_ordered:
  assumes "js_nullish left \<or> is_js_array left" "js_to_number rt right \<noteq> JsNaN"
  shows "list_all (\<lambda>(p, q). opposite_results (array_operation rt ignoreCase p left right) (array_operation rt ignoreCase q left right))
    (ordered_opposites ''array'')"
proof -
  obtain r vs where "(if js_nullish left then JsArray 0 [] else left) = JsArray r vs"
    using assms(1) by (cases left) auto
  then show ?thesis using assms(2) by (simp add: ordered_opposites_def array_operation_def Let_def le_not_less)
qed

lemma operations_ordered:
  assumes "(oper, oper') \<in> set (ordered_opposites type)" "comparable rt type left right"
  shows "opposite_results (filter_operation rt ignoreCase exist type oper left right)
    (filter_operation rt ignoreCase exist type oper' left right)"
proof -
  consider "type = ''number''" | "type = ''dateTime''" | "type = ''array''"
  proof (rule ccontr)
    assume "\<not> thesis"
    then have "ordered_opposites type = []" using that unfolding ordered_opposites_def by presburger
    then show False using assms(1) by simp
  qed
  then show ?thesis
  proof cases
    case 1
    then have "js_to_number rt left \<noteq> JsNaN" "js_to_number rt right \<noteq> JsNaN"
      using assms(2) by (simp_all add: comparable_def)
    from pair_results [OF number_ordered [OF this]] show ?thesis using assms(1) 1
      by (simp add: filter_operation_def Let_def opposite_fall_through)
  next
    case 2
    then have "js_truthy left" "js_truthy right" "toMillis left \<noteq> Some JsNaN" "toMillis right \<noteq> Some JsNaN"
      using assms(2) by (simp_all add: comparable_def)
    from pair_results [OF dateTime_ordered [OF this]] show ?thesis using assms(1) 2
      by (simp add: filter_operation_def Let_def opposite_fall_through)
  next
    case 3
    then have "js_nullish left \<or> is_js_array left" "js_to_number rt right \<noteq> JsNaN"
      using assms(2) by (simp_all add: comparable_def)
    from pair_results [OF array_ordered [OF this]] show ?thesis using assms(1) 3
      by (simp add: filter_operation_def Let_def opposite_fall_through)
  qed
qed

lemma opposites_exist:
  "list_all (\<lambda>(p, q). p \<notin> {''exists'', ''notExists''} \<and> q \<notin> {''exists'', ''notExists''}) (opposites type)"
  "list_all (\<lambda>(p, q). p \<notin> {''exists'', ''notExists''} \<and> q \<notin> {''exists'', ''notExists''}) (ordered_opposites type)"
  by (simp_all add: opposites_def ordered_opposites_def)

lemma in_pairsD: "in_pairs ps p q \<Longrightarrow> list_all (\<lambda>(p, q). p \<notin> E \<and> q \<notin> E) ps \<Longrightarrow> p \<notin> E \<and> q \<notin> E"
  by (auto simp: in_pairs_def list_all_iff)

lemma condition_negated:
  assumes "opposite_condition rt options c d"
  shows "executeFilterCondition rt d options m = negate_result (executeFilterCondition rt c options m)"
proof -
  let ?p = "fc_operator c"
  obtain oper' where d: "d = c\<lparr>fc_operator := ?p\<lparr>fop_operation := oper'\<rparr>\<rparr>"
    and opp: "in_pairs [(''exists'', ''notExists'')] (fop_operation ?p) oper' \<or> in_pairs (opposites (fop_type ?p)) (fop_operation ?p) oper' \<or>
      in_pairs (ordered_opposites (fop_type ?p)) (fop_operation ?p) oper' \<and>
        (\<forall>m left right. parseFilterConditionValues rt c options m = Inr (Inr (left, right)) \<longrightarrow> comparable rt (fop_type ?p) left right)"
    using assms unfolding opposite_condition_def Let_def by blast
  have parse: "parseFilterConditionValues rt d options m = parseFilterConditionValues rt c options m"
    unfolding d by (rule parse_ignores_operation)
  consider (thrown) e where "parseFilterConditionValues rt c options m = Inl e"
    | (failed) e where "parseFilterConditionValues rt c options m = Inr (Inl e)"
    | (parsed) left right where "parseFilterConditionValues rt c options m = Inr (Inr (left, right))"
    by (metis sum.exhaust surj_pair)
  then show ?thesis
  proof cases
    case parsed
    show ?thesis
    proof (cases "in_pairs [(''exists'', ''notExists'')] (fop_operation ?p) oper'")
      case True
      then have "fop_operation ?p = ''exists'' \<and> oper' = ''notExists'' \<or> fop_operation ?p = ''notExists'' \<and> oper' = ''exists''"
        by (auto simp: in_pairs_def)
      then show ?thesis unfolding executeFilterCondition_def parse parsed by (auto simp: d)
    next
      case False
      then have others: "fop_operation ?p \<notin> {''exists'', ''notExists''}" "oper' \<notin> {''exists'', ''notExists''}"
        using opp in_pairsD [OF _ opposites_exist(1)] in_pairsD [OF _ opposites_exist(2)] by blast+
      let ?r = "\<lambda>oper. filter_operation rt (\<not> fo_caseSensitive options) (value_exists left) (fop_type ?p) oper left right"
      have "opposite_results (?r (fop_operation ?p)) (?r oper')"
        using False opp operations_opposite operations_ordered parsed opposite_results_sym unfolding in_pairs_def by metis
      then obtain r where r: "?r (fop_operation ?p) = Some r" "?r oper' = Some (negate_result r)"
        unfolding opposite_results_def by blast
      have "executeFilterCondition rt c options m = r"
        using others r(1) unfolding executeFilterCondition_def parsed by (simp add: Let_def)
      moreover have "executeFilterCondition rt d options m = negate_result r"
        using others r(2) unfolding executeFilterCondition_def parse parsed by (simp add: Let_def d)
      ultimately show ?thesis by simp
    qed
  qed (unfold executeFilterCondition_def parse, simp_all)
qed

fun other_combinator :: "FilterTypeCombinator \<Rightarrow> FilterTypeCombinator" where
  "other_combinator FilterAnd = FilterOr"
| "other_combinator FilterOr = FilterAnd"

lemma passes_negated:
  assumes "list_all2 P xs ys" "\<And>n x y. P x y \<Longrightarrow> f (n, y) = negate_result (f (n, x))"
  shows "some_passes f (enumerate n ys) = negate_result (every_passes f (enumerate n xs)) \<and>
    every_passes f (enumerate n ys) = negate_result (some_passes f (enumerate n xs))"
  using assms(1)
proof (induction arbitrary: n rule: list_all2_induct)
  case (Cons x xs y ys)
  then show ?case using assms(2) [OF Cons.hyps(1), of n] Cons.IH [of "Suc n"]
    by (cases "f (n, x)") (simp_all add: negate_result_def split: sum.splits)
qed simp

section \<open>Values of the right type\<close>

definition operator_types :: "string list" where
  "operator_types = [''string'', ''number'', ''boolean'', ''array'', ''object'', ''dateTime'', ''any'']"

lemma filter_type_cases:
  assumes "T \<in> set operator_types" "T \<noteq> ''any''"
  obtains "T = ''string''" | "T = ''number''" | "T = ''boolean''" | "T = ''array''" | "T = ''object''" | "T = ''dateTime''"
proof -
  have "T = ''string'' \<or> T = ''number'' \<or> T = ''boolean'' \<or> T = ''array'' \<or> T = ''object'' \<or> T = ''dateTime'' \<or> T = ''any''"
    using assms(1) unfolding operator_types_def by (simp only: list.set insert_iff empty_iff simp_thms)
  then show ?thesis
  proof (elim disjE)
    assume "T = ''any''"
    then show ?thesis using assms(2) by contradiction
  qed (fact that)+
qed

text \<open>A missing value has every type.\<close>

definition has_type :: "string \<Rightarrow> js_value \<Rightarrow> bool" where
  "has_type type v \<longleftrightarrow> type = ''any'' \<or> js_nullish v \<or>
     (case v of
        JsString s \<Rightarrow> type = ''string''
      | JsNumber n \<Rightarrow> type = ''number''
      | JsBool b \<Rightarrow> type = ''boolean''
      | JsArray r vs \<Rightarrow> type = ''array''
      | JsDateTime r t \<Rightarrow> type = ''object'' \<or> type = ''dateTime'' \<and> t \<noteq> None
      | _ \<Rightarrow> type = ''object'')"

lemma lower_types: "toLowerCase ''string'' = ''string''" "toLowerCase ''number'' = ''number''"
  "toLowerCase ''boolean'' = ''boolean''" "toLowerCase ''array'' = ''array''" "toLowerCase ''object'' = ''object''"
  "toLowerCase ''dateTime'' = ''datetime''"
  by code_simp+

text \<open>Validation at the types of filters; the parser of a type is all that counts.\<close>

definition validates ::
    "js_runtime \<Rightarrow> string \<Rightarrow> (js_value \<Rightarrow> bool) \<Rightarrow> (js_value \<Rightarrow> 'a result) \<Rightarrow> ('a \<Rightarrow> js_value) \<Rightarrow> bool" where
  "validates rt type right_kind parser wrap \<longleftrightarrow> (\<forall>v strict w. \<not> js_nullish v \<longrightarrow>
     (validateFieldType rt ''filter'' v type strict [] True = Valid w \<longleftrightarrow>
       (strict \<longrightarrow> right_kind v) \<and> (\<exists>x. parser v = Inr x \<and> w = wrap x)))"

lemma validity_Valid: "validity f m r = Valid w \<longleftrightarrow> (\<exists>x. r = Inr x \<and> w = f x)"
  by (auto simp: validity_def split: sum.split)

lemma validates_types:
  "validates rt ''string'' is_js_string (tryToParseString rt) JsString"
  "validates rt ''number'' (\<lambda>v. js_typeof v = ''number'') (tryToParseNumber rt) JsNumber"
  "validates rt ''boolean'' (\<lambda>v. js_typeof v = ''boolean'') (tryToParseBoolean rt) JsBool"
  "validates rt ''array'' is_js_array (tryToParseArray rt) id"
  "validates rt ''object'' (\<lambda>v. js_typeof v = ''object'') (tryToParseObject rt) id"
  "validates rt ''dateTime'' (\<lambda>v. True) (tryToParseDateTime rt) id"
  by (simp_all add: validates_def validateFieldType_def Let_def lower_types validity_Valid)

lemma validate_string: "\<not> js_nullish v \<Longrightarrow> validateFieldType rt ''filter'' v ''string'' strict [] True = Valid w \<longleftrightarrow>
    (strict \<longrightarrow> is_js_string v) \<and> (\<exists>x. tryToParseString rt v = Inr x \<and> w = JsString x)"
  using validates_types(1) unfolding validates_def by blast

lemma validate_number: "\<not> js_nullish v \<Longrightarrow> validateFieldType rt ''filter'' v ''number'' strict [] True = Valid w \<longleftrightarrow>
    (strict \<longrightarrow> js_typeof v = ''number'') \<and> (\<exists>x. tryToParseNumber rt v = Inr x \<and> w = JsNumber x)"
  using validates_types(2) unfolding validates_def by blast

lemma validate_boolean: "\<not> js_nullish v \<Longrightarrow> validateFieldType rt ''filter'' v ''boolean'' strict [] True = Valid w \<longleftrightarrow>
    (strict \<longrightarrow> js_typeof v = ''boolean'') \<and> (\<exists>x. tryToParseBoolean rt v = Inr x \<and> w = JsBool x)"
  using validates_types(3) unfolding validates_def by blast

lemma validate_boolean_loose: "\<not> js_nullish v \<Longrightarrow> validateFieldType rt ''filter'' v ''boolean'' False [] False = Valid w \<longleftrightarrow>
    (\<exists>x. tryToParseBoolean rt v = Inr x \<and> w = JsBool x)"
  by (simp add: validateFieldType_def Let_def lower_types validity_Valid)

lemma validate_array: "\<not> js_nullish v \<Longrightarrow> validateFieldType rt ''filter'' v ''array'' strict [] True = Valid w \<longleftrightarrow>
    (strict \<longrightarrow> is_js_array v) \<and> tryToParseArray rt v = Inr w"
  using validates_types(4) unfolding validates_def by auto

lemma validate_object: "\<not> js_nullish v \<Longrightarrow> validateFieldType rt ''filter'' v ''object'' strict [] True = Valid w \<longleftrightarrow>
    (strict \<longrightarrow> js_typeof v = ''object'') \<and> tryToParseObject rt v = Inr w"
  using validates_types(5) unfolding validates_def by auto

lemma validate_dateTime: "\<not> js_nullish v \<Longrightarrow> validateFieldType rt ''filter'' v ''dateTime'' strict [] True = Valid w \<longleftrightarrow>
    tryToParseDateTime rt v = Inr w"
  using validates_types(6) unfolding validates_def by auto

lemmas validate_rules = validate_string validate_number validate_boolean validate_boolean_loose validate_array
  validate_object validate_dateTime

text \<open>A value that has the type already stays as it is.\<close>

lemma typed_string: "has_type ''string'' v \<Longrightarrow> \<not> js_nullish v \<Longrightarrow> \<exists>s. v = JsString s"
  by (cases v) (simp_all add: has_type_def)

lemma typed_number: "has_type ''number'' v \<Longrightarrow> \<not> js_nullish v \<Longrightarrow> \<exists>n. v = JsNumber n"
  by (cases v) (simp_all add: has_type_def)

lemma typed_boolean: "has_type ''boolean'' v \<Longrightarrow> \<not> js_nullish v \<Longrightarrow> \<exists>b. v = JsBool b"
  by (cases v) (simp_all add: has_type_def)

lemma typed_array: "has_type ''array'' v \<Longrightarrow> \<not> js_nullish v \<Longrightarrow> \<exists>r vs. v = JsArray r vs"
  by (cases v) (simp_all add: has_type_def)

lemma typed_dateTime: "has_type ''dateTime'' v \<Longrightarrow> \<not> js_nullish v \<Longrightarrow> \<exists>r t. v = JsDateTime r (Some t)"
  by (cases v) (auto simp: has_type_def)

lemma typed_object: "has_type ''object'' v \<Longrightarrow> \<not> js_nullish v \<Longrightarrow> js_typeof v = ''object'' \<and> js_truthy v \<and> \<not> is_js_array v"
  by (cases v) (simp_all add: has_type_def)

lemma parse_typed:
  assumes "has_type T v" "T \<in> set operator_types"
  shows "parseSingleFilterValue rt v T strict version = Valid v"
proof (cases "T = ''any'' \<or> js_nullish v")
  case True
  then show ?thesis by (simp add: parseSingleFilterValue_def)
next
  case False
  then have n: "\<not> js_nullish v" and other: "T \<noteq> ''any''" by auto
  consider "T = ''string''" | "T = ''number''" | "T = ''boolean''" | "T = ''array''" | "T = ''object''" | "T = ''dateTime''"
    by (rule filter_type_cases [OF assms(2) other])
  then show ?thesis
  proof cases
    case 1
    then obtain s where "v = JsString s" using typed_string assms(1) n by blast
    then show ?thesis using 1 by (simp add: parseSingleFilterValue_def validate_rules parse_defs)
  next
    case 2
    then obtain m where "v = JsNumber m" using typed_number assms(1) n by blast
    then show ?thesis using 2 by (simp add: parseSingleFilterValue_def validate_rules parse_defs Let_def)
  next
    case 3
    then obtain b where v: "v = JsBool b" using typed_boolean assms(1) n by blast
    have loose: "validateFieldType rt ''filter'' (JsBool b) ''boolean'' False [] False = Valid (JsBool b)"
      by (simp add: validate_rules parse_defs Let_def)
    have "validateFieldType rt ''filter'' (JsBool b) ''boolean'' strict [] True = Valid (JsBool b)" for strict
      by (simp add: validate_rules parse_defs Let_def)
    then show ?thesis using 3 v loose by (simp add: parseSingleFilterValue_def)
  next
    case 4
    then obtain r vs where "v = JsArray r vs" using typed_array assms(1) n by blast
    then show ?thesis using 4 by (simp add: parseSingleFilterValue_def validate_rules parse_defs)
  next
    case 5
    then show ?thesis using typed_object assms(1) n by (simp add: parseSingleFilterValue_def validate_rules parse_defs)
  next
    case 6
    then obtain r t where "v = JsDateTime r (Some t)" using typed_dateTime assms(1) n by blast
    then show ?thesis using 6 by (simp add: parseSingleFilterValue_def validate_rules parse_defs Let_def)
  qed
qed

text \<open>A converted value has the type; of dates, because each constructor's result is checked.\<close>

lemma parsed_checked:
  assumes "\<And>d. isValid d \<Longrightarrow> Q (luxon_value d)" "\<And>r t. Q (JsDateTime r (Some t))" "tryToParseDateTime rt v = Inr w"
  shows "Q w"
  using assms(3) by (cases v) (auto simp: tryToParseDateTime_def Let_def assms(1,2) split: option.splits if_splits)

lemma parsed_date: "tryToParseDateTime rt v = Inr w \<Longrightarrow> \<exists>r t. w = JsDateTime r (Some t)"
  by (rule parsed_checked [where Q = "\<lambda>w. \<exists>r t. w = JsDateTime r (Some t)"]) (auto simp: isValid_def luxon_value_def)

lemma parsed_has_type:
  assumes "T \<in> set operator_types" "parseSingleFilterValue rt v T strict version = Valid w"
  shows "has_type T w"
proof (cases "T = ''any'' \<or> js_nullish v")
  case True
  then show ?thesis using assms(2) by (auto simp: parseSingleFilterValue_def has_type_def)
next
  case False
  then have n: "\<not> js_nullish v" and other: "T \<noteq> ''any''" by auto
  consider "T = ''string''" | "T = ''number''" | "T = ''boolean''" | "T = ''array''" | "T = ''object''" | "T = ''dateTime''"
    by (rule filter_type_cases [OF assms(1) other])
  then show ?thesis
  proof cases
    case 1
    then show ?thesis using assms(2) n by (auto simp: parseSingleFilterValue_def validate_rules has_type_def)
  next
    case 2
    then show ?thesis using assms(2) n by (auto simp: parseSingleFilterValue_def validate_rules has_type_def split: if_splits)
  next
    case 3
    then show ?thesis
      using assms(2) n by (auto simp: parseSingleFilterValue_def validate_rules has_type_def split: if_splits validation.splits)
  next
    case 4
    then have "tryToParseArray rt v = Inr w" using assms(2) n by (simp add: parseSingleFilterValue_def validate_rules)
    then have "is_js_array w" by (auto simp: parse_defs Let_def split: if_splits option.splits)
    then show ?thesis using 4 by (cases w) (simp_all add: has_type_def)
  next
    case 5
    then have "tryToParseObject rt v = Inr w" using assms(2) n by (simp add: parseSingleFilterValue_def validate_rules)
    then have "js_typeof w = ''object''" "\<not> is_js_array w"
      by (auto simp: parse_defs split: if_splits option.splits)
    then show ?thesis using 5 by (cases w) (simp_all add: has_type_def)
  next
    case 6
    then have "tryToParseDateTime rt v = Inr w" using assms(2) n by (simp add: parseSingleFilterValue_def validate_rules)
    then obtain r t where "w = JsDateTime r (Some t)" using parsed_date by blast
    then show ?thesis using 6 by (simp add: has_type_def)
  qed
qed


definition decided :: "(filter_error + bool) option \<Rightarrow> bool" where
  "decided r \<longleftrightarrow> (\<exists>b. r = Some (Inr b))"

lemma decided_Some [simp]: "decided (Some (Inr b))"
  by (simp add: decided_def)












section \<open>Form fields\<close>

text \<open>What the checks are to ensure of a field, which is an object.\<close>

definition good_option :: "js_value \<Rightarrow> bool" where
  "good_option v \<longleftrightarrow> (case v of JsObject r [(k, w)] \<Rightarrow> k = ''option'' \<and> is_js_string w | _ \<Rightarrow> False)"

definition good_entry :: "string \<times> js_value \<Rightarrow> bool" where
  "good_entry e \<longleftrightarrow> (case e of (k, v) \<Rightarrow> k \<in> set ALLOWED_FORM_FIELDS_KEYS \<and>
     (if k = ''fieldOptions''
      then (\<exists>r gs r' vs. v = JsObject r gs \<and> map_of gs ''values'' = Some (JsArray r' vs) \<and> list_all good_option vs)
      else js_typeof v \<in> {''string'', ''number'', ''boolean''}) \<and>
     (k = ''fieldType'' \<longrightarrow> (\<exists>s \<in> set ALLOWED_FIELD_TYPES. v = JsString s)))"

lemma form_option_good: "form_option index (i, v) = Inr u \<Longrightarrow> good_option v"
proof -
  have one: "length fs = 1 \<Longrightarrow> map_of fs k = Some w \<Longrightarrow> fs = [(k, w)]" for fs :: "(string \<times> js_value) list" and k w
    by (cases fs) (auto split: if_splits)
  assume "form_option index (i, v) = Inr u"
  then obtain r fs w where "v = JsObject r fs" "length fs = 1" "map_of fs ''option'' = Some w" "is_js_string w"
    by (auto simp: form_option_def Let_def split: js_value.splits if_splits option.splits)
  then show ?thesis using one [of fs "''option''" w] by (simp add: good_option_def)
qed

lemma form_options_loop: "rfold (\<lambda>e u. form_option index e) (enumerate n vs) () = Inr u \<Longrightarrow> list_all good_option vs"
  by (induction vs arbitrary: n) (auto simp: result_simps intro: form_option_good)

lemma form_options_good:
  assumes "form_options index v = Inr w"
  shows "\<exists>r gs r' vs. w = JsObject r gs \<and> map_of gs ''values'' = Some (JsArray r' vs) \<and> list_all good_option vs"
  using assms form_options_loop unfolding form_options_def Let_def
  by (cases v) (auto simp: result_simps split: if_splits option.splits js_value.splits)

lemma form_value_simple:
  "k \<noteq> ''fieldOptions'' \<Longrightarrow> js_typeof (form_value rt k v) \<in> {''string'', ''number'', ''boolean''}"
  by (cases v) (simp_all add: form_value_def)

lemma string_among: "(case v of JsString s \<Rightarrow> s \<in> set ss | _ \<Rightarrow> False) \<Longrightarrow> \<exists>s \<in> set ss. v = JsString s"
  by (cases v) simp_all

lemma form_field_key_good:
  assumes "form_field_key rt index k fs = Inr fs'"
  shows "\<exists>v. fs' = obj_put k v fs \<and> good_entry (k, v)"
proof (cases "k = ''fieldOptions''")
  case True
  then obtain v w where "form_options index v = Inr w" "fs' = obj_put k w fs" "k \<in> set ALLOWED_FORM_FIELDS_KEYS"
    using assms unfolding form_field_key_def Let_def by (auto simp: result_simps split: if_splits)
  then show ?thesis using True form_options_good by (auto simp: good_entry_def)
next
  case False
  let ?v = "form_value rt k (case map_of fs k of None \<Rightarrow> JsUndefined | Some w \<Rightarrow> w)"
  have put: "fs' = obj_put k ?v fs" "k \<in> set ALLOWED_FORM_FIELDS_KEYS"
    and kind: "k = ''fieldType'' \<longrightarrow> (case ?v of JsString s \<Rightarrow> s \<in> set ALLOWED_FIELD_TYPES | _ \<Rightarrow> False)"
    using assms False unfolding form_field_key_def Let_def by (simp_all split: if_splits)
  have "k = ''fieldType'' \<longrightarrow> (\<exists>s \<in> set ALLOWED_FIELD_TYPES. ?v = JsString s)"
    using kind string_among [where v = ?v and ss = ALLOWED_FIELD_TYPES] by blast
  then have "good_entry (k, ?v)"
    unfolding good_entry_def using False put(2) form_value_simple [OF False] by simp
  then show ?thesis using put(1) by blast
qed

lemma form_keys_good:
  assumes "rfold (form_field_key rt index) ks fs = Inr fs'" "distinct ks" "set ks \<subseteq> fst ` set fs" "distinct (keys fs)"
  shows "fst ` set fs' = fst ` set fs \<and> distinct (keys fs') \<and> (\<forall>k v. k \<in> set ks \<longrightarrow> map_of fs' k = Some v \<longrightarrow> good_entry (k, v)) \<and>
    (\<forall>k. k \<notin> set ks \<longrightarrow> map_of fs' k = map_of fs k)"
  using assms
proof (induction ks arbitrary: fs)
  case (Cons k ks)
  obtain fs1 where first: "form_field_key rt index k fs = Inr fs1" and rest: "rfold (form_field_key rt index) ks fs1 = Inr fs'"
    using Cons.prems(1) by (auto simp: result_simps)
  obtain v where v: "fs1 = obj_put k v fs" "good_entry (k, v)" using form_field_key_good [OF first] by blast
  have keys1: "fst ` set fs1 = fst ` set fs" using Cons.prems(3) unfolding v(1) jsobj.keys_put by auto
  have "distinct (keys fs1)" unfolding v(1) by (rule jsobj.distinct_put [OF Cons.prems(4)])
  then have IH: "fst ` set fs' = fst ` set fs1 \<and> distinct (keys fs') \<and>
      (\<forall>k v. k \<in> set ks \<longrightarrow> map_of fs' k = Some v \<longrightarrow> good_entry (k, v)) \<and> (\<forall>k. k \<notin> set ks \<longrightarrow> map_of fs' k = map_of fs1 k)"
    using Cons.prems(2,3) keys1 by (intro Cons.IH [OF rest]) auto
  have "map_of fs' k = Some v" using IH Cons.prems(2) v(1) by (simp add: jsobj.lookup_put)
  moreover have "map_of fs' j = map_of fs j" if "j \<notin> set (k # ks)" for j
    using IH that v(1) by (simp add: jsobj.lookup_put)
  ultimately show ?case using IH keys1 v(2) by auto
qed simp

text \<open>An element without keys, such as a number, is taken as it is.\<close>

definition keyless :: "js_value \<Rightarrow> bool" where
  "keyless v \<longleftrightarrow> (case v of JsObject r fs \<Rightarrow> False | JsUndefined \<Rightarrow> False | JsNull \<Rightarrow> False
     | JsString s \<Rightarrow> s = [] | JsArray r vs \<Rightarrow> vs = [] | _ \<Rightarrow> True)"

definition good_field :: "js_value \<Rightarrow> bool" where
  "good_field v \<longleftrightarrow> keyless v \<or> (\<exists>r fs. v = JsObject r fs \<and> list_all good_entry fs)"

lemma no_index_allowed: "form_field_key rt index ''0'' fs = Inr fs' \<Longrightarrow> False"
  using form_field_key_good [of rt index "''0''" fs fs'] by (auto simp: good_entry_def ALLOWED_FORM_FIELDS_KEYS_def)

lemma form_field_good:
  assumes "form_field rt (index, v) acc = Inr acc'" "\<forall>r fs. v = JsObject r fs \<longrightarrow> distinct (keys fs)"
  shows "\<exists>w. acc' = acc @ [w] \<and> good_field w"
proof (cases "\<exists>r fs. v = JsObject r fs")
  case True
  then obtain r fs where v: "v = JsObject r fs" by blast
  then obtain fs' where fs': "rfold (form_field_key rt index) (map fst fs) fs = Inr fs'" "acc' = acc @ [JsObject r fs']"
    using assms(1) by (auto simp: form_field_def result_simps)
  have dist: "distinct (keys fs)" using assms(2) v by blast
  have good: "fst ` set fs' = fst ` set fs" "distinct (keys fs')"
    "\<And>k w. k \<in> fst ` set fs \<Longrightarrow> map_of fs' k = Some w \<Longrightarrow> good_entry (k, w)"
    using form_keys_good [OF fs'(1) _ _ dist] dist by (simp_all add: keys_def)
  have "good_entry (k, w)" if "(k, w) \<in> set fs'" for k w
  proof (rule good(3))
    show "k \<in> fst ` set fs" using that good(1) by force
    show "map_of fs' k = Some w" using that good(2) by (simp add: keys_def)
  qed
  then show ?thesis using fs'(2) by (auto simp: good_field_def list_all_iff)
next
  case False
  then show ?thesis
    using assms(1) by (cases v) (auto simp: form_field_def good_field_def keyless_def result_simps split: if_splits
      dest: no_index_allowed)
qed

lemma form_fields_loop:
  assumes "rfold (form_field rt) (enumerate n vs) acc = Inr acc'" "\<forall>r fs. JsObject r fs \<in> set vs \<longrightarrow> distinct (keys fs)"
    and "list_all good_field acc"
  shows "list_all good_field acc'"
  using assms
proof (induction vs arbitrary: n acc)
  case (Cons v vs)
  obtain acc1 where first: "form_field rt (n, v) acc = Inr acc1" and rest: "rfold (form_field rt) (enumerate (Suc n) vs) acc1 = Inr acc'"
    using Cons.prems(1) by (auto simp: result_simps)
  have "\<exists>w. acc1 = acc @ [w] \<and> good_field w" using Cons.prems(2) by (intro form_field_good [OF first]) simp
  then have "list_all good_field acc1" using Cons.prems(3) by auto
  then show ?case using Cons.prems(2) by (intro Cons.IH [OF rest]) simp_all
qed simp

section \<open>Properties\<close>

text \<open>A runtime for the examples: numbers, dates and most JSON of strings are not read.\<close>

definition sample_runtime :: js_runtime where
  "sample_runtime = \<lparr>js_numeral = (\<lambda>s. JsNaN), js_display = (\<lambda>v. []), json_stringify = (\<lambda>v. None),
     json_parse = (\<lambda>s. if s = ''[]'' then Some (JsArray 1 [JsObject 2 [(''fieldLabel'', JsString ''<b>''),
       (''placeholder'', JsNull)]]) else None),
     parse_js_object = (\<lambda>s. None), fromJSDate = (\<lambda>v. (0, None)), fromISO = (\<lambda>s. (0, None)),
     fromHTTP = (\<lambda>s. (0, None)), fromRFC2822 = (\<lambda>s. (0, None)), fromSQL = (\<lambda>s. (0, None)),
     fromMillis = (\<lambda>n. (0, None)), date_parse = (\<lambda>s. JsNaN), locale_lower = toLowerCase,
     new_regexp = (\<lambda>p f. None), url_protocol = (\<lambda>s. None)\<rparr>"

definition sample_condition :: "string \<Rightarrow> string \<Rightarrow> js_value \<Rightarrow> js_value \<Rightarrow> FilterConditionValue" where
  "sample_condition type oper left right = \<lparr>fc_id = ''c'', fc_leftValue = left,
     fc_operator = \<lparr>fop_type = type, fop_operation = oper, fop_rightType = None, fop_singleValue = False\<rparr>,
     fc_rightValue = right\<rparr>"

definition sample_options :: FilterOptionsValue where
  "sample_options = \<lparr>fo_caseSensitive = False, fo_leftValue = [], fo_typeValidation = ''strict'', fo_version = Some 2\<rparr>"

definition plain_metadata :: FilterConditionMetadata where
  "plain_metadata = \<lparr>fm_index = None, fm_unresolvedExpressions = False, fm_itemIndex = None, fm_inline = False\<rparr>"

text \<open>
  C31: replacing the operation of every condition by the other one of its pair, in either direction, and
  the combinator by the other one negates a filter, and leaves its errors as they are: the first condition
  that fails fails in both. The pairs are the positive and negative operations of a type; the orders of
  numbers, dates and lengths and the equality of dates count as pairs only where the two values can be
  compared, as a missing date is neither equal nor unequal to one (Lemma \<open>missing_date_not_complementary\<close>).
\<close>
theorem filter_de_morgan:
  assumes "list_all2 (opposite_condition rt (fv_options f)) (fv_conditions f) conditions"
  shows "executeFilter rt (f\<lparr>fv_conditions := conditions, fv_combinator := other_combinator (fv_combinator f)\<rparr>) itemIndex =
    negate_result (executeFilter rt f itemIndex)"
  using passes_negated [OF assms, of "\<lambda>(index, condition). executeFilterCondition rt condition (fv_options f)
      \<lparr>fm_index = Some index, fm_unresolvedExpressions = False, fm_itemIndex = itemIndex, fm_inline = False\<rparr>" 0]
  by (cases "fv_combinator f") (simp_all add: executeFilter_def Let_def condition_negated)

theorem filter_de_morgan_witness:
  "executeFilter sample_runtime \<lparr>fv_options = sample_options,
      fv_conditions = [sample_condition ''string'' ''notEquals'' (JsString ''A'') (JsString ''a'')], fv_combinator = FilterOr\<rparr> None
    = Inr False"
proof -
  let ?c = "sample_condition ''string'' ''equals'' (JsString ''A'') (JsString ''a'')"
  let ?d = "sample_condition ''string'' ''notEquals'' (JsString ''A'') (JsString ''a'')"
  let ?f = "\<lparr>fv_options = sample_options, fv_conditions = [?c], fv_combinator = FilterAnd\<rparr>"
  have "opposite_condition sample_runtime sample_options ?c ?d"
    by (auto simp: opposite_condition_def in_pairs_def sample_condition_def opposites_def)
  then have "list_all2 (opposite_condition sample_runtime (fv_options ?f)) (fv_conditions ?f) [?d]" by simp
  from filter_de_morgan [OF this, of None]
  have "executeFilter sample_runtime (?f\<lparr>fv_conditions := [?d], fv_combinator := FilterOr\<rparr>) None =
    negate_result (executeFilter sample_runtime ?f None)" by simp
  moreover have "executeFilter sample_runtime ?f None = Inr True" by code_simp
  ultimately show ?thesis by simp
qed



text \<open>
  C33: converting is stable: a value that was converted to a type of filters has the type, and is
  converted to itself at every version and strictness.
\<close>
theorem conversion_stable:
  assumes "T \<in> set operator_types" "parseSingleFilterValue rt v T strict version = Valid w"
  shows "has_type T w \<and> parseSingleFilterValue rt w T strict' version' = Valid w"
  using parsed_has_type [OF assms] parse_typed [OF _ assms(1)] by blast

theorem conversion_stable_witness:
  "parseSingleFilterValue sample_runtime (JsBool False) ''boolean'' True 1 = Valid (JsBool False)"
proof -
  have "parseSingleFilterValue sample_runtime (JsNumber (JsFinite 0)) ''boolean'' False 2 = Valid (JsBool False)"
    by code_simp
  then show ?thesis
    using conversion_stable [of "''boolean''" sample_runtime _ False 2 "JsBool False" True 1] by (simp add: operator_types_def)
qed

text \<open>
  Validating a filter parameter never reports anything: the errors of the conditions are returned
  and not thrown, and only thrown ones are collected.
\<close>
theorem filter_validation_silent:
  "validateFilterParameter rt name value = Inr []"
proof -
  have returns: "\<exists>r. parseFilterConditionValues rt c options m = Inr r" for c options m
    unfolding parseFilterConditionValues_def Let_def by blast
  have "collect_issues rt name options cs issues = Inr issues" for options cs issues
  proof (induction cs)
    case (Cons e cs)
    obtain i c where e: "e = (i, c)" by (cases e)
    obtain r where "parseFilterConditionValues rt c options
        \<lparr>fm_index = Some i, fm_unresolvedExpressions = True, fm_itemIndex = None, fm_inline = True\<rparr> = Inr r"
      using returns by blast
    then show ?case using Cons.IH by (simp add: e)
  qed simp
  then show ?thesis by (simp add: validateFilterParameter_def)
qed

text \<open>
  C34: the form fields that are accepted have only the allowed keys, simple values, a known type and
  options that are named by strings, if the parser of objects gives each key once; elements that are
  no objects and have no keys pass unchecked.
\<close>
theorem form_fields_typed:
  assumes "tryToParseJsonToFormFields rt v = Inr formFields"
    and "\<forall>s r vs. jsonParse_object rt s = Some (JsArray r vs) \<longrightarrow> (\<forall>r fs. JsObject r fs \<in> set vs \<longrightarrow> distinct (keys fs))"
  shows "list_all good_field formFields"
proof -
  obtain r vs where parsed: "jsonParse_object rt (js_string rt v) = Some (JsArray r vs)"
    and loop: "rfold (form_field rt) (enumerate 0 vs) [] = Inr formFields"
    using assms(1) unfolding tryToParseJsonToFormFields_def Let_def
    by (auto split: option.splits js_value.splits sum.splits js_error.splits)
  have "\<forall>r fs. JsObject r fs \<in> set vs \<longrightarrow> distinct (keys fs)" using assms(2) parsed by blast
  from form_fields_loop [OF loop this] show ?thesis by simp
qed

theorem form_fields_typed_witness:
  "list_all good_field [JsObject 2 [(''fieldLabel'', JsString ''&lt;b&gt;''), (''placeholder'', JsString ''null'')]]"
proof (rule form_fields_typed)
  show "tryToParseJsonToFormFields sample_runtime (JsString ''[]'') =
      Inr [JsObject 2 [(''fieldLabel'', JsString ''&lt;b&gt;''), (''placeholder'', JsString ''null'')]]"
    by code_simp
  show "\<forall>s r vs. jsonParse_object sample_runtime s = Some (JsArray r vs) \<longrightarrow>
      (\<forall>r fs. JsObject r fs \<in> set vs \<longrightarrow> distinct (keys fs))"
    by (auto simp: jsonParse_object_def sample_runtime_def keys_def split: if_splits)
qed

section \<open>Smaller observations\<close>

text \<open>A missing date is neither equal nor unequal to another one.\<close>

lemma missing_date_not_complementary:
  "executeFilterCondition sample_runtime (sample_condition ''dateTime'' ''equals'' JsNull JsNull) sample_options plain_metadata = Inr False"
  "executeFilterCondition sample_runtime (sample_condition ''dateTime'' ''notEquals'' JsNull JsNull) sample_options plain_metadata = Inr False"
  by code_simp+

text \<open>A number with an operation of dates falls through to them, and fails.\<close>

lemma number_after_fails:
  "executeFilterCondition sample_runtime (sample_condition ''number'' ''after'' (JsNumber (JsFinite 2)) (JsNumber (JsFinite 1)))
    sample_options plain_metadata = Inl FilterTypeError"
  by code_simp

text \<open>What is not a string is made one and not escaped, so its tags stay.\<close>

lemma tags_kept_of_arrays:
  "js_display rt (JsArray 0 [JsString ''<b>'']) = ''<b>'' \<Longrightarrow>
    form_value rt ''fieldLabel'' (JsArray 0 [JsString ''<b>'']) = JsString ''<b>''"
  by (simp add: form_value_def)

end
