(* ===== verification/Reference_Renaming.thy ===== *)
theory Reference_Renaming
  imports Field_Types
begin

text \<open>
  The renaming of references to nodes in expressions: \<open>applyAccessPatterns\<close> of
  \<open>packages/workflow/src/node-reference-parser-utils.ts\<close>. A global replacement goes through the text
  from the left; the regular expressions are matchers of theory \<open>Field_Types\<close>, of which the first way
  to match counts.
\<close>

section \<open>Names\<close>

definition hasDotNotationBannedChar :: "string \<Rightarrow> bool" where
  "hasDotNotationBannedChar nodeName \<longleftrightarrow>
     (case nodeName of [] \<Rightarrow> False | c # cs \<Rightarrow> is_digit c) \<or>
     list_ex (\<lambda>c. c \<in> set ('' `!@#$%^&*()_+-=[]{};:|,.<>?~'' @ [CHR 0x5C, CHR 0x27, CHR 0x22])) nodeName"

text \<open>
  The pattern of a name as it stands in an expression: backslashes are doubled, and quotes may have
  one. The text a name is written as escapes all three; its doubled dollars are read back as one by the
  replacement.
\<close>

definition is_quote :: "char \<Rightarrow> bool" where
  "is_quote c \<longleftrightarrow> c = CHR 0x22 \<or> c = CHR 0x27"

definition name_char :: "char \<Rightarrow> matcher list" where
  "name_char c =
     (if c = CHR 0x5C then [this_char c, this_char c]
      else if is_quote c then [optional (this_char CHR 0x5C), this_char c]
      else [this_char c])"

definition prepareOldNodeName :: "string \<Rightarrow> matcher" where
  "prepareOldNodeName nodeName = in_sequence (concat (map name_char nodeName))"

definition prepareNewNodeName :: "string \<Rightarrow> string" where
  "prepareNewNodeName nodeName =
     concat (map (\<lambda>c. if c = CHR 0x5C \<or> is_quote c then [CHR 0x5C, c] else [c]) nodeName)"

definition literal :: "string \<Rightarrow> matcher" where
  "literal s = in_sequence (map this_char s)"

section \<open>Replacement\<close>

text \<open>
  One match at the start of a text: the text that replaces it and the rest. The groups around a name
  are the first \<open>before\<close> and the last \<open>after\<close> characters of the match.
\<close>

type_synonym rewriter = "string \<Rightarrow> (string \<times> string) option"

definition rename_between :: "nat \<Rightarrow> nat \<Rightarrow> matcher \<Rightarrow> string \<Rightarrow> rewriter" where
  "rename_between before after m newName s =
     (case m s of
        [] \<Rightarrow> None
      | rest # others \<Rightarrow>
          (let matched = take (length s - length rest) s
           in Some (take before matched @ newName @ drop (length matched - after) matched, rest)))"

function replace_all :: "rewriter \<Rightarrow> string \<Rightarrow> string" where
  "replace_all f [] = []"
| "replace_all f (c # cs) =
     (case f (c # cs) of
        None \<Rightarrow> c # replace_all f cs
      | Some (out, rest) \<Rightarrow>
          if length rest < length (c # cs) then out @ replace_all f rest else c # replace_all f cs)"
  by pat_completeness auto
termination by (relation "measure (length \<circ> snd)") auto

definition quote_char :: matcher where
  "quote_char = one_of is_quote"

definition dollar_pattern :: "matcher \<Rightarrow> matcher" where
  "dollar_pattern name = in_sequence [literal ''$('', quote_char, name, quote_char, literal '')'']"

definition node_bracket_pattern :: "matcher \<Rightarrow> matcher" where
  "node_bracket_pattern name = in_sequence [literal ''$node['', quote_char, name, quote_char, literal '']'']"

definition items_pattern :: "matcher \<Rightarrow> matcher" where
  "items_pattern name = in_sequence [literal ''$items('', quote_char, name, quote_char,
     one_of (\<lambda>c. c = CHR '','' \<or> c = CHR '')'')]"

text \<open>The group behind the name of \<open>$node.\<close> is a dot, if the text after the name has one.\<close>

definition rename_node_dot :: "matcher \<Rightarrow> string \<Rightarrow> rewriter" where
  "rename_node_dot name newName s =
     (case in_sequence [literal ''$node.'', name] s of
        [] \<Rightarrow> None
      | rest # others \<Rightarrow> Some (''$node.'' @ newName @ (if starts_with ''.'' rest then ''.'' else []),
          if starts_with ''.'' rest then drop 1 rest else rest))"

text \<open>
  The callback of \<open>$node.\<close> puts names that need it in brackets: any character, the new name, and a
  blank or a dot.
\<close>

definition bracket_name :: "string \<Rightarrow> string \<Rightarrow> rewriter" where
  "bracket_name newName escapedNewName s =
     (case in_sequence [one_of (\<lambda>c. c \<noteq> CHR 0x0A \<and> c \<noteq> CHR 0x0D), literal newName, one_of (\<lambda>c. c = CHR '' '' \<or> c = CHR ''.'')] s of
        [] \<Rightarrow> None
      | rest # others \<Rightarrow>
          Some (''['' @ double_quoted escapedNewName @ '']'' @ drop (Suc (length newName)) (take (length s - length rest) s), rest))"

definition apply_pattern :: "string \<Rightarrow> (string \<Rightarrow> string) \<Rightarrow> string \<Rightarrow> string" where
  "apply_pattern checkPattern f expression = (if contains_text checkPattern expression then f expression else expression)"

definition applyAccessPatterns :: "string \<Rightarrow> string \<Rightarrow> string \<Rightarrow> string" where
  "applyAccessPatterns expression previousName newName =
     (let checkPatterns = [''$('', ''$node['', ''$node.'', ''$items(''];
          noMatch = \<not> list_ex (\<lambda>p. contains_text p expression) checkPatterns;
          old = prepareOldNodeName previousName;
          new = prepareNewNodeName newName
      in if noMatch then expression
         else apply_pattern ''$items('' (replace_all (rename_between 8 2 (items_pattern old) new))
          (apply_pattern ''$node.'' (\<lambda>e.
              let renamed = replace_all (rename_node_dot old new) e
              in if hasDotNotationBannedChar newName then replace_all (bracket_name newName new) renamed else renamed)
          (apply_pattern ''$node['' (replace_all (rename_between 7 2 (node_bracket_pattern old) new))
          (apply_pattern ''$('' (replace_all (rename_between 3 2 (dollar_pattern old) new)) expression))))"

end
