(* ===== verification/Workflow_Rename.thy ===== *)
theory Workflow_Rename
  imports Workflow_Model Reference_Renaming
begin

text \<open>
  The renaming of nodes: \<open>renameNode\<close> and \<open>renameNodeInParameterValue\<close> of
  \<open>packages/workflow/src/workflow.ts\<close> and \<open>renameFormFields\<close> of
  \<open>node-parameters/rename-node-utils.ts\<close>. The expressions in the parameters are rewritten by
  \<open>applyAccessPatterns\<close> of theory \<open>Reference_Renaming\<close>.
\<close>

section \<open>Parameters\<close>

text \<open>
  Values below an array are renamed without the flag for renamable content, and \<open>null\<close> is an object
  without properties.
\<close>

fun renameNodeInParameterValue :: "string \<Rightarrow> string \<Rightarrow> bool \<Rightarrow> json \<Rightarrow> json" where
  "renameNodeInParameterValue currentName newName hasRenamableContent (JStr s) =
     JStr (if starts_with ''='' s \<or> hasRenamableContent then applyAccessPatterns s currentName newName else s)"
| "renameNodeInParameterValue currentName newName hasRenamableContent (JArr vs) =
     JArr (map (renameNodeInParameterValue currentName newName False) vs)"
| "renameNodeInParameterValue currentName newName hasRenamableContent (JObj fs) =
     JObj (map (\<lambda>(k, v). (k, renameNodeInParameterValue currentName newName hasRenamableContent v)) fs)"
| "renameNodeInParameterValue currentName newName hasRenamableContent JNull = JObj []"
| "renameNodeInParameterValue currentName newName hasRenamableContent v = v"

definition NODES_WITH_RENAMABLE_CONTENT :: "string list" where
  "NODES_WITH_RENAMABLE_CONTENT = [''n8n-nodes-base.code'', ''n8n-nodes-base.function'',
     ''n8n-nodes-base.functionItem'', ''n8n-nodes-base.aiTransform'']"

definition NODES_WITH_RENAMEABLE_TOPLEVEL_HTML_CONTENT :: "string list" where
  "NODES_WITH_RENAMEABLE_TOPLEVEL_HTML_CONTENT = [''n8n-nodes-base.mailgun'', ''n8n-nodes-base.html'']"

definition NODES_WITH_RENAMABLE_FORM_HTML_CONTENT :: "string list" where
  "NODES_WITH_RENAMABLE_FORM_HTML_CONTENT = [''n8n-nodes-base.form'']"

text \<open>A property that is missing is assigned \<open>undefined\<close>, which reads like a missing one.\<close>

definition rename_property :: "(json \<Rightarrow> json) \<Rightarrow> string \<Rightarrow> (string \<times> json) list \<Rightarrow> (string \<times> json) list" where
  "rename_property renameValue key ps =
     (case map_of ps key of None \<Rightarrow> ps | Some v \<Rightarrow> obj_put key (renameValue v) ps)"

definition rename_form_field :: "(json \<Rightarrow> json) \<Rightarrow> json \<Rightarrow> json" where
  "rename_form_field renameField formFieldValue =
     (case formFieldValue of
        JObj fs \<Rightarrow> if map_of fs ''fieldType'' = Some (JStr ''html'') then JObj (rename_property renameField ''html'' fs)
          else formFieldValue
      | _ \<Rightarrow> formFieldValue)"

definition renameFormFields :: "(json \<Rightarrow> json) \<Rightarrow> (string \<times> json) list \<Rightarrow> (string \<times> json) list" where
  "renameFormFields renameField ps =
     (case map_of ps ''formFields'' of
        Some (JObj formFields) \<Rightarrow>
          (case map_of formFields ''values'' of
             Some (JArr vs) \<Rightarrow>
               obj_put ''formFields'' (JObj (obj_put ''values'' (JArr (map (rename_form_field renameField) vs)) formFields)) ps
           | _ \<Rightarrow> ps)
      | _ \<Rightarrow> ps)"

definition rename_in_node :: "string \<Rightarrow> string \<Rightarrow> INode \<Rightarrow> INode" where
  "rename_in_node currentName newName node =
     (let renameContent = renameNodeInParameterValue currentName newName True;
          renamed = map (\<lambda>(k, v). (k, renameNodeInParameterValue currentName newName False v)) (parameters node);
          code = (if node_type node \<in> set NODES_WITH_RENAMABLE_CONTENT
            then rename_property renameContent ''jsCode'' renamed else renamed);
          html = (if node_type node \<in> set NODES_WITH_RENAMEABLE_TOPLEVEL_HTML_CONTENT
            then rename_property renameContent ''html'' code else code);
          form = (if node_type node \<in> set NODES_WITH_RENAMABLE_FORM_HTML_CONTENT
            then renameFormFields renameContent html else html)
      in node\<lparr>parameters := form\<rparr>)"

section \<open>Nodes and connections\<close>

definition restrictedKeys :: "string list" where
  "restrictedKeys = [''hasOwnProperty'', ''isPrototypeOf'', ''propertyIsEnumerable'', ''toLocaleString'', ''toString'',
     ''valueOf'', ''constructor'', ''prototype'', ''__proto__'', ''__defineGetter__'', ''__defineSetter__'',
     ''__lookupGetter__'', ''__lookupSetter__'']"

text \<open>An object files a value under a new name and then loses the old one.\<close>

definition move_key :: "string \<Rightarrow> string \<Rightarrow> (string \<times> 'v) list \<Rightarrow> (string \<times> 'v) list" where
  "move_key currentName newName m =
     (case map_of m currentName of None \<Rightarrow> m | Some v \<Rightarrow> map_delete currentName (obj_put newName v m))"

definition rename_target :: "string \<Rightarrow> string \<Rightarrow> IConnection \<Rightarrow> IConnection" where
  "rename_target currentName newName c = (if conn_node c = currentName then c\<lparr>conn_node := newName\<rparr> else c)"

definition rename_targets :: "string \<Rightarrow> string \<Rightarrow> IConnections \<Rightarrow> IConnections" where
  "rename_targets currentName newName C =
     map (\<lambda>(sourceNode, obj). (sourceNode, map (\<lambda>(t, xs).
       (t, map (map_option (map (rename_target currentName newName))) xs)) obj)) C"

definition renameNode :: "string \<Rightarrow> string \<Rightarrow> heap \<Rightarrow> Workflow \<Rightarrow> (heap \<times> Workflow) result" where
  "renameNode currentName newName h w =
     (if toLowerCase newName \<in> set (map toLowerCase restrictedKeys)
      then Inl (UserError (''Node name '' @ double_quoted newName @ '' is a restricted name.''))
      else
        let named = (case getNode w currentName of None \<Rightarrow> h | Some r \<Rightarrow> h(r := (h r)\<lparr>node_name := newName\<rparr>));
            nodes = move_key currentName newName (wf_nodes w);
            updated = fold (\<lambda>r h. h(r := rename_in_node currentName newName (h r))) (vals nodes) named;
            connections = rename_targets currentName newName (move_key currentName newName (connectionsBySourceNode w))
        in Inr (updated, w\<lparr>wf_nodes := nodes, connectionsBySourceNode := connections\<rparr>))"

end
