(* ===== verification/Rename_Text.thy ===== *)
theory Rename_Text
  imports Reference_Renaming
begin

text \<open>
  What the renaming of references does to a text of plain stretches and references that are written
  the way the editor writes them.
\<close>

section \<open>Texts with references\<close>

datatype reference_form = DollarCall | NodeBracket | ItemsCall | ItemsCallArgs

datatype segment = Plain string | Reference reference_form char string

fun open_text :: "reference_form \<Rightarrow> string" where
  "open_text DollarCall = ''$(''"
| "open_text NodeBracket = ''$node[''"
| "open_text ItemsCall = ''$items(''"
| "open_text ItemsCallArgs = ''$items(''"

fun close_text :: "reference_form \<Rightarrow> string" where
  "close_text DollarCall = '')''"
| "close_text NodeBracket = '']''"
| "close_text ItemsCall = '')''"
| "close_text ItemsCallArgs = '',''"

fun render :: "segment \<Rightarrow> string" where
  "render (Plain s) = s"
| "render (Reference k q n) = open_text k @ [q] @ prepareNewNodeName n @ [q] @ close_text k"

definition render_all :: "segment list \<Rightarrow> string" where
  "render_all segs = concat (map render segs)"

fun plain_segment :: "segment \<Rightarrow> bool" where
  "plain_segment (Plain s) = (CHR ''$'' \<notin> set s)"
| "plain_segment (Reference k q n) = (is_quote q \<and> CHR ''$'' \<notin> set n)"

fun rename_segment :: "(reference_form \<Rightarrow> bool) \<Rightarrow> string \<Rightarrow> string \<Rightarrow> segment \<Rightarrow> segment" where
  "rename_segment P old new (Plain s) = Plain s"
| "rename_segment P old new (Reference k q n) = Reference k q (if P k \<and> n = old then new else n)"

section \<open>Matching a reference\<close>

lemma starts_with_iff: "starts_with p s \<longleftrightarrow> (\<exists>t. s = p @ t)"
  by (metis append_eq_conv_conj append_take_drop_id starts_with_def)

lemma literal_match: "literal p s = (if starts_with p s then [drop (length p) s] else [])"
  unfolding literal_def
proof (induction p arbitrary: s)
  case (Cons c p)
  then show ?case by (cases s) (auto simp: starts_with_def then_match_def one_of_def)
qed (simp add: starts_with_def)

lemma literal_append [simp]: "literal p (p @ s) = [s]"
  by (simp add: literal_match starts_with_def)

lemma literal_none: "\<nexists>t. s = p @ t \<Longrightarrow> literal p s = []"
  by (simp add: literal_match starts_with_iff)

abbreviation written :: "string \<Rightarrow> string" where
  "written \<equiv> prepareNewNodeName"

lemma written_simps [simp]:
  "written [] = []"
  "written (c # n) = (if c = CHR 0x5C \<or> is_quote c then [CHR 0x5C, c] else [c]) @ written n"
  by (simp_all add: prepareNewNodeName_def)

lemma not_quotes [simp]: "\<not> is_quote CHR 0x5C" "\<not> is_quote CHR ''$''"
  by (simp_all add: is_quote_def)

lemma old_name_literal: "\<not> list_ex is_quote old \<Longrightarrow> prepareOldNodeName old = literal (written old)"
proof -
  assume "\<not> list_ex is_quote old"
  then have "concat (map name_char old) = map (\<lambda>c. one_of (\<lambda>d. d = c)) (written old)"
    by (induction old) (auto simp: name_char_def)
  then show ?thesis by (simp add: prepareOldNodeName_def literal_def)
qed

text \<open>A name without quotes that is read where another one is written, up to a quote, is that name.\<close>

lemma written_unique:
  "written n @ q # r = written old @ q' # r' \<Longrightarrow> is_quote q \<Longrightarrow> is_quote q' \<Longrightarrow> \<not> list_ex is_quote old \<Longrightarrow>
    n = old \<and> r = r'"
proof (induction old arbitrary: n)
  case Nil
  then show ?case by (cases n) (auto split: if_splits)
next
  case (Cons c old)
  then show ?case by (cases n) (auto split: if_splits)
qed

definition reference_pattern :: "string \<Rightarrow> string \<Rightarrow> matcher \<Rightarrow> matcher" where
  "reference_pattern p w m = in_sequence [literal p, quote_char, literal w, quote_char, m]"

lemma concat_rests [simp]: "concat (map (in_sequence []) xs) = xs"
  by (induction xs) simp_all

lemma reference_match: "is_quote q \<Longrightarrow> is_quote q' \<Longrightarrow> reference_pattern p w m (p @ q # w @ q' # s) = m s"
  by (simp add: reference_pattern_def then_match_def quote_char_def one_of_def)

lemma reference_none:
  assumes "\<nexists>q q' t. s = p @ q # w @ q' # t \<and> is_quote q \<and> is_quote q'"
  shows "reference_pattern p w m s = []"
proof (cases "\<exists>q t. s = p @ q # w @ t \<and> is_quote q")
  case True
  then obtain q t where s: "s = p @ q # w @ t" "is_quote q" by blast
  then have "\<not> (\<exists>q' u. t = q' # u \<and> is_quote q')" using assms by blast
  then have "quote_char t = []" by (cases t) (auto simp: quote_char_def one_of_def)
  then show ?thesis using s by (simp add: reference_pattern_def then_match_def quote_char_def one_of_def)
next
  case False
  show ?thesis
  proof (cases "\<exists>t. s = p @ t")
    case True
    then obtain t where s: "s = p @ t" by blast
    show ?thesis
    proof (cases "\<exists>q u. t = q # u \<and> is_quote q")
      case True
      then obtain q u where t: "t = q # u" "is_quote q" by blast
      then have "literal w u = []" using False s by (intro literal_none) auto
      then show ?thesis using s t by (simp add: reference_pattern_def then_match_def quote_char_def one_of_def)
    next
      case no: False
      then have "quote_char t = []" by (cases t) (auto simp: quote_char_def one_of_def)
      then show ?thesis using s by (simp add: reference_pattern_def then_match_def)
    qed
  next
    case no: False
    then have "literal p s = []" by (rule literal_none)
    then show ?thesis by (simp add: reference_pattern_def then_match_def)
  qed
qed

section \<open>Replacing references\<close>

text \<open>A rewriter that gives the references to the old node of some forms the new name, and nothing else.\<close>

definition renames_references :: "rewriter \<Rightarrow> (reference_form \<Rightarrow> bool) \<Rightarrow> string \<Rightarrow> string \<Rightarrow> bool" where
  "renames_references f P old new \<longleftrightarrow>
     (\<forall>c s. c \<noteq> CHR ''$'' \<longrightarrow> f (c # s) = None) \<and>
     (\<forall>k q n s. is_quote q \<longrightarrow> f (render (Reference k q n) @ s) =
        (if P k \<and> n = old then Some (render (Reference k q new), s) else None))"

lemma written_dollar: "CHR ''$'' \<notin> set n \<Longrightarrow> CHR ''$'' \<notin> set (written n)"
  by (induction n) auto

lemma reference_dollar:
  "plain_segment (Reference k q n) \<Longrightarrow> \<exists>t. render (Reference k q n) = CHR ''$'' # t \<and> CHR ''$'' \<notin> set t"
  by (cases k) (auto simp: written_dollar)

lemma replace_plain:
  assumes "renames_references f P old new" "CHR ''$'' \<notin> set p"
  shows "replace_all f (p @ s) = p @ replace_all f s"
  using assms(2)
proof (induction p)
  case (Cons c p)
  then have "c \<noteq> CHR ''$''" by auto
  then have "f (c # p @ s) = None" using assms(1) unfolding renames_references_def by blast
  then show ?case using Cons by simp
qed simp

lemma replace_segment:
  assumes f: "renames_references f P old new" and seg: "plain_segment seg"
  shows "replace_all f (render seg @ s) = render (rename_segment P old new seg) @ replace_all f s"
proof (cases seg)
  case (Plain p)
  then show ?thesis using replace_plain [OF f] seg by simp
next
  case (Reference k q n)
  obtain t where t: "render seg = CHR ''$'' # t" "CHR ''$'' \<notin> set t" using reference_dollar seg Reference by blast
  have "f (render seg @ s) = (if P k \<and> n = old then Some (render (Reference k q new), s) else None)"
    using f seg Reference by (simp add: renames_references_def del: render.simps)
  then show ?thesis using replace_plain [OF f t(2)] t(1) Reference
    by (simp del: render.simps)
qed

lemma replace_segments:
  "renames_references f P old new \<Longrightarrow> list_all plain_segment segs \<Longrightarrow>
    replace_all f (render_all segs) = render_all (map (rename_segment P old new) segs)"
proof (induction segs)
  case (Cons seg segs)
  then show ?case using replace_segment by (simp add: render_all_def)
qed (simp add: render_all_def)

lemma starts_open:
  "starts_with ''$('' (open_text k @ q # s) \<longleftrightarrow> k = DollarCall"
  "starts_with ''$node['' (open_text k @ q # s) \<longleftrightarrow> k = NodeBracket"
  "starts_with ''$node.'' (open_text k @ q # s) \<longleftrightarrow> False"
  "starts_with ''$items('' (open_text k @ q # s) \<longleftrightarrow> k = ItemsCall \<or> k = ItemsCallArgs"
  by (cases k; simp add: starts_with_def)+

text \<open>The three patterns with a name between quotes.\<close>

lemma pattern_renames:
  assumes m: "\<And>s. m s = reference_pattern p (written old) closer s"
    and old: "\<not> list_ex is_quote old"
    and p: "\<And>k. P k \<Longrightarrow> open_text k = p" "\<And>k q s. starts_with p (open_text k @ q # s) \<longleftrightarrow> P k"
    and close: "\<And>k s. P k \<Longrightarrow> closer (close_text k @ s) = [s]" "\<And>k. P k \<Longrightarrow> length (close_text k) = 1"
    and dollar: "\<exists>p'. p = CHR ''$'' # p'" and before: "before = Suc (length p)"
  shows "renames_references (rename_between before 2 m (written new)) P old new"
  unfolding renames_references_def
proof (intro conjI allI impI)
  show "rename_between before 2 m (written new) (c # s) = None" if "c \<noteq> CHR ''$''" for c s
  proof -
    have "m (c # s) = []" unfolding m by (rule reference_none) (use that dollar in auto)
    then show ?thesis by (simp add: rename_between_def)
  qed
next
  fix k q n s assume q: "is_quote q"
  let ?t = "render (Reference k q n) @ s"
  show "rename_between before 2 m (written new) ?t =
    (if P k \<and> n = old then Some (render (Reference k q new), s) else None)"
  proof (cases "P k \<and> n = old")
    case True
    then have "m ?t = [s]" using reference_match [OF q q, of p "written old" closer "close_text k @ s"] p(1) close(1)
      by (simp add: m)
    moreover obtain c where "close_text k = [c]" using True close(2) by (auto simp: length_Suc_conv)
    ultimately show ?thesis using True p(1) before by (simp add: rename_between_def Let_def numeral_3_eq_3)
  next
    case False
    have "m ?t = []" unfolding m
    proof (rule reference_none, rule notI)
      assume "\<exists>q' q'' u. ?t = p @ q' # written old @ q'' # u \<and> is_quote q' \<and> is_quote q''"
      then obtain q' q'' u where t: "?t = p @ q' # written old @ q'' # u" "is_quote q''" by blast
      then have "P k" using p(2) [of k q "written n @ q # close_text k @ s"] by (auto simp: starts_with_iff)
      then have "written n @ q # close_text k @ s = written old @ q'' # u" using t p(1) by auto
      then have "n = old" using written_unique q t(2) old by blast
      then show False using False \<open>P k\<close> by blast
    qed
    then show ?thesis using False by (simp add: rename_between_def)
  qed
qed

lemma literal_one: "literal [c] (c # s) = [s]"
  by (simp add: literal_match starts_with_def)

lemma close_one: "one_of Q (c # s) = (if Q c then [s] else [])"
  by (simp add: one_of_def)

lemma pattern_renames_all:
  assumes "\<not> list_ex is_quote old"
  shows "renames_references (rename_between 3 2 (dollar_pattern (prepareOldNodeName old)) (written new)) (\<lambda>k. k = DollarCall) old new"
    and "renames_references (rename_between 7 2 (node_bracket_pattern (prepareOldNodeName old)) (written new)) (\<lambda>k. k = NodeBracket) old new"
    and "renames_references (rename_between 8 2 (items_pattern (prepareOldNodeName old)) (written new))
      (\<lambda>k. k = ItemsCall \<or> k = ItemsCallArgs) old new"
  subgoal
    by (rule pattern_renames [where p = "''$(''" and closer = "literal '')''"])
      (use assms in \<open>auto simp: dollar_pattern_def reference_pattern_def old_name_literal literal_one starts_open\<close>)
  subgoal
    by (rule pattern_renames [where p = "''$node[''" and closer = "literal '']''"])
      (use assms in \<open>auto simp: node_bracket_pattern_def reference_pattern_def old_name_literal literal_one starts_open\<close>)
  subgoal
    by (rule pattern_renames [where p = "''$items(''" and closer = "one_of (\<lambda>c. c = CHR '','' \<or> c = CHR '')'')"])
      (use assms in \<open>auto simp: items_pattern_def reference_pattern_def old_name_literal close_one starts_open\<close>)
  done

section \<open>The checks before a replacement\<close>

lemma contains_plain: "CHR ''$'' \<notin> set p \<Longrightarrow> contains_text (CHR ''$'' # w) (p @ s) = contains_text (CHR ''$'' # w) s"
  by (induction p) (auto simp: starts_with_def)

lemma contains_none: "CHR ''$'' \<notin> set p \<Longrightarrow> \<not> contains_text (CHR ''$'' # w) p"
  by (induction p) (auto simp: starts_with_def)

text \<open>A text contains an opening exactly if one of its references has it.\<close>

lemma contains_segments:
  assumes "list_all plain_segment segs" "\<And>k q s. starts_with (CHR ''$'' # w) (open_text k @ q # s) \<longleftrightarrow> P k"
  shows "contains_text (CHR ''$'' # w) (render_all segs) \<longleftrightarrow> (\<exists>k q n. Reference k q n \<in> set segs \<and> P k)"
  using assms(1)
proof (induction segs)
  case Nil
  then show ?case by (simp add: render_all_def)
next
  case (Cons seg segs)
  show ?case
  proof (cases seg)
    case (Plain p)
    then show ?thesis using Cons by (simp add: render_all_def contains_plain)
  next
    case (Reference k q n)
    obtain t where t: "render seg = CHR ''$'' # t" "CHR ''$'' \<notin> set t" using reference_dollar Cons.prems Reference by fastforce
    have "starts_with (CHR ''$'' # w) (render seg @ render_all segs) \<longleftrightarrow> P k"
      using assms(2) [of k q] Reference by simp
    then have "contains_text (CHR ''$'' # w) (render seg @ render_all segs) \<longleftrightarrow> P k \<or> contains_text (CHR ''$'' # w) (render_all segs)"
      unfolding t(1) using contains_plain [OF t(2)] by simp
    then show ?thesis using Cons Reference by (auto simp: render_all_def)
  qed
qed

lemma rename_nothing: "(\<And>k q n. Reference k q n \<in> set segs \<Longrightarrow> \<not> P k) \<Longrightarrow> map (rename_segment P old new) segs = segs"
proof (induction segs)
  case (Cons seg segs)
  then show ?case by (cases seg) auto
qed simp

lemma apply_segments:
  assumes "renames_references f P old new" "list_all plain_segment segs"
    and "\<And>k q s. starts_with (CHR ''$'' # w) (open_text k @ q # s) \<longleftrightarrow> P k"
  shows "apply_pattern (CHR ''$'' # w) (replace_all f) (render_all segs) = render_all (map (rename_segment P old new) segs)"
proof (cases "contains_text (CHR ''$'' # w) (render_all segs)")
  case True
  then show ?thesis using replace_segments assms(1,2) by (simp add: apply_pattern_def)
next
  case False
  then have "map (rename_segment P old new) segs = segs"
    using contains_segments [OF assms(2,3)] by (intro rename_nothing) blast
  then show ?thesis using False by (simp add: apply_pattern_def)
qed

lemma plain_renamed: "list_all plain_segment segs \<Longrightarrow> CHR ''$'' \<notin> set new \<Longrightarrow>
  list_all plain_segment (map (rename_segment P old new) segs)"
proof (induction segs)
  case (Cons seg segs)
  then show ?case by (cases seg) auto
qed simp

definition rename_all :: "string \<Rightarrow> string \<Rightarrow> segment \<Rightarrow> segment" where
  "rename_all old new = rename_segment (\<lambda>k. True) old new"

lemma rename_in_turn:
  "map (rename_segment (\<lambda>k. k = ItemsCall \<or> k = ItemsCallArgs) old new)
    (map (rename_segment (\<lambda>k. k = NodeBracket) old new) (map (rename_segment (\<lambda>k. k = DollarCall) old new) segs)) =
   map (rename_all old new) segs"
proof (induction segs)
  case (Cons seg segs)
  have "rename_segment (\<lambda>k. k = ItemsCall \<or> k = ItemsCallArgs) old new
    (rename_segment (\<lambda>k. k = NodeBracket) old new (rename_segment (\<lambda>k. k = DollarCall) old new seg)) = rename_all old new seg"
    by (cases seg; cases "case seg of Reference k q n \<Rightarrow> k | _ \<Rightarrow> DollarCall") (simp_all add: rename_all_def)
  then show ?case using Cons by simp
qed simp

lemma applied_in_order:
  "applyAccessPatterns e old new =
    apply_pattern ''$items('' (replace_all (rename_between 8 2 (items_pattern (prepareOldNodeName old)) (written new)))
      (apply_pattern ''$node.'' (\<lambda>e. let renamed = replace_all (rename_node_dot (prepareOldNodeName old) (written new)) e
          in if hasDotNotationBannedChar new then replace_all (bracket_name new (written new)) renamed else renamed)
      (apply_pattern ''$node['' (replace_all (rename_between 7 2 (node_bracket_pattern (prepareOldNodeName old)) (written new)))
      (apply_pattern ''$('' (replace_all (rename_between 3 2 (dollar_pattern (prepareOldNodeName old)) (written new))) e)))"
  by (auto simp: applyAccessPatterns_def Let_def apply_pattern_def)

lemma no_dot_reference: "list_all plain_segment segs \<Longrightarrow> apply_pattern ''$node.'' f (render_all segs) = render_all segs"
  using contains_segments [of segs "''node.''" "\<lambda>k. False"] by (simp add: apply_pattern_def starts_open)

end
