(* ===== verification/Rename_Properties.thy ===== *)
theory Rename_Properties
  imports Workflow_Rename Rename_Text
begin

text \<open>
  What renaming does: to a text of references, and to a workflow.
\<close>

section \<open>Keys and edges\<close>

definition renamed :: "string \<Rightarrow> string \<Rightarrow> string \<Rightarrow> string" where
  "renamed old new n = (if n = old then new else n)"

definition renamed_edge :: "string \<Rightarrow> string \<Rightarrow> edge \<Rightarrow> edge" where
  "renamed_edge old new e = (case e of (s, t, i, c) \<Rightarrow>
     (renamed old new s, t, i, c\<lparr>conn_node := renamed old new (conn_node c)\<rparr>))"

lemma rename_target_eq: "rename_target old new c = c\<lparr>conn_node := renamed old new (conn_node c)\<rparr>"
  by (cases c) (simp add: rename_target_def renamed_def)

lemma moved_lookup:
  "old \<noteq> new \<Longrightarrow> map_of m old \<noteq> None \<Longrightarrow>
    map_of (move_key old new m) n = (if n = new then map_of m old else if n = old then None else map_of m n)"
  by (auto simp: move_key_def map_delete_of jsobj.lookup_put)

lemma moved_distinct: "distinct (keys m) \<Longrightarrow> distinct (keys (move_key old new m))"
  by (auto simp: move_key_def map_delete_distinct jsobj.distinct_put split: option.split)

lemma moved_entries:
  assumes "distinct (keys m)" "new \<notin> fst ` set m"
  shows "set (move_key old new m) = (\<lambda>(n, v). (renamed old new n, v)) ` set m"
proof (cases "map_of m old")
  case None
  then have "old \<notin> fst ` set m" by (simp add: map_of_eq_None_iff)
  then show ?thesis using None by (force simp: move_key_def renamed_def)
next
  case (Some v)
  then have old: "(old, x) \<in> set m \<longleftrightarrow> x = v" for x
    using assms(1) by (metis keys_def map_of_eq_Some_iff option.inject)
  have ne: "old \<noteq> new" using assms(2) old by force
  let ?R = "{e \<in> set m. fst e \<noteq> old}"
  have "set m = insert (old, v) ?R"
  proof (rule set_eqI)
    show "e \<in> set m \<longleftrightarrow> e \<in> insert (old, v) ?R" for e using old by (cases e) auto
  qed
  then have "(\<lambda>(n, v). (renamed old new n, v)) ` set m = (\<lambda>(n, v). (renamed old new n, v)) ` insert (old, v) ?R"
    by (rule arg_cong)
  also have "\<dots> = insert (new, v) ((\<lambda>(n, v). (renamed old new n, v)) ` ?R)"
    unfolding image_insert by (simp add: renamed_def)
  also have "(\<lambda>(n, v). (renamed old new n, v)) ` ?R = id ` ?R"
    by (rule image_cong) (auto simp: renamed_def)
  finally have right: "(\<lambda>(n, v). (renamed old new n, v)) ` set m = insert (new, v) ?R" by simp
  have "{e \<in> set m. fst e \<noteq> new} = set m" using assms(2) by force
  then have "set (move_key old new m) = {e \<in> insert (new, v) (set m). fst e \<noteq> old}"
    using Some by (simp add: move_key_def map_delete_set jsobj.entries_put [OF assms(1)])
  also have "\<dots> = insert (new, v) ?R" using ne by auto
  finally show ?thesis using right by simp
qed

lemma moved_mset:
  assumes "distinct (keys m)" "new \<notin> fst ` set m"
  shows "mset (move_key old new m) = image_mset (\<lambda>(n, v). (renamed old new n, v)) (mset m)"
proof -
  have entries: "distinct xs" if "distinct (keys xs)" for xs :: "(string \<times> 'a) list"
    using that by (simp add: keys_def distinct_map)
  have "inj_on (\<lambda>(n, v). (renamed old new n, v)) (set m)"
    using assms(2) by (force simp: inj_on_def renamed_def split: if_splits)
  then have "distinct (map (\<lambda>(n, v). (renamed old new n, v)) m)"
    using entries [OF assms(1)] by (simp add: distinct_map)
  moreover have "set (move_key old new m) = set (map (\<lambda>(n, v). (renamed old new n, v)) m)"
    using moved_entries [OF assms] by simp
  ultimately have "mset (move_key old new m) = mset (map (\<lambda>(n, v). (renamed old new n, v)) m)"
    using set_eq_iff_mset_eq_distinct [OF entries [OF moved_distinct [OF assms(1)]]] by blast
  then show ?thesis by simp
qed

lemma obj_edges_targets:
  "obj_edges s (map (\<lambda>(t, xs). (t, map (map_option (map (rename_target old new))) xs)) obj) =
    map (\<lambda>(s, t, i, c). (s, t, i, rename_target old new c)) (obj_edges s obj)"
proof -
  have array: "array_edges s t n (map (map_option (map f)) xs) = map (\<lambda>(s, t, i, c). (s, t, i, f c)) (array_edges s t n xs)"
    for t n xs f
  proof (induction xs arbitrary: n)
    case (Cons g xs)
    then show ?case by (cases g) (simp_all add: array_edges_def group_list_def)
  qed (simp add: array_edges_def)
  show ?thesis by (induction obj) (auto simp: obj_edges_arrays array)
qed

lemma edges_targets:
  "edges_of (rename_targets old new C) = map (\<lambda>(s, t, i, c). (s, t, i, rename_target old new c)) (edges_of C)"
  by (induction C) (auto simp: edges_of_objs rename_targets_def obj_edges_targets)

lemma edges_mset: "mset (edges_of C) = (\<Sum>(s, obj) \<in># mset C. mset (obj_edges s obj))"
  by (induction C) (auto simp: edges_of_objs)

lemma edges_moved:
  assumes "distinct (keys C)" "new \<notin> fst ` set C"
  shows "mset (edges_of (move_key old new C)) = image_mset (\<lambda>(s, t, i, c). (renamed old new s, t, i, c)) (mset (edges_of C))"
proof -
  have *: "mset (obj_edges (renamed old new s) obj) =
      image_mset (\<lambda>(s, t, i, c). (renamed old new s, t, i, c)) (mset (obj_edges s obj))" for s obj
  proof -
    have "obj_edges (renamed old new s) obj = map (\<lambda>(s, t, i, c). (renamed old new s, t, i, c)) (obj_edges s obj)"
      by (auto simp: obj_edges_def map_concat comp_def case_prod_unfold)
    then show ?thesis by (simp only: mset_map)
  qed
  have "mset (edges_of (move_key old new C)) = (\<Sum>(s, obj) \<in># mset C. mset (obj_edges (renamed old new s) obj))"
    by (simp add: edges_mset moved_mset [OF assms] image_mset.compositionality comp_def case_prod_unfold del: mset_map)
  also have "\<dots> = image_mset (\<lambda>(s, t, i, c). (renamed old new s, t, i, c)) (mset (edges_of C))"
    unfolding edges_mset * by (induction C) auto
  finally show ?thesis .
qed

lemma edges_renamed:
  assumes "distinct (keys C)" "new \<notin> fst ` set C"
  shows "mset (edges_of (rename_targets old new (move_key old new C))) = image_mset (renamed_edge old new) (mset (edges_of C))"
proof -
  have "mset (edges_of (rename_targets old new (move_key old new C))) =
      image_mset (\<lambda>(s, t, i, c). (s, t, i, rename_target old new c)) (mset (edges_of (move_key old new C)))"
    by (simp add: edges_targets)
  also have "\<dots> = image_mset (renamed_edge old new) (mset (edges_of C))"
    unfolding edges_moved [OF assms] image_mset.compositionality
    by (rule image_mset_cong) (auto simp: renamed_edge_def rename_target_eq)
  finally show ?thesis .
qed

section \<open>Nodes\<close>

lemma rename_in_node_name [simp]: "node_name (rename_in_node old new n) = node_name n"
  by (simp add: rename_in_node_def Let_def)

lemma update_all:
  "distinct rs \<Longrightarrow> fold (\<lambda>r h. h(r := f (h r))) rs h = (\<lambda>x. if x \<in> set rs then f (h x) else h x)"
proof (induction rs arbitrary: h)
  case (Cons r rs)
  then show ?case by (auto simp: fun_eq_iff)
qed simp

lemma nodes_distinct:
  assumes "wf_workflow h w"
  shows "distinct (vals (wf_nodes w))"
proof -
  have "map (\<lambda>r. node_name (h r)) (vals (wf_nodes w)) = keys (wf_nodes w)"
    using wf_workflowD(2) [OF assms] by (auto simp: keys_def vals_def intro!: map_cong)
  then show ?thesis using wf_workflowD(1) [OF assms] by (metis distinct_map)
qed

lemma wf_conns_renamed:
  assumes "wf_conns C" "new \<notin> fst ` set C"
  shows "wf_conns (rename_targets old new (move_key old new C))"
proof -
  have C: "distinct (keys C)" "\<And>n obj. (n, obj) \<in> set C \<Longrightarrow> distinct (keys obj)"
    using assms(1) by (auto simp: wf_conns_iff simp del: keys_simps)
  have keys: "keys (rename_targets old new D) = keys D" for D
    by (auto simp: rename_targets_def keys_def)
  have "distinct (keys (map (\<lambda>(t, xs). (t, f xs)) obj))" if "distinct (keys obj)" 
    for obj :: INodeConnections and f :: "NodeInputConnections \<Rightarrow> NodeInputConnections"
    using that by (simp add: keys_def comp_def case_prod_unfold)
  then show ?thesis
    unfolding wf_conns_iff keys using moved_distinct [OF C(1)] C(2)
    by (auto simp: rename_targets_def moved_entries [OF C(1) assms(2)] simp del: keys_simps)
qed

lemma keys_renamed:
  assumes "distinct (keys C)" "new \<notin> fst ` set C"
  shows "set (keys (rename_targets old new (move_key old new C))) = renamed old new ` set (keys C)"
proof -
  have "keys (rename_targets old new D) = keys D" for D
    by (auto simp: rename_targets_def keys_def)
  then show ?thesis by (force simp: moved_entries [OF assms])
qed

text \<open>Giving one node the new name is the renaming of all nodes, as no other has the old name.\<close>

lemma rename_one_node:
  assumes "wf_workflow h w" "getNode w old = Some r"
  shows "(h(r := (h r)\<lparr>node_name := new\<rparr>)) x =
    (if x \<in> set (vals (wf_nodes w)) then (h x)\<lparr>node_name := renamed old new (node_name (h x))\<rparr> else h x)"
proof -
  note W = wf_workflowD [OF assms(1)]
  have name: "node_name (h r) = old" using getNode_name [OF assms] .
  have member: "r \<in> set (vals (wf_nodes w))" using assms(2) by (force simp: getNode_def dest: map_of_SomeD)
  have only: "x = r" if "x \<in> set (vals (wf_nodes w))" "node_name (h x) = old"
  proof -
    from that(1) obtain n where "(n, x) \<in> set (wf_nodes w)" by auto
    moreover from this have "n = old" using W(2) that(2) by blast
    ultimately show ?thesis using assms(2) W(1) by (simp add: getNode_def keys_def)
  qed
  show ?thesis
  proof (cases "x = r")
    case True
    then show ?thesis using name member by (simp add: renamed_def del: vals_simps)
  next
    case False
    then have "x \<in> set (vals (wf_nodes w)) \<Longrightarrow> node_name (h x) \<noteq> old" using only by blast
    then show ?thesis using False by (simp add: renamed_def del: vals_simps)
  qed
qed

lemma moved_nodes:
  assumes "wf_workflow h w" "new \<notin> fst ` set (wf_nodes w)"
  shows "set (vals (move_key old new (wf_nodes w))) = set (vals (wf_nodes w))"
    and "distinct (vals (move_key old new (wf_nodes w)))"
proof -
  note W = wf_workflowD [OF assms(1)]
  show "set (vals (move_key old new (wf_nodes w))) = set (vals (wf_nodes w))"
    by (force simp: moved_entries [OF W(1) assms(2)])
  have "mset (vals (move_key old new (wf_nodes w))) = mset (vals (wf_nodes w))"
    unfolding vals_def mset_map moved_mset [OF W(1) assms(2)] image_mset.compositionality
    by (rule image_mset_cong) auto
  then show "distinct (vals (move_key old new (wf_nodes w)))"
    using nodes_distinct [OF assms(1)] mset_eq_imp_distinct_iff by blast
qed

text \<open>
  C35: Renaming a node to a name that is free and not restricted files it under the new name, rewrites
  the parameters of every node of the workflow once, and relabels both ends of the connections; once the
  connections are set again the workflow is well-formed. The table of connections by destination is left
  as it was.
\<close>
theorem renameNode_consistent:
  assumes wf: "wf_workflow h w" and old: "getNode w old \<noteq> None" and new: "getNode w new = None"
    and free: "toLowerCase new \<notin> set (map toLowerCase restrictedKeys)"
  shows "\<exists>h' w'. renameNode old new h w = Inr (h', w') \<and>
    (\<forall>n. getNode w' n = (if n = new then getNode w old else if n = old then None else getNode w n)) \<and>
    h' = (\<lambda>r. if r \<in> set (vals (wf_nodes w))
      then rename_in_node old new ((h r)\<lparr>node_name := renamed old new (node_name (h r))\<rparr>) else h r) \<and>
    mset (edges_of (connectionsBySourceNode w')) = image_mset (renamed_edge old new) (mset (edges_of (connectionsBySourceNode w))) \<and>
    connectionsByDestinationNode w' = connectionsByDestinationNode w \<and>
    wf_workflow h' (setConnections (connectionsBySourceNode w') w')"
proof -
  note W = wf_workflowD [OF wf]
  have ne: "old \<noteq> new" using old new by auto
  have free_nodes: "new \<notin> fst ` set (wf_nodes w)" using new by (simp add: getNode_def map_of_eq_None_iff)
  have free_conns: "new \<notin> fst ` set (connectionsBySourceNode w)" using W(5) [of new] new by auto
  obtain r where r: "getNode w old = Some r" using old by blast
  let ?nodes = "move_key old new (wf_nodes w)"
  let ?C = "rename_targets old new (move_key old new (connectionsBySourceNode w))"
  let ?w = "w\<lparr>wf_nodes := ?nodes, connectionsBySourceNode := ?C\<rparr>"
  let ?h = "\<lambda>r. if r \<in> set (vals (wf_nodes w))
      then rename_in_node old new ((h r)\<lparr>node_name := renamed old new (node_name (h r))\<rparr>) else h r"
  note moved = moved_entries [OF W(1) free_nodes]
  have result: "renameNode old new h w = Inr (?h, ?w)"
    using free r moved_nodes [OF wf free_nodes] rename_one_node [OF wf r]
    by (simp add: renameNode_def Let_def update_all fun_eq_iff)
  have lookup: "getNode ?w n = (if n = new then getNode w old else if n = old then None else getNode w n)" for n
    using moved_lookup [OF ne, of "wf_nodes w" n] old by (simp add: getNode_def)
  have found: "getNode w n \<noteq> None \<Longrightarrow> getNode ?w (renamed old new n) \<noteq> None" for n
    using old new by (auto simp: lookup renamed_def)
  have edges: "mset (edges_of ?C) = image_mset (renamed_edge old new) (mset (edges_of (connectionsBySourceNode w)))"
    by (rule edges_renamed) (use W(3) free_conns in \<open>simp_all add: wf_conns_iff\<close>)
  then have edge_set: "set (edges_of ?C) = renamed_edge old new ` set (edges_of (connectionsBySourceNode w))"
    by (metis set_image_mset set_mset_mset)
  have names: "list_all (\<lambda>(n, r). n = node_name (?h r)) ?nodes"
    unfolding list_all_iff moved using W(2) by (force simp: renamed_def)
  have sources: "list_all (\<lambda>s. getNode ?w s \<noteq> None) (keys ?C)"
    unfolding list_all_iff using keys_renamed W(3,5) free_conns found by (auto simp: wf_conns_iff)
  have targets: "list_all (\<lambda>(s, t, i, c). getNode ?w (conn_node c) \<noteq> None) (edges_of ?C)"
    unfolding list_all_iff edge_set using W(6) found by (fastforce simp: renamed_edge_def)
  have "wf_workflow ?h (setConnections ?C ?w)"
    using moved_distinct [OF W(1)] names wf_conns_renamed [OF W(3) free_conns] sources targets
    by (simp add: wf_workflow_def setConnections_def getNode_def del: keys_simps)
  then show ?thesis using result lookup edges by auto
qed

definition renamed_node :: "string \<Rightarrow> INode" where
  "renamed_node n = \<lparr>node_id = n, node_name = n, node_type = ''t'', typeVersion = 1, disabled = None,
     parameters = [(''p'', JStr ''=x'')], rewireOutputLogTo = None\<rparr>"

definition renamed_heap :: heap where
  "renamed_heap r = renamed_node (if r = 0 then ''A'' else ''B'')"

definition renamed_workflow :: Workflow where
  "renamed_workflow = newWorkflow renamed_heap [0, 1] [(''A'', [(Main, [Some [mk_conn ''B'' Main 0]])])] None"

theorem renameNode_consistent_witness:
  "\<exists>h' w'. renameNode ''B'' ''C'' renamed_heap renamed_workflow = Inr (h', w') \<and> getNode w' ''C'' = Some 1 \<and>
    mset (edges_of (connectionsBySourceNode w')) = {#(''A'', Main, 0, mk_conn ''C'' Main 0)#}"
proof -
  have "wf_workflow renamed_heap renamed_workflow" "getNode renamed_workflow ''B'' = Some 1"
    "getNode renamed_workflow ''C'' = None" "toLowerCase ''C'' \<notin> set (map toLowerCase restrictedKeys)"
    "edges_of (connectionsBySourceNode renamed_workflow) = [(''A'', Main, 0, mk_conn ''B'' Main 0)]"
    by code_simp+
  then show ?thesis
    using renameNode_consistent [of renamed_heap renamed_workflow "''B''" "''C''"]
    by (auto simp: renamed_edge_def renamed_def mk_conn_def)
qed

section \<open>References\<close>

text \<open>
  C36: In a text of plain stretches and of references that are written with escaped names between quotes,
  renaming a node gives exactly the references to it the new name, in all four forms, if no dollar occurs
  elsewhere and the old name has no quotes.
\<close>
theorem references_renamed:
  assumes "list_all plain_segment segs" "\<not> list_ex is_quote old" "CHR ''$'' \<notin> set new"
  shows "applyAccessPatterns (render_all segs) old new = render_all (map (rename_all old new) segs)"
proof -
  let ?A = "map (rename_segment (\<lambda>k. k = DollarCall) old new) segs"
  let ?B = "map (rename_segment (\<lambda>k. k = NodeBracket) old new) ?A"
  have plain: "list_all plain_segment ?A" "list_all plain_segment ?B" using assms plain_renamed by blast+
  note apply_ref = apply_segments [OF pattern_renames_all(1) [OF assms(2)] assms(1)]
    apply_segments [OF pattern_renames_all(2) [OF assms(2)] plain(1)]
    apply_segments [OF pattern_renames_all(3) [OF assms(2)] plain(2)]
  show ?thesis
    unfolding applied_in_order rename_in_turn [symmetric]
    by (simp add: apply_ref starts_open no_dot_reference [OF plain(2)] del: map_map)
qed

theorem references_renamed_witness:
  "applyAccessPatterns (render_all [Plain ''={{ '', Reference DollarCall CHR 0x22 ''A.b'', Plain ''.first() + '',
       Reference NodeBracket CHR 0x27 ''A.c'', Plain '' }}'']) ''A.b'' ''It a'' =
     render_all [Plain ''={{ '', Reference DollarCall CHR 0x22 ''It a'', Plain ''.first() + '',
       Reference NodeBracket CHR 0x27 ''A.c'', Plain '' }}'']"
  using references_renamed [of "[Plain ''={{ '', Reference DollarCall CHR 0x22 ''A.b'', Plain ''.first() + '',
      Reference NodeBracket CHR 0x27 ''A.c'', Plain '' }}'']" "''A.b''" "''It a''"]
  by (simp add: is_quote_def rename_all_def)

section \<open>Smaller observations\<close>

text \<open>A node that is renamed to its own name is deleted, with its outgoing connections.\<close>

lemma same_name_deletes:
  "case renameNode ''A'' ''A'' renamed_heap renamed_workflow of
     Inl e \<Rightarrow> False
   | Inr (h', w') \<Rightarrow> getNode w' ''A'' = None \<and> connectionsBySourceNode w' = []"
  by code_simp

text \<open>A node that has the new name is replaced.\<close>

lemma taken_name_replaces:
  "case renameNode ''A'' ''B'' renamed_heap renamed_workflow of
     Inl e \<Rightarrow> False
   | Inr (h', w') \<Rightarrow> wf_nodes w' = [(''B'', 0)]"
  by code_simp

text \<open>The new name is put in brackets wherever it stands in the text, and the character before it is lost.\<close>

lemma brackets_anywhere:
  "applyAccessPatterns ''=The C d: $node.A.json'' ''A'' ''C d'' =
    ''=The C d: $node['' @ double_quoted ''C d'' @ ''].json''"
  "applyAccessPatterns ''=The C d is $node.A.json'' ''A'' ''C d'' =
    ''=The['' @ double_quoted ''C d'' @ ''] is $node['' @ double_quoted ''C d'' @ ''].json''"
  by code_simp+

text \<open>A \<open>null\<close> becomes an object, and content below an array is not renamed.\<close>

lemma null_becomes_object: "renameNodeInParameterValue old new c JNull = JObj []"
  by simp

lemma array_content_kept:
  "renameNodeInParameterValue ''A'' ''B'' True (JArr [JStr ''$node.A.json'']) = JArr [JStr ''$node.A.json'']"
  "renameNodeInParameterValue ''A'' ''B'' True (JStr ''$node.A.json'') = JStr ''$node.B.json''"
  by code_simp+

end
