(* ===== verification/Display_Conditions.thy ===== *)
theory Display_Conditions
  imports Filter_Conditions
begin

text \<open>
  Which parameters of a node are displayed: \<open>getNodeFeatures\<close>, \<open>getPropertyValues\<close>, \<open>checkConditions\<close>,
  \<open>displayParameter\<close> and \<open>displayParameterPath\<close> of \<open>packages/workflow/src/node-helpers.ts\<close>. The functions
  \<open>get\<close> and \<open>isEqual\<close> of lodash and the \<open>toJSON\<close> of dates are parameters. The plain values among conditions
  are primitive, as their type says.
\<close>

section \<open>Data\<close>

record parameter_runtime =
  pr_runtime :: js_runtime
  lodash_get :: "js_value \<Rightarrow> string \<Rightarrow> js_value"
  lodash_isEqual :: "js_value \<Rightarrow> js_value \<Rightarrow> bool"
  date_toJSON :: "js_value \<Rightarrow> js_value"

text \<open>A condition is a value or an object \<open>_cnd\<close> with one key and its target.\<close>

datatype display_condition = PlainValue js_value | Condition string js_value

type_synonym display_rules = "(string \<times> display_condition list) list"

record IDisplayOptions =
  do_show :: "display_rules option"
  do_hide :: "display_rules option"

text \<open>What is read of a node type here: its name, and the conditions on the version of each feature.\<close>

record type_description =
  td_name :: string
  td_features :: "display_rules option"

section \<open>Comparisons\<close>

fun js_primitive :: "js_runtime \<Rightarrow> js_value \<Rightarrow> js_value" where
  "js_primitive rt (JsArray r vs) = JsString (js_display rt (JsArray r vs))"
| "js_primitive rt (JsObject r fs) = JsString (js_display rt (JsObject r fs))"
| "js_primitive rt (JsDateTime r t) = JsNumber (time_number t)"
| "js_primitive rt (JsDate r t) = JsNumber (time_number t)"
| "js_primitive rt v = v"

fun string_less :: "string \<Rightarrow> string \<Rightarrow> bool" where
  "string_less s [] = False"
| "string_less [] (d # ds) = True"
| "string_less (c # cs) (d # ds) =
     ((of_char c :: nat) < of_char d \<or> c = d \<and> string_less cs ds)"

text \<open>\<open><\<close> and \<open><=\<close> on values: strings are compared as strings, all else as numbers.\<close>

definition js_less :: "js_runtime \<Rightarrow> js_value \<Rightarrow> js_value \<Rightarrow> bool" where
  "js_less rt v w =
     (case (js_primitive rt v, js_primitive rt w) of
        (JsString s, JsString t) \<Rightarrow> string_less s t
      | (v', w') \<Rightarrow> number_less (js_to_number rt v') (js_to_number rt w'))"

definition js_le :: "js_runtime \<Rightarrow> js_value \<Rightarrow> js_value \<Rightarrow> bool" where
  "js_le rt v w =
     (case (js_primitive rt v, js_primitive rt w) of
        (JsString s, JsString t) \<Rightarrow> \<not> string_less t s
      | (v', w') \<Rightarrow> number_le (js_to_number rt v') (js_to_number rt w'))"

text \<open>Reading a property of an object; the names of properties are not those that other values have.\<close>

fun js_property :: "js_value \<Rightarrow> string \<Rightarrow> js_value" where
  "js_property (JsObject r fs) name = (case map_of fs name of None \<Rightarrow> JsUndefined | Some v \<Rightarrow> v)"
| "js_property v name = JsUndefined"

section \<open>Conditions\<close>

text \<open>The test of one value.\<close>

definition test_condition :: "parameter_runtime \<Rightarrow> string \<Rightarrow> js_value \<Rightarrow> js_value \<Rightarrow> bool result" where
  "test_condition pr key target v =
     (let rt = pr_runtime pr
      in if key = ''eq'' then Inr (lodash_isEqual pr v target)
         else if key = ''not'' then Inr (\<not> lodash_isEqual pr v target)
         else if key = ''gte'' then Inr (js_le rt target v)
         else if key = ''lte'' then Inr (js_le rt v target)
         else if key = ''gt'' then Inr (js_less rt target v)
         else if key = ''lt'' then Inr (js_less rt v target)
         else if key = ''between'' then
           (if js_nullish target then Inl TypeError
            else Inr (js_le rt (js_property target ''from'') v \<and> js_le rt v (js_property target ''to'')))
         else if key = ''includes'' then
           (case v of JsString s \<Rightarrow> Inr (contains_text (js_string rt target) s)
            | JsArray r vs \<Rightarrow> Inr (js_includes vs target) | _ \<Rightarrow> Inl TypeError)
         else if key = ''startsWith'' then
           (case v of JsString s \<Rightarrow> Inr (starts_with (js_string rt target) s) | _ \<Rightarrow> Inl TypeError)
         else if key = ''endsWith'' then
           (case v of JsString s \<Rightarrow> Inr (starts_with (rev (js_string rt target)) (rev s)) | _ \<Rightarrow> Inl TypeError)
         else if key = ''regex'' then
           (case new_regexp rt (js_string rt target) [] of
              None \<Rightarrow> Inl (JsError ''SyntaxError'')
            | Some test \<Rightarrow> Inr (test (js_string rt v)))
         else if key = ''exists'' then Inr (\<not> js_nullish v \<and> v \<noteq> JsString [])
         else Inr False)"

definition check_condition :: "parameter_runtime \<Rightarrow> js_value list \<Rightarrow> display_condition \<Rightarrow> bool result" where
  "check_condition pr actualValues condition =
     (case condition of
        PlainValue v \<Rightarrow> Inr (js_includes actualValues v)
      | Condition key target \<Rightarrow>
          if actualValues = [] then Inr (key = ''not'')
          else every_passes (test_condition pr key target) actualValues)"

definition checkConditions :: "parameter_runtime \<Rightarrow> display_condition list \<Rightarrow> js_value list \<Rightarrow> bool result" where
  "checkConditions pr conditions actualValues = some_passes (check_condition pr actualValues) conditions"

definition evaluateFeature :: "parameter_runtime \<Rightarrow> display_condition list \<Rightarrow> rat \<Rightarrow> bool result" where
  "evaluateFeature pr featureDef nodeVersion = checkConditions pr featureDef [JsNumber (JsFinite nodeVersion)]"

definition getNodeFeatures :: "parameter_runtime \<Rightarrow> display_rules option \<Rightarrow> rat \<Rightarrow> (string \<times> bool) list result" where
  "getNodeFeatures pr featuresDef nodeVersion =
     (case featuresDef of
        None \<Rightarrow> Inr []
      | Some defs \<Rightarrow> rfold (\<lambda>(featureName, condition) features.
          rbind (evaluateFeature pr condition nodeVersion) (\<lambda>b. Inr (obj_put featureName b features))) defs [])"

section \<open>Values of properties\<close>

text \<open>A resource locator stands for its value.\<close>

definition locator_value :: "js_value \<Rightarrow> js_value" where
  "locator_value v = (if js_truthy (js_property v ''__rl'') then js_property v ''value'' else v)"

definition as_values :: "js_value \<Rightarrow> js_value list" where
  "as_values v = (case v of JsArray r vs \<Rightarrow> vs | _ \<Rightarrow> [v])"

definition enabled_features :: "parameter_runtime \<Rightarrow> rat option \<Rightarrow> type_description option \<Rightarrow> js_value list result" where
  "enabled_features pr typeVersion description =
     (case (description, typeVersion) of
        (Some d, Some version) \<Rightarrow>
          (if td_features d = None \<or> version = 0 then Inr []
           else rbind (getNodeFeatures pr (td_features d) version) (\<lambda>features.
             Inr (map (\<lambda>(name, enabled). JsString name) (filter snd features))))
      | _ \<Rightarrow> Inr [])"

definition getPropertyValues ::
    "parameter_runtime \<Rightarrow> js_value \<Rightarrow> string \<Rightarrow> rat option \<Rightarrow> type_description option \<Rightarrow> js_value \<Rightarrow> js_value list result" where
  "getPropertyValues pr nodeValues propertyName typeVersion description nodeValuesRoot =
     (let found = (\<lambda>v. Inr (as_values (locator_value v)))
      in if starts_with ''/'' propertyName then found (lodash_get pr nodeValuesRoot (drop 1 propertyName))
         else if propertyName = ''@version'' then
           found (JsNumber (JsFinite (case typeVersion of None \<Rightarrow> 0 | Some version \<Rightarrow> version)))
         else if propertyName = ''@tool'' then
           found (JsBool (case description of None \<Rightarrow> False | Some d \<Rightarrow> starts_with (rev ''Tool'') (rev (td_name d))))
         else if propertyName = ''@feature'' then enabled_features pr typeVersion description
         else found (lodash_get pr nodeValues propertyName))"

section \<open>Display\<close>

definition is_expression :: "js_value \<Rightarrow> bool" where
  "is_expression v = (case v of JsString s \<Rightarrow> starts_with ''='' s | _ \<Rightarrow> False)"

text \<open>The loops over the rules; the first one decides (\<open>Some\<close>) or passes on.\<close>

fun show_rules :: "parameter_runtime \<Rightarrow> (string \<Rightarrow> js_value list result) \<Rightarrow> display_rules \<Rightarrow> bool option result" where
  "show_rules pr values [] = Inr None"
| "show_rules pr values ((propertyName, conditions) # rules) =
     rbind (values propertyName) (\<lambda>vs.
       if list_ex is_expression vs then Inr (Some True)
       else rbind (checkConditions pr conditions vs) (\<lambda>met.
         if \<not> met then Inr (Some False) else show_rules pr values rules))"

fun hide_rules :: "parameter_runtime \<Rightarrow> (string \<Rightarrow> js_value list result) \<Rightarrow> display_rules \<Rightarrow> bool result" where
  "hide_rules pr values [] = Inr True"
| "hide_rules pr values ((propertyName, conditions) # rules) =
     rbind (values propertyName) (\<lambda>vs.
       if vs = [] then hide_rules pr values rules
       else rbind (checkConditions pr conditions vs) (\<lambda>met.
         if met then Inr False else hide_rules pr values rules))"

definition rules_list :: "display_rules option \<Rightarrow> display_rules" where
  "rules_list rules = (case rules of None \<Rightarrow> [] | Some rs \<Rightarrow> rs)"

definition displayParameter ::
    "parameter_runtime \<Rightarrow> js_value \<Rightarrow> IDisplayOptions option \<Rightarrow> rat option \<Rightarrow> type_description option \<Rightarrow> js_value \<Rightarrow>
      bool result" where
  "displayParameter pr nodeValues displayOptions typeVersion description nodeValuesRoot =
     (case displayOptions of
        None \<Rightarrow> Inr True
      | Some options \<Rightarrow>
          let root = (if js_truthy nodeValuesRoot then nodeValuesRoot else nodeValues);
              values = (\<lambda>name. getPropertyValues pr nodeValues name typeVersion description root)
          in rbind (show_rules pr values (rules_list (do_show options))) (\<lambda>decided.
               case decided of
                 Some b \<Rightarrow> Inr b
               | None \<Rightarrow> hide_rules pr values (rules_list (do_hide options))))"

text \<open>The path starts with \<open>parameters\<close> for the values of a whole node.\<close>

definition displayParameterPath ::
    "parameter_runtime \<Rightarrow> js_value \<Rightarrow> IDisplayOptions option \<Rightarrow> string \<Rightarrow> rat option \<Rightarrow> type_description option \<Rightarrow>
      bool result" where
  "displayParameterPath pr nodeValues displayOptions path typeVersion description =
     (let resolved = (if path \<noteq> [] then lodash_get pr nodeValues path else nodeValues);
          root = (if path \<noteq> [] \<and> takeWhile (\<lambda>c. c \<noteq> CHR ''.'') path = ''parameters''
            then lodash_get pr nodeValues ''parameters'' else nodeValues)
      in displayParameter pr resolved displayOptions typeVersion description root)"

end
