(* ===== verification/Parameter_Order.thy ===== *)
theory Parameter_Order
  imports Display_Conditions
begin

text \<open>
  The properties of a node type, and the order in which their values are resolved:
  \<open>getParameterDependencies\<close> and \<open>getParameterResolveOrder\<close> of \<open>packages/workflow/src/node-helpers.ts\<close>.
\<close>

section \<open>Data\<close>

text \<open>
  Of \<open>INodeProperties\<close> what these functions read. The options of a \<open>collection\<close> are properties, those of a
  \<open>fixedCollection\<close> are named lists of properties; the options of other types are not read here. Of display
  options \<open>show\<close> stands before \<open>hide\<close>.
\<close>

record property_info =
  pi_name :: string
  pi_type :: string
  pi_default :: js_value
  pi_displayOptions :: "IDisplayOptions option"
  pi_multipleValues :: "bool option"
  pi_noDataExpression :: bool

datatype node_property = NodeProperty (prop_info: property_info) (prop_options: property_options)
  and property_options =
    NoOptions
  | CollectionOptions "node_property list"
  | FixedOptions "(string \<times> node_property list) list"

abbreviation prop_name :: "node_property \<Rightarrow> string" where
  "prop_name p \<equiv> pi_name (prop_info p)"

type_synonym dependencies = "(string \<times> string list) list"

section \<open>Dependencies\<close>

definition dependencies_of :: "dependencies \<Rightarrow> string \<Rightarrow> string list" where
  "dependencies_of deps name = (case map_of deps name of None \<Rightarrow> [] | Some ds \<Rightarrow> ds)"

definition add_dependency :: "string \<Rightarrow> string list \<Rightarrow> string list" where
  "add_dependency parameterName ds =
     (if parameterName \<in> set ds \<or> starts_with ''@'' parameterName then ds else ds @ [parameterName])"

definition getParameterDependencies :: "node_property list \<Rightarrow> dependencies" where
  "getParameterDependencies props =
     fold (\<lambda>p deps.
       let ds = dependencies_of deps (prop_name p)
       in case pi_displayOptions (prop_info p) of
            None \<Rightarrow> obj_put (prop_name p) ds deps
          | Some options \<Rightarrow> obj_put (prop_name p)
              (fold (\<lambda>rules. fold add_dependency (keys rules))
                [rules_list (do_show options), rules_list (do_hide options)] ds) deps)
       props []"

section \<open>Resolve order\<close>

record order_state =
  os_order :: "nat list"
  os_queue :: "nat list"
  os_resolved :: "string list"
  os_lastLength :: nat
  os_lastReduction :: int
  os_iterations :: int

text \<open>
  The dependencies that are missing put the index back, once each; the index is added all the same, as
  the \<open>continue\<close> belongs to the inner loop.
\<close>

definition missing :: "string list \<Rightarrow> string list \<Rightarrow> string list" where
  "missing resolved ds = filter (\<lambda>d. d \<notin> set resolved \<and> \<not> starts_with ''/'' d) ds"

definition unresolved_message :: string where
  "unresolved_message = ''Could not resolve parameter dependencies. Max iterations reached! Hint: If `displayOptions` are'' @
     '' specified in any child parameter of a parent `collection` or `fixedCollection`, remove the `displayOptions` from'' @
     '' the child parameter.''"

text \<open>One iteration: \<open>Inl\<close> for the error, an index is below the number of properties.\<close>

definition order_step :: "node_property list \<Rightarrow> dependencies \<Rightarrow> nat \<Rightarrow> order_state \<Rightarrow> order_state result" where
  "order_step props deps index s =
     (let name = prop_name (props ! index);
          ds = dependencies_of deps name;
          iterations = os_iterations s + 1;
          queue = drop 1 (os_queue s);
          s' = s\<lparr>os_iterations := iterations, os_order := os_order s @ [index],
            os_resolved := os_resolved s @ [name]\<rparr>
      in if ds = [] then Inr (s'\<lparr>os_queue := queue\<rparr>)
         else
           let queue' = queue @ replicate (length (missing (os_resolved s) ds)) index;
               reduction = (if length queue' < os_lastLength s then iterations else os_lastReduction s)
           in if iterations > reduction + int (length props)
              then Inl (ApplicationError unresolved_message)
              else Inr (s'\<lparr>os_queue := queue', os_lastReduction := reduction, os_lastLength := length queue'\<rparr>))"

partial_function (option) order_loop ::
    "node_property list \<Rightarrow> dependencies \<Rightarrow> order_state \<Rightarrow> nat list result option" where
  "order_loop props deps s =
     (case os_queue s of
        [] \<Rightarrow> Some (Inr (os_order s))
      | index # rest \<Rightarrow>
          (case order_step props deps index s of
             Inl e \<Rightarrow> Some (Inl e)
           | Inr s' \<Rightarrow> order_loop props deps s'))"

declare order_loop.simps [code]

definition order_start :: "node_property list \<Rightarrow> order_state" where
  "order_start props = \<lparr>os_order = [], os_queue = [0..<length props], os_resolved = [],
     os_lastLength = length props, os_lastReduction = - 1, os_iterations = 0\<rparr>"

definition getParameterResolveOrder :: "node_property list \<Rightarrow> dependencies \<Rightarrow> nat list result option" where
  "getParameterResolveOrder props deps = order_loop props deps (order_start props)"

end
