(* ===== verification/Order_Properties.thy ===== *)
theory Order_Properties
  imports Parameter_Order
begin

text \<open>
  The order in which parameters are resolved: the loop always ends, every property comes after all of
  its dependencies at least once, and only a dependency on an unknown name makes it fail.
\<close>

section \<open>The states of the loop\<close>

definition names_of :: "node_property list \<Rightarrow> string list" where
  "names_of props = map prop_name props"

definition deps_at :: "node_property list \<Rightarrow> dependencies \<Rightarrow> nat \<Rightarrow> string list" where
  "deps_at props deps i = dependencies_of deps (prop_name (props ! i))"

text \<open>An occurrence of an index after all its dependencies.\<close>

definition satisfied :: "node_property list \<Rightarrow> dependencies \<Rightarrow> nat list \<Rightarrow> nat \<Rightarrow> bool" where
  "satisfied props deps order i \<longleftrightarrow> (\<exists>xs ys. order = xs @ i # ys \<and>
     (\<forall>d \<in> set (deps_at props deps i). starts_with ''/'' d \<or> d \<in> (\<lambda>j. prop_name (props ! j)) ` set xs))"

definition order_inv :: "node_property list \<Rightarrow> dependencies \<Rightarrow> order_state \<Rightarrow> bool" where
  "order_inv props deps s \<longleftrightarrow>
     0 \<le> os_iterations s \<and> - 1 \<le> os_lastReduction s \<and> length (os_queue s) \<le> os_lastLength s \<and>
     set (os_queue s) \<subseteq> {..<length props} \<and> set (os_order s) \<subseteq> {..<length props} \<and>
     (\<exists>zs. os_queue s = [nat (os_iterations s)..<length props] @ zs) \<and>
     (\<exists>zs. os_order s @ os_queue s = [0..<length props] @ zs) \<and>
     set (names_of (take (nat (os_iterations s)) props)) \<subseteq> set (os_resolved s) \<and>
     os_resolved s = map (\<lambda>j. prop_name (props ! j)) (os_order s) \<and>
     (\<forall>i < length props. i \<in> set (os_queue s) \<or> satisfied props deps (os_order s) i)"

lemma order_inv_start: "order_inv props deps (order_start props)"
  by (simp add: order_inv_def order_start_def names_of_def lessThan_atLeast0)

lemma missing_none: "missing resolved ds = [] \<longleftrightarrow> (\<forall>d \<in> set ds. starts_with ''/'' d \<or> d \<in> set resolved)"
  by (auto simp: missing_def filter_empty_conv)

lemma satisfied_snoc: "satisfied props deps order i \<Longrightarrow> satisfied props deps (order @ [j]) i"
  unfolding satisfied_def by (metis append.assoc append_Cons)

lemma satisfied_now:
  "missing (map (\<lambda>j. prop_name (props ! j)) order) (deps_at props deps i) = [] \<Longrightarrow> satisfied props deps (order @ [i]) i"
  unfolding satisfied_def missing_none by (rule exI [of _ order], rule exI [of _ "[]"]) auto

text \<open>What a step does, with and without dependencies.\<close>

lemma order_step_cases:
  assumes "order_step props deps i s = Inr t" "os_queue s = i # rest"
  obtains "deps_at props deps i = []" "t = s\<lparr>os_iterations := os_iterations s + 1, os_order := os_order s @ [i],
      os_resolved := os_resolved s @ [prop_name (props ! i)], os_queue := rest\<rparr>"
  | queue' reduction where "deps_at props deps i \<noteq> []"
    "queue' = rest @ replicate (length (missing (os_resolved s) (deps_at props deps i))) i"
    "reduction = (if length queue' < os_lastLength s then os_iterations s + 1 else os_lastReduction s)"
    "os_iterations s + 1 \<le> reduction + int (length props)"
    "t = s\<lparr>os_iterations := os_iterations s + 1, os_order := os_order s @ [i],
      os_resolved := os_resolved s @ [prop_name (props ! i)], os_queue := queue',
      os_lastReduction := reduction, os_lastLength := length queue'\<rparr>"
  using assms by (auto simp: order_step_def deps_at_def Let_def split: if_splits)

lemma order_inv_step:
  assumes inv: "order_inv props deps s" and step: "order_step props deps i s = Inr t" and q: "os_queue s = i # rest"
  shows "order_inv props deps t"
proof -
  let ?k = "nat (os_iterations s)"
  obtain copies where t: "os_queue t = rest @ replicate copies i" "os_iterations t = os_iterations s + 1"
    "os_order t = os_order s @ [i]" "os_resolved t = os_resolved s @ [prop_name (props ! i)]"
    "copies = length (missing (os_resolved s) (deps_at props deps i))"
    "- 1 \<le> os_lastReduction t" "length (os_queue t) \<le> os_lastLength t"
    using inv q by (cases rule: order_step_cases [OF step q]) (auto simp: order_inv_def missing_def)
  have inv': "0 \<le> os_iterations s" "i < length props" "set rest \<subseteq> {..<length props}"
    "set (names_of (take ?k props)) \<subseteq> set (os_resolved s)"
    "os_resolved s = map (\<lambda>j. prop_name (props ! j)) (os_order s)"
    using inv q by (auto simp: order_inv_def)
  obtain zs where zs: "i # rest = [?k..<length props] @ zs" using inv q by (auto simp: order_inv_def)
  have k: "nat (os_iterations t) = Suc ?k" using inv'(1) t(2) by simp
  have queue: "\<exists>zs. os_queue t = [nat (os_iterations t)..<length props] @ zs"
  proof (cases "?k < length props")
    case True
    then have "rest = [Suc ?k..<length props] @ zs" using zs by (simp add: upt_conv_Cons)
    then show ?thesis using t(1) k by simp
  qed (use k in simp)
  have prefix: "\<exists>zs. os_order t @ os_queue t = [0..<length props] @ zs"
  proof -
    obtain ys where "os_order s @ os_queue s = [0..<length props] @ ys" using inv unfolding order_inv_def by blast
    then have "os_order t @ os_queue t = [0..<length props] @ ys @ replicate copies i" using q t(1,3) by simp
    then show ?thesis by blast
  qed
  have resolved: "set (names_of (take (nat (os_iterations t)) props)) \<subseteq> set (os_resolved t)"
  proof (cases "?k < length props")
    case True
    then have "i = ?k" using zs by (simp add: upt_conv_Cons)
    then show ?thesis using inv'(2,4) t(4) k by (auto simp: names_of_def take_Suc_conv_app_nth)
  qed (use inv'(4) t(4) k in \<open>auto simp: names_of_def\<close>)
  have sat: "j \<in> set (os_queue t) \<or> satisfied props deps (os_order t) j" if "j < length props" for j
  proof (cases "j = i")
    case True
    then show ?thesis using t(1,3,5) inv'(5) satisfied_now [of props "os_order s" deps i] by (cases copies) auto
  next
    case False
    then have "j \<in> set rest \<or> satisfied props deps (os_order s) j" using inv q that by (auto simp: order_inv_def)
    then show ?thesis using t(1,3) satisfied_snoc by auto
  qed
  show ?thesis
    unfolding order_inv_def
  proof (intro conjI)
    show "0 \<le> os_iterations t" using t(2) inv'(1) by simp
    show "set (os_queue t) \<subseteq> {..<length props}" using t(1) inv'(2,3) by auto
    show "set (os_order t) \<subseteq> {..<length props}" using inv inv'(2) t(3) by (simp add: order_inv_def)
    show "os_resolved t = map (\<lambda>j. prop_name (props ! j)) (os_order t)" using t(3,4) inv'(5) by simp
  qed (use t(6,7) queue prefix resolved sat in blast)+
qed

section \<open>The result\<close>

lemma order_loop_result:
  assumes loop: "order_loop props deps s = Some (Inr order)" and inv: "order_inv props deps s"
  shows "\<exists>t. order_inv props deps t \<and> os_queue t = [] \<and> os_order t = order"
proof -
  have "order_inv props deps s \<longrightarrow> (\<forall>order. r = Inr order \<longrightarrow>
      (\<exists>t. order_inv props deps t \<and> os_queue t = [] \<and> os_order t = order))"
    if h: "order_loop props deps s = Some r" for s r
  proof (rule order_loop.raw_induct [OF _ h, where P = "\<lambda>props deps s r. order_inv props deps s \<longrightarrow>
      (\<forall>order. r = Inr order \<longrightarrow> (\<exists>t. order_inv props deps t \<and> os_queue t = [] \<and> os_order t = order))"])
    fix loop :: "node_property list \<Rightarrow> dependencies \<Rightarrow> order_state \<Rightarrow> nat list result option"
      and props :: "node_property list" and deps :: dependencies and s :: order_state and r :: "nat list result"
    assume IH: "\<And>props deps s r. loop props deps s = Some r \<Longrightarrow> order_inv props deps s \<longrightarrow>
        (\<forall>order. r = Inr order \<longrightarrow> (\<exists>t. order_inv props deps t \<and> os_queue t = [] \<and> os_order t = order))"
      and body: "(case os_queue s of [] \<Rightarrow> Some (Inr (os_order s))
        | index # rest \<Rightarrow> (case order_step props deps index s of Inl e \<Rightarrow> Some (Inl e) | Inr s' \<Rightarrow> loop props deps s')) = Some r"
    show "order_inv props deps s \<longrightarrow>
        (\<forall>order. r = Inr order \<longrightarrow> (\<exists>t. order_inv props deps t \<and> os_queue t = [] \<and> os_order t = order))"
    proof (cases "os_queue s")
      case Nil
      then show ?thesis using body by auto
    next
      case (Cons i rest)
      show ?thesis
      proof (cases "order_step props deps i s")
        case (Inl e)
        then show ?thesis using body Cons by auto
      next
        case (Inr t)
        then have "loop props deps t = Some r" using body Cons by simp
        then show ?thesis using IH order_inv_step [OF _ Inr Cons] by blast
      qed
    qed
  qed
  then show ?thesis using assms by blast
qed

section \<open>Termination\<close>

text \<open>The names of all properties are resolved after the first round; what is missing then stays missing.\<close>

definition known_deps :: "node_property list \<Rightarrow> dependencies \<Rightarrow> nat \<Rightarrow> bool" where
  "known_deps props deps i \<longleftrightarrow>
     (\<forall>d \<in> set (deps_at props deps i). starts_with ''/'' d \<or> d \<in> set (names_of props))"

definition all_names :: "node_property list \<Rightarrow> order_state \<Rightarrow> bool" where
  "all_names props s \<longleftrightarrow> set (os_resolved s) = set (names_of props)"

lemma order_inv_names:
  assumes "order_inv props deps s" "int (length props) \<le> os_iterations s"
  shows "all_names props s"
proof -
  have "set (os_order s) \<subseteq> {..<length props}" using assms(1) by (simp add: order_inv_def)
  then have "set (os_resolved s) \<subseteq> set (names_of props)"
    using assms(1) by (force simp: order_inv_def names_of_def)
  moreover have "set (names_of props) \<subseteq> set (os_resolved s)"
    using assms by (auto simp: order_inv_def nat_le_iff)
  ultimately show ?thesis by (auto simp: all_names_def)
qed

lemma missing_known:
  "all_names props s \<Longrightarrow> missing (os_resolved s) (deps_at props deps i) = [] \<longleftrightarrow> known_deps props deps i"
  by (simp add: missing_none known_deps_def all_names_def)

definition order_measure :: "node_property list \<Rightarrow> dependencies \<Rightarrow> (order_state \<times> order_state) set" where
  "order_measure props deps = measures
     [\<lambda>s. nat (int (length props) - os_iterations s),
      \<lambda>s. length (filter (known_deps props deps) (os_queue s)),
      \<lambda>s. if length (os_queue s) < os_lastLength s then 1 else 0,
      \<lambda>s. nat (os_lastReduction s + int (length props) - os_iterations s)]"

lemma order_step_decreases:
  assumes inv: "order_inv props deps s" and step: "order_step props deps i s = Inr t" and q: "os_queue s = i # rest"
  shows "(t, s) \<in> order_measure props deps"
proof (cases "os_iterations s < int (length props)")
  case True
  have "os_iterations t = os_iterations s + 1" by (cases rule: order_step_cases [OF step q]) auto
  then show ?thesis using True by (simp add: order_measure_def)
next
  case False
  then have first: "nat (int (length props) - os_iterations s) = 0" "nat (int (length props) - os_iterations s - 1) = 0"
    by simp_all
  have names: "all_names props s" using False by (intro order_inv_names [OF inv]) simp
  have len: "length (os_queue s) \<le> os_lastLength s" using inv by (simp add: order_inv_def)
  show ?thesis
  proof (cases rule: order_step_cases [OF step q])
    case 1
    then have "known_deps props deps i" by (simp add: known_deps_def)
    then show ?thesis using 1 q first by (simp add: order_measure_def)
  next
    case (2 queue' reduction)
    show ?thesis
    proof (cases "known_deps props deps i")
      case True
      then have "queue' = rest" using 2(2) missing_known [OF names] by simp
      then show ?thesis using 2(5) q first True by (simp add: order_measure_def)
    next
      case unknown: False
      then obtain c where "length (missing (os_resolved s) (deps_at props deps i)) = Suc c"
        using missing_known [OF names] by (metis length_0_conv not0_implies_Suc)
      then have queue': "length (os_queue s) \<le> length queue'"
        "filter (known_deps props deps) queue' = filter (known_deps props deps) (os_queue s)"
        using 2(2) q unknown by (simp_all add: filter_replicate)
      show ?thesis
      proof (cases "length (os_queue s) < os_lastLength s")
        case True
        then show ?thesis using 2(5) first queue'(2) by (simp add: order_measure_def)
      next
        case eq: False
        then have "reduction = os_lastReduction s" using 2(3) queue'(1) by simp
        then show ?thesis using 2(4,5) first queue'(2) eq by (simp add: order_measure_def)
      qed
    qed
  qed
qed

lemma order_loop_ends:
  "order_inv props deps s \<Longrightarrow> order_loop props deps s \<noteq> None"
proof (induction s rule: wf_induct [of "order_measure props deps"])
  case 1
  then show ?case by (simp add: order_measure_def)
next
  case (2 s)
  show ?case
  proof (cases "os_queue s")
    case Nil
    then show ?thesis by (simp add: order_loop.simps)
  next
    case (Cons i rest)
    show ?thesis
    proof (cases "order_step props deps i s")
      case (Inl e)
      then show ?thesis using Cons by (simp add: order_loop.simps)
    next
      case (Inr t)
      have "order_loop props deps t \<noteq> None"
        using 2(1) order_step_decreases [OF 2(2) Inr Cons] order_inv_step [OF 2(2) Inr Cons] by blast
      then show ?thesis using Inr Cons by (subst order_loop.simps) simp
    qed
  qed
qed

section \<open>No error\<close>

text \<open>Every dependency is from the root or another property of the list.\<close>

definition resolvable :: "node_property list \<Rightarrow> dependencies \<Rightarrow> bool" where
  "resolvable props deps \<longleftrightarrow> list_all (\<lambda>p. list_all (\<lambda>d. starts_with ''/'' d \<or>
     d \<in> set (names_of props) \<and> d \<noteq> prop_name p) (dependencies_of deps (prop_name p))) props"

lemma order_step_succeeds:
  assumes inv: "order_inv props deps s" and q: "os_queue s = i # rest" and ok: "resolvable props deps"
  shows "\<exists>t. order_step props deps i s = Inr t"
proof -
  let ?k = "nat (os_iterations s)"
  let ?n = "length props"
  have k: "0 \<le> os_iterations s" "- 1 \<le> os_lastReduction s" "length (os_queue s) \<le> os_lastLength s" "i < ?n"
    "set (names_of (take ?k props)) \<subseteq> set (os_resolved s)"
    using inv q by (auto simp: order_inv_def)
  obtain zs where zs: "i # rest = [?k..<?n] @ zs" using inv q by (auto simp: order_inv_def)
  have deps: "starts_with ''/'' d \<or> d \<in> set (names_of props) \<and> d \<noteq> prop_name (props ! i)"
    if "d \<in> set (deps_at props deps i)" for d
    using ok that k(4) by (simp add: resolvable_def list_all_iff deps_at_def)
  show ?thesis
  proof (cases "os_iterations s + 1 < int ?n")
    case True
    then show ?thesis using k(1,2) by (auto simp: order_step_def Let_def)
  next
    case late: False
    have "starts_with ''/'' d \<or> d \<in> set (os_resolved s)" if d: "d \<in> set (deps_at props deps i)" for d
    proof (cases "os_iterations s < int ?n")
      case True
      then have n: "?n = Suc ?k" using late k(1) by simp
      then have "i = ?k" using zs by (simp add: upt_conv_Cons)
      moreover have "props = take ?k props @ [props ! ?k]" using n by (metis lessI take_Suc_conv_app_nth take_all_iff order_refl)
      then have "set (names_of props) = insert (prop_name (props ! ?k)) (set (names_of (take ?k props)))"
        by (metis (no_types, lifting) list.set_map list.simps(15) names_of_def rotate1.simps(2) set_rotate1 map_append list.simps(9) list.simps(8))
      ultimately show ?thesis using deps [OF d] k(5) by auto
    next
      case False
      then show ?thesis using deps [OF d] order_inv_names [OF inv] by (auto simp: all_names_def)
    qed
    then have "missing (os_resolved s) (dependencies_of deps (prop_name (props ! i))) = []"
      by (simp add: missing_none deps_at_def)
    then show ?thesis using q k(3) by (simp add: order_step_def Let_def)
  qed
qed

lemma order_loop_succeeds:
  assumes "resolvable props deps"
  shows "order_inv props deps s \<Longrightarrow> order_loop props deps s \<noteq> Some (Inl e)"
proof (induction s rule: wf_induct [of "order_measure props deps"])
  case 1
  then show ?case by (simp add: order_measure_def)
next
  case (2 s)
  show ?case
  proof (cases "os_queue s")
    case Nil
    then show ?thesis by (simp add: order_loop.simps)
  next
    case (Cons i rest)
    obtain t where t: "order_step props deps i s = Inr t" using order_step_succeeds [OF 2(2) Cons assms] by blast
    have "order_loop props deps t \<noteq> Some (Inl e)"
      using 2(1) order_step_decreases [OF 2(2) t Cons] order_inv_step [OF 2(2) t Cons] by blast
    then show ?thesis using t Cons by (subst order_loop.simps) simp
  qed
qed

section \<open>The order\<close>

text \<open>
  The search for a resolve order ends for all properties and all dependencies, with an order or with
  the error: the round without a shorter queue bounds the loop.
\<close>
theorem resolve_order_ends: "getParameterResolveOrder props deps \<noteq> None"
  unfolding getParameterResolveOrder_def by (rule order_loop_ends [OF order_inv_start])

text \<open>
  C40: If every dependency is from the root or on another property of the list, an order is found; it goes
  through all properties as they stand first, and gives each of them a place after all its dependencies.
\<close>
theorem resolve_order_complete:
  assumes "resolvable props deps"
  shows "\<exists>order. getParameterResolveOrder props deps = Some (Inr order) \<and>
    take (length props) order = [0..<length props] \<and> list_all (satisfied props deps order) [0..<length props]"
proof -
  obtain order where order: "getParameterResolveOrder props deps = Some (Inr order)"
    using order_loop_ends [OF order_inv_start] order_loop_succeeds [OF assms order_inv_start]
    unfolding getParameterResolveOrder_def by (metis not_None_eq sum.exhaust)
  then obtain t where "order_inv props deps t" "os_queue t = []" "os_order t = order"
    using order_loop_result [OF _ order_inv_start] unfolding getParameterResolveOrder_def by blast
  then show ?thesis using order by (auto simp: order_inv_def list_all_iff)
qed

definition sample_property :: "string \<Rightarrow> string list \<Rightarrow> node_property" where
  "sample_property n shown_by = NodeProperty \<lparr>pi_name = n, pi_type = ''string'', pi_default = JsString ''d'',
     pi_displayOptions = (if shown_by = [] then None
       else Some \<lparr>do_show = Some (map (\<lambda>d. (d, [PlainValue (JsString ''on'')])) shown_by), do_hide = None\<rparr>),
     pi_multipleValues = None, pi_noDataExpression = False\<rparr> NoOptions"

theorem resolve_order_complete_witness:
  "\<exists>order. getParameterResolveOrder [sample_property ''a'' [''b''], sample_property ''b'' []]
    (getParameterDependencies [sample_property ''a'' [''b''], sample_property ''b'' []]) = Some (Inr order) \<and>
    take 2 order = [0, 1]"
proof -
  have "resolvable [sample_property ''a'' [''b''], sample_property ''b'' []]
    (getParameterDependencies [sample_property ''a'' [''b''], sample_property ''b'' []])"
    by code_simp
  from resolve_order_complete [OF this] show ?thesis by (auto simp: numeral_2_eq_2 upt_rec)
qed

text \<open>
  The first place of a property is the one in the list, also when it depends on a later one; and a
  dependency on an unknown name ends in the error.
\<close>

lemma resolved_before_dependency:
  "getParameterResolveOrder [sample_property ''a'' [''b''], sample_property ''b'' []]
    (getParameterDependencies [sample_property ''a'' [''b''], sample_property ''b'' []]) = Some (Inr [0, 1, 0])"
  "getParameterResolveOrder [sample_property ''a'' [''x'']] (getParameterDependencies [sample_property ''a'' [''x'']]) =
    Some (Inl (ApplicationError unresolved_message))"
  by code_simp+

end
