(* ===== verification/Node_Parameters.thy ===== *)
theory Node_Parameters
  imports Order_Properties
begin

text \<open>
  The parameters of a node with or without its default values: \<open>getNodeParameters\<close> of
  \<open>packages/workflow/src/node-helpers.ts\<close> and \<open>deepCopy\<close> of \<open>packages/workflow/src/utils.ts\<close>. Objects that
  are made anew have the identity 0; nothing here compares them by identity. The parameters are trees,
  so the hash of \<open>deepCopy\<close> for repeated objects is left out.
\<close>

section \<open>Values\<close>

fun deepCopy :: "(js_value \<Rightarrow> js_value) \<Rightarrow> js_value \<Rightarrow> js_value" where
  "deepCopy toJSON (JsArray r vs) = JsArray 0 (map (deepCopy toJSON) vs)"
| "deepCopy toJSON (JsObject r fs) = JsObject 0 (map (\<lambda>(k, v). (k, deepCopy toJSON v)) fs)"
| "deepCopy toJSON (JsDateTime r t) = toJSON (JsDateTime r t)"
| "deepCopy toJSON (JsDate r t) = toJSON (JsDate r t)"
| "deepCopy toJSON v = v"

definition index_keys :: "'a list \<Rightarrow> string list" where
  "index_keys xs = map show_nat [0..<length xs]"

text \<open>\<open>Object.keys(value || {})\<close>.\<close>

definition object_keys :: "js_value \<Rightarrow> string list" where
  "object_keys v =
     (case v of JsObject r fs \<Rightarrow> keys fs | JsArray r vs \<Rightarrow> index_keys vs | JsString s \<Rightarrow> index_keys s | _ \<Rightarrow> [])"

text \<open>\<open>{ __rl: true, ...value }\<close>.\<close>

definition locator_default :: "js_value \<Rightarrow> js_value" where
  "locator_default v =
     (let fields = (case v of JsObject r fs \<Rightarrow> fs | JsArray r vs \<Rightarrow> zip (index_keys vs) vs | _ \<Rightarrow> [])
      in JsObject 0 (fold (\<lambda>(k, w). obj_put k w) fields [(''__rl'', JsBool True)]))"

text \<open>What a \<open>for\<close> loop goes through.\<close>

definition iterated :: "js_value \<Rightarrow> js_value list result" where
  "iterated v =
     (case v of JsArray r vs \<Rightarrow> Inr vs | JsString s \<Rightarrow> Inr (map (\<lambda>c. JsString [c]) s) | _ \<Rightarrow> Inl TypeError)"

section \<open>The state of the loop\<close>

text \<open>The settings that stay the same through all levels.\<close>

record parameter_settings =
  ps_runtime :: parameter_runtime
  ps_typeVersion :: "rat option"
  ps_description :: "type_description option"
  ps_returnDefaults :: bool
  ps_returnNoneDisplayed :: bool

abbreviation copy_value :: "parameter_settings \<Rightarrow> js_value \<Rightarrow> js_value" where
  "copy_value ps \<equiv> deepCopy (date_toJSON (ps_runtime ps))"

type_synonym js_fields = "(string \<times> js_value) list"

text \<open>
  \<open>nodeParameters\<close> and \<open>nodeParametersFull\<close>, or the values that are returned at once. The values that decide
  what is displayed, and the root values, are given or are the second of these objects as it grows.
\<close>

datatype parameter_state = Going js_fields js_fields | Returned js_value

record level_settings =
  ls_nodeValues :: js_value
  ls_displayCheck :: "js_value option"
  ls_root :: "js_value option"
  ls_parentType :: "string option"
  ls_onlySimpleTypes :: bool
  ls_duplicates :: "string list"

definition check_values :: "level_settings \<Rightarrow> js_fields \<Rightarrow> js_value" where
  "check_values ls full = (case ls_displayCheck ls of None \<Rightarrow> JsObject 0 full | Some v \<Rightarrow> v)"

definition root_values :: "level_settings \<Rightarrow> js_fields \<Rightarrow> js_value" where
  "root_values ls full = (case ls_root ls of None \<Rightarrow> check_values ls full | Some v \<Rightarrow> v)"

definition displayed :: "parameter_settings \<Rightarrow> level_settings \<Rightarrow> js_fields \<Rightarrow> property_info \<Rightarrow> bool result" where
  "displayed ps ls full p = displayParameter (ps_runtime ps) (check_values ls full) (pi_displayOptions p)
     (ps_typeVersion ps) (ps_description ps) (root_values ls full)"

definition duplicate_names :: "node_property list \<Rightarrow> string list" where
  "duplicate_names props = fst (fold (\<lambda>p (duplicates, names).
     let name = prop_name p
     in if name \<in> set names
        then (if name \<in> set duplicates then duplicates else duplicates @ [name], names)
        else (duplicates, names @ [name])) props ([], []))"

section \<open>Simple properties\<close>

definition with_default :: "parameter_settings \<Rightarrow> property_info \<Rightarrow> js_value \<Rightarrow> js_value" where
  "with_default ps p v =
     (if pi_type p \<in> {''boolean'', ''number'', ''options''}
      then if v \<noteq> JsUndefined then copy_value ps v else pi_default p
      else if pi_type p = ''resourceLocator'' \<and> js_typeof (pi_default p) = ''object''
      then if v \<noteq> JsUndefined then copy_value ps v else locator_default (pi_default p)
      else if js_nullish (copy_value ps v) then pi_default p else copy_value ps v)"

definition differs_from_default :: "parameter_settings \<Rightarrow> string option \<Rightarrow> property_info \<Rightarrow> js_value \<Rightarrow> bool" where
  "differs_from_default ps parentType p v \<longleftrightarrow>
     \<not> js_identical v (pi_default p) \<and> js_typeof v \<noteq> ''object'' \<or>
     js_typeof v = ''object'' \<and> \<not> lodash_isEqual (ps_runtime ps) v (pi_default p) \<or>
     v \<noteq> JsUndefined \<and> parentType = Some ''collection''"

text \<open>Without data expressions, the value that is set loses the sign that makes it an expression.\<close>

definition strip_expression :: "property_info \<Rightarrow> js_fields \<Rightarrow> js_fields \<Rightarrow> parameter_state" where
  "strip_expression p np full =
     (case map_of np (pi_name p) of
        Some (JsString s) \<Rightarrow>
          if pi_noDataExpression p \<and> starts_with ''='' s
          then Going (obj_put (pi_name p) (JsString (drop 1 s)) np) (obj_put (pi_name p) (JsString (drop 1 s)) full)
          else Going np full
      | _ \<Rightarrow> Going np full)"

definition simple_property ::
    "parameter_settings \<Rightarrow> level_settings \<Rightarrow> property_info \<Rightarrow> js_fields \<Rightarrow> js_fields \<Rightarrow> parameter_state result" where
  "simple_property ps ls p np full =
     (let name = pi_name p;
          v = js_property (ls_nodeValues ls) name;
          w = with_default ps p v
      in rbind (if name \<in> set (ls_duplicates ls) then displayed ps ls full p else Inr True) (\<lambda>shown.
           if \<not> shown then Inr (Going np full)
           else if ps_returnDefaults ps then Inr (strip_expression p (obj_put name w np) (obj_put name w full))
           else if differs_from_default ps (ls_parentType ls) p v
           then Inr (Going (obj_put name (copy_value ps v) np) (obj_put name (copy_value ps v) full))
           else Inr (strip_expression p np full)))"

section \<open>Collections\<close>

type_synonym resolver = "node_property list \<Rightarrow> js_value \<Rightarrow> js_value \<Rightarrow> string \<Rightarrow> js_value result"

definition collection_property ::
    "parameter_settings \<Rightarrow> resolver \<Rightarrow> level_settings \<Rightarrow> property_info \<Rightarrow> property_options \<Rightarrow> js_fields \<Rightarrow> js_fields \<Rightarrow>
      parameter_state result" where
  "collection_property ps resolve ls p opts np full =
     (let name = pi_name p;
          v = js_property (ls_nodeValues ls) name;
          put = (\<lambda>w. Inr (Going (obj_put name w np) (obj_put name w full)))
      in if pi_multipleValues p = Some True then
           (let np' = (if v \<noteq> JsUndefined then obj_put name (copy_value ps v) np
                  else if ps_returnDefaults ps
                  then obj_put name (if is_js_array (pi_default p) then copy_value ps (pi_default p) else JsArray 0 []) np
                  else np)
            in Inr (Going np' (obj_put name (js_property (JsObject 0 np') name) full)))
         else if v \<noteq> JsUndefined then
           (case opts of
              CollectionOptions nested \<Rightarrow>
                rbind (resolve nested v (root_values ls full) (pi_type p)) (\<lambda>w.
                  if w = JsNull then Inr (Going np full) else put w)
            | _ \<Rightarrow> Inl TypeError)
         else if ps_returnDefaults ps then put (copy_value ps (pi_default p))
         else Inr (Going np full))"

text \<open>
  The properties of the option of a name; the options of a \<open>collection\<close> have none. Then the items of a
  fixed collection with several values: an array for each name.
\<close>

definition option_values :: "property_options \<Rightarrow> string \<Rightarrow> node_property list option result" where
  "option_values opts itemName =
     (case opts of
        FixedOptions items \<Rightarrow> Inr (map_of items itemName)
      | CollectionOptions ps \<Rightarrow> if itemName \<in> set (names_of ps) then Inl TypeError else Inr None
      | NoOptions \<Rightarrow> Inl TypeError)"

definition multiple_items ::
    "parameter_settings \<Rightarrow> resolver \<Rightarrow> property_info \<Rightarrow> property_options \<Rightarrow> js_value \<Rightarrow> js_value \<Rightarrow> string \<Rightarrow> js_fields \<Rightarrow>
      js_fields result" where
  "multiple_items ps resolve p opts rootValues propertyValues itemName collectionValues =
     (if js_typeof propertyValues \<noteq> ''object'' \<or> is_js_array propertyValues then Inr collectionValues
      else rbind (iterated (js_property propertyValues itemName)) (\<lambda>nodeValues.
        rbind (rfold (\<lambda>nodeValue tempArrayValue.
          rbind (option_values opts itemName) (\<lambda>found.
            case found of
              None \<Rightarrow> Inl (ApplicationError ''Could not find property option'')
            | Some nested \<Rightarrow> rbind (resolve nested nodeValue rootValues (pi_type p)) (\<lambda>w.
                Inr (if w = JsNull then tempArrayValue else tempArrayValue @ [w])))) nodeValues [])
        (\<lambda>tempArrayValue. Inr (obj_put itemName (JsArray 0 tempArrayValue) collectionValues))))"

text \<open>Whether a value differs from the default of its field, which hidden fields make disappear.\<close>

definition has_non_defaults :: "parameter_settings \<Rightarrow> node_property list \<Rightarrow> js_value \<Rightarrow> bool" where
  "has_non_defaults ps nested itemNodeValues \<longleftrightarrow>
     js_truthy itemNodeValues \<and>
     list_ex (\<lambda>key. case List.find (\<lambda>f. prop_name f = key) nested of
        None \<Rightarrow> False
      | Some field \<Rightarrow> \<not> lodash_isEqual (ps_runtime ps) (js_property itemNodeValues key) (pi_default (prop_info field)))
     (object_keys itemNodeValues)"

text \<open>An item of a fixed collection with one value; the flag says whether fields were visible.\<close>

definition single_item ::
    "parameter_settings \<Rightarrow> resolver \<Rightarrow> property_info \<Rightarrow> property_options \<Rightarrow> js_value \<Rightarrow> js_value \<Rightarrow> js_value \<Rightarrow> string \<Rightarrow>
      js_fields \<times> bool \<Rightarrow> (js_fields \<times> bool) result" where
  "single_item ps resolve p opts rootValues v propertyValues itemName acc =
     (case acc of (collectionValues, hadAny) \<Rightarrow>
        rbind (rbind (option_values opts itemName) (\<lambda>found. case found of
            None \<Rightarrow> Inr ([], False)
          | Some nested \<Rightarrow>
              if js_nullish v then Inl TypeError
              else
                let itemNodeValues = js_property v itemName
                in rbind (resolve nested itemNodeValues rootValues (pi_type p)) (\<lambda>w.
                  if w = JsNull then Inr ([], False)
                  else
                    let fields = (case w of JsObject r fs \<Rightarrow> fs | _ \<Rightarrow> [])
                    in Inr (fields, fields \<noteq> [] \<or> \<not> has_non_defaults ps nested itemNodeValues))))
          (\<lambda>(fields, hadVisible).
             Inr (if fields \<noteq> [] then obj_put itemName (JsObject 0 fields) collectionValues
               else if \<not> ps_returnDefaults ps \<and> hadVisible \<and> js_truthy propertyValues \<and>
                 js_property propertyValues itemName \<noteq> JsUndefined
               then obj_put itemName (JsObject 0 fields) collectionValues
               else collectionValues,
               hadAny \<or> hadVisible)))"

definition is_plain_object :: "js_value \<Rightarrow> bool" where
  "is_plain_object v = (case v of JsObject r fs \<Rightarrow> True | _ \<Rightarrow> False)"

definition fixed_collection_property ::
    "parameter_settings \<Rightarrow> resolver \<Rightarrow> level_settings \<Rightarrow> property_info \<Rightarrow> property_options \<Rightarrow> js_fields \<Rightarrow> js_fields \<Rightarrow>
      parameter_state result" where
  "fixed_collection_property ps resolve ls p opts np full =
     (let name = pi_name p;
          v = js_property (ls_nodeValues ls) name;
          copied = copy_value ps v;
          propertyValues = (if ps_returnDefaults ps \<and> copied = JsUndefined then copy_value ps (pi_default p) else copied);
          rootValues = root_values ls full
      in if \<not> ps_returnDefaults ps \<and> pi_multipleValues p = Some False \<and> js_truthy propertyValues \<and>
           object_keys propertyValues = []
         then Inr (Returned (copy_value ps (ls_nodeValues ls)))
         else
           rbind (rfold (\<lambda>itemName (collectionValues, hadAny).
               if pi_multipleValues p = Some True
               then rbind (multiple_items ps resolve p opts rootValues propertyValues itemName collectionValues)
                 (\<lambda>cv. Inr (cv, hadAny))
               else single_item ps resolve p opts rootValues v propertyValues itemName (collectionValues, hadAny))
             (object_keys propertyValues) ([], False))
           (\<lambda>(collectionValues, hadAny).
             let np' = (if \<not> ps_returnDefaults ps \<and> hadAny \<and> pi_multipleValues p = Some False \<and> collectionValues = [] \<and>
                    is_plain_object propertyValues \<and> object_keys propertyValues \<noteq> []
                  then obj_put name (JsObject 0 (map (\<lambda>k. (k, JsObject 0 [])) (object_keys propertyValues))) np
                  else np)
             in Inr (if collectionValues \<noteq> [] \<or> ps_returnDefaults ps
                  then Going (obj_put name (JsObject 0 collectionValues) np') (obj_put name (JsObject 0 collectionValues) full)
                  else Going np' full)))"

section \<open>All properties\<close>

definition one_property ::
    "parameter_settings \<Rightarrow> resolver \<Rightarrow> level_settings \<Rightarrow> node_property \<Rightarrow> parameter_state \<Rightarrow> parameter_state result" where
  "one_property ps resolve ls prop st =
     (case st of
        Returned v \<Rightarrow> Inr st
      | Going np full \<Rightarrow>
          let p = prop_info prop;
              v = js_property (ls_nodeValues ls) (pi_name p)
          in if \<not> js_truthy (ls_nodeValues ls) \<or>
               v = JsUndefined \<and> (\<not> ps_returnDefaults ps \<or> ls_parentType ls = Some ''collection'')
             then Inr st
             else rbind (if ps_returnNoneDisplayed ps then Inr True else displayed ps ls full p) (\<lambda>shown.
               if \<not> shown then Inr st
               else if pi_type p \<notin> {''collection'', ''fixedCollection''} then simple_property ps ls p np full
               else if ls_onlySimpleTypes ls then Inr st
               else if pi_type p = ''collection'' then collection_property ps resolve ls p (prop_options prop) np full
               else fixed_collection_property ps resolve ls p (prop_options prop) np full))"

text \<open>The loop in resolve order; the first run of a level resolves the simple types only.\<close>

definition parameter_loop ::
    "parameter_settings \<Rightarrow> resolver \<Rightarrow> level_settings \<Rightarrow> node_property list \<Rightarrow> js_value result" where
  "parameter_loop ps resolve ls props =
     (case getParameterResolveOrder props (getParameterDependencies props) of
        None \<Rightarrow> Inl (JsError ''no end'')
      | Some (Inl e) \<Rightarrow> Inl e
      | Some (Inr order) \<Rightarrow>
          rbind (rfold (\<lambda>i. one_property ps resolve ls (props ! i)) order (Going [] [])) (\<lambda>st.
            case st of Going np full \<Rightarrow> Inr (JsObject 0 np) | Returned v \<Rightarrow> Inr v))"

definition simple_values ::
    "parameter_settings \<Rightarrow> node_property list \<Rightarrow> js_value \<Rightarrow> js_value option \<Rightarrow> string option \<Rightarrow> js_value result" where
  "simple_values ps props nodeValues rootValues parentType =
     parameter_loop (ps\<lparr>ps_returnDefaults := True, ps_returnNoneDisplayed := True\<rparr>) (\<lambda>_ _ _ _. Inr JsNull)
       \<lparr>ls_nodeValues = nodeValues, ls_displayCheck = None, ls_root = rootValues, ls_parentType = parentType,
        ls_onlySimpleTypes = True, ls_duplicates = duplicate_names props\<rparr> props"

definition level_values ::
    "parameter_settings \<Rightarrow> resolver \<Rightarrow> node_property list \<Rightarrow> js_value \<Rightarrow> js_value option \<Rightarrow> string option \<Rightarrow> js_value result" where
  "level_values ps resolve props nodeValues rootValues parentType =
     rbind (if ps_returnNoneDisplayed ps then Inr None
       else rbind (simple_values ps props nodeValues rootValues parentType) (\<lambda>v. Inr (Some v))) (\<lambda>displayCheck.
         parameter_loop ps resolve
           \<lparr>ls_nodeValues = nodeValues, ls_displayCheck = displayCheck, ls_root = rootValues, ls_parentType = parentType,
            ls_onlySimpleTypes = False, ls_duplicates = duplicate_names props\<rparr> props)"

section \<open>All levels\<close>

text \<open>The levels below a list of properties, which are smaller: the recursion ends.\<close>

definition nested_levels :: "node_property list \<Rightarrow> node_property list list" where
  "nested_levels props = concat (map (\<lambda>p. case prop_options p of
     NoOptions \<Rightarrow> [] | CollectionOptions nested \<Rightarrow> [nested] | FixedOptions items \<Rightarrow> map snd items) props)"

lemma nested_levelsI:
  assumes "p \<in> set props" "prop_options p = CollectionOptions nested \<or>
    prop_options p = FixedOptions items \<and> nested \<in> snd ` set items"
  shows "nested \<in> set (nested_levels props)"
  using assms by (force simp: nested_levels_def)

lemma nested_level_smaller:
  assumes "nested \<in> set (nested_levels props)"
  shows "size_list size nested < size_list size props"
proof -
  obtain p where p: "p \<in> set props" and nested: "nested \<in> set (case prop_options p of
      NoOptions \<Rightarrow> [] | CollectionOptions nested \<Rightarrow> [nested] | FixedOptions items \<Rightarrow> map snd items)"
    using assms by (auto simp: nested_levels_def)
  have "size_list size nested < size p"
  proof (cases p)
    case (NodeProperty i opts)
    show ?thesis
    proof (cases opts)
      case (FixedOptions items)
      then obtain n where "(n, nested) \<in> set items" using p NodeProperty nested by auto
      then have "size_prod (\<lambda>_. 0) (size_list size) (n, nested) \<le> size_list (size_prod (\<lambda>_. 0) (size_list size)) items"
        by (rule size_list_estimation') simp
      then show ?thesis using NodeProperty FixedOptions by simp
    qed (use p NodeProperty nested in auto)
  qed
  moreover have "size p < size_list size props" using p by (induction props) auto
  ultimately show ?thesis by simp
qed

lemma one_property_cong:
  assumes "prop \<in> set props" "\<And>nested v rv pt. nested \<in> set (nested_levels props) \<Longrightarrow> f nested v rv pt = g nested v rv pt"
  shows "one_property ps f ls prop st = one_property ps g ls prop st"
proof -
  have f: "f nested v rv pt = g nested v rv pt" if "option_values (prop_options prop) n = Inr (Some nested)" for n nested v rv pt
  proof -
    from that obtain items where "prop_options prop = FixedOptions items" "map_of items n = Some nested"
      by (auto simp: option_values_def split: property_options.splits if_splits)
    then show ?thesis by (intro assms(2) nested_levelsI [OF assms(1)]) (force dest: map_of_SomeD)
  qed
  have "collection_property ps f ls p (prop_options prop) np full = collection_property ps g ls p (prop_options prop) np full" for p np full
    using assms nested_levelsI [OF assms(1)]
    by (auto simp: collection_property_def Let_def split: property_options.split)
  moreover have "multiple_items ps f p (prop_options prop) rv pv n cv = multiple_items ps g p (prop_options prop) rv pv n cv"
    for p rv pv n cv
    unfolding multiple_items_def
    by (intro if_cong rbind_cong rfold_cong refl) (auto split: option.split intro!: rbind_cong simp: f)
  moreover have "single_item ps f p (prop_options prop) rv v pv n acc = single_item ps g p (prop_options prop) rv v pv n acc"
    for p rv v pv n acc
    unfolding single_item_def Let_def
    by (cases acc) (auto split: option.split intro!: rbind_cong simp: f)
  ultimately show ?thesis
    unfolding one_property_def fixed_collection_property_def
    by (cases st) (simp_all cong del: if_weak_cong)
qed

lemma order_below:
  assumes "getParameterResolveOrder props deps = Some (Inr order)"
  shows "set order \<subseteq> {..<length props}"
  using order_loop_result [OF assms [unfolded getParameterResolveOrder_def] order_inv_start]
  by (auto simp: order_inv_def)

lemma level_values_cong [fundef_cong]:
  assumes "props = props'" "\<And>nested v rv pt. nested \<in> set (nested_levels props') \<Longrightarrow> f nested v rv pt = g nested v rv pt"
  shows "level_values ps f props v rv pt = level_values ps g props' v rv pt"
proof -
  have "parameter_loop ps f ls props' = parameter_loop ps g ls props'" for ls
  proof -
    have "rfold (\<lambda>i. one_property ps f ls (props' ! i)) order st = rfold (\<lambda>i. one_property ps g ls (props' ! i)) order st"
      if "getParameterResolveOrder props' (getParameterDependencies props') = Some (Inr order)" for order st
      using order_below [OF that] by (intro rfold_cong refl one_property_cong [where props = props'] assms(2)) auto
    then show ?thesis by (simp add: parameter_loop_def split: option.split sum.split)
  qed
  then show ?thesis by (simp add: assms(1) level_values_def)
qed

function getNodeParameters ::
    "parameter_settings \<Rightarrow> node_property list \<Rightarrow> js_value \<Rightarrow> js_value option \<Rightarrow> string option \<Rightarrow> js_value result" where
  "getNodeParameters ps props nodeValues rootValues parentType =
     level_values ps (\<lambda>nested v rv pt. getNodeParameters ps nested v (Some rv) (Some pt)) props nodeValues rootValues parentType"
  by pat_completeness auto
termination
  by (relation "measure (\<lambda>(ps, props, v, rv, pt). size_list size props)") (auto dest: nested_level_smaller)

declare getNodeParameters.simps [simp del]

end
