(* ===== verification/Parameter_Properties.thy ===== *)
theory Parameter_Properties
  imports Node_Parameters Filter_Properties
begin

text \<open>
  A node is stored without the values that are defaults: filling the defaults in again gives the same
  parameters. The proofs follow one level of simple properties through the loop.
\<close>

section \<open>A level of simple properties\<close>

definition flat_level :: "parameter_settings \<Rightarrow> node_property list \<Rightarrow> bool" where
  "flat_level ps props \<longleftrightarrow>
     list_all (\<lambda>p. pi_type (prop_info p) \<notin> {''collection'', ''fixedCollection''}) props \<and>
     distinct (names_of props) \<and> resolvable props (getParameterDependencies props) \<and>
     (ps_returnNoneDisplayed ps \<or> list_all (\<lambda>p. pi_displayOptions (prop_info p) = None) props)"

lemma flat_levelD:
  assumes "flat_level ps props" "i < length props"
  shows "pi_type (prop_info (props ! i)) \<notin> {''collection'', ''fixedCollection''}"
    "ps_returnNoneDisplayed ps \<or> pi_displayOptions (prop_info (props ! i)) = None"
  using assms by (auto simp: flat_level_def list_all_length)

lemma flat_names: "flat_level ps props \<Longrightarrow> i < length props \<Longrightarrow> j < length props \<Longrightarrow>
  prop_name (props ! i) = prop_name (props ! j) \<longleftrightarrow> i = j"
  by (auto simp: flat_level_def names_of_def distinct_conv_nth)

lemma duplicate_names_distinct: "distinct (names_of props) \<Longrightarrow> duplicate_names props = []"
proof -
  have "fst (fold (\<lambda>p (duplicates, names). let name = prop_name p in if name \<in> set names
      then (if name \<in> set duplicates then duplicates else duplicates @ [name], names)
      else (duplicates, names @ [name])) props ([], ns)) = []"
    if "distinct (names_of props)" "set ns \<inter> set (names_of props) = {}" for ns
    using that
  proof (induction props arbitrary: ns)
    case (Cons p props)
    then have "prop_name p \<notin> set ns" "distinct (names_of props)" "set (ns @ [prop_name p]) \<inter> set (names_of props) = {}"
      by (auto simp: names_of_def)
    then show ?case using Cons.IH [of "ns @ [prop_name p]"] by simp
  qed simp
  from this [of "[]"] show "distinct (names_of props) \<Longrightarrow> duplicate_names props = []"
    by (simp add: duplicate_names_def)
qed

definition stripped :: "property_info \<Rightarrow> js_value \<Rightarrow> js_value" where
  "stripped p v = (case v of JsString s \<Rightarrow> if pi_noDataExpression p \<and> starts_with ''='' s then JsString (drop 1 s) else v | _ \<Rightarrow> v)"

text \<open>What a level sets for a simple property.\<close>

definition value_set :: "parameter_settings \<Rightarrow> string option \<Rightarrow> js_value \<Rightarrow> property_info \<Rightarrow> js_value option" where
  "value_set ps parentType nodeValues p =
     (let v = js_property nodeValues (pi_name p)
      in if ps_returnDefaults ps then Some (stripped p (with_default ps p v))
         else if v \<noteq> JsUndefined \<and> differs_from_default ps parentType p v then Some (copy_value ps v)
         else None)"

lemma strip_put: "\<exists>np' full'. strip_expression p (obj_put (pi_name p) w np) full = Going np' full' \<and>
  map_of np' = (map_of np)(pi_name p \<mapsto> stripped p w)"
  by (cases w) (auto simp: strip_expression_def stripped_def jsobj.lookup_put)

lemma strip_missing: "map_of np (pi_name p) = None \<Longrightarrow> strip_expression p np full = Going np full"
  by (simp add: strip_expression_def)

lemma one_simple:
  assumes "pi_type (prop_info prop) \<notin> {''collection'', ''fixedCollection''}"
    and "ps_returnNoneDisplayed ps \<or> pi_displayOptions (prop_info prop) = None"
    and "ls_duplicates ls = []" "js_truthy (ls_nodeValues ls)" "ls_parentType ls \<noteq> Some ''collection''"
    and unset: "map_of np (prop_name prop) \<in> {None, value_set ps (ls_parentType ls) (ls_nodeValues ls) (prop_info prop)}"
  shows "\<exists>np' full'. one_property ps f ls prop (Going np full) = Inr (Going np' full') \<and>
    map_of np' = (map_of np)(prop_name prop := value_set ps (ls_parentType ls) (ls_nodeValues ls) (prop_info prop))"
proof -
  let ?p = "prop_info prop"
  let ?v = "js_property (ls_nodeValues ls) (pi_name ?p)"
  have shown: "(if ps_returnNoneDisplayed ps then Inr True else displayed ps ls full ?p) = Inr True"
    using assms(2) by (auto simp: displayed_def displayParameter_def)
  have simple: "simple_property ps ls ?p np full =
      (if ps_returnDefaults ps then Inr (strip_expression ?p (obj_put (pi_name ?p) (with_default ps ?p ?v) np)
          (obj_put (pi_name ?p) (with_default ps ?p ?v) full))
       else if differs_from_default ps (ls_parentType ls) ?p ?v
       then Inr (Going (obj_put (pi_name ?p) (copy_value ps ?v) np) (obj_put (pi_name ?p) (copy_value ps ?v) full))
       else Inr (strip_expression ?p np full))"
    using assms(3) by (simp add: simple_property_def Let_def)
  show ?thesis
  proof (cases "ps_returnDefaults ps")
    case True
    then show ?thesis using strip_put [of ?p "with_default ps ?p ?v" np "obj_put (pi_name ?p) (with_default ps ?p ?v) full"]
      assms(1,4,5) shown simple by (auto simp: one_property_def value_set_def Let_def)
  next
    case False
    show ?thesis
    proof (cases "?v \<noteq> JsUndefined \<and> differs_from_default ps (ls_parentType ls) ?p ?v")
      case True
      then show ?thesis using False assms(1,4) shown simple
        by (auto simp: one_property_def value_set_def Let_def jsobj.lookup_put)
    next
      case same: False
      then have none: "value_set ps (ls_parentType ls) (ls_nodeValues ls) ?p = None"
        using False by (auto simp: value_set_def Let_def)
      then have "map_of np (pi_name ?p) = None" using unset by simp
      then show ?thesis using False same none assms(1,4) shown simple strip_missing [of np ?p full]
        by (auto simp: one_property_def Let_def fun_upd_idem)
    qed
  qed
qed

text \<open>The loop sets what each property sets, in any order.\<close>

lemma simple_loop:
  assumes flat: "flat_level ps props" and order: "set order \<subseteq> {..<length props}"
    and ls: "ls_duplicates ls = []" "js_truthy (ls_nodeValues ls)" "ls_parentType ls \<noteq> Some ''collection''"
    and "\<And>i. i < length props \<Longrightarrow> map_of np (prop_name (props ! i)) \<in>
      {None, value_set ps (ls_parentType ls) (ls_nodeValues ls) (prop_info (props ! i))}"
  shows "\<exists>np' full'. rfold (\<lambda>i. one_property ps f ls (props ! i)) order (Going np full) = Inr (Going np' full') \<and>
    (\<forall>i < length props. map_of np' (prop_name (props ! i)) =
      (if i \<in> set order then value_set ps (ls_parentType ls) (ls_nodeValues ls) (prop_info (props ! i))
       else map_of np (prop_name (props ! i))))"
  using order assms(6)
proof (induction order arbitrary: np full)
  case (Cons i order)
  let ?set = "\<lambda>i. value_set ps (ls_parentType ls) (ls_nodeValues ls) (prop_info (props ! i))"
  have i: "i < length props" using Cons.prems(1) by simp
  obtain np1 full1 where one: "one_property ps f ls (props ! i) (Going np full) = Inr (Going np1 full1)"
    "map_of np1 = (map_of np)(prop_name (props ! i) := ?set i)"
    using one_simple [OF flat_levelD [OF flat i] ls Cons.prems(2) [OF i]] by blast
  have "map_of np1 (prop_name (props ! j)) \<in> {None, ?set j}" if "j < length props" for j
    using Cons.prems(2) [OF that] flat_names [OF flat i that] one(2) by auto
  then obtain np' full' where "rfold (\<lambda>i. one_property ps f ls (props ! i)) order (Going np1 full1) = Inr (Going np' full')"
    "\<forall>j < length props. map_of np' (prop_name (props ! j)) = (if j \<in> set order then ?set j else map_of np1 (prop_name (props ! j)))"
    using Cons.IH [of np1 full1] Cons.prems(1) by auto
  moreover have "map_of np1 (prop_name (props ! j)) = (if j = i then ?set i else map_of np (prop_name (props ! j)))"
    if "j < length props" for j
    using one(2) flat_names [OF flat i that] by auto
  ultimately show ?case using one(1) by auto
qed simp

section \<open>The whole level\<close>

lemma flat_order:
  assumes "flat_level ps props"
  obtains order where "getParameterResolveOrder props (getParameterDependencies props) = Some (Inr order)"
    "set order = {..<length props}"
proof -
  have ok: "resolvable props (getParameterDependencies props)" using assms by (simp add: flat_level_def)
  obtain order where order: "getParameterResolveOrder props (getParameterDependencies props) = Some (Inr order)"
    using order_loop_ends [OF order_inv_start] order_loop_succeeds [OF ok order_inv_start]
    unfolding getParameterResolveOrder_def by (metis not_None_eq sum.exhaust)
  then obtain t where "order_inv props (getParameterDependencies props) t" "os_queue t = []" "os_order t = order"
    using order_loop_result [OF _ order_inv_start] unfolding getParameterResolveOrder_def by blast
  then have "{..<length props} \<subseteq> set order" unfolding order_inv_def by force
  then show ?thesis using order order_below [OF order] that by blast
qed

lemma flat_loop:
  assumes "flat_level ps props" "ls_duplicates ls = []" "js_truthy (ls_nodeValues ls)" "ls_parentType ls \<noteq> Some ''collection''"
  shows "\<exists>np. parameter_loop ps f ls props = Inr (JsObject 0 np) \<and>
    (\<forall>i < length props. map_of np (prop_name (props ! i)) =
      value_set ps (ls_parentType ls) (ls_nodeValues ls) (prop_info (props ! i)))"
proof -
  obtain order where order: "getParameterResolveOrder props (getParameterDependencies props) = Some (Inr order)"
    "set order = {..<length props}" using flat_order [OF assms(1)] .
  obtain np full where "rfold (\<lambda>i. one_property ps f ls (props ! i)) order (Going [] []) = Inr (Going np full)"
    "\<forall>i < length props. map_of np (prop_name (props ! i)) =
      (if i \<in> set order then value_set ps (ls_parentType ls) (ls_nodeValues ls) (prop_info (props ! i))
       else map_of [] (prop_name (props ! i)))"
    using simple_loop [OF assms(1) _ assms(2-4), of order "[]" f "[]"] order(2) by auto
  then show ?thesis using order by (auto simp: parameter_loop_def)
qed

lemma flat_values:
  assumes "flat_level ps props" "js_truthy v" "parentType \<noteq> Some ''collection''"
  shows "\<exists>np. getNodeParameters ps props v rv parentType = Inr (JsObject 0 np) \<and>
    (\<forall>i < length props. map_of np (prop_name (props ! i)) = value_set ps parentType v (prop_info (props ! i)))"
proof -
  have "duplicate_names props = []" using assms(1) duplicate_names_distinct by (simp add: flat_level_def)
  moreover have "flat_level (ps\<lparr>ps_returnDefaults := True, ps_returnNoneDisplayed := True\<rparr>) props"
    using assms(1) by (simp add: flat_level_def)
  ultimately have "\<exists>w. simple_values ps props v rv parentType = Inr w"
    using flat_loop [of "ps\<lparr>ps_returnDefaults := True, ps_returnNoneDisplayed := True\<rparr>" props
        "\<lparr>ls_nodeValues = v, ls_displayCheck = None, ls_root = rv, ls_parentType = parentType,
          ls_onlySimpleTypes = True, ls_duplicates = duplicate_names props\<rparr>" "\<lambda>_ _ _ _. Inr JsNull"] assms(2,3)
    unfolding simple_values_def by auto
  then obtain check where check: "(if ps_returnNoneDisplayed ps then Inr None
      else rbind (simple_values ps props v rv parentType) (\<lambda>v. Inr (Some v))) = Inr check"
    by (cases "ps_returnNoneDisplayed ps") auto
  let ?ls = "\<lparr>ls_nodeValues = v, ls_displayCheck = check, ls_root = rv, ls_parentType = parentType,
      ls_onlySimpleTypes = False, ls_duplicates = duplicate_names props\<rparr>"
  have "getNodeParameters ps props v rv parentType = parameter_loop ps
      (\<lambda>nested v rv pt. getNodeParameters ps nested v (Some rv) (Some pt)) ?ls props"
    by (subst getNodeParameters.simps) (simp add: level_values_def check)
  then show ?thesis
    using flat_loop [OF assms(1), of ?ls] assms(2,3) \<open>duplicate_names props = []\<close> by simp
qed

text \<open>\<open>toJSON\<close> of a date is a text, or \<open>null\<close> if the date is invalid; copying keeps both.\<close>

definition json_dates :: "parameter_runtime \<Rightarrow> bool" where
  "json_dates pr \<longleftrightarrow> (\<forall>v. date_toJSON pr v = JsNull \<or> (\<exists>s. date_toJSON pr v = JsString s))"

lemma copied_date: "json_dates pr \<Longrightarrow> deepCopy tj (date_toJSON pr v) = date_toJSON pr v \<and> date_toJSON pr v \<noteq> JsUndefined"
  unfolding json_dates_def by (metis deepCopy.simps(6,9) js_value.distinct(1,7))

lemma copy_twice: "json_dates pr \<Longrightarrow> deepCopy (date_toJSON pr) (deepCopy (date_toJSON pr) v) = deepCopy (date_toJSON pr) v"
  by (induction v) (auto simp: copied_date)

lemma copy_undefined: "json_dates pr \<Longrightarrow> deepCopy (date_toJSON pr) v = JsUndefined \<longleftrightarrow> v = JsUndefined"
  by (cases v) (simp_all add: copied_date)

lemma copy_primitive: "js_typeof v \<noteq> ''object'' \<Longrightarrow> deepCopy tj v = v"
  by (cases v) simp_all

lemma identical_primitive: "js_identical v w \<Longrightarrow> js_typeof v \<noteq> ''object'' \<Longrightarrow> v = w"
  by (cases v; cases w) simp_all

section \<open>Storing and restoring\<close>

lemma with_default_copied:
  "json_dates (ps_runtime ps) \<Longrightarrow> with_default ps p (copy_value ps v) = with_default ps p v"
  by (simp add: with_default_def copy_twice copy_undefined)

text \<open>A value that is not stored is the default, or an object that lodash takes for equal to it.\<close>

lemma with_default_same:
  assumes "\<not> differs_from_default ps None p v" "js_typeof v \<noteq> ''object''"
  shows "with_default ps p v = with_default ps p JsUndefined"
proof -
  have "v = pi_default p" using assms identical_primitive by (simp add: differs_from_default_def)
  then show ?thesis using assms(2) copy_primitive [of v] by (auto simp: with_default_def)
qed

lemma restored_property:
  assumes dates: "json_dates (ps_runtime ps)"
    and full: "full = Some (stripped p (with_default ps p v))"
    and stored: "stored = (if v \<noteq> JsUndefined \<and> differs_from_default ps None p v then Some (copy_value ps v) else None)"
    and restored: "restored = Some (stripped p (with_default ps p (case stored of None \<Rightarrow> JsUndefined | Some w \<Rightarrow> w)))"
  shows "restored = full \<or> lodash_isEqual (ps_runtime ps) v (pi_default p) \<and>
    restored = Some (stripped p (with_default ps p JsUndefined))"
proof (cases "v \<noteq> JsUndefined \<and> differs_from_default ps None p v")
  case True
  then show ?thesis using full stored restored with_default_copied [OF dates] by simp
next
  case False
  then have r: "restored = Some (stripped p (with_default ps p JsUndefined))" using stored restored by auto
  consider "v = JsUndefined" | "\<not> differs_from_default ps None p v" "js_typeof v \<noteq> ''object''"
    | "lodash_isEqual (ps_runtime ps) v (pi_default p)"
    using False unfolding differs_from_default_def by blast
  then show ?thesis
  proof cases
    case 2
    then show ?thesis using full r with_default_same [OF 2] by simp
  qed (use full r in simp_all)
qed

text \<open>
  C37: On a level of simple properties, that is without collections, with different names, dependencies that
  can be resolved, and no display conditions unless all properties are returned, the values that differ
  from the defaults are enough: filling the defaults in after the others were left out gives every property
  the value that filling them in at once gives it, or the default for an object that equals it. The texts
  of dates are a parameter, which gives a string or, for an invalid date, \<open>null\<close>.
\<close>
theorem defaults_restored:
  assumes flat: "flat_level ps props" and dates: "json_dates (ps_runtime ps)"
  shows "\<exists>stored full restored.
    getNodeParameters (ps\<lparr>ps_returnDefaults := False\<rparr>) props (JsObject r fs) None None = Inr (JsObject 0 stored) \<and>
    getNodeParameters (ps\<lparr>ps_returnDefaults := True\<rparr>) props (JsObject r fs) None None = Inr (JsObject 0 full) \<and>
    getNodeParameters (ps\<lparr>ps_returnDefaults := True\<rparr>) props (JsObject 0 stored) None None = Inr (JsObject 0 restored) \<and>
    list_all (\<lambda>p. map_of restored (prop_name p) = map_of full (prop_name p) \<or>
      lodash_isEqual (ps_runtime ps) (js_property (JsObject r fs) (prop_name p)) (pi_default (prop_info p)) \<and>
      map_of restored (prop_name p) = Some (stripped (prop_info p) (with_default ps (prop_info p) JsUndefined))) props"
proof -
  let ?T = "ps\<lparr>ps_returnDefaults := True\<rparr>" and ?F = "ps\<lparr>ps_returnDefaults := False\<rparr>"
  let ?v = "\<lambda>i. js_property (JsObject r fs) (prop_name (props ! i))"
  have flat': "flat_level ?T props" "flat_level ?F props" using flat by (simp_all add: flat_level_def)
  have same: "with_default ?T = with_default ps" "differs_from_default ?F = differs_from_default ps"
    by (rule ext, simp add: with_default_def [abs_def] differs_from_default_def [abs_def])+
  obtain stored where stored: "getNodeParameters ?F props (JsObject r fs) None None = Inr (JsObject 0 stored)"
    "\<forall>i < length props. map_of stored (prop_name (props ! i)) = value_set ?F None (JsObject r fs) (prop_info (props ! i))"
    using flat_values [OF flat'(2), of "JsObject r fs" None None] by auto
  obtain full where full: "getNodeParameters ?T props (JsObject r fs) None None = Inr (JsObject 0 full)"
    "\<forall>i < length props. map_of full (prop_name (props ! i)) = value_set ?T None (JsObject r fs) (prop_info (props ! i))"
    using flat_values [OF flat'(1), of "JsObject r fs" None None] by auto
  obtain restored where restored: "getNodeParameters ?T props (JsObject 0 stored) None None = Inr (JsObject 0 restored)"
    "\<forall>i < length props. map_of restored (prop_name (props ! i)) = value_set ?T None (JsObject 0 stored) (prop_info (props ! i))"
    using flat_values [OF flat'(1), of "JsObject 0 stored" None None] by auto
  have "map_of restored (prop_name (props ! i)) = map_of full (prop_name (props ! i)) \<or>
      lodash_isEqual (ps_runtime ps) (?v i) (pi_default (prop_info (props ! i))) \<and>
      map_of restored (prop_name (props ! i)) =
        Some (stripped (prop_info (props ! i)) (with_default ps (prop_info (props ! i)) JsUndefined))"
    if i: "i < length props" for i
  proof -
    let ?p = "prop_info (props ! i)"
    obtain v where v: "v = ?v i" by blast
    have "map_of full (pi_name ?p) = Some (stripped ?p (with_default ps ?p v))"
      using full(2) i by (simp add: value_set_def same Let_def v del: js_property.simps)
    moreover have "map_of stored (pi_name ?p) =
        (if v \<noteq> JsUndefined \<and> differs_from_default ps None ?p v then Some (copy_value ps v) else None)"
      using stored(2) i by (simp add: value_set_def same Let_def v del: js_property.simps)
    moreover have "map_of restored (pi_name ?p) = Some (stripped ?p (with_default ps ?p
        (case map_of stored (pi_name ?p) of None \<Rightarrow> JsUndefined | Some w \<Rightarrow> w)))"
      using restored(2) i by (simp add: value_set_def same Let_def)
    ultimately show ?thesis unfolding v [symmetric] by (rule restored_property [OF dates])
  qed
  then show ?thesis using stored(1) full(1) restored(1) by (auto simp: list_all_length)
qed

definition sample_settings :: parameter_settings where
  "sample_settings = \<lparr>ps_runtime = \<lparr>pr_runtime = sample_runtime, lodash_get = js_property, lodash_isEqual = (=),
     date_toJSON = (\<lambda>v. case v of JsDate r (Some t) \<Rightarrow> JsString [] | _ \<Rightarrow> JsNull)\<rparr>, ps_typeVersion = Some 1, ps_description = None, ps_returnDefaults = True,
     ps_returnNoneDisplayed = True\<rparr>"

theorem defaults_restored_witness:
  "\<exists>stored restored.
    getNodeParameters (sample_settings\<lparr>ps_returnDefaults := False\<rparr>) [sample_property ''a'' [''b''], sample_property ''b'' []]
      (JsObject 0 [(''a'', JsString ''d''), (''b'', JsString ''x'')]) None None = Inr (JsObject 0 stored) \<and>
    getNodeParameters (sample_settings\<lparr>ps_returnDefaults := True\<rparr>) [sample_property ''a'' [''b''], sample_property ''b'' []]
      (JsObject 0 stored) None None = Inr (JsObject 0 restored)"
proof -
  have "flat_level sample_settings [sample_property ''a'' [''b''], sample_property ''b'' []]" by code_simp
  moreover have "json_dates (ps_runtime sample_settings)" by (auto simp: json_dates_def sample_settings_def split: js_value.split option.split)
  ultimately show ?thesis
    using defaults_restored [of sample_settings "[sample_property ''a'' [''b''], sample_property ''b'' []]" 0
        "[(''a'', JsString ''d''), (''b'', JsString ''x'')]"] by blast
qed

section \<open>Smaller observations\<close>

definition sample_fixed :: "js_value \<Rightarrow> bool option \<Rightarrow> node_property" where
  "sample_fixed d multiple = NodeProperty \<lparr>pi_name = ''f'', pi_type = ''fixedCollection'', pi_default = d,
     pi_displayOptions = None, pi_multipleValues = multiple, pi_noDataExpression = False\<rparr>
     (FixedOptions [(''item'', [sample_property ''q'' []])])"

text \<open>
  The default of a fixed collection that is not set is gone through, but its items are looked up in the
  missing value.
\<close>

lemma level_by_values: "(\<And>f. level_values ps f props v rv pt = r) \<Longrightarrow> getNodeParameters ps props v rv pt = r"
  by (subst getNodeParameters.simps) simp

lemma fixed_default_fails:
  "getNodeParameters sample_settings [sample_fixed (JsObject 0 [(''item'', JsObject 0 [])]) None] (JsObject 0 []) None None =
    Inl TypeError"
  by (rule level_by_values) code_simp

text \<open>An empty fixed collection with one value ends the whole level: its values are returned as they are.\<close>

lemma empty_fixed_returns_all:
  "getNodeParameters (sample_settings\<lparr>ps_returnDefaults := False\<rparr>)
     [sample_property ''a'' [], sample_fixed (JsObject 0 []) (Some False)]
     (JsObject 0 [(''a'', JsString ''d''), (''unknown'', JsNull), (''f'', JsObject 0 [])]) None None =
   Inr (JsObject 0 [(''a'', JsString ''d''), (''unknown'', JsNull), (''f'', JsObject 0 [])])"
  "getNodeParameters (sample_settings\<lparr>ps_returnDefaults := False\<rparr>)
     [sample_property ''a'' [], sample_fixed (JsObject 0 []) (Some False)]
     (JsObject 0 [(''a'', JsString ''d''), (''unknown'', JsNull)]) None None = Inr (JsObject 0 [])"
  by (rule level_by_values, code_simp)+

end
