(* ===== verification/Augmented_Objects.thy ===== *)
theory Augmented_Objects
  imports N8n_Prelude
begin

text \<open>
  \<open>packages/workflow/src/augment-object.ts\<close>: proxies through which code gets the data of an execution and
  can change them without changing the originals. Objects live in a store and are compared by address.
  The names of properties are not those of the prototypes, and those of arrays are indexes and
  \<open>length\<close>.
\<close>

section \<open>Data\<close>

type_synonym addr = nat

text \<open>A primitive value is named by its text; \<open>ABuiltin\<close> is a function of the language.\<close>

datatype aug_value = AUndefined | APrimitive string | ABuiltin string | ARef addr

type_synonym aug_fields = "(string \<times> aug_value) list"

text \<open>
  An array may have holes. Dates, regular expressions and arrays of bytes have a content, the text of
  \<open>toJSON\<close> and \<open>toString\<close>, and properties of their own as other objects have, \<open>lastIndex\<close> of a regular
  expression among them. A proxy has the address of its data, and \<open>newData\<close>; that of an object has
  \<open>deletedProperties\<close> as well. The proxies are the objects of \<open>augmentedObjects\<close>.
\<close>

datatype aug_cell =
    ObjectCell aug_fields
  | ArrayCell "aug_value option list"
  | DateCell string aug_fields
  | RegExpCell string aug_fields
  | BytesCell string aug_fields
  | ObjectProxy addr aug_fields "string list"
  | ArrayProxy addr "aug_value option list option"

type_synonym store = "aug_cell list"

fun own_fields :: "aug_cell \<Rightarrow> aug_fields" where
  "own_fields (ObjectCell fs) = fs"
| "own_fields (DateCell t fs) = fs"
| "own_fields (RegExpCell t fs) = fs"
| "own_fields (BytesCell t fs) = fs"
| "own_fields c = []"

fun put_fields :: "aug_fields \<Rightarrow> aug_cell \<Rightarrow> aug_cell" where
  "put_fields gs (ObjectCell fs) = ObjectCell gs"
| "put_fields gs (DateCell t fs) = DateCell t gs"
| "put_fields gs (RegExpCell t fs) = RegExpCell t gs"
| "put_fields gs (BytesCell t fs) = BytesCell t gs"
| "put_fields gs c = c"

fun put_content :: "string \<Rightarrow> aug_cell \<Rightarrow> aug_cell" where
  "put_content u (DateCell t fs) = DateCell u fs"
| "put_content u (RegExpCell t fs) = RegExpCell u fs"
| "put_content u (BytesCell t fs) = BytesCell u fs"
| "put_content u c = c"

definition cell_at :: "store \<Rightarrow> addr \<Rightarrow> aug_cell" where
  "cell_at h a = (if a < length h then h ! a else ObjectCell [])"

definition alloc :: "store \<Rightarrow> aug_cell \<Rightarrow> store \<times> addr" where
  "alloc h c = (h @ [c], length h)"

definition is_augmented :: "store \<Rightarrow> addr \<Rightarrow> bool" where
  "is_augmented h a = (case cell_at h a of ObjectProxy d new deleted \<Rightarrow> True | ArrayProxy d new \<Rightarrow> True | _ \<Rightarrow> False)"

definition is_array :: "store \<Rightarrow> addr \<Rightarrow> bool" where
  "is_array h a = (case cell_at h a of ArrayCell xs \<Rightarrow> True | ArrayProxy d new \<Rightarrow> True | _ \<Rightarrow> False)"

text \<open>\<open>augmentArray\<close> is given arrays, and \<open>augmentObject\<close> other objects.\<close>

definition augmentArray :: "store \<Rightarrow> addr \<Rightarrow> store \<times> addr" where
  "augmentArray h a = (if is_augmented h a then (h, a) else alloc h (ArrayProxy a None))"

definition augmentObject :: "store \<Rightarrow> addr \<Rightarrow> store \<times> addr" where
  "augmentObject h a = (if is_augmented h a then (h, a) else alloc h (ObjectProxy a [] []))"

definition augment :: "store \<Rightarrow> aug_value \<Rightarrow> store \<times> aug_value" where
  "augment h v =
     (case v of
        ARef a \<Rightarrow>
          (case cell_at h a of
             RegExpCell t fs \<Rightarrow> (h, v)
           | DateCell t fs \<Rightarrow> map_prod id ARef (alloc h (DateCell t []))
           | BytesCell t fs \<Rightarrow> map_prod id ARef (alloc h (BytesCell t []))
           | ArrayCell xs \<Rightarrow> map_prod id ARef (augmentArray h a)
           | ArrayProxy d new \<Rightarrow> map_prod id ARef (augmentArray h a)
           | _ \<Rightarrow> map_prod id ARef (augmentObject h a))
      | _ \<Rightarrow> (h, v))"

section \<open>Proxies of arrays\<close>

definition target_array :: "store \<Rightarrow> addr \<Rightarrow> aug_value option list" where
  "target_array h d = (case cell_at h d of ArrayCell xs \<Rightarrow> xs | _ \<Rightarrow> [])"

definition element :: "aug_value option list \<Rightarrow> nat \<Rightarrow> aug_value" where
  "element xs i = (if i < length xs then case xs ! i of None \<Rightarrow> AUndefined | Some v \<Rightarrow> v else AUndefined)"

text \<open>Writing an index extends the array with holes; the spread in \<open>getData\<close> fills the holes.\<close>

definition write_index :: "aug_value option list \<Rightarrow> nat \<Rightarrow> aug_value \<Rightarrow> aug_value option list" where
  "write_index xs i v = (xs @ replicate (Suc i - length xs) None)[i := Some v]"

definition getData :: "store \<Rightarrow> addr \<Rightarrow> aug_value option list option \<Rightarrow> aug_value option list" where
  "getData h d new = (case new of
     None \<Rightarrow> map (\<lambda>x. Some (case x of None \<Rightarrow> AUndefined | Some v \<Rightarrow> v)) (target_array h d) | Some xs \<Rightarrow> xs)"

definition array_proxy_get :: "store \<Rightarrow> addr \<Rightarrow> addr \<Rightarrow> aug_value option list option \<Rightarrow> nat \<Rightarrow> store \<times> aug_value" where
  "array_proxy_get h p d new i =
     (let v = element (case new of None \<Rightarrow> target_array h d | Some xs \<Rightarrow> xs) i;
          (h', v') = augment h v
      in if v' \<noteq> v then (h'[p := ArrayProxy d (Some (write_index (getData h' d new) i v'))], v')
         else (h', v))"

definition array_proxy_set :: "store \<Rightarrow> addr \<Rightarrow> addr \<Rightarrow> aug_value option list option \<Rightarrow> nat \<Rightarrow> aug_value \<Rightarrow> store" where
  "array_proxy_set h p d new i v =
     (let (h', v') = augment h v in h'[p := ArrayProxy d (Some (write_index (getData h d new) i v'))])"

definition set_array_length :: "aug_value option list \<Rightarrow> nat \<Rightarrow> aug_value option list" where
  "set_array_length xs n = take n xs @ replicate (n - length xs) None"

definition array_proxy_deleteProperty :: "store \<Rightarrow> addr \<Rightarrow> addr \<Rightarrow> aug_value option list option \<Rightarrow> nat \<Rightarrow> store" where
  "array_proxy_deleteProperty h p d new i = h[p := ArrayProxy d (Some ((getData h d new)[i := None]))]"

definition array_length :: "store \<Rightarrow> addr \<Rightarrow> aug_value option list option \<Rightarrow> nat" where
  "array_length h d new = length (case new of None \<Rightarrow> target_array h d | Some xs \<Rightarrow> xs)"

section \<open>Proxies of objects\<close>

definition target_fields :: "store \<Rightarrow> addr \<Rightarrow> aug_fields" where
  "target_fields h d = own_fields (cell_at h d)"

definition field :: "aug_fields \<Rightarrow> string \<Rightarrow> aug_value" where
  "field fs key = (case map_of fs key of None \<Rightarrow> AUndefined | Some v \<Rightarrow> v)"

definition object_get ::
    "store \<Rightarrow> addr \<Rightarrow> addr \<Rightarrow> aug_fields \<Rightarrow> string list \<Rightarrow> string \<Rightarrow> store \<times> aug_value" where
  "object_get h p d new deleted key =
     (if key = ''constructor'' then (h, ABuiltin ''Object'')
      else if key \<in> set deleted then (h, AUndefined)
      else if key \<in> set (keys new) then (h, field new key)
      else
        let v = field (target_fields h d) key
        in case v of
             ARef a \<Rightarrow>
               (case cell_at h a of
                  RegExpCell t fs \<Rightarrow> (h, APrimitive t)
                | DateCell t fs \<Rightarrow> (h, APrimitive t)
                | _ \<Rightarrow>
                    let (h', v') = augment h v
                    in if v' \<noteq> v then (h'[p := ObjectProxy d (obj_put key v' new) deleted], v') else (h', v))
           | _ \<Rightarrow> (h, v))"

definition object_deleteProperty :: "store \<Rightarrow> addr \<Rightarrow> addr \<Rightarrow> aug_fields \<Rightarrow> string list \<Rightarrow> string \<Rightarrow> store" where
  "object_deleteProperty h p d new deleted key =
     h[p := ObjectProxy d (map_delete key new)
       (if key \<in> set (keys (target_fields h d)) then key # deleted else deleted)]"

definition object_set :: "store \<Rightarrow> addr \<Rightarrow> addr \<Rightarrow> aug_fields \<Rightarrow> string list \<Rightarrow> string \<Rightarrow> aug_value \<Rightarrow> store" where
  "object_set h p d new deleted key v =
     (if v = AUndefined
      then h[p := ObjectProxy d (map_delete key new)
        (if key \<in> set (keys (target_fields h d)) then key # deleted else deleted)]
      else h[p := ObjectProxy d (obj_put key v new) (removeAll key deleted)])"

definition object_has :: "store \<Rightarrow> addr \<Rightarrow> aug_fields \<Rightarrow> string list \<Rightarrow> string \<Rightarrow> bool" where
  "object_has h d new deleted key \<longleftrightarrow>
     key \<notin> set deleted \<and> (key \<in> set (keys new) \<or> key \<in> set (keys (target_fields h d)))"

definition object_ownKeys :: "store \<Rightarrow> addr \<Rightarrow> aug_fields \<Rightarrow> string list \<Rightarrow> string list" where
  "object_ownKeys h d new deleted =
     (let originalKeys = keys (target_fields h d); newKeys = keys new
      in filter (\<lambda>key. key \<notin> set deleted) (originalKeys @ filter (\<lambda>key. key \<notin> set originalKeys) newKeys))"

text \<open>
  The descriptors of properties: \<open>getOwnPropertyDescriptor\<close> of both kinds of proxies gives the value of the
  new or of the original data as it is; a missing one is \<open>defaultPropertyDescriptor\<close> for an array with new
  data. \<open>defineProperty\<close> has no trap, so it goes to the original data.
\<close>

definition object_getOwnPropertyDescriptor ::
    "store \<Rightarrow> addr \<Rightarrow> aug_fields \<Rightarrow> string list \<Rightarrow> string \<Rightarrow> aug_value option" where
  "object_getOwnPropertyDescriptor h d new deleted key =
     (if key \<in> set deleted then None
      else map_of (if key \<in> set (keys new) then new else target_fields h d) key)"

definition array_getOwnPropertyDescriptor ::
    "store \<Rightarrow> addr \<Rightarrow> aug_value option list option \<Rightarrow> nat \<Rightarrow> aug_value option" where
  "array_getOwnPropertyDescriptor h d new i =
     (let xs = target_array h d; original = (if i < length xs then xs ! i else None)
      in if new = None then original else case original of None \<Rightarrow> Some AUndefined | Some v \<Rightarrow> Some v)"

section \<open>Access to any object\<close>

definition read_field :: "store \<Rightarrow> addr \<Rightarrow> string \<Rightarrow> store \<times> aug_value" where
  "read_field h a key =
     (case cell_at h a of
        ObjectProxy d new deleted \<Rightarrow> object_get h a d new deleted key
      | c \<Rightarrow> (h, field (own_fields c) key))"

definition write_field :: "store \<Rightarrow> addr \<Rightarrow> string \<Rightarrow> aug_value \<Rightarrow> store" where
  "write_field h a key v =
     (case cell_at h a of
        ObjectProxy d new deleted \<Rightarrow> object_set h a d new deleted key v
      | c \<Rightarrow> h[a := put_fields (obj_put key v (own_fields c)) c])"

definition delete_field :: "store \<Rightarrow> addr \<Rightarrow> string \<Rightarrow> store" where
  "delete_field h a key =
     (case cell_at h a of
        ObjectProxy d new deleted \<Rightarrow> object_deleteProperty h a d new deleted key
      | c \<Rightarrow> h[a := put_fields (map_delete key (own_fields c)) c])"

text \<open>The methods of a date, of a regular expression and of bytes that change them; they fail on proxies.\<close>

definition write_content :: "store \<Rightarrow> addr \<Rightarrow> string \<Rightarrow> store" where
  "write_content h a u = h[a := put_content u (cell_at h a)]"

text \<open>\<open>Object.getOwnPropertyDescriptor\<close> and \<open>Object.defineProperty\<close> on an object or the proxy of one.\<close>

definition read_descriptor :: "store \<Rightarrow> addr \<Rightarrow> string \<Rightarrow> aug_value option" where
  "read_descriptor h a key =
     (case cell_at h a of
        ObjectProxy d new deleted \<Rightarrow> object_getOwnPropertyDescriptor h d new deleted key
      | c \<Rightarrow> map_of (own_fields c) key)"

definition define_field :: "store \<Rightarrow> addr \<Rightarrow> string \<Rightarrow> aug_value \<Rightarrow> store" where
  "define_field h a key v =
     (let b = (case cell_at h a of ObjectProxy d new deleted \<Rightarrow> d | _ \<Rightarrow> a); c = cell_at h b
      in h[b := put_fields (obj_put key v (own_fields c)) c])"

definition read_element :: "store \<Rightarrow> addr \<Rightarrow> nat \<Rightarrow> store \<times> aug_value" where
  "read_element h a i =
     (case cell_at h a of
        ArrayCell xs \<Rightarrow> (h, element xs i)
      | ArrayProxy d new \<Rightarrow> array_proxy_get h a d new i
      | _ \<Rightarrow> (h, AUndefined))"

definition write_element :: "store \<Rightarrow> addr \<Rightarrow> nat \<Rightarrow> aug_value \<Rightarrow> store" where
  "write_element h a i v =
     (case cell_at h a of
        ArrayCell xs \<Rightarrow> h[a := ArrayCell (write_index xs i v)]
      | ArrayProxy d new \<Rightarrow> array_proxy_set h a d new i v
      | _ \<Rightarrow> h)"

definition delete_element :: "store \<Rightarrow> addr \<Rightarrow> nat \<Rightarrow> store" where
  "delete_element h a i =
     (case cell_at h a of
        ArrayCell xs \<Rightarrow> h[a := ArrayCell (xs[i := None])]
      | ArrayProxy d new \<Rightarrow> array_proxy_deleteProperty h a d new i
      | _ \<Rightarrow> h)"

definition write_length :: "store \<Rightarrow> addr \<Rightarrow> nat \<Rightarrow> store" where
  "write_length h a n =
     (case cell_at h a of
        ArrayCell xs \<Rightarrow> h[a := ArrayCell (set_array_length xs n)]
      | ArrayProxy d new \<Rightarrow> h[a := ArrayProxy d (Some (set_array_length (getData h d new) n))]
      | _ \<Rightarrow> h)"

end
