(* ===== verification/Augment_Properties.thy ===== *)
theory Augment_Properties
  imports Augmented_Objects
begin

text \<open>
  Code that reads, sets and deletes properties of augmented data leaves the originals as they are; a proxy
  of an object is a map of its own; and there are three ways past the proxies.
\<close>

section \<open>References\<close>

definition value_refs :: "aug_value \<Rightarrow> addr set" where
  "value_refs v = (case v of ARef a \<Rightarrow> {a} | _ \<Rightarrow> {})"

definition field_refs :: "aug_fields \<Rightarrow> addr set" where
  "field_refs fs = \<Union> (value_refs ` snd ` set fs)"

definition element_refs :: "aug_value option list \<Rightarrow> addr set" where
  "element_refs xs = {a. Some (ARef a) \<in> set xs}"

fun cell_refs :: "aug_cell \<Rightarrow> addr set" where
  "cell_refs (ObjectCell fs) = field_refs fs"
| "cell_refs (ArrayCell xs) = element_refs xs"
| "cell_refs (ObjectProxy d new deleted) = insert d (field_refs new)"
| "cell_refs (ArrayProxy d new) = insert d (case new of None \<Rightarrow> {} | Some xs \<Rightarrow> element_refs xs)"
| "cell_refs c = field_refs (own_fields c)"

text \<open>What can be got out of a cell without augmenting it.\<close>

fun exposed :: "aug_cell \<Rightarrow> addr set" where
  "exposed (ArrayCell xs) = element_refs xs"
| "exposed (ObjectProxy d new deleted) = field_refs new"
| "exposed (ArrayProxy d new) = {}"
| "exposed c = field_refs (own_fields c)"

lemma value_refs_simps [simp]: "value_refs (ARef a) = {a}" "value_refs AUndefined = {}"
  "value_refs (APrimitive s) = {}" "value_refs (ABuiltin s) = {}"
  by (simp_all add: value_refs_def)









section \<open>Isolation\<close>




















section \<open>Operations\<close>













lemma put_content_refs [simp]: "cell_refs (put_content u c) = cell_refs c" "exposed (put_content u c) = exposed c"
  by (cases c, simp_all) (cases c, simp_all)












section \<open>Code that uses proxies\<close>







definition sample_store :: store where
  "sample_store = [ObjectCell [(''json'', ARef 1)], ObjectCell [(''x'', APrimitive ''1''), (''list'', ARef 2)],
     ArrayCell [Some (APrimitive ''2''), None]]"


subsection \<open>Ways past the proxies\<close>

text \<open>
  \<open>defineProperty\<close> on a proxy changes the original, and the descriptor of a property has the original value.
\<close>

lemma defined_in_original:
  "cell_at (define_field (fst (augmentObject sample_store 1)) 3 ''x'' AUndefined) 1 = ObjectCell [(''x'', AUndefined), (''list'', ARef 2)]"
  by code_simp

lemma descriptor_gives_original: "read_descriptor (fst (augmentObject sample_store 1)) 3 ''list'' = Some (ARef 2)"
  by code_simp

text \<open>The proxy of an array gives a regular expression of the original array, and setting its \<open>lastIndex\<close> changes it.\<close>

lemma regexp_of_original:
  "let h = [ArrayCell [Some (ARef 1)], RegExpCell ''/a/g'' [(''lastIndex'', APrimitive ''0'')]];
       (g, v) = read_element (fst (augmentArray h 0)) 2 0
   in v = ARef 1 \<and> cell_at (write_field g 1 ''lastIndex'' (APrimitive ''1'')) 1 = RegExpCell ''/a/g'' [(''lastIndex'', APrimitive ''1'')]"
  by code_simp

section \<open>A map of its own\<close>

definition proxy_view :: "store \<Rightarrow> addr \<Rightarrow> string \<Rightarrow> aug_value option" where
  "proxy_view h p = (case cell_at h p of
     ObjectProxy d new deleted \<Rightarrow> (\<lambda>key. if key \<in> set deleted then None
       else case map_of new key of None \<Rightarrow> map_of (target_fields h d) key | Some v \<Rightarrow> Some v)
   | _ \<Rightarrow> (\<lambda>key. None))"

lemma view_after:
  assumes "p < length h" "d \<noteq> p"
  shows "proxy_view (h[p := ObjectProxy d new deleted]) p = (\<lambda>key. if key \<in> set deleted then None
    else case map_of new key of None \<Rightarrow> map_of (target_fields h d) key | Some v \<Rightarrow> Some v)"
proof -
  have A: "cell_at (h[p := ObjectProxy d new deleted]) p = ObjectProxy d new deleted"
    using assms(1) by (simp add: cell_at_def)
  have B: "target_fields (h[p := ObjectProxy d new deleted]) d = target_fields h d"
    using assms(2) by (simp add: target_fields_def cell_at_def)
  show ?thesis unfolding proxy_view_def A aug_cell.case B by (rule refl)
qed

lemma key_has_value: "set (keys fs) = dom (map_of fs)"
  by (simp add: keys_def dom_map_of_conv_image_fst)

text \<open>
  C39: A proxy of an object is a map of its own: its fields are those of its data where it says nothing else.
  A field set has the value it is set to, or none if that is \<open>undefined\<close>; a field deleted has none; no other
  field changes; \<open>has\<close> and \<open>ownKeys\<close> tell the fields, and \<open>get\<close> gives a value that is not an object as it
  is, unless the field is called \<open>constructor\<close>.
\<close>
theorem object_proxy_refines_map:
  assumes "p < length h" "cell_at h p = ObjectProxy d new deleted" "d \<noteq> p"
  shows "proxy_view (write_field h p key v) p = (proxy_view h p)(key := if v = AUndefined then None else Some v)
    \<and> proxy_view (delete_field h p key) p = (proxy_view h p)(key := None)
    \<and> set (object_ownKeys h d new deleted) = dom (proxy_view h p)
    \<and> (object_has h d new deleted key \<longleftrightarrow> key \<in> dom (proxy_view h p))
    \<and> (case proxy_view h p key of
         None \<Rightarrow> key = ''constructor'' \<or> read_field h p key = (h, AUndefined)
       | Some (ARef a) \<Rightarrow> True
       | Some w \<Rightarrow> key = ''constructor'' \<or> read_field h p key = (h, w))"
proof -
  note after = view_after [OF assms(1,3)]
  have now: "proxy_view h p = (\<lambda>key. if key \<in> set deleted then None
    else case map_of new key of None \<Rightarrow> map_of (target_fields h d) key | Some v \<Rightarrow> Some v)"
    using assms(2) by (simp add: proxy_view_def)
  have "proxy_view (delete_field h p key) p = (proxy_view h p)(key := None)"
    using assms(2)
    by (simp only: delete_field_def aug_cell.case object_deleteProperty_def after now key_has_value)
      (auto simp: fun_eq_iff map_delete_of dom_def)
  moreover have "proxy_view (write_field h p key v) p = (proxy_view h p)(key := if v = AUndefined then None else Some v)"
    using assms(2)
    by (simp only: write_field_def aug_cell.case object_set_def if_distrib [of "\<lambda>h. proxy_view h p"] after now key_has_value)
      (auto simp: fun_eq_iff map_delete_of dom_def jsobj.lookup_put)
  moreover have "set (object_ownKeys h d new deleted) = dom (proxy_view h p)"
    by (simp only: object_ownKeys_def Let_def set_filter set_append key_has_value now)
      (auto split: option.splits if_splits)
  moreover have "object_has h d new deleted key \<longleftrightarrow> key \<in> dom (proxy_view h p)"
    by (simp only: object_has_def key_has_value now) (auto split: option.splits if_splits)
  moreover have "case proxy_view h p key of
      None \<Rightarrow> key = ''constructor'' \<or> read_field h p key = (h, AUndefined)
    | Some (ARef a) \<Rightarrow> True
    | Some w \<Rightarrow> key = ''constructor'' \<or> read_field h p key = (h, w)"
    using assms(2)
    by (simp only: read_field_def aug_cell.case object_get_def now field_def Let_def key_has_value)
      (auto split: option.splits aug_value.splits if_splits)
  ultimately show ?thesis by blast
qed

theorem object_proxy_refines_map_witness:
  "proxy_view (write_field (fst (augmentObject sample_store 1)) 3 ''x'' AUndefined) 3
    = (proxy_view (fst (augmentObject sample_store 1)) 3)(''x'' := None)"
proof -
  let ?g = "fst (augmentObject sample_store 1)"
  have "3 < length ?g" "cell_at ?g 3 = ObjectProxy 1 [] []" "(1::nat) \<noteq> 3" by code_simp+
  from object_proxy_refines_map [OF this, of "''x''" AUndefined] show ?thesis by simp
qed

end
