(* ===== verification/Spec2Isabelle.thy ===== *)
theory Spec2Isabelle
  imports Workflow_Properties Execution_Properties Run_Items_Properties Broker_Properties Filter_Properties
    Rename_Properties Parameter_Properties Augment_Properties
begin

text \<open>
  A verification development for the workflow engine of n8n: how a workflow is represented and
  searched, how an execution is prepared, run and ended, how many executions run at once, how code is
  handed to task runners, how values are validated and compared, how the parameters of a node get their
  defaults, how nodes are renamed, and how code gets at data without changing them.

  \<^bold>\<open>How the program works.\<close> A workflow (\<open>packages/workflow/src/workflow.ts\<close>) is a set of nodes and a table
  of connections between their outputs and inputs. \<open>WorkflowExecute\<close>
  (\<open>packages/core/src/execution-engine/workflow-execute.ts\<close>) runs it: \<open>run\<close> puts a start node on a stack,
  \<open>runPartialWorkflow2\<close> instead prepares run data, a stack and waiting data so that only the nodes that
  need to run again do, with the help of \<open>DirectedGraph\<close> and \<open>partial-execution-utils\<close>. The loop of
  \<open>processRunExecutionData\<close> then takes entries off the stack, runs their nodes, records the results and
  hands the outputs to the children; a child with several inputs waits in a table until it has them. On the
  server, \<open>ActiveExecutions\<close> (\<open>packages/cli/src/active-executions.ts\<close>) registers every execution, and
  \<open>ConcurrencyControlService\<close> lets it through or queues it.

  \<^bold>\<open>How it is modelled.\<close> A JavaScript operation that can throw is a function to \<open>js_error + 'a\<close>; the branch
  \<open>Inl\<close> is a thrown error. Objects and \<open>Map\<close>s are association lists in the order the language lists them,
  arrays with holes or \<open>null\<close> are lists of options, numbers that are indexes are naturals and other numbers
  integers. Nodes are shared objects compared by reference, so a node is a reference into a heap of \<open>INode\<close>
  records. Asynchronous operations are split at their \<open>await\<close>s into steps over an explicit state. What is
  loaded or decided at run time is a parameter: the code of nodes and their types, the order of
  \<open>localeCompare\<close>, the data proxy that finds paired items, the outcome of database calls.

  \<^bold>\<open>Foundations.\<close> \<open>N8n_Prelude\<close>: errors, results, dictionaries (the locale \<open>js_dict\<close>, interpreted for maps,
  objects and objects with numeric keys), arrays, reachability. \<open>Connections\<close>, \<open>Connected_Nodes\<close>:
  connection tables, their inversion and the path-based search of \<open>packages/workflow/src/common\<close>.

  \<^bold>\<open>Directed graphs.\<close> \<open>Directed_Graph\<close> (state, edits, well-formedness), \<open>Graph_Editing\<close> (keys, removal with
  reconnection), \<open>Graph_Traversal\<close>, \<open>Tarjan_Scc\<close>, \<open>Graph_Queries\<close> (the locale of the queries that clients use
  and its interpretation) and \<open>Graph_Conversion\<close> model \<open>directed-graph.ts\<close>. The recursive traversals end as
  the sets they fill grow; no fuel is used. Their lemmas say what they return by reachability.

  \<^bold>\<open>Partial executions.\<close> \<open>Run_Data\<close>, \<open>Clean_Run_Data\<close>, \<open>Filter_Disabled\<close>, \<open>Find_Subgraph\<close>, \<open>Start_Nodes\<close>,
  \<open>Handle_Cycles\<close>, \<open>Source_Data_Groups\<close>, \<open>Execution_Stack\<close>, \<open>Find_Trigger\<close> and \<open>Rewire_Graph\<close> model one file of
  \<open>partial-execution-utils\<close> each, and \<open>Partial_Execution\<close> composes them as \<open>runPartialWorkflow2\<close> does.
  \<open>Graph_Properties\<close> and \<open>Partial_Execution_Properties\<close> state what each step returns exactly, that the
  composition succeeds, and where it fails.

  \<^bold>\<open>Workflows.\<close> \<open>Workflow_Model\<close>, \<open>Workflow_Search\<close>, \<open>Workflow_Lookup\<close>, \<open>Workflow_Start\<close> model the class
  \<open>Workflow\<close>: setters, queries, breadth-first searches specified by distance, start nodes. \<open>Graph_Selection\<close>
  models the check of a selection for extraction (\<open>graph-utils.ts\<close>). \<open>Workflow_Properties\<close> states their
  properties.

  \<^bold>\<open>The run of an execution.\<close> \<open>Waiting_Nodes\<close> models \<open>addNodeToBeExecuted\<close> and \<open>ensureInputData\<close>, and
  \<open>Waiting_Invariant\<close> proves that the waiting tables keep their shape and that data is neither lost nor
  repeated while entries are numbered without a gap. \<open>Run_Node\<close> models \<open>runNode\<close>; \<open>Run_Items\<close> the pairing of
  items, the error output, and the errors that items report; \<open>Engine_Requests\<close> the requests of agents for
  tools (\<open>requests-response.ts\<close>); \<open>Run_Attempts\<close> the tries to run an entry; \<open>Run_Loop\<close> the loop itself, a
  \<open>partial_function\<close>, as a workflow with a cycle may run for ever; \<open>Run_Execution\<close> the start, the resumption
  and the end. \<open>Run_Loop_Termination\<close> shows that the loop ends on workflows without cycles: the multiset of
  the nodes on the stack or waiting decreases in every round. \<open>Run_Loop_Properties\<close> and
  \<open>Run_Items_Properties\<close> state the properties.

  \<^bold>\<open>Concurrency.\<close> \<open>Concurrency_Queue\<close>, \<open>Concurrency_Control\<close> and \<open>Active_Executions\<close> model the files of the same
  names under \<open>packages/cli/src\<close>, one definition per stretch between two \<open>await\<close>s. \<open>Execution_Invariant\<close> has
  the step relation \<open>active_step\<close> over all of them but \<open>stopInRegularMode\<close>, which breaks the limit, and the
  invariant of its reachable states;
  \<open>Execution_Properties\<close> states the limits, the refinement of an abstract admission, and four ways to leave
  the intended behaviour.

  \<^bold>\<open>Task broker.\<close> \<open>Task_Broker\<close> models \<open>packages/cli/src/task-runners/task-broker/task-broker.service.ts\<close>,
  which matches requests to run code with the offers of task runners: its state with the calls of
  \<open>acceptOffer\<close> under way, and one definition per operation or stretch between two \<open>await\<close>s.
  \<open>Broker_Invariant\<close> has the events of a broker, its runs, and the invariant of their states;
  \<open>Broker_Properties\<close> states how requests and offers are paired, that a request is accepted once, and what
  happens when a runner leaves or accepts too late.

  \<^bold>\<open>Field types and filters.\<close> \<open>Field_Types\<close> models \<open>packages/workflow/src/type-validation.ts\<close>: dynamically
  typed values, the parsers of field types, and their validation; its regular expressions are executable
  matchers. \<open>Filter_Conditions\<close> models \<open>node-parameters/filter-parameter.ts\<close>, the conditions of the If,
  Filter and Switch nodes. \<open>Filter_Properties\<close> states the duality of operations, that conversion is stable,
  that conditions on values of their types decide for the operations of the type, and what is known of accepted form fields.

  \<^bold>\<open>Node parameters.\<close> Of \<open>packages/workflow/src/node-helpers.ts\<close>, \<open>Display_Conditions\<close> models which
  parameters are displayed, \<open>Parameter_Order\<close> the order in which they are resolved, a \<open>partial_function\<close> that
  \<open>Order_Properties\<close> shows to end on every input, and \<open>Node_Parameters\<close> the parameters with or without their
  defaults: one level as a loop over its properties with the recursion as an argument, and the recursion
  over the levels, which are smaller. \<open>Parameter_Properties\<close> states that the defaults
  of a level without collections are restored.

  \<^bold>\<open>Renaming nodes.\<close> \<open>Reference_Renaming\<close> models \<open>applyAccessPatterns\<close> of
  \<open>node-reference-parser-utils.ts\<close>, which rewrites the references in expressions, and \<open>Workflow_Rename\<close>
  \<open>renameNode\<close> of the class \<open>Workflow\<close>. \<open>Rename_Text\<close> shows what the rewriting does to texts of plain
  stretches and references; \<open>Rename_Properties\<close> states it for all patterns in turn, that the tables of a
  workflow are renamed consistently, and where renaming goes wrong.

  \<^bold>\<open>Augmented objects.\<close> \<open>Augmented_Objects\<close> models \<open>augment-object.ts\<close>, the proxies through which expressions
  and code get the data of an execution: a store of objects and proxies with the traps of both kinds of
  proxies. \<open>Augment_Properties\<close> has the steps of code that uses them, shows that reading, setting and
  deleting never changes the originals and that the proxy of an object acts as a map of its own, and gives
  three ways past the proxies: \<open>defineProperty\<close>, property descriptors and regular expressions.

  \<^bold>\<open>Not modelled.\<close> Of the modelled files: hooks, logging, events, cancellation and timeouts of a run, static
  data, binary data, hints and times. Of the program: the expression evaluator, the credentials, the
  integrations under \<open>nodes-base\<close> and \<open>nodes-langchain\<close>, which are code the engine calls, the editor, the
  REST interface, the database, webhooks, queue mode, the processes of task runners, and the configuration.
\<close>

end
